(* ===== verification/Prelude.thy ===== *)
theory Prelude
  imports Main "HOL-Library.Word"
begin

text \<open>
  What every component shares: the checked and saturating operations of Rust's unsigned
  integers on words of any width, with their meaning in the natural numbers (collection
  \<open>mach_nat\<close>); byte arrays in big- and little-endian order; and the computation type of
  code that reads and changes a storage and may fail, with its bind (collection
  \<open>comp_simps\<close>).
\<close>

named_theorems mach_nat "meaning of the machine operations in the natural numbers"
named_theorems comp_simps "evaluation of computations"

type_synonym u8 = "8 word"
type_synonym u16 = "16 word"
type_synonym u32 = "32 word"
type_synonym u64 = "64 word"
type_synonym u128 = "128 word"
type_synonym u512 = "512 word"
type_synonym bytes = "u8 list"

section \<open>Unsigned machine integers\<close>

text \<open>
  \<open>saturating_add\<close>, \<open>saturating_sub\<close>, \<open>saturating_mul\<close>, \<open>checked_add\<close>, \<open>checked_sub\<close> and
  \<open>checked_div\<close> of Rust's unsigned integers (and of \<open>U512\<close>, which has the same operations
  at width 512). \<open>-1\<close> is the largest word of its width.
\<close>

definition sat_add :: "'a::len word \<Rightarrow> 'a word \<Rightarrow> 'a word" where
  "sat_add a b = (if unat a + unat b < 2 ^ LENGTH('a) then a + b else - 1)"

definition sat_sub :: "'a::len word \<Rightarrow> 'a word \<Rightarrow> 'a word" where
  "sat_sub a b = (if b \<le> a then a - b else 0)"

definition sat_mul :: "'a::len word \<Rightarrow> 'a word \<Rightarrow> 'a word" where
  "sat_mul a b = (if unat a * unat b < 2 ^ LENGTH('a) then a * b else - 1)"

definition checked_add :: "'a::len word \<Rightarrow> 'a word \<Rightarrow> 'a word option" where
  "checked_add a b = (if unat a + unat b < 2 ^ LENGTH('a) then Some (a + b) else None)"

definition checked_sub :: "'a::len word \<Rightarrow> 'a word \<Rightarrow> 'a word option" where
  "checked_sub a b = (if b \<le> a then Some (a - b) else None)"

definition checked_div :: "'a::len word \<Rightarrow> 'a word \<Rightarrow> 'a word option" where
  "checked_div a b = (if b = 0 then None else Some (a div b))"

lemma unat_max_word: "unat (- 1 :: 'a::len word) = 2 ^ LENGTH('a) - 1"
  by (simp add: unsigned_minus_1_eq_mask mask_eq_exp_minus_1)

lemma unat_lt_max: "unat (x :: 'a::len word) < 2 ^ LENGTH('a)"
  by (rule unsigned_less)

lemma unat_le_max: "unat (x :: 'a::len word) \<le> 2 ^ LENGTH('a) - 1"
  using unat_lt_max [of x] by linarith

lemma unat_sat_add [mach_nat]:
  "unat (sat_add a b) = min (unat a + unat b) (2 ^ LENGTH('a) - 1)" for a b :: "'a::len word"
  by (auto simp: sat_add_def unat_max_word unat_plus_if' min_def)

lemma unat_sat_sub [mach_nat]: "unat (sat_sub a b) = unat a - unat b"
  by (auto simp: sat_sub_def unat_sub word_le_nat_alt)

lemma unat_sat_mul [mach_nat]:
  "unat (sat_mul a b) = min (unat a * unat b) (2 ^ LENGTH('a) - 1)" for a b :: "'a::len word"
proof (cases "unat a * unat b < 2 ^ LENGTH('a)")
  case True
  then have "unat (a * b) = unat a * unat b"
    by (simp add: unat_word_ariths)
  moreover have "min (unat a * unat b) (2 ^ LENGTH('a) - 1) = unat a * unat b"
    using True by (intro min_absorb1) linarith
  ultimately show ?thesis using True by (simp add: sat_mul_def)
next
  case False
  then have "min (unat a * unat b) (2 ^ LENGTH('a) - 1) = 2 ^ LENGTH('a) - 1"
    by (intro min_absorb2) linarith
  with False show ?thesis by (simp add: sat_mul_def unat_max_word)
qed

lemma checked_add_Some [mach_nat]:
  "checked_add a b = Some c \<longleftrightarrow> unat c = unat a + unat b"
proof
  assume "checked_add a b = Some c"
  then show "unat c = unat a + unat b"
    by (auto simp: checked_add_def unat_plus_if' split: if_splits)
next
  assume c: "unat c = unat a + unat b"
  then have "unat a + unat b < 2 ^ LENGTH('a)" using unat_lt_max [of c] by simp
  moreover from this have "c = a + b"
    using c by (metis unat_add_lem unsigned_word_eqI)
  ultimately show "checked_add a b = Some c" by (simp add: checked_add_def)
qed

lemma checked_add_None [mach_nat]:
  "checked_add a b = None \<longleftrightarrow> 2 ^ LENGTH('a) \<le> unat a + unat b" for a b :: "'a::len word"
  by (auto simp: checked_add_def)

lemma checked_sub_Some [mach_nat]:
  "checked_sub a b = Some c \<longleftrightarrow> unat b \<le> unat a \<and> unat c = unat a - unat b"
proof (cases "b \<le> a")
  case True
  then have "unat (a - b) = unat a - unat b" by (simp add: unat_sub word_le_nat_alt)
  with True show ?thesis
    by (auto simp: checked_sub_def word_le_nat_alt word_unat_eq_iff)
next
  case False
  then show ?thesis by (simp add: checked_sub_def word_le_nat_alt)
qed

lemma checked_sub_None [mach_nat]: "checked_sub a b = None \<longleftrightarrow> unat a < unat b"
  by (auto simp: checked_sub_def word_le_nat_alt)

lemma unat_min_word [mach_nat]: "unat (min a b) = min (unat a) (unat b)"
  by (simp add: min_def word_le_nat_alt)

lemma unat_max_of [mach_nat]: "unat (max a b) = max (unat a) (unat b)"
  by (simp add: max_def word_le_nat_alt)

lemma unat_minus_le [mach_nat]: "b \<le> a \<Longrightarrow> unat (a - b) = unat a - unat b"
  by (simp add: unat_sub word_le_nat_alt)

lemma word_eq_unat: "a = b \<longleftrightarrow> unat a = unat b" for a b :: "'a::len word"
  by (simp add: word_unat_eq_iff)

lemma sat_sub_le: "sat_sub a b \<le> a"
  by (simp add: word_le_nat_alt mach_nat)

lemma min_plus: "min (min a m + b) m = min (a + b) m" for a b m :: nat
  by (simp add: min_def)

lemma word_of_nat_small:
  "a < 2 ^ LENGTH('a) \<Longrightarrow> b < 2 ^ LENGTH('a) \<Longrightarrow> (word_of_nat a :: 'a::len word) = word_of_nat b \<longleftrightarrow> a = b"
  by (simp add: word_eq_unat unat_of_nat)

lemma sat_add_ge: "a \<le> sat_add a b"
  using unat_le_max [of a] by (simp add: word_le_nat_alt mach_nat)

lemma sat_sub_self [simp]: "sat_sub a a = 0"
  by (simp add: sat_sub_def)

lemma sat_sub_zero [simp]: "sat_sub a 0 = a"
  by (simp add: sat_sub_def)

lemma sat_add_zero [simp]: "sat_add a 0 = a"
  using unat_lt_max [of a] by (simp add: sat_add_def)

section \<open>Byte arrays\<close>

definition be_nat :: "bytes \<Rightarrow> nat" where
  "be_nat bs = foldl (\<lambda>acc b. acc * 256 + unat b) 0 bs"

definition from_be :: "bytes \<Rightarrow> 'a::len word" where
  "from_be bs = word_of_nat (be_nat bs)"

definition to_be :: "nat \<Rightarrow> 'a::len word \<Rightarrow> bytes" where
  "to_be n w = map (\<lambda>i. ucast (drop_bit (8 * (n - 1 - i)) w)) [0..<n]"

definition to_le :: "nat \<Rightarrow> 'a::len word \<Rightarrow> bytes" where
  "to_le n w = map (\<lambda>i. ucast (drop_bit (8 * i) w)) [0..<n]"

lemma length_to_be [simp]: "length (to_be n w) = n"
  by (simp add: to_be_def)

lemma length_to_le [simp]: "length (to_le n w) = n"
  by (simp add: to_le_def)

lemma be_nat_foldl: "foldl (\<lambda>acc b. acc * 256 + unat b) a bs = a * 256 ^ length bs + be_nat bs"
proof (induction bs arbitrary: a)
  case Nil
  then show ?case by (simp add: be_nat_def)
next
  case (Cons b bs)
  have *: "be_nat (b # bs) = unat b * 256 ^ length bs + be_nat bs"
    using Cons.IH [of "unat b"] by (simp add: be_nat_def)
  from Cons.IH [of "a * 256 + unat b"] show ?case
    by (simp add: * algebra_simps)
qed

lemma be_nat_Cons: "be_nat (b # bs) = unat b * 256 ^ length bs + be_nat bs"
  using be_nat_foldl [of "unat b" bs] by (simp add: be_nat_def)

lemma be_nat_Nil [simp]: "be_nat [] = 0"
  by (simp add: be_nat_def)

lemma be_nat_bound: "be_nat bs < 256 ^ length bs"
proof (induction bs)
  case (Cons b bs)
  have "unat b \<le> 255" using unat_lt_max [of b] by simp
  then have "unat b * 256 ^ length bs \<le> 255 * 256 ^ length bs" by (rule mult_right_mono) simp
  moreover have "be_nat (b # bs) = unat b * 256 ^ length bs + be_nat bs" by (rule be_nat_Cons)
  moreover have "(256::nat) ^ length (b # bs) = 255 * 256 ^ length bs + 256 ^ length bs" by simp
  ultimately show ?case using Cons.IH by linarith
qed simp

lemma to_be_Suc:
  "to_be (Suc n) w = ucast (drop_bit (8 * n) w) # to_be n w"
proof -
  have "map (\<lambda>i. ucast (drop_bit (8 * (Suc n - 1 - i)) w)) [1..<Suc n]
      = map (\<lambda>i. ucast (drop_bit (8 * (n - 1 - i)) w) :: u8) [0..<n]"
    by (rule nth_equalityI) (auto simp del: upt_Suc)
  moreover have "[0..<Suc n] = 0 # [1..<Suc n]" by (simp add: upt_conv_Cons del: upt_Suc)
  ultimately show ?thesis unfolding to_be_def by (simp del: upt_Suc)
qed

lemma unat_byte: "unat (ucast (drop_bit (8 * n) w) :: u8) = (unat w div 256 ^ n) mod 256"
proof -
  have "unat (drop_bit (8 * n) w) = unat w div 2 ^ (8 * n)"
    by (metis unat_drop_bit_eq drop_bit_eq_div)
  moreover have "(2::nat) ^ (8 * n) = 256 ^ n" by (simp add: power_mult)
  ultimately show ?thesis by (simp add: unsigned_ucast_eq take_bit_eq_mod)
qed

lemma be_nat_to_be: "be_nat (to_be n w) = unat w mod 256 ^ n"
proof (induction n)
  case 0
  then show ?case by (simp add: to_be_def)
next
  case (Suc n)
  have "unat w mod 256 ^ Suc n = (unat w div 256 ^ n) mod 256 * 256 ^ n + unat w mod 256 ^ n"
    using mod_mult2_eq [of "unat w" "256 ^ n" 256] by (simp add: mult.commute)
  with Suc.IH show ?case
    by (simp add: to_be_Suc be_nat_Cons unat_byte)
qed

lemma from_be_to_be:
  fixes w :: "'a::len word"
  assumes "LENGTH('a) \<le> 8 * n"
  shows "from_be (to_be n w) = w"
proof -
  have "unat w < 2 ^ (8 * n)"
    using unat_lt_max [of w] assms by (meson less_le_trans one_le_numeral power_increasing)
  then have "unat w mod 256 ^ n = unat w" by (simp add: power_mult)
  then show ?thesis by (simp add: from_be_def be_nat_to_be)
qed

section \<open>Computations over a storage that may fail\<close>

text \<open>
  A Rust function that reads and writes the storage and returns a \<open>Result\<close> is a function
  of the storage that gives its result and the storage it leaves. A function that returns
  an error keeps the writes it made before: only the storage layer around a dispatchable
  (\<open>transactional\<close>) takes them back.
\<close>

type_synonym ('s, 'e, 'a) comp = "'s \<Rightarrow> ('e + 'a) \<times> 's"

definition ret :: "'a \<Rightarrow> ('s, 'e, 'a) comp" where
  "ret x s = (Inr x, s)"

definition fail :: "'e \<Rightarrow> ('s, 'e, 'a) comp" where
  "fail e s = (Inl e, s)"

definition and_then :: "('s, 'e, 'a) comp \<Rightarrow> ('a \<Rightarrow> ('s, 'e, 'b) comp) \<Rightarrow> ('s, 'e, 'b) comp" where
  "and_then m f s = (case m s of (Inl e, s') \<Rightarrow> (Inl e, s') | (Inr x, s') \<Rightarrow> f x s')"

definition ensure :: "bool \<Rightarrow> 'e \<Rightarrow> ('s, 'e, unit) comp" where
  "ensure b e s = (if b then (Inr (), s) else (Inl e, s))"

definition lift_res :: "'e + 'a \<Rightarrow> ('s, 'e, 'a) comp" where
  "lift_res r s = (r, s)"

definition update_st :: "('s \<Rightarrow> 's) \<Rightarrow> ('s, 'e, unit) comp" where
  "update_st f s = (Inr (), f s)"

definition read_st :: "('s \<Rightarrow> 'a) \<Rightarrow> ('s, 'e, 'a) comp" where
  "read_st f s = (Inr (f s), s)"

text \<open>The storage layer FRAME puts around a dispatchable: an error undoes every write.\<close>

definition transactional :: "('s, 'e, 'a) comp \<Rightarrow> ('s, 'e, 'a) comp" where
  "transactional m s = (case m s of (Inl e, s') \<Rightarrow> (Inl e, s) | (Inr x, s') \<Rightarrow> (Inr x, s'))"

lemma ret_apply [simp, comp_simps]: "ret x s = (Inr x, s)"
  by (simp add: ret_def)

lemma fail_apply [simp, comp_simps]: "fail e s = (Inl e, s)"
  by (simp add: fail_def)

lemma lift_res_apply [simp, comp_simps]: "lift_res r s = (r, s)"
  by (simp add: lift_res_def)

lemma update_st_apply [simp, comp_simps]: "update_st f s = (Inr (), f s)"
  by (simp add: update_st_def)

lemma read_st_apply [simp, comp_simps]: "read_st f s = (Inr (f s), s)"
  by (simp add: read_st_def)

lemma ensure_Inr: "ensure b e s = (Inr u, s') \<longleftrightarrow> b \<and> s' = s"
  by (auto simp: ensure_def)

lemma ensure_Inl: "ensure b e s = (Inl e', s') \<longleftrightarrow> \<not> b \<and> e' = e \<and> s' = s"
  by (auto simp: ensure_def)

lemma and_then_Inr:
  "and_then m f s = (Inr y, s'') \<longleftrightarrow> (\<exists>x s'. m s = (Inr x, s') \<and> f x s' = (Inr y, s''))"
  by (auto simp: and_then_def split: prod.splits sum.splits)

lemma and_then_Inl:
  "and_then m f s = (Inl e, s'') \<longleftrightarrow>
     m s = (Inl e, s'') \<or> (\<exists>x s'. m s = (Inr x, s') \<and> f x s' = (Inl e, s''))"
  by (auto simp: and_then_def split: prod.splits sum.splits)

lemma transactional_Inr: "transactional m s = (Inr x, s') \<longleftrightarrow> m s = (Inr x, s')"
  by (auto simp: transactional_def split: prod.splits sum.splits)

lemma transactional_Inl:
  "transactional m s = (Inl e, s') \<longleftrightarrow> s' = s \<and> (\<exists>s''. m s = (Inl e, s''))"
  by (auto simp: transactional_def split: prod.splits sum.splits)

lemma transactional_error_keeps: "fst (transactional m s) = Inl e \<Longrightarrow> snd (transactional m s) = s"
  by (auto simp: transactional_def split: prod.splits sum.splits)

lemmas comp_results =
  ensure_Inr ensure_Inl and_then_Inr and_then_Inl transactional_Inr transactional_Inl

section \<open>Numbers as bytes\<close>

text \<open>The \<open>k\<close> bytes of a number, the least significant first.\<close>

definition bytes_le :: "nat \<Rightarrow> nat \<Rightarrow> bytes" where
  "bytes_le k n = map (\<lambda>i. word_of_nat (n div 256 ^ i mod 256)) [0..<k]"

definition value_le :: "bytes \<Rightarrow> nat" where
  "value_le bs = foldr (\<lambda>b acc. unat b + 256 * acc) bs 0"

lemma length_bytes_le [simp]: "length (bytes_le k n) = k"
  by (simp add: bytes_le_def)

lemma digits_value:
  "foldr (\<lambda>b acc. b + 256 * acc) (map (\<lambda>i. n div 256 ^ i mod 256) [0..<k]) 0 = n mod 256 ^ k" for n :: nat
proof (induction k arbitrary: n)
  case 0
  then show ?case by simp
next
  case (Suc k)
  have u: "[0..<Suc k] = 0 # map Suc [0..<k]" by (simp add: map_Suc_upt upt_conv_Cons)
  have m: "map (\<lambda>i. n div 256 ^ i mod 256) (map Suc [0..<k]) = map (\<lambda>i. (n div 256) div 256 ^ i mod 256) [0..<k]"
    by (simp add: div_mult2_eq)
  have "foldr (\<lambda>b acc. b + 256 * acc) (map (\<lambda>i. n div 256 ^ i mod 256) [0..<Suc k]) 0 =
      n mod 256 + 256 * (n div 256 mod 256 ^ k)"
    unfolding u list.map m foldr.simps o_apply Suc by simp
  also have "\<dots> = n mod 256 ^ Suc k" by (simp add: mod_mult2_eq mult.commute)
  finally show ?case .
qed

lemma value_le_bytes: "value_le (bytes_le k n) = n mod 256 ^ k"
proof -
  have "value_le (bytes_le k n) = foldr (\<lambda>b acc. b + 256 * acc) (map (\<lambda>i. n div 256 ^ i mod 256) [0..<k]) 0"
    by (simp add: value_le_def bytes_le_def foldr_map comp_def unat_of_nat take_bit_nat_eq_self flip: take_bit_eq_mod)
  then show ?thesis by (simp only: digits_value)
qed

section \<open>Sums over a finite index type with one or two entries changed\<close>

lemma sum_fun_upd:
  fixes f :: "'k::finite \<Rightarrow> nat"
  shows "(\<Sum>a\<in>UNIV. (f(k := v)) a) + f k = (\<Sum>a\<in>UNIV. f a) + v"
proof -
  have "(\<Sum>a\<in>UNIV. (f(k := v)) a) = v + (\<Sum>a\<in>UNIV - {k}. (f(k := v)) a)"
    by (subst sum.remove [of UNIV k]) auto
  also have "(\<Sum>a\<in>UNIV - {k}. (f(k := v)) a) = (\<Sum>a\<in>UNIV - {k}. f a)"
    by (rule sum.cong) auto
  finally show ?thesis
    using sum.remove [of UNIV k f] by simp
qed

lemma sum_changed_at:
  fixes f g :: "'k::finite \<Rightarrow> nat"
  assumes "\<And>a. a \<noteq> k \<Longrightarrow> g a = f a"
  shows "sum g UNIV + f k = sum f UNIV + g k"
proof -
  have "g = f(k := g k)" using assms by auto
  then show ?thesis using sum_fun_upd [of f k "g k"] by simp
qed

end
