(* ===== verification/QpowMath.thy ===== *)
theory QpowMath
  imports Prelude
begin

text \<open>
  The proof-of-work arithmetic of \<open>qpow-math/src/lib.rs\<close>. \<open>U512\<close> is \<open>512 word\<close>, \<open>BigUint\<close> is
  \<open>nat\<close>. The hash functions \<open>Sha256\<close> and \<open>Sha3_512\<close> are the parameters \<open>sha256\<close> and \<open>sha3\<close>,
  functions on byte strings. \<open>None\<close> is a panic, or a loop that does not end. The first part
  has the elementary number theory the Miller-Rabin test rests on.
\<close>

unbundle bit_operations_syntax

section \<open>Number theory\<close>

definition prime_nat :: "nat \<Rightarrow> bool" where
  "prime_nat p \<longleftrightarrow> 1 < p \<and> (\<forall>d\<in>{2..<p}. \<not> d dvd p)"

lemma prime_nat_coprime:
  assumes "prime_nat p" and "\<not> p dvd a"
  shows "coprime p a"
proof -
  have "gcd p a = 1"
  proof (rule ccontr)
    assume g: "gcd p a \<noteq> 1"
    have "p > 1" using assms(1) by (simp add: prime_nat_def)
    then have "0 < gcd p a" by (simp add: gcd_pos_nat)
    moreover have "gcd p a \<noteq> p" using assms(2) by (metis gcd_dvd2)
    moreover have "gcd p a \<le> p" using \<open>p > 1\<close> by (intro dvd_imp_le) auto
    ultimately have "gcd p a \<in> {2..<p}" using g by (simp del: gcd_pos_nat)
    then show False using assms(1) by (auto simp: prime_nat_def)
  qed
  then show ?thesis by (simp add: coprime_iff_gcd_eq_1)
qed

lemma prime_nat_dvd_mult:
  assumes "prime_nat p" and "p dvd a * b"
  shows "p dvd a \<or> p dvd b"
  using assms prime_nat_coprime [of p a] coprime_dvd_mult_right_iff by blast

lemma prime_nat_not_dvd_prod:
  assumes "prime_nat p"
  shows "n < p \<Longrightarrow> \<not> p dvd (\<Prod>x\<in>{1..n}. x)"
proof (induction n)
  case 0
  then show ?case using assms by (simp add: prime_nat_def)
next
  case (Suc n)
  have "\<not> p dvd Suc n" using Suc.prems by (auto dest: dvd_imp_le)
  moreover have "(\<Prod>x\<in>{1..Suc n}. x) = Suc n * (\<Prod>x\<in>{1..n}. x)"
    by (simp add: atLeastAtMostSuc_conv)
  ultimately show ?case using Suc prime_nat_dvd_mult [OF assms] by (metis Suc_lessD)
qed

lemma dvd_diff_of_mod_eq:
  fixes a b p :: nat
  assumes "a mod p = b mod p"
  shows "p dvd a - b"
proof (cases "b \<le> a")
  case True
  then show ?thesis using assms by (simp add: mod_eq_dvd_iff_nat)
qed simp

lemma fermat_little:
  assumes p: "prime_nat p" and a: "\<not> p dvd a"
  shows "a ^ (p - 1) mod p = 1"
proof -
  have p1: "1 < p" using p by (simp add: prime_nat_def)
  let ?S = "{1..p - 1}" and ?f = "\<lambda>x. a * x mod p"
  have nd: "\<not> p dvd x" if "x \<in> ?S" for x
    using that p1 by (auto dest!: dvd_imp_le)
  have maps: "?f ` ?S \<subseteq> ?S"
  proof
    fix y assume "y \<in> ?f ` ?S"
    then obtain x where x: "x \<in> ?S" "y = a * x mod p" by auto
    have "\<not> p dvd a * x" using prime_nat_dvd_mult [OF p] a nd [OF x(1)] by blast
    then have "0 < y" using x(2) by (simp add: dvd_eq_mod_eq_0)
    moreover have "y < p" using x(2) p1 by simp
    ultimately show "y \<in> ?S" by auto
  qed
  have le_case: "x = y" if "x \<in> ?S" "y \<in> ?S" "?f x = ?f y" "y \<le> x" for x y
  proof -
    have "p dvd a * x - a * y" using that(3) by (rule dvd_diff_of_mod_eq)
    then have "p dvd a * (x - y)" by (simp add: diff_mult_distrib2)
    then have "p dvd x - y" using prime_nat_dvd_mult [OF p] a by blast
    moreover have "x - y < p" using that p1 by auto
    ultimately have "x - y = 0" using nat_dvd_not_less by blast
    then show "x = y" using that(4) by simp
  qed
  have inj: "inj_on ?f ?S"
    by (rule inj_onI) (metis le_case nat_le_linear)
  have img: "?f ` ?S = ?S"
    by (rule endo_inj_surj [OF _ maps inj]) simp
  let ?P = "\<Prod>x\<in>?S. x"
  have "?P = (\<Prod>x\<in>?S. ?f x)"
    using prod.reindex [OF inj, of "\<lambda>x. x"] img by simp
  then have "?P mod p = (\<Prod>x\<in>?S. a * x) mod p"
    by (simp add: mod_prod_eq)
  also have "(\<Prod>x\<in>?S. a * x) = a ^ (p - 1) * ?P"
    by (simp add: prod.distrib)
  finally have "p dvd a ^ (p - 1) * ?P - ?P"
    by (intro dvd_diff_of_mod_eq) simp
  then have "p dvd (a ^ (p - 1) - 1) * ?P" by (simp add: diff_mult_distrib)
  moreover have "\<not> p dvd ?P" using prime_nat_not_dvd_prod [OF p, of "p - 1"] p1 by simp
  ultimately have d: "p dvd a ^ (p - 1) - 1" using prime_nat_dvd_mult [OF p] by blast
  have "0 < a" using a by (cases a) auto
  then have "1 \<le> a ^ (p - 1)" by simp
  with d show ?thesis using p1 by (metis mod_eq_dvd_iff_nat mod_less)
qed

lemma prime_square_root_one:
  assumes "prime_nat p" and "x < p" and "x * x mod p = 1"
  shows "x = 1 \<or> x = p - 1"
proof -
  have p1: "1 < p" using assms(1) by (simp add: prime_nat_def)
  have "x \<noteq> 0" using assms(3) by (intro notI) simp
  then have x1: "1 \<le> x" by simp
  have "p dvd x * x - 1" using assms(3) p1 by (intro dvd_diff_of_mod_eq) simp
  moreover have "x * x - 1 = (x - 1) * (x + 1)"
    using x1 by (cases x) simp_all
  ultimately have "p dvd x - 1 \<or> p dvd x + 1" using prime_nat_dvd_mult [OF assms(1)] by simp
  then show ?thesis
  proof
    assume "p dvd x - 1"
    moreover have "\<not> p dvd x - 1" if "0 < x - 1"
      using that assms(2) by (intro nat_dvd_not_less) auto
    ultimately have "x - 1 = 0" by blast
    then show ?thesis using x1 by simp
  next
    assume "p dvd x + 1"
    then have "p \<le> x + 1" by (rule dvd_imp_le) simp
    then show ?thesis using assms(2) by linarith
  qed
qed

section \<open>The functions of the library\<close>

function is_coprime_loop :: "u512 \<Rightarrow> u512 \<Rightarrow> u512" where
  "is_coprime_loop x y = (if y \<noteq> 0 then is_coprime_loop y (x mod y) else x)"
  by auto
termination
proof (relation "measure (\<lambda>(x, y). unat y)")
  fix x y :: u512
  assume "y \<noteq> 0"
  then have "0 < unat y" by (simp add: word_eq_unat)
  then show "((y, x mod y), x, y) \<in> measure (\<lambda>(x, y). unat y)" by (simp add: unat_mod)
qed simp

declare is_coprime_loop.simps [simp del]

definition is_coprime :: "u512 \<Rightarrow> u512 \<Rightarrow> bool" where
  "is_coprime a b = (is_coprime_loop a b = 1)"

text \<open>The loop of \<open>mod_pow\<close> runs on \<open>BigUint\<close>s, which are unbounded.\<close>

fun mod_pow_loop :: "nat \<Rightarrow> nat \<Rightarrow> nat \<Rightarrow> nat \<Rightarrow> nat" where
  "mod_pow_loop result base exponent modulus =
     (if exponent \<noteq> 0
      then mod_pow_loop (if odd exponent then result * base mod modulus else result)
             (base * base mod modulus) (exponent div 2) modulus
      else result)"

declare mod_pow_loop.simps [simp del]

definition mod_pow :: "u512 \<Rightarrow> u512 \<Rightarrow> u512 \<Rightarrow> u512 option" where
  "mod_pow base exponent modulus =
     (if modulus = 0 then None
      else Some (word_of_nat (mod_pow_loop 1 (unat base) (unat exponent) (unat modulus))))"

text \<open>The loop that writes \<open>n - 1\<close> as \<open>d * 2 ^ r\<close>; on \<open>d = 0\<close> it would not end.\<close>

partial_function (option) split_twos :: "u512 \<Rightarrow> u32 \<Rightarrow> (u512 \<times> u32) option" where
  "split_twos d r = (if d mod 2 = 0 then split_twos (d div 2) (r + 1) else Some (d, r))"

declare split_twos.simps [code]

definition prime_test_base :: "(bytes \<Rightarrow> bytes) \<Rightarrow> u512 \<Rightarrow> nat \<Rightarrow> u512" where
  "prime_test_base sha3 n counter =
     (let hash = from_be (sha3 (to_be 64 n @ to_be 64 (of_nat counter :: u512)))
      in hash mod (n - 4) + 2)"

definition prime_test_bases :: "(bytes \<Rightarrow> bytes) \<Rightarrow> u512 \<Rightarrow> u512 list" where
  "prime_test_bases sha3 n = map (prime_test_base sha3 n) [0..<32]"

text \<open>
  The squarings for one base: \<open>Some True\<close> continues with the next base, \<open>Some False\<close>
  returns false (at once on a non-trivial root of one, or after the last squaring).
\<close>

fun square_loop :: "nat \<Rightarrow> u512 \<Rightarrow> u512 \<Rightarrow> bool option" where
  "square_loop 0 x n = Some False"
| "square_loop (Suc k) x n =
     (case mod_pow x 2 n of
        None \<Rightarrow> None
      | Some x' \<Rightarrow> if x' = n - 1 then Some True else if x' = 1 then Some False
                   else square_loop k x' n)"

fun witness_loop :: "u512 list \<Rightarrow> u512 \<Rightarrow> u32 \<Rightarrow> u512 \<Rightarrow> bool option" where
  "witness_loop [] d r n = Some True"
| "witness_loop (base # bases) d r n =
     (case mod_pow base d n of
        None \<Rightarrow> None
      | Some x \<Rightarrow>
          if x = 1 \<or> x = n - 1 then witness_loop bases d r n
          else (case square_loop (unat (r - 1)) x n of
                  None \<Rightarrow> None
                | Some False \<Rightarrow> Some False
                | Some True \<Rightarrow> witness_loop bases d r n))"

definition is_prime :: "(bytes \<Rightarrow> bytes) \<Rightarrow> u512 \<Rightarrow> bool option" where
  "is_prime sha3 n =
     (if n \<le> 1 then Some False
      else if n = 2 \<or> n = 3 then Some True
      else if n mod 2 = 0 then Some False
      else (case split_twos (n - 1) 0 of
              None \<Rightarrow> None
            | Some (d, r) \<Rightarrow> witness_loop (prime_test_bases sha3 n) d r n))"

definition sha3_512 :: "(bytes \<Rightarrow> bytes) \<Rightarrow> u512 \<Rightarrow> u512" where
  "sha3_512 sha3 input = from_be (sha3 (to_be 64 input))"

partial_function (option) rsa_loop :: "(bytes \<Rightarrow> bytes) \<Rightarrow> u512 \<Rightarrow> u512 \<Rightarrow> u512 option" where
  "rsa_loop sha3 m n =
     (if n mod 2 = 0 \<or> n \<le> m \<or> \<not> is_coprime m n then rsa_loop sha3 m (sha3_512 sha3 n)
      else (case is_prime sha3 n of
              None \<Rightarrow> None
            | Some p \<Rightarrow> if p then rsa_loop sha3 m (sha3_512 sha3 n) else Some n))"

declare rsa_loop.simps [code]

definition get_random_rsa ::
    "(bytes \<Rightarrow> bytes) \<Rightarrow> (bytes \<Rightarrow> bytes) \<Rightarrow> bytes \<Rightarrow> (u512 \<times> u512) option" where
  "get_random_rsa sha256 sha3 header =
     (let m = from_be (sha256 header); n = from_be (sha3 header)
      in map_option (\<lambda>n'. (m, n')) (rsa_loop sha3 m n))"

definition hash_to_group_bigint :: "u512 \<Rightarrow> u512 \<Rightarrow> u512 \<Rightarrow> u512 \<Rightarrow> u512 option" where
  "hash_to_group_bigint h m n solution = mod_pow m (sat_add h solution) n"

definition hash_to_group_bigint_sha ::
    "(bytes \<Rightarrow> bytes) \<Rightarrow> u512 \<Rightarrow> u512 \<Rightarrow> u512 \<Rightarrow> u512 \<Rightarrow> u512 option" where
  "hash_to_group_bigint_sha sha3 h m n solution =
     map_option (sha3_512 sha3) (hash_to_group_bigint h m n solution)"

definition zero_nonce :: bytes where
  "zero_nonce = replicate 64 0"

definition get_nonce_distance ::
    "(bytes \<Rightarrow> bytes) \<Rightarrow> (bytes \<Rightarrow> bytes) \<Rightarrow> bytes \<Rightarrow> bytes \<Rightarrow> u512 option" where
  "get_nonce_distance sha256 sha3 header nonce =
     (if nonce = zero_nonce then Some 0
      else (case get_random_rsa sha256 sha3 header of
              None \<Rightarrow> None
            | Some (m, n) \<Rightarrow>
                let header_int = from_be header; nonce_int = from_be nonce
                in (case hash_to_group_bigint_sha sha3 header_int m n 0 of
                      None \<Rightarrow> None
                    | Some target \<Rightarrow>
                        (case hash_to_group_bigint_sha sha3 header_int m n nonce_int of
                           None \<Rightarrow> None
                         | Some nonce_element \<Rightarrow> Some (target XOR nonce_element)))))"

definition is_valid_nonce ::
    "(bytes \<Rightarrow> bytes) \<Rightarrow> (bytes \<Rightarrow> bytes) \<Rightarrow> bytes \<Rightarrow> bytes \<Rightarrow> u512 \<Rightarrow> bool option" where
  "is_valid_nonce sha256 sha3 header nonce threshold =
     (if nonce = zero_nonce then Some False
      else map_option (\<lambda>distance. distance \<le> threshold)
             (get_nonce_distance sha256 sha3 header nonce))"

section \<open>Euclid and modular exponentiation\<close>

lemma unat_is_coprime_loop: "unat (is_coprime_loop x y) = gcd (unat x) (unat y)"
proof (induction x y rule: is_coprime_loop.induct)
  case (1 x y)
  show ?case
  proof (cases "y = 0")
    case False
    have "is_coprime_loop x y = is_coprime_loop y (x mod y)"
      using False by (subst is_coprime_loop.simps) (rule if_P)
    also have "unat \<dots> = gcd (unat y) (unat x mod unat y)"
      unfolding 1 [OF False] unat_mod ..
    also have "\<dots> = gcd (unat x) (unat y)" by (rule gcd_red_nat [symmetric])
    finally show ?thesis .
  qed (simp add: is_coprime_loop.simps)
qed

lemma is_coprime_iff: "is_coprime a b \<longleftrightarrow> coprime (unat a) (unat b)"
  by (simp add: is_coprime_def word_eq_unat unat_is_coprime_loop coprime_iff_gcd_eq_1)

lemma mod_mult_pow_cong: "a * (b mod m) ^ k mod m = a * b ^ k mod m" for a b m :: nat
  by (metis mod_mult_right_eq power_mod)

lemma mod_pow_loop_eq:
  "mod_pow_loop result base e m = (if e = 0 then result else result * base ^ e mod m)"
proof (induction result base e m rule: mod_pow_loop.induct)
  case (1 result base e m)
  show ?case
  proof (cases "e = 0")
    case True
    then show ?thesis by (simp add: mod_pow_loop.simps)
  next
    case False
    let ?r = "if odd e then result * base mod m else result"
    have "result * base ^ e = (if odd e then result * base else result) * (base * base) ^ (e div 2)"
    proof (cases "odd e")
      case True
      then have "e = Suc (2 * (e div 2))" by presburger
      then have "base ^ e = base * (base * base) ^ (e div 2)"
        by (metis power_Suc power_mult power2_eq_square)
      with True show ?thesis by simp
    next
      case False
      then have "e = 2 * (e div 2)" by presburger
      then have "base ^ e = (base * base) ^ (e div 2)"
        by (metis power_mult power2_eq_square)
      with False show ?thesis by simp
    qed
    moreover have "?r * (base * base mod m) ^ (e div 2) mod m
        = (if odd e then result * base else result) * (base * base) ^ (e div 2) mod m"
      by (simp add: mod_mult_pow_cong mod_mult_left_eq)
    moreover have "mod_pow_loop result base e m = mod_pow_loop ?r (base * base mod m) (e div 2) m"
      using False by (subst mod_pow_loop.simps) simp
    ultimately show ?thesis using 1 [OF False] False by auto
  qed
qed

lemma mod_pow_value:
  assumes "n \<noteq> 0"
  shows "\<exists>x. mod_pow b e n = Some x \<and>
    unat x = (if e = 0 then 1 else unat b ^ unat e mod unat n)"
proof -
  let ?v = "if e = 0 then 1 else unat b ^ unat e mod unat n"
  have "0 < unat n" using assms by (simp add: word_eq_unat)
  then have "unat b ^ unat e mod unat n < unat n" by (rule mod_less_divisor)
  then have "unat b ^ unat e mod unat n < 2 ^ 512" 
    by (rule less_trans) (use unat_lt_max [of n] in simp)
  then have "unat (word_of_nat ?v :: u512) = ?v" by (simp add: unat_of_nat)
  moreover have "mod_pow b e n = Some (word_of_nat ?v)"
    using assms by (simp add: mod_pow_def mod_pow_loop_eq word_eq_unat)
  ultimately show ?thesis by blast
qed

section \<open>The Miller-Rabin test\<close>

lemma mod_two_zero_iff: "n mod 2 = 0 \<longleftrightarrow> even (unat n)" for n :: u512
  by (simp add: word_eq_unat unat_mod even_iff_mod_2_eq_zero)

lemma unat_half: "unat (n div 2) = unat n div 2" for n :: u512
  by (simp add: unat_div)

lemma split_twos_result:
  "d \<noteq> 0 \<Longrightarrow> \<exists>d' k. split_twos d r = Some (d', r + word_of_nat k) \<and>
     unat d = 2 ^ k * unat d' \<and> odd (unat d')"
proof (induction "unat d" arbitrary: d r rule: less_induct)
  case less
  show ?case
  proof (cases "even (unat d)")
    case True
    have "0 < unat d" using less.prems by (simp add: word_eq_unat)
    then have "unat (d div 2) < unat d" and "0 < unat (d div 2)"
      using True by (auto simp: unat_half elim!: evenE)
    moreover from this(2) have "d div 2 \<noteq> 0" by (simp add: word_eq_unat)
    ultimately obtain d' k where h: "split_twos (d div 2) (r + 1) = Some (d', r + 1 + word_of_nat k)"
        "unat (d div 2) = 2 ^ k * unat d'" "odd (unat d')"
      using less.hyps by blast
    have "unat d = 2 * unat (d div 2)" using True by (simp add: unat_half)
    then have "unat d = 2 ^ Suc k * unat d'" using h(2) by simp
    moreover have "split_twos d r = Some (d', r + word_of_nat (Suc k))"
      using True h(1) by (subst split_twos.simps) (simp add: mod_two_zero_iff add_ac)
    ultimately show ?thesis using h(3) by blast
  next
    case False
    then have "split_twos d r = Some (d, r + word_of_nat 0)"
      by (subst split_twos.simps) (simp add: mod_two_zero_iff)
    moreover have "unat d = 2 ^ 0 * unat d" by simp
    ultimately show ?thesis using False by blast
  qed
qed

lemma split_twos_predecessor:
  assumes "1 < unat n" and "odd (unat n)"
  obtains d r where "split_twos (n - 1) 0 = Some (d, r)" "0 < unat r" "unat r < 512"
    "unat n - 1 = 2 ^ unat r * unat d" "odd (unat d)"
proof -
  have n1: "unat (n - 1) = unat n - 1"
    using assms(1) by (simp add: unat_minus_le word_le_nat_alt)
  then have "n - 1 \<noteq> 0" using assms(1) by (metis unsigned_0 zero_less_diff less_irrefl)
  then obtain d k where h: "split_twos (n - 1) 0 = Some (d, 0 + word_of_nat k)"
      "unat (n - 1) = 2 ^ k * unat d" "odd (unat d)"
    using split_twos_result by blast
  have "0 < unat d" using h(3) by (cases "unat d") auto
  then have "2 ^ k \<le> unat (n - 1)" using h(2) by simp
  then have "(2::nat) ^ k < 2 ^ 512" using unat_lt_max [of "n - 1"] by (auto elim: le_less_trans)
  then have k: "k < 512" by (rule power_less_imp_less_exp [rotated]) simp
  then have u: "unat (word_of_nat k :: u32) = k" by (simp add: unat_of_nat)
  have "k \<noteq> 0"
  proof
    assume "k = 0"
    then have "odd (unat n - 1)" using h(2,3) n1 by simp
    then show False using assms by simp
  qed
  then show ?thesis using that [of d "word_of_nat k"] h n1 k u by simp
qed

lemma square_loop_total: "n \<noteq> 0 \<Longrightarrow> square_loop k x n \<noteq> None"
proof (induction k arbitrary: x)
  case (Suc k)
  obtain y where "mod_pow x 2 n = Some y" using mod_pow_value [OF Suc.prems] by blast
  with Suc show ?case by (auto simp del: not_None_eq)
qed simp

lemma witness_loop_total: "n \<noteq> 0 \<Longrightarrow> witness_loop bases d r n \<noteq> None"
proof (induction bases)
  case (Cons b bs)
  obtain y where y: "mod_pow b d n = Some y" using mod_pow_value [OF Cons.prems] by blast
  obtain t where "square_loop (unat (r - 1)) y n = Some t"
    using square_loop_total [OF Cons.prems] by (metis option.exhaust)
  with y Cons show ?case by (cases t) auto
qed simp

lemma unat_pred:
  assumes "0 < unat n"
  shows "unat (n - 1) = unat n - 1"
  using assms by (simp add: unat_minus_le word_le_nat_alt)

lemma square_loop_prime:
  assumes p: "prime_nat (unat n)"
  shows "unat x < unat n \<Longrightarrow> unat x ^ (2 ^ Suc k) mod unat n = 1 \<Longrightarrow> x \<noteq> 1 \<Longrightarrow> x \<noteq> n - 1
    \<Longrightarrow> square_loop k x n = Some True"
proof (induction k arbitrary: x)
  case 0
  have n0: "0 < unat n" using 0 by simp
  have "unat x * unat x mod unat n = 1" using 0(2) by (simp add: power2_eq_square)
  then have "unat x = 1 \<or> unat x = unat n - 1" by (rule prime_square_root_one [OF p 0(1)])
  then show ?case using 0 n0 by (auto simp: word_eq_unat unat_pred)
next
  case (Suc k)
  have n0: "n \<noteq> 0" using Suc.prems(1) by auto
  then have n1: "0 < unat n" by (simp add: word_eq_unat)
  obtain y where y: "mod_pow x 2 n = Some y" "unat y = unat x * unat x mod unat n"
    using mod_pow_value [OF n0, of x 2] by (auto simp: power2_eq_square)
  have yn: "unat y < unat n" using y(2) n1 by simp
  have "unat x ^ (2 ^ Suc (Suc k)) = (unat x * unat x) ^ (2 ^ Suc k)"
    by (metis power_Suc power_mult power2_eq_square)
  then have ye: "unat y ^ (2 ^ Suc k) mod unat n = 1"
    using Suc.prems(2) by (simp only: y(2) power_mod)
  have "unat y \<noteq> 1"
  proof
    assume "unat y = 1"
    then have "unat x * unat x mod unat n = 1" using y(2) by simp
    then have "unat x = 1 \<or> unat x = unat n - 1" by (rule prime_square_root_one [OF p Suc.prems(1)])
    then show False using Suc.prems(3,4) n1 by (auto simp: word_eq_unat unat_pred)
  qed
  then have "y \<noteq> 1" by auto
  then show ?case using Suc.IH [OF yn ye] y(1) by simp
qed

lemma prime_test_base_range:
  assumes "5 \<le> unat n"
  shows "2 \<le> unat (prime_test_base sha3 n c)" and "unat (prime_test_base sha3 n c) \<le> unat n - 3"
proof -
  let ?h = "from_be (sha3 (to_be 64 n @ to_be 64 (of_nat c :: u512))) :: u512"
  have n4: "unat (n - 4) = unat n - 4"
    using assms by (simp add: unat_minus_le word_le_nat_alt)
  then have lt: "unat (?h mod (n - 4)) < unat n - 4"
    using assms by (simp only: unat_mod n4) (intro mod_less_divisor, simp)
  then have "unat (?h mod (n - 4)) + unat (2 :: u512) < 2 ^ LENGTH(512)"
    using unat_lt_max [of n] by simp
  then have "unat (?h mod (n - 4) + 2) = unat (?h mod (n - 4)) + 2"
    by (simp add: unat_add_lem [THEN iffD1])
  then have "unat (prime_test_base sha3 n c) = unat (?h mod (n - 4)) + 2"
    by (simp add: prime_test_base_def Let_def)
  then show "2 \<le> unat (prime_test_base sha3 n c)" "unat (prime_test_base sha3 n c) \<le> unat n - 3"
    using lt by auto
qed

lemma witness_loop_prime:
  assumes p: "prime_nat (unat n)" and r: "0 < unat r"
    and dr: "unat n - 1 = 2 ^ unat r * unat d" and d0: "0 < unat d"
  shows "\<forall>b\<in>set bases. 0 < unat b \<and> unat b < unat n \<Longrightarrow> witness_loop bases d r n = Some True"
proof (induction bases)
  case (Cons b bs)
  have n1: "1 < unat n" using p by (simp add: prime_nat_def)
  then have n0: "n \<noteq> 0" by auto
  have d': "d \<noteq> 0" using d0 by auto
  obtain x where x: "mod_pow b d n = Some x" "unat x = unat b ^ unat d mod unat n"
    using mod_pow_value [OF n0, of b d] d' by auto
  have IH: "witness_loop bs d r n = Some True" using Cons by simp
  show ?case
  proof (cases "x = 1 \<or> x = n - 1")
    case True
    then show ?thesis using x IH by auto
  next
    case False
    have r1: "unat (r - 1) = unat r - 1" using r by (rule unat_pred)
    have "\<not> unat n dvd unat b" using Cons.prems by (auto dest: dvd_imp_le)
    then have "unat b ^ (unat n - 1) mod unat n = 1" by (rule fermat_little [OF p])
    then have "(unat b ^ unat d) ^ (2 ^ unat r) mod unat n = 1"
      by (simp only: dr power_mult [symmetric] mult.commute)
    then have "unat x ^ (2 ^ Suc (unat r - 1)) mod unat n = 1"
      using r by (simp only: x(2) power_mod Suc_diff_1)
    moreover have "unat x < unat n" using x(2) n1 by simp
    ultimately have "square_loop (unat (r - 1)) x n = Some True"
      using False square_loop_prime [OF p] by (simp only: r1) blast
    then show ?thesis using x IH False by simp
  qed
qed simp

lemma is_prime_total: "is_prime sha3 n \<noteq> None"
proof (cases "unat n \<le> 1 \<or> even (unat n)")
  case True
  then show ?thesis by (auto simp: is_prime_def mod_two_zero_iff word_le_nat_alt)
next
  case False
  then have "1 < unat n" "odd (unat n)" by auto
  then obtain d r where "split_twos (n - 1) 0 = Some (d, r)"
    by (rule split_twos_predecessor)
  moreover have "n \<noteq> 0" using False by auto
  ultimately show ?thesis using witness_loop_total [of n]
    by (simp add: is_prime_def del: not_None_eq)
qed

lemma is_prime_complete:
  assumes p: "prime_nat (unat n)"
  shows "is_prime sha3 n = Some True"
proof -
  have n1: "1 < unat n" using p by (simp add: prime_nat_def)
  then have nle: "\<not> n \<le> 1" by (simp add: word_le_nat_alt)
  show ?thesis
  proof (cases "n = 2 \<or> n = 3")
    case True
    then show ?thesis using nle by (auto simp: is_prime_def)
  next
    case False
    have odd: "odd (unat n)"
    proof
      assume "even (unat n)"
      moreover have "unat n \<noteq> 2" using False by (simp add: word_eq_unat)
      ultimately show False using p n1 by (auto simp: prime_nat_def)
    qed
    moreover have "unat n \<noteq> 3" using False by (simp add: word_eq_unat)
    ultimately have n5: "5 \<le> unat n" using n1 by presburger
    obtain d r where dr: "split_twos (n - 1) 0 = Some (d, r)" "0 < unat r"
        "unat n - 1 = 2 ^ unat r * unat d" "odd (unat d)"
      using split_twos_predecessor [OF n1 odd] by blast
    have "0 < unat d" using dr(4) by (cases "unat d") auto
    moreover have "\<forall>b\<in>set (prime_test_bases sha3 n). 0 < unat b \<and> unat b < unat n"
    proof
      fix b assume "b \<in> set (prime_test_bases sha3 n)"
      then obtain c where "b = prime_test_base sha3 n c" by (auto simp: prime_test_bases_def)
      then show "0 < unat b \<and> unat b < unat n"
        using prime_test_base_range [OF n5, of sha3 c] n5 by auto
    qed
    ultimately have "witness_loop (prime_test_bases sha3 n) d r n = Some True"
      using witness_loop_prime [OF p dr(2,3)] by blast
    then show ?thesis using nle False odd dr(1) by (simp add: is_prime_def mod_two_zero_iff)
  qed
qed

section \<open>The modulus and the distance\<close>

lemma rsa_loop_result:
  assumes "rsa_loop sha3 m n = Some n'"
  shows "odd (unat n') \<and> m < n' \<and> coprime (unat m) (unat n') \<and> is_prime sha3 n' = Some False"
proof (rule rsa_loop.raw_induct [where P = "\<lambda>s m n n'. odd (unat n') \<and> m < n' \<and>
    coprime (unat m) (unat n') \<and> is_prime s n' = Some False", OF _ assms])
  fix loop s m n y
  assume IH: "\<And>a b c y. loop a b c = Some y \<Longrightarrow> odd (unat y) \<and> b < y \<and>
      coprime (unat b) (unat y) \<and> is_prime a y = Some False"
    and step: "(if n mod 2 = 0 \<or> n \<le> m \<or> \<not> is_coprime m n then loop s m (sha3_512 s n)
      else case is_prime s n of None \<Rightarrow> None
        | Some p \<Rightarrow> if p then loop s m (sha3_512 s n) else Some n) = Some y"
  show "odd (unat y) \<and> m < y \<and> coprime (unat m) (unat y) \<and> is_prime s y = Some False"
    using step IH by (auto simp: mod_two_zero_iff is_coprime_iff not_le split: if_splits option.splits)
qed

definition rsa_acceptable :: "(bytes \<Rightarrow> bytes) \<Rightarrow> u512 \<Rightarrow> u512 \<Rightarrow> bool" where
  "rsa_acceptable sha3 m n \<longleftrightarrow>
     odd (unat n) \<and> m < n \<and> coprime (unat m) (unat n) \<and> is_prime sha3 n = Some False"

lemma rsa_loop_step:
  "rsa_loop sha3 m n =
     (if rsa_acceptable sha3 m n then Some n else rsa_loop sha3 m (sha3_512 sha3 n))"
proof (cases "is_prime sha3 n")
  case None
  then show ?thesis using is_prime_total by blast
next
  case (Some p)
  then show ?thesis
    by (subst rsa_loop.simps)
       (auto simp: rsa_acceptable_def mod_two_zero_iff is_coprime_iff not_le)
qed

lemma rsa_loop_returns:
  "rsa_acceptable sha3 m ((sha3_512 sha3 ^^ k) n) \<Longrightarrow> \<exists>n'. rsa_loop sha3 m n = Some n'"
proof (induction k arbitrary: n)
  case 0
  then show ?case by (subst rsa_loop_step) simp
next
  case (Suc k)
  then have "\<exists>n'. rsa_loop sha3 m (sha3_512 sha3 n) = Some n'"
    by (simp add: funpow_swap1)
  then show ?case by (subst rsa_loop_step) simp
qed

definition group_power :: "u512 \<Rightarrow> u512 \<Rightarrow> u512 \<Rightarrow> nat" where
  "group_power m n e = (if e = 0 then 1 else unat m ^ unat e mod unat n)"

lemma group_element:
  assumes "n \<noteq> 0"
  shows "\<exists>x. hash_to_group_bigint h m n s = Some x \<and> unat x = group_power m n (sat_add h s)"
  using mod_pow_value [OF assms, of m "sat_add h s"]
  by (simp add: hash_to_group_bigint_def group_power_def)

lemma get_random_rsa_modulus:
  assumes "get_random_rsa sha256 sha3 header = Some (m, n)"
  shows "n \<noteq> 0"
  using assms rsa_loop_result by (fastforce simp: get_random_rsa_def Let_def)

lemma nonce_distance:
  assumes rsa: "get_random_rsa sha256 sha3 header = Some (m, n)" and nz: "nonce \<noteq> zero_nonce"
  shows "\<exists>x y. get_nonce_distance sha256 sha3 header nonce = Some (sha3_512 sha3 x XOR sha3_512 sha3 y)
    \<and> unat x = group_power m n (from_be header)
    \<and> unat y = group_power m n (sat_add (from_be header) (from_be nonce))"
proof -
  have n0: "n \<noteq> 0" by (rule get_random_rsa_modulus [OF rsa])
  obtain x where x: "hash_to_group_bigint (from_be header) m n 0 = Some x"
      "unat x = group_power m n (sat_add (from_be header) 0)"
    using group_element [OF n0] by blast
  obtain y where y: "hash_to_group_bigint (from_be header) m n (from_be nonce) = Some y"
      "unat y = group_power m n (sat_add (from_be header) (from_be nonce))"
    using group_element [OF n0] by blast
  have "get_nonce_distance sha256 sha3 header nonce = Some (sha3_512 sha3 x XOR sha3_512 sha3 y)"
    using rsa nz x(1) y(1) by (simp add: get_nonce_distance_def hash_to_group_bigint_sha_def)
  with x(2) y(2) show ?thesis by auto
qed

lemma is_valid_nonce_iff:
  assumes "nonce \<noteq> zero_nonce"
  shows "is_valid_nonce sha256 sha3 header nonce t = Some v \<longleftrightarrow>
    (\<exists>d. get_nonce_distance sha256 sha3 header nonce = Some d \<and> v = (d \<le> t))"
  using assms by (auto simp: is_valid_nonce_def)

lemma known_order_valid:
  assumes "get_random_rsa sha256 sha3 header = Some (m, n)" and "nonce \<noteq> zero_nonce"
    and "unat m ^ unat (from_be nonce :: u512) mod unat n = 1"
    and "unat (from_be header :: u512) + unat (from_be nonce :: u512) < 2 ^ 512"
    and "from_be header \<noteq> (0 :: u512)"
  shows "is_valid_nonce sha256 sha3 header nonce threshold = Some True"
proof -
  let ?h = "from_be header :: u512" and ?s = "from_be nonce :: u512"
  obtain x y where xy: "get_nonce_distance sha256 sha3 header nonce
        = Some (sha3_512 sha3 x XOR sha3_512 sha3 y)"
      "unat x = group_power m n ?h" "unat y = group_power m n (sat_add ?h ?s)"
    using nonce_distance [OF assms(1,2)] by blast
  have "unat (sat_add ?h ?s) = unat ?h + unat ?s" using assms(4) by (simp add: mach_nat min_def)
  moreover have "unat ?h \<noteq> 0" using assms(5) by (simp add: word_eq_unat)
  moreover have "unat m ^ (unat ?h + unat ?s) mod unat n = unat m ^ unat ?h mod unat n"
    by (metis assms(3) mod_mult_right_eq mult.right_neutral power_add)
  ultimately have "x = y" using xy(2,3) by (simp add: group_power_def word_eq_unat)
  then show ?thesis using xy(1) assms(2) by (simp add: is_valid_nonce_iff)
qed

section \<open>Concrete hash functions\<close>

text \<open>Concrete hash functions for the witnesses: base two and modulus nine.\<close>

definition two_hash :: "bytes \<Rightarrow> bytes" where
  "two_hash bs = replicate 31 0 @ [2]"

definition nine_hash :: "bytes \<Rightarrow> bytes" where
  "nine_hash bs = replicate 63 0 @ [9]"

lemma toy_hashes: "from_be (two_hash h) = (2 :: u512)" "from_be (nine_hash h) = (9 :: u512)"
  by code_simp+

lemma nine_acceptable: "rsa_acceptable nine_hash 2 9"
proof -
  have b: "prime_test_base nine_hash 9 0 = 6"
    by (simp add: prime_test_base_def toy_hashes)
  have "prime_test_bases nine_hash 9 = 6 # map (prime_test_base nine_hash 9) [1..<32]"
    unfolding prime_test_bases_def b [symmetric] by (simp add: upt_conv_Cons del: upt_Suc)
  moreover have "split_twos (9 - 1) 0 = Some (1, 3)" by code_simp
  moreover have "mod_pow 6 1 9 = Some 6" "square_loop (unat (3 - 1 :: u32)) 6 9 = Some False"
    by code_simp+
  ultimately have "is_prime nine_hash 9 = Some False" by (simp add: is_prime_def)
  moreover have "is_coprime 2 9" by code_simp
  ultimately show ?thesis by (simp add: rsa_acceptable_def is_coprime_iff)
qed

lemma toy_rsa: "get_random_rsa two_hash nine_hash h = Some (2, 9)"
  unfolding get_random_rsa_def Let_def toy_hashes
  by (subst rsa_loop_step) (simp add: nine_acceptable)

definition toy_header :: bytes where
  "toy_header = replicate 31 0 @ [1]"

definition toy_nonce :: bytes where
  "toy_nonce = replicate 63 0 @ [6]"

lemma toy_numbers: "from_be toy_header = (1 :: u512)" "from_be toy_nonce = (6 :: u512)"
  by code_simp+

lemma toy_nonce_nonzero: "toy_nonce \<noteq> zero_nonce"
  by code_simp

lemma toy_valid_any: "is_valid_nonce two_hash nine_hash toy_header toy_nonce t = Some True"
  by (rule known_order_valid [OF toy_rsa toy_nonce_nonzero]) (simp_all add: toy_numbers)

section \<open>Properties\<close>

text \<open>C19: Square and multiply computes the power: for a modulus other than zero, \<open>mod_pow\<close>
  returns, and its result is \<open>base ^ exponent mod modulus\<close>, with the single exception that
  an exponent of zero gives one (also for the modulus one).\<close>

theorem mod_pow_correct:
  assumes "modulus \<noteq> 0"
  shows "\<exists>x. mod_pow base exponent modulus = Some x \<and>
    unat x = (if exponent = 0 then 1 else unat base ^ unat exponent mod unat modulus)"
  using assms by (rule mod_pow_value)

theorem mod_pow_correct_witness:
  "(7 :: u512) \<noteq> 0 \<and> (\<exists>x. mod_pow 3 5 7 = Some x \<and>
     unat x = (if (5 :: u512) = 0 then 1 else unat (3 :: u512) ^ unat (5 :: u512) mod unat (7 :: u512)))"
  using mod_pow_correct [of 7 3 5] by simp

text \<open>The Euclidean loop of \<open>is_coprime\<close> ends and decides coprimality of the two
  512-bit numbers.\<close>

theorem is_coprime_correct: "is_coprime a b \<longleftrightarrow> coprime (unat a) (unat b)"
  by (rule is_coprime_iff)



text \<open>The bases the primality test draws lie between \<open>2\<close> and \<open>n - 3\<close> for every number
  it is run on, whatever the hash function returns (the comment in the code says
  \<open>n - 2\<close>).\<close>

theorem prime_test_bases_in_range:
  assumes "5 \<le> unat n" and "b \<in> set (prime_test_bases sha3 n)"
  shows "2 \<le> unat b \<and> unat b \<le> unat n - 3"
  using assms prime_test_base_range [OF assms(1)] by (auto simp: prime_test_bases_def)

theorem prime_test_bases_in_range_witness:
  "5 \<le> unat (15 :: u512) \<and> 2 \<le> unat (prime_test_bases (\<lambda>bs. bs) 15 ! 0)"
proof -
  have "prime_test_bases (\<lambda>bs. bs) 15 ! 0 \<in> set (prime_test_bases (\<lambda>bs. bs) 15)"
    by (rule nth_mem) (simp add: prime_test_bases_def)
  then show ?thesis using prime_test_bases_in_range [of 15 _ "\<lambda>bs. bs"] by simp
qed

text \<open>Whenever the search for the group's modulus returns, the modulus is odd, larger
  than the base \<open>m\<close>, coprime to it and not a prime; and it returns as soon as some number of
  rehashings of the first candidate gives an acceptable modulus.\<close>

theorem get_random_rsa_sound:
  "(get_random_rsa sha256 sha3 header = Some (m, n) \<longrightarrow>
      m = from_be (sha256 header) \<and> odd (unat n) \<and> m < n \<and> coprime (unat m) (unat n) \<and>
      \<not> prime_nat (unat n)) \<and>
   (rsa_acceptable sha3 (from_be (sha256 header)) ((sha3_512 sha3 ^^ k) (from_be (sha3 header)))
      \<longrightarrow> get_random_rsa sha256 sha3 header \<noteq> None)"
proof (intro conjI impI)
  assume "get_random_rsa sha256 sha3 header = Some (m, n)"
  then have m: "m = from_be (sha256 header)" and l: "rsa_loop sha3 m (from_be (sha3 header)) = Some n"
    by (auto simp: get_random_rsa_def Let_def)
  show "m = from_be (sha256 header)" by (rule m)
  show "odd (unat n)" "m < n" "coprime (unat m) (unat n)" using rsa_loop_result [OF l] by auto
  show "\<not> prime_nat (unat n)" using rsa_loop_result [OF l] is_prime_complete [of n sha3] by auto
next
  assume "rsa_acceptable sha3 (from_be (sha256 header)) ((sha3_512 sha3 ^^ k) (from_be (sha3 header)))"
  then show "get_random_rsa sha256 sha3 header \<noteq> None"
    using rsa_loop_returns by (auto simp: get_random_rsa_def Let_def)
qed

theorem get_random_rsa_sound_witness:
  "get_random_rsa two_hash nine_hash [] = Some (2, 9) \<and> \<not> prime_nat (unat (9 :: u512))"
  using get_random_rsa_sound [of two_hash nine_hash "[]" 2 9 0] toy_rsa by blast

text \<open>The distance of a non-zero nonce is the exclusive or of the hashes of two powers of
  the same base: \<open>m ^ h mod n\<close> and \<open>m ^ (h + s) mod n\<close>, with \<open>h\<close> and \<open>s\<close> the header and the
  nonce read big-endian, where the sum saturates. Nothing panics once the modulus is found.\<close>

theorem nonce_distance_of_powers:
  assumes "get_random_rsa sha256 sha3 header = Some (m, n)" and "nonce \<noteq> zero_nonce"
  shows "\<exists>x y. get_nonce_distance sha256 sha3 header nonce = Some (sha3_512 sha3 x XOR sha3_512 sha3 y)
    \<and> unat x = group_power m n (from_be header)
    \<and> unat y = group_power m n (sat_add (from_be header) (from_be nonce))"
  by (rule nonce_distance [OF assms])

theorem nonce_distance_of_powers_witness:
  "\<exists>x y. get_nonce_distance two_hash nine_hash toy_header toy_nonce =
      Some (sha3_512 nine_hash x XOR sha3_512 nine_hash y) \<and> unat x = 2 \<and> unat y = 2"
proof -
  have "group_power 2 9 (from_be toy_header) = 2"
    "group_power 2 9 (sat_add (from_be toy_header) (from_be toy_nonce)) = 2"
    unfolding toy_numbers by (simp_all add: group_power_def sat_add_def)
  then show ?thesis using nonce_distance_of_powers [OF toy_rsa toy_nonce_nonzero, of toy_header] by auto
qed

text \<open>A nonce valid for a threshold is valid for every larger one, is not the zero nonce
  (whose distance is zero but which is refused), and its distance is at most the
  threshold.\<close>

theorem valid_nonce_monotone:
  assumes "is_valid_nonce sha256 sha3 header nonce t = Some True" and "t \<le> t'"
  shows "is_valid_nonce sha256 sha3 header nonce t' = Some True \<and> nonce \<noteq> zero_nonce \<and>
    (\<exists>d \<le> t. get_nonce_distance sha256 sha3 header nonce = Some d)"
proof -
  have nz: "nonce \<noteq> zero_nonce" using assms(1) by (auto simp: is_valid_nonce_def)
  then show ?thesis using assms by (auto simp: is_valid_nonce_iff)
qed

text \<open>Knowing the order of the group element solves the puzzle outright: a nonce whose
  value is a multiple of the order of \<open>m\<close> modulo \<open>n\<close> (and does not overflow the exponent) is
  valid for every threshold, down to zero. This is why the factors of \<open>n\<close> must stay
  unknown.\<close>

theorem known_order_solves_pow:
  assumes "get_random_rsa sha256 sha3 header = Some (m, n)" and "nonce \<noteq> zero_nonce"
    and "unat m ^ unat (from_be nonce :: u512) mod unat n = 1"
    and "unat (from_be header :: u512) + unat (from_be nonce :: u512) < 2 ^ 512"
    and "from_be header \<noteq> (0 :: u512)"
  shows "is_valid_nonce sha256 sha3 header nonce threshold = Some True"
  using assms by (rule known_order_valid)

theorem known_order_solves_pow_witness:
  "is_valid_nonce two_hash nine_hash toy_header toy_nonce 5 = Some True"
  by (rule known_order_solves_pow [OF toy_rsa toy_nonce_nonzero]) (simp_all add: toy_numbers)

theorem valid_nonce_monotone_witness:
  "is_valid_nonce two_hash nine_hash toy_header toy_nonce 7 = Some True"
  using valid_nonce_monotone [OF toy_valid_any [of 0], of 7] by simp

end
