(* ===== verification/Qpow.thy ===== *)
theory Qpow
  imports QpowMath "HOL-Library.Multiset"
begin

text \<open>
  The pallet of \<open>pallets/qpow/src/lib.rs\<close>: the distance threshold, its adjustment at the end
  of every block from the recorded block times, the accumulated work, and the verification
  of nonces. The state is the record of the pallet's storage items and the events deposited.
  What the pallet reads of other pallets (the timestamp, the block number) is an argument.
  \<open>FixedU128\<close> is its inner \<open>u128\<close>; \<open>FixedU128::from_rational\<close> of \<open>sp_arithmetic\<close> is the
  parameter \<open>fr\<close>. \<open>None\<close> is a panic.
\<close>

record qpow_config =
  InitialDistanceThresholdExponent :: u32
  DifficultyAdjustPercentClamp :: u8
  TargetBlockTime :: u64
  AdjustmentPeriod :: u32
  BlockTimeHistorySize :: u32
  MaxReorgDepth :: u32

datatype qpow_event =
  ProofSubmitted bytes
| DistanceThresholdAdjusted (old_distance_threshold: u512) (new_distance_threshold: u512)
    (observed_block_time: u64)

record qpow_state =
  BlockDistanceThresholds :: "u32 \<Rightarrow> u512"
  LatestNonce :: "bytes option"
  LastBlockTime :: u64
  LastBlockDuration :: u64
  CurrentDistanceThreshold :: u512
  TotalWork :: u512
  BlocksInPeriod :: u32
  BlockTimeHistory :: "u32 \<Rightarrow> u64"
  HistoryIndex :: u32
  HistorySize :: u32
  qpow_events :: "qpow_event list"

section \<open>The pallet's functions\<close>

definition get_initial_distance_threshold :: "qpow_config \<Rightarrow> u512" where
  "get_initial_distance_threshold cfg = push_bit (unat (InitialDistanceThresholdExponent cfg)) 1"

definition genesis_build :: "qpow_config \<Rightarrow> qpow_state \<Rightarrow> qpow_state" where
  "genesis_build cfg s =
     (let initial_distance_threshold = get_initial_distance_threshold cfg
      in s\<lparr> LatestNonce := Some (replicate 64 0),
            CurrentDistanceThreshold := initial_distance_threshold,
            BlockDistanceThresholds := (BlockDistanceThresholds s)(0 := initial_distance_threshold),
            TotalWork := 1 \<rparr>)"

definition on_idle :: "qpow_config \<Rightarrow> u64 \<Rightarrow> qpow_state \<Rightarrow> qpow_state" where
  "on_idle cfg now s =
     (if LastBlockTime s = 0
      then s\<lparr> LastBlockTime := now, CurrentDistanceThreshold := get_initial_distance_threshold cfg \<rparr>
      else s)"

definition record_block_time :: "qpow_config \<Rightarrow> u64 \<Rightarrow> qpow_state \<Rightarrow> qpow_state option" where
  "record_block_time cfg block_time s =
     (let max_history = BlockTimeHistorySize cfg; index = HistoryIndex s; size = HistorySize s
      in if max_history = 0 then None
         else Some (s\<lparr> BlockTimeHistory := (BlockTimeHistory s)(index := block_time),
                      HistoryIndex := sat_add index 1 mod max_history,
                      HistorySize := (if size < max_history then sat_add size 1 else max_history) \<rparr>))"

text \<open>The recorded times in the order of their index, as the loops over \<open>0..size\<close> read them.\<close>

definition recorded_times :: "qpow_state \<Rightarrow> u64 list" where
  "recorded_times s = map (\<lambda>i. BlockTimeHistory s (word_of_nat i)) [0..<unat (HistorySize s)]"

definition get_block_time_sum :: "qpow_config \<Rightarrow> qpow_state \<Rightarrow> u64" where
  "get_block_time_sum cfg s =
     (if HistorySize s = 0 then TargetBlockTime cfg
      else foldl sat_add 0 (recorded_times s))"

definition get_median_block_time :: "qpow_config \<Rightarrow> qpow_state \<Rightarrow> u64" where
  "get_median_block_time cfg s =
     (if HistorySize s = 0 then TargetBlockTime cfg
      else let times = sort (recorded_times s); len = length times
           in if len mod 2 = 0
              then sat_add (times ! (len div 2 - 1)) (times ! (len div 2)) div 2
              else times ! (len div 2))"

text \<open>\<open>None\<close>: the division by a first argument below 1024, which the shift makes zero.\<close>

definition percentage_change :: "u512 \<Rightarrow> u512 \<Rightarrow> (u512 \<times> bool) option" where
  "percentage_change big_a big_b =
     (let a = drop_bit 10 big_a; b = drop_bit 10 big_b;
          (larger, smaller) = (if b < a then (a, b) else (b, a));
          abs_diff = larger - smaller
      in if a = 0 then None
         else Some (sat_mul abs_diff 100 div a, a \<le> b))"

definition get_distance_threshold :: "qpow_config \<Rightarrow> qpow_state \<Rightarrow> u512" where
  "get_distance_threshold cfg s =
     (let stored = CurrentDistanceThreshold s
      in if stored = 0 then get_initial_distance_threshold cfg else stored)"

definition get_min_distance :: u512 where
  "get_min_distance = 1"

definition get_max_distance :: "qpow_config \<Rightarrow> u512" where
  "get_max_distance cfg = push_bit 2 (get_initial_distance_threshold cfg)"

definition get_difficulty :: "qpow_config \<Rightarrow> qpow_state \<Rightarrow> u512 option" where
  "get_difficulty cfg s = checked_div (get_max_distance cfg) (get_distance_threshold cfg s)"

definition FIXED_U128_SCALE :: u128 where
  "FIXED_U128_SCALE = 1000000000000000000"

text \<open>The ratio of the times, clamped around one: the first part of
  \<open>calculate_distance_threshold\<close>.\<close>

definition clamped_ratio ::
    "(u128 \<Rightarrow> u128 \<Rightarrow> u128 option) \<Rightarrow> qpow_config \<Rightarrow> u64 \<Rightarrow> u64 \<Rightarrow> (u128 \<times> u128) option" where
  "clamped_ratio fr cfg observed target =
     (case (fr (ucast (DifficultyAdjustPercentClamp cfg)) 100, fr 1 1, fr (ucast observed) (ucast target)) of
        (Some clamp, Some one, Some r) \<Rightarrow>
          Some (one, max (min r (sat_add one clamp)) (sat_sub one clamp))
      | _ \<Rightarrow> None)"

definition clamp_distance :: "qpow_config \<Rightarrow> u512 \<Rightarrow> u512" where
  "clamp_distance cfg adjusted =
     (if adjusted < get_min_distance then get_min_distance
      else if get_max_distance cfg < adjusted then get_max_distance cfg
      else adjusted)"

definition calculate_distance_threshold ::
    "(u128 \<Rightarrow> u128 \<Rightarrow> u128 option) \<Rightarrow> qpow_config \<Rightarrow> u512 \<Rightarrow> u64 \<Rightarrow> u64 \<Rightarrow> u512 option" where
  "calculate_distance_threshold fr cfg current observed target =
     (case clamped_ratio fr cfg observed target of
        None \<Rightarrow> None
      | Some (one, ratio) \<Rightarrow>
          if ratio = one then Some (clamp_distance cfg current)
          else (case checked_div current (ucast FIXED_U128_SCALE) of
                  Some v \<Rightarrow> Some (clamp_distance cfg (sat_mul v (ucast ratio)))
                | None \<Rightarrow> Some current))"

text \<open>
  \<open>adjust_distance_threshold\<close>, in three parts: the bookkeeping of the block's threshold and
  work, the recording of its time, and the correction at the end of a period.
\<close>

definition account_work :: "qpow_config \<Rightarrow> u32 \<Rightarrow> qpow_state \<Rightarrow> qpow_state option" where
  "account_work cfg current_block_number s =
     (case get_difficulty cfg s of
        None \<Rightarrow> None
      | Some current_work \<Rightarrow>
          Some (s\<lparr> BlockDistanceThresholds :=
                     (BlockDistanceThresholds s)(current_block_number := CurrentDistanceThreshold s),
                  TotalWork := sat_add (TotalWork s) current_work,
                  BlocksInPeriod := sat_add (BlocksInPeriod s) 1 \<rparr>))"

definition note_block_time :: "qpow_config \<Rightarrow> u64 \<Rightarrow> u32 \<Rightarrow> qpow_state \<Rightarrow> qpow_state option" where
  "note_block_time cfg now current_block_number s =
     (if 1 < current_block_number
      then let block_time = sat_sub now (LastBlockTime s)
           in record_block_time cfg block_time (s\<lparr> LastBlockDuration := block_time \<rparr>)
      else Some s)"

definition correct_threshold ::
    "(u128 \<Rightarrow> u128 \<Rightarrow> u128 option) \<Rightarrow> qpow_config \<Rightarrow> qpow_state \<Rightarrow> qpow_state option" where
  "correct_threshold fr cfg s =
     (let current = CurrentDistanceThreshold s; observed = get_block_time_sum cfg s;
          target = sat_mul (TargetBlockTime cfg) (ucast (HistorySize s))
      in case calculate_distance_threshold fr cfg current observed target of
           None \<Rightarrow> None
         | Some new \<Rightarrow>
             (case percentage_change current new of
                None \<Rightarrow> None
              | Some _ \<Rightarrow>
                  Some (s\<lparr> CurrentDistanceThreshold := new,
                          qpow_events := qpow_events s @ [DistanceThresholdAdjusted current new observed] \<rparr>)))"

definition adjust_distance_threshold ::
    "(u128 \<Rightarrow> u128 \<Rightarrow> u128 option) \<Rightarrow> qpow_config \<Rightarrow> u64 \<Rightarrow> u32 \<Rightarrow> qpow_state \<Rightarrow> qpow_state option" where
  "adjust_distance_threshold fr cfg now current_block_number s =
     (let blocks = BlocksInPeriod s
      in case account_work cfg current_block_number s of
           None \<Rightarrow> None
         | Some s1 \<Rightarrow>
             (case note_block_time cfg now current_block_number s1 of
                None \<Rightarrow> None
              | Some s2 \<Rightarrow>
                  let s3 = s2\<lparr> LastBlockTime := now \<rparr>
                  in if AdjustmentPeriod cfg \<le> blocks
                     then map_option (\<lambda>s4. s4\<lparr> BlocksInPeriod := 0, LastBlockTime := now \<rparr>)
                            (if 0 < HistorySize s3 then correct_threshold fr cfg s3 else Some s3)
                     else if blocks = 0 then Some (s3\<lparr> LastBlockTime := now \<rparr>)
                     else Some s3))"

definition on_finalize ::
    "(u128 \<Rightarrow> u128 \<Rightarrow> u128 option) \<Rightarrow> qpow_config \<Rightarrow> u64 \<Rightarrow> u32 \<Rightarrow> qpow_state \<Rightarrow> qpow_state option" where
  "on_finalize fr cfg now block_number s = adjust_distance_threshold fr cfg now block_number s"

section \<open>Verification of nonces\<close>

definition verify_for_import ::
    "(bytes \<Rightarrow> bytes) \<Rightarrow> (bytes \<Rightarrow> bytes) \<Rightarrow> qpow_config \<Rightarrow> bytes \<Rightarrow> bytes \<Rightarrow> qpow_state
      \<Rightarrow> (bool \<times> qpow_state) option" where
  "verify_for_import sha256 sha3 cfg header nonce s =
     (case is_valid_nonce sha256 sha3 header nonce (get_distance_threshold cfg s) of
        None \<Rightarrow> None
      | Some valid \<Rightarrow> Some (valid, if valid then s\<lparr> LatestNonce := Some nonce \<rparr> else s))"

definition get_distance_threshold_at_block :: "u32 \<Rightarrow> qpow_state \<Rightarrow> u512" where
  "get_distance_threshold_at_block block_number s = BlockDistanceThresholds s block_number"

definition verify_historical_block ::
    "(bytes \<Rightarrow> bytes) \<Rightarrow> (bytes \<Rightarrow> bytes) \<Rightarrow> bytes \<Rightarrow> bytes \<Rightarrow> u32 \<Rightarrow> qpow_state \<Rightarrow> bool option" where
  "verify_historical_block sha256 sha3 header nonce block_number s =
     (let block_distance_threshold = get_distance_threshold_at_block block_number s
      in if block_distance_threshold = 0 then Some False
         else is_valid_nonce sha256 sha3 header nonce block_distance_threshold)"

definition submit_nonce ::
    "(bytes \<Rightarrow> bytes) \<Rightarrow> (bytes \<Rightarrow> bytes) \<Rightarrow> qpow_config \<Rightarrow> bytes \<Rightarrow> bytes \<Rightarrow> qpow_state
      \<Rightarrow> (bool \<times> qpow_state) option" where
  "submit_nonce sha256 sha3 cfg header nonce s =
     (case is_valid_nonce sha256 sha3 header nonce (get_distance_threshold cfg s) of
        None \<Rightarrow> None
      | Some valid \<Rightarrow>
          Some (valid,
            if valid then s\<lparr> LatestNonce := Some nonce,
                             qpow_events := qpow_events s @ [ProofSubmitted nonce] \<rparr>
            else s))"

section \<open>The correction of the threshold\<close>

definition good_config :: "qpow_config \<Rightarrow> bool" where
  "good_config cfg \<longleftrightarrow> unat (InitialDistanceThresholdExponent cfg) \<le> 509 \<and>
     0 < TargetBlockTime cfg \<and> 0 < BlockTimeHistorySize cfg"

definition floor_rational_law :: "(u128 \<Rightarrow> u128 \<Rightarrow> u128 option) \<Rightarrow> bool" where
  "floor_rational_law fr \<longleftrightarrow>
     (\<forall>n d. d \<noteq> 0 \<longrightarrow> unat n < 2 ^ 64 \<longrightarrow>
        (\<exists>r. fr n d = Some r \<and> unat r = unat n * 10 ^ 18 div unat d))"

lemma floor_rational:
  assumes "floor_rational_law fr" "d \<noteq> 0" "unat n < 2 ^ 64"
  obtains r where "fr n d = Some r" "unat r = unat n * 10 ^ 18 div unat d"
  using assms unfolding floor_rational_law_def by blast

lemma unat_two_power: "k < 512 \<Longrightarrow> unat (push_bit k 1 :: u512) = 2 ^ k"
proof -
  assume "k < 512"
  then have "(2::nat) ^ k < 2 ^ 512" by (intro power_strict_increasing) auto
  moreover have "push_bit k 1 = (word_of_nat (2 ^ k) :: u512)"
    by (simp add: push_bit_eq_mult)
  ultimately show ?thesis
    by (simp only: unat_of_nat) simp
qed

lemma unat_initial_threshold:
  assumes "good_config cfg"
  shows "unat (get_initial_distance_threshold cfg) = 2 ^ unat (InitialDistanceThresholdExponent cfg)"
  using assms unfolding get_initial_distance_threshold_def good_config_def
  by (intro unat_two_power) auto

lemma unat_max_distance:
  assumes "good_config cfg"
  shows "unat (get_max_distance cfg) = 4 * unat (get_initial_distance_threshold cfg)"
proof -
  let ?e = "unat (InitialDistanceThresholdExponent cfg)"
  have "push_bit 2 (push_bit ?e 1) = (push_bit (2 + ?e) 1 :: u512)"
    by (simp add: push_bit_eq_mult power_add)
  moreover have "unat (push_bit (2 + ?e) 1 :: u512) = 4 * 2 ^ ?e"
    using assms by (subst unat_two_power) (simp_all add: good_config_def power_add)
  ultimately have "unat (get_max_distance cfg) = 4 * 2 ^ ?e"
    by (simp only: get_max_distance_def get_initial_distance_threshold_def)
  then show ?thesis by (simp only: unat_initial_threshold [OF assms])
qed

lemma get_distance_threshold_pos:
  assumes "good_config cfg"
  shows "get_distance_threshold cfg s \<noteq> 0"
  using unat_initial_threshold [OF assms]
  by (auto simp: get_distance_threshold_def Let_def word_eq_unat [of _ 0])

lemma clamp_distance_bounds:
  assumes "good_config cfg"
  shows "1 \<le> unat (clamp_distance cfg a)" "unat (clamp_distance cfg a) \<le> unat (get_max_distance cfg)"
proof -
  have "1 \<le> unat (get_max_distance cfg)"
    using unat_max_distance [OF assms] unat_initial_threshold [OF assms] by simp
  then show "1 \<le> unat (clamp_distance cfg a)" "unat (clamp_distance cfg a) \<le> unat (get_max_distance cfg)"
    by (auto simp: clamp_distance_def get_min_distance_def word_less_nat_alt not_less)
qed

lemma unat_clamp_distance:
  assumes "good_config cfg"
  shows "unat (clamp_distance cfg a) = max 1 (min (unat a) (unat (get_max_distance cfg)))"
proof -
  have "1 \<le> unat (get_max_distance cfg)"
    using unat_max_distance [OF assms] unat_initial_threshold [OF assms] by simp
  then show ?thesis
    by (auto simp: clamp_distance_def get_min_distance_def word_less_nat_alt not_less max_def min_def)
qed

text \<open>The clamped ratio in the natural numbers.\<close>

definition ratio_nat :: "qpow_config \<Rightarrow> nat \<Rightarrow> nat \<Rightarrow> nat" where
  "ratio_nat cfg observed target =
     (let c = unat (DifficultyAdjustPercentClamp cfg) * 10 ^ 16
      in max (min (observed * 10 ^ 18 div target) (10 ^ 18 + c)) (10 ^ 18 - c))"

lemma clamped_ratio_value:
  assumes fr: "floor_rational_law fr" and t: "target \<noteq> 0"
  shows "\<exists>one ratio. clamped_ratio fr cfg observed target = Some (one, ratio) \<and> unat one = 10 ^ 18 \<and>
    unat ratio = ratio_nat cfg (unat observed) (unat target)"
proof -
  have u: "unat (ucast w :: u128) = unat w" if "LENGTH('a) \<le> 128" for w :: "'a::len word"
    using that by (simp add: unsigned_ucast_eq)
       (metis unsigned_less take_bit_nat_eq_self less_le_trans one_le_numeral power_increasing)
  have c: "unat (ucast (DifficultyAdjustPercentClamp cfg) :: u128) = unat (DifficultyAdjustPercentClamp cfg)"
    and o: "unat (ucast observed :: u128) = unat observed"
    and ta: "unat (ucast target :: u128) = unat target"
    by (simp_all add: u)
  have small: "unat (DifficultyAdjustPercentClamp cfg) < 2 ^ 8"
    using unat_lt_max [of "DifficultyAdjustPercentClamp cfg"] by simp
  obtain clamp where cl1: "fr (ucast (DifficultyAdjustPercentClamp cfg)) 100 = Some clamp"
      "unat clamp = unat (DifficultyAdjustPercentClamp cfg) * 10 ^ 18 div unat (100 :: u128)"
    by (rule floor_rational [OF fr, of 100 "ucast (DifficultyAdjustPercentClamp cfg)"])
       (use c small in simp_all)
  have "unat (DifficultyAdjustPercentClamp cfg) * 10 ^ 18 div 100
      = unat (DifficultyAdjustPercentClamp cfg) * 10 ^ 16"
    by simp
  with cl1 have cl: "fr (ucast (DifficultyAdjustPercentClamp cfg)) 100 = Some clamp"
      "unat clamp = unat (DifficultyAdjustPercentClamp cfg) * 10 ^ 16"
    by simp_all
  obtain one where one: "fr 1 1 = Some one" "unat one = 10 ^ 18"
    by (rule floor_rational [OF fr, of 1 1]) simp_all
  have "ucast target \<noteq> (0 :: u128)" using t ta by (auto simp: word_eq_unat)
  moreover have "unat (ucast observed :: u128) < 2 ^ 64" using unat_lt_max [of observed] o by simp
  ultimately obtain r where r: "fr (ucast observed) (ucast target) = Some r"
      "unat r = unat observed * 10 ^ 18 div unat target"
    using floor_rational [OF fr, of "ucast target" "ucast observed"] o ta by metis
  have "unat (sat_add one clamp) = 10 ^ 18 + unat (DifficultyAdjustPercentClamp cfg) * 10 ^ 16"
    using one(2) cl(2) small by (simp add: mach_nat min_def)
  moreover have "unat (sat_sub one clamp) = 10 ^ 18 - unat (DifficultyAdjustPercentClamp cfg) * 10 ^ 16"
    using one(2) cl(2) by (simp add: mach_nat)
  ultimately have "unat (max (min r (sat_add one clamp)) (sat_sub one clamp))
      = ratio_nat cfg (unat observed) (unat target)"
    using r(2) by (simp add: mach_nat ratio_nat_def Let_def)
  then show ?thesis using cl(1) one r(1) by (auto simp: clamped_ratio_def)
qed

definition adjusted_nat :: "qpow_config \<Rightarrow> nat \<Rightarrow> nat \<Rightarrow> nat \<Rightarrow> nat" where
  "adjusted_nat cfg cur observed target =
     (let ratio = ratio_nat cfg observed target
      in if ratio = 10 ^ 18 then cur else cur div 10 ^ 18 * ratio)"

lemma calculate_value:
  assumes g: "good_config cfg" and fr: "floor_rational_law fr" and t: "target \<noteq> 0"
  shows "\<exists>x. calculate_distance_threshold fr cfg cur observed target = Some x \<and>
    unat x = max 1 (min (adjusted_nat cfg (unat cur) (unat observed) (unat target))
      (unat (get_max_distance cfg)))"
proof -
  obtain one ratio where r: "clamped_ratio fr cfg observed target = Some (one, ratio)"
      "unat one = 10 ^ 18" "unat ratio = ratio_nat cfg (unat observed) (unat target)"
    using clamped_ratio_value [OF fr t] by blast
  have eq: "ratio = one \<longleftrightarrow> ratio_nat cfg (unat observed) (unat target) = 10 ^ 18"
    using r by (simp add: word_eq_unat)
  show ?thesis
  proof (cases "ratio = one")
    case True
    then show ?thesis using r eq by (simp add: calculate_distance_threshold_def adjusted_nat_def
        unat_clamp_distance [OF g])
  next
    case False
    have s: "unat (ucast FIXED_U128_SCALE :: u512) = 10 ^ 18" by (simp add: FIXED_U128_SCALE_def)
    have "ucast FIXED_U128_SCALE \<noteq> (0 :: u512)" using s by (auto simp: word_eq_unat)
    then have d: "checked_div cur (ucast FIXED_U128_SCALE) = Some (cur div ucast FIXED_U128_SCALE)"
      by (simp add: checked_div_def)
    have "unat (ucast ratio :: u512) = unat ratio"
      using unat_lt_max [of ratio] by (simp add: unsigned_ucast_eq take_bit_nat_eq_self)
    moreover have "unat (cur div ucast FIXED_U128_SCALE) = unat cur div 10 ^ 18"
      by (simp only: unat_div s)
    ultimately have "unat (sat_mul (cur div ucast FIXED_U128_SCALE) (ucast ratio))
        = min (unat cur div 10 ^ 18 * unat ratio) (2 ^ 512 - 1)"
      by (simp add: unat_sat_mul)
    moreover have "unat (get_max_distance cfg) \<le> 2 ^ 512 - 1"
      using unat_le_max [of "get_max_distance cfg"] by simp
    ultimately have "min (unat (sat_mul (cur div ucast FIXED_U128_SCALE) (ucast ratio)))
        (unat (get_max_distance cfg)) = min (unat cur div 10 ^ 18 * unat ratio) (unat (get_max_distance cfg))"
      by (simp only: min.assoc min_absorb2)
    moreover have "adjusted_nat cfg (unat cur) (unat observed) (unat target) = unat cur div 10 ^ 18 * unat ratio"
      using False eq r(3) by (simp only: adjusted_nat_def Let_def if_False)
    moreover have "calculate_distance_threshold fr cfg cur observed target
        = Some (clamp_distance cfg (sat_mul (cur div ucast FIXED_U128_SCALE) (ucast ratio)))"
      using r(1) d False by (simp add: calculate_distance_threshold_def)
    ultimately show ?thesis
      using unat_clamp_distance [OF g, of "sat_mul (cur div ucast FIXED_U128_SCALE) (ucast ratio)"]
      by (simp only: option.inject ex_simps) simp
  qed
qed

lemma adjusted_upper:
  "100 * adjusted_nat cfg cur observed target
     \<le> cur * (100 + unat (DifficultyAdjustPercentClamp cfg))"
proof -
  let ?c = "unat (DifficultyAdjustPercentClamp cfg)" and ?r = "ratio_nat cfg observed target"
  have "?r \<le> 10 ^ 18 + ?c * 10 ^ 16" by (simp add: ratio_nat_def Let_def)
  then have "100 * (cur div 10 ^ 18 * ?r) \<le> 100 * (cur div 10 ^ 18 * (10 ^ 18 + ?c * 10 ^ 16))"
    by (intro mult_le_mono2)
  also have "\<dots> = (cur div 10 ^ 18 * 10 ^ 18) * (100 + ?c)" by (simp add: algebra_simps)
  also have "\<dots> \<le> cur * (100 + ?c)" by (intro mult_le_mono1) (rule div_times_less_eq_dividend)
  finally have "100 * (cur div 10 ^ 18 * ?r) \<le> cur * (100 + ?c)" .
  moreover have "100 * cur \<le> cur * (100 + ?c)" by (simp add: algebra_simps)
  ultimately show ?thesis by (simp add: adjusted_nat_def Let_def)
qed

lemma adjusted_lower:
  "cur * (100 - unat (DifficultyAdjustPercentClamp cfg))
     < 100 * adjusted_nat cfg cur observed target + 100 * 10 ^ 18"
proof -
  let ?c = "unat (DifficultyAdjustPercentClamp cfg)" and ?r = "ratio_nat cfg observed target"
  have "10 ^ 18 - ?c * 10 ^ 16 \<le> ?r" by (simp add: ratio_nat_def Let_def)
  moreover have e: "(10::nat) ^ 18 - ?c * 10 ^ 16 = (100 - ?c) * 10 ^ 16" by (simp add: diff_mult_distrib)
  ultimately have "cur div 10 ^ 18 * ((100 - ?c) * 10 ^ 16) \<le> cur div 10 ^ 18 * ?r"
    by (intro mult_le_mono2) simp
  then have "(cur div 10 ^ 18 * 10 ^ 18) * (100 - ?c) \<le> 100 * (cur div 10 ^ 18 * ?r)"
    by (simp add: algebra_simps)
  moreover have "cur * (100 - ?c) = (cur div 10 ^ 18 * 10 ^ 18) * (100 - ?c) + (cur mod 10 ^ 18) * (100 - ?c)"
    by (metis add_mult_distrib div_mult_mod_eq)
  moreover have "(cur mod 10 ^ 18) * (100 - ?c) < 10 ^ 18 * 100"
    by (rule le_less_trans [OF mult_le_mono2 [of _ 100]]) simp_all
  ultimately have "cur * (100 - ?c) < 100 * (cur div 10 ^ 18 * ?r) + 100 * 10 ^ 18" by linarith
  moreover have "cur * (100 - ?c) < 100 * cur + 100 * 10 ^ 18"
    by (rule le_less_trans [OF mult_le_mono2 [of _ 100, OF diff_le_self]]) simp
  ultimately show ?thesis by (simp add: adjusted_nat_def Let_def)
qed

lemma ratio_mono: "o1 \<le> o2 \<Longrightarrow> ratio_nat cfg o1 target \<le> ratio_nat cfg o2 target"
  unfolding ratio_nat_def Let_def
  by (intro max.mono min.mono div_le_mono mult_le_mono1 order_refl)

lemma adjusted_mono:
  assumes "o1 \<le> o2" and "10 ^ 36 \<le> cur"
  shows "adjusted_nat cfg cur o1 target \<le> adjusted_nat cfg cur o2 target"
proof -
  let ?r1 = "ratio_nat cfg o1 target" and ?r2 = "ratio_nat cfg o2 target" and ?q = "cur div 10 ^ 18"
  have r: "?r1 \<le> ?r2" by (rule ratio_mono [OF assms(1)])
  have "10 ^ 36 div 10 ^ 18 \<le> ?q" by (rule div_le_mono [OF assms(2)])
  then have q: "10 ^ 18 \<le> ?q" by simp
  have m: "cur mod 10 ^ 18 < 10 ^ 18" by simp
  have cq: "cur = ?q * 10 ^ 18 + cur mod 10 ^ 18" by (simp only: div_mult_mod_eq)
  consider "?r1 = ?r2" | "?r1 = 10 ^ 18" "10 ^ 18 < ?r2" | "?r1 < 10 ^ 18" "?r2 = 10 ^ 18"
    | "?r1 \<noteq> 10 ^ 18" "?r2 \<noteq> 10 ^ 18"
    using r by linarith
  then show ?thesis
  proof cases
    case 1
    then show ?thesis by (simp only: adjusted_nat_def Let_def)
  next
    case 2
    then have "?q * (10 ^ 18 + 1) \<le> ?q * ?r2" by (intro mult_le_mono2) simp
    moreover have "cur \<le> ?q * (10 ^ 18 + 1)" using cq q m by (simp only: distrib_left mult_1_right)
    ultimately have "cur \<le> ?q * ?r2" by (rule le_trans [rotated])
    then show ?thesis using 2 by (simp add: adjusted_nat_def Let_def)
  next
    case 3
    then have "?q * ?r1 \<le> ?q * 10 ^ 18" by (intro mult_le_mono2) simp
    also have "\<dots> \<le> cur" by (rule div_times_less_eq_dividend)
    finally show ?thesis using 3 by (simp add: adjusted_nat_def Let_def)
  next
    case 4
    then show ?thesis using r by (simp add: adjusted_nat_def Let_def)
  qed
qed

section \<open>The ring buffer of block times\<close>

definition qpow_ok :: "qpow_config \<Rightarrow> qpow_state \<Rightarrow> bool" where
  "qpow_ok cfg s \<longleftrightarrow>
     HistorySize s \<le> BlockTimeHistorySize cfg \<and> HistoryIndex s < BlockTimeHistorySize cfg \<and>
     CurrentDistanceThreshold s \<le> get_max_distance cfg"

text \<open>The buffer holds the last \<open>max_history\<close> of the times \<open>ts\<close>, the \<open>j\<close>-th at the index
  \<open>j mod max_history\<close>.\<close>

definition holds_times :: "qpow_config \<Rightarrow> u64 list \<Rightarrow> qpow_state \<Rightarrow> bool" where
  "holds_times cfg ts s \<longleftrightarrow>
     (let m = unat (BlockTimeHistorySize cfg)
      in 0 < m \<and> unat (HistorySize s) = min (length ts) m \<and> unat (HistoryIndex s) = length ts mod m \<and>
         (\<forall>j<length ts. length ts - m \<le> j \<longrightarrow> BlockTimeHistory s (word_of_nat (j mod m)) = ts ! j))"

definition last_times :: "nat \<Rightarrow> 'a list \<Rightarrow> 'a list" where
  "last_times m ts = drop (length ts - m) ts"

lemma record_block_time_total:
  "BlockTimeHistorySize cfg \<noteq> 0 \<Longrightarrow> \<exists>s'. record_block_time cfg t s = Some s'"
  by (simp add: record_block_time_def Let_def)

lemma record_block_time_holds:
  assumes h: "holds_times cfg ts s" and r: "record_block_time cfg t s = Some s'"
  shows "holds_times cfg (ts @ [t]) s'"
proof -
  define m where "m = unat (BlockTimeHistorySize cfg)"
  define n where "n = length ts"
  have m0: "0 < m" and size: "unat (HistorySize s) = min n m" and idx: "unat (HistoryIndex s) = n mod m"
    and at: "\<And>j. j < n \<Longrightarrow> n - m \<le> j \<Longrightarrow> BlockTimeHistory s (word_of_nat (j mod m)) = ts ! j"
    using h by (auto simp: holds_times_def Let_def m_def n_def)
  have mw: "m < 2 ^ 32" using unat_lt_max [of "BlockTimeHistorySize cfg"] by (simp add: m_def)
  have im: "n mod m < m" using m0 by simp
  have s': "BlockTimeHistory s' = (BlockTimeHistory s)(HistoryIndex s := t)"
      "HistoryIndex s' = sat_add (HistoryIndex s) 1 mod BlockTimeHistorySize cfg"
      "HistorySize s' = (if HistorySize s < BlockTimeHistorySize cfg then sat_add (HistorySize s) 1
        else BlockTimeHistorySize cfg)"
    using r by (auto simp: record_block_time_def Let_def split: if_splits)
  have iw: "HistoryIndex s = word_of_nat (n mod m)"
    using idx im mw by (simp add: word_eq_unat unat_of_nat)
  have "unat (sat_add (HistoryIndex s) 1) = n mod m + 1"
    using idx im mw by (simp add: mach_nat min_def)
  then have "unat (HistoryIndex s') = (n + 1) mod m"
    by (simp add: s'(2) unat_mod m_def [symmetric] mod_Suc_eq)
  moreover have "unat (HistorySize s') = min (n + 1) m"
    using size mw by (auto simp: s'(3) mach_nat word_less_nat_alt m_def [symmetric] min_def)
  moreover have "BlockTimeHistory s' (word_of_nat (j mod m)) = (ts @ [t]) ! j"
    if j: "j < n + 1" "n + 1 - m \<le> j" for j
  proof (cases "j = n")
    case True
    then show ?thesis by (simp add: s'(1) iw n_def)
  next
    case False
    then have jn: "j < n" "n - j < m" "0 < n - j" using j by auto
    have "j mod m \<noteq> n mod m"
    proof
      assume "j mod m = n mod m"
      then have "m dvd n - j" using jn by (metis mod_eq_dvd_iff_nat less_imp_le_nat)
      then show False using jn by (auto dest: dvd_imp_le)
    qed
    moreover have "j mod m < 2 ^ 32" using m0 mw by (meson mod_less_divisor less_trans)
    ultimately have "word_of_nat (j mod m) \<noteq> HistoryIndex s"
      using idx by (auto simp: word_eq_unat unat_of_nat)
    then show ?thesis using at [of j] jn by (simp add: s'(1) n_def nth_append)
  qed
  ultimately show ?thesis using m0
    unfolding holds_times_def Let_def m_def [symmetric] by (simp add: n_def)
qed

lemma recorded_times_rotate:
  assumes "holds_times cfg ts s"
  shows "mset (recorded_times s) = mset (last_times (unat (BlockTimeHistorySize cfg)) ts)"
proof -
  define m where "m = unat (BlockTimeHistorySize cfg)"
  define n where "n = length ts"
  let ?R = "recorded_times s"
  have m0: "0 < m" and size: "unat (HistorySize s) = min n m"
    and at: "\<And>j. j < n \<Longrightarrow> n - m \<le> j \<Longrightarrow> BlockTimeHistory s (word_of_nat (j mod m)) = ts ! j"
    using assms by (auto simp: holds_times_def Let_def m_def n_def)
  have lenR: "length ?R = min n m" by (simp add: recorded_times_def size)
  have R: "?R ! (j mod m) = ts ! j" if "j < n" "n - m \<le> j" for j
  proof -
    have "j mod m < min n m" using that m0 by (simp add: le_less_trans [OF mod_less_eq_dividend])
    then show ?thesis using at [OF that] by (simp add: recorded_times_def size)
  qed
  have "last_times m ts = rotate (n - m) ?R"
  proof (rule nth_equalityI)
    show "length (last_times m ts) = length (rotate (n - m) ?R)"
      by (simp add: last_times_def lenR n_def [symmetric])
  next
    fix i assume "i < length (last_times m ts)"
    then have i: "i < min n m" "n - m + i < n" by (auto simp: last_times_def n_def)
    have "(n - m + i) mod min n m = (n - m + i) mod m"
      using i by (cases "n \<le> m") (auto simp: min_def)
    then have "rotate (n - m) ?R ! i = ?R ! ((n - m + i) mod m)"
      using i by (simp add: nth_rotate lenR)
    also have "\<dots> = ts ! (n - m + i)" using R [OF i(2)] by simp
    finally show "last_times m ts ! i = rotate (n - m) ?R ! i"
      by (simp add: last_times_def n_def)
  qed
  moreover have "mset (rotate k xs) = mset xs" for k and xs :: "u64 list"
    by (simp add: rotate_drop_take flip: mset_append) (metis append_take_drop_id mset_append add.commute)
  ultimately show ?thesis by (simp add: m_def)
qed

lemma foldl_sat_add:
  "unat (foldl sat_add a xs) = min (unat a + sum_list (map unat xs)) (2 ^ 64 - 1)" for xs :: "u64 list"
proof (induction xs arbitrary: a)
  case Nil
  then show ?case using unat_le_max [of a] by simp
next
  case (Cons x xs)
  then show ?case using Cons.IH [of "sat_add a x"] by (simp add: mach_nat)
qed

text \<open>Recording a sequence of block times, as the ends of the blocks do.\<close>

fun record_all :: "qpow_config \<Rightarrow> u64 list \<Rightarrow> qpow_state \<Rightarrow> qpow_state option" where
  "record_all cfg [] s = Some s"
| "record_all cfg (t # ts) s =
     (case record_block_time cfg t s of None \<Rightarrow> None | Some s' \<Rightarrow> record_all cfg ts s')"

definition median_of :: "u64 list \<Rightarrow> u64" where
  "median_of xs =
     (let times = sort xs; len = length times
      in if len mod 2 = 0 then sat_add (times ! (len div 2 - 1)) (times ! (len div 2)) div 2
         else times ! (len div 2))"

lemma record_all_holds:
  "holds_times cfg ts s \<Longrightarrow> \<exists>s'. record_all cfg us s = Some s' \<and> holds_times cfg (ts @ us) s'"
proof (induction us arbitrary: ts s)
  case (Cons u us)
  have "BlockTimeHistorySize cfg \<noteq> 0" using Cons.prems by (auto simp: holds_times_def Let_def)
  then obtain s1 where s1: "record_block_time cfg u s = Some s1"
    using record_block_time_total by blast
  then have "holds_times cfg (ts @ [u]) s1" by (rule record_block_time_holds [OF Cons.prems])
  from Cons.IH [OF this] s1 show ?case by simp
qed simp

lemma holds_times_empty:
  assumes "0 < BlockTimeHistorySize cfg" "HistorySize s = 0" "HistoryIndex s = 0"
  shows "holds_times cfg [] s"
  using assms by (simp add: holds_times_def Let_def word_less_nat_alt)

lemma holds_times_observed:
  assumes h: "holds_times cfg ts s" and ne: "ts \<noteq> []"
  shows "unat (get_block_time_sum cfg s) =
      min (sum_list (map unat (last_times (unat (BlockTimeHistorySize cfg)) ts))) (2 ^ 64 - 1)"
    and "get_median_block_time cfg s = median_of (last_times (unat (BlockTimeHistorySize cfg)) ts)"
proof -
  let ?L = "last_times (unat (BlockTimeHistorySize cfg)) ts"
  have nz: "HistorySize s \<noteq> 0"
    using h ne by (auto simp: holds_times_def Let_def min_def split: if_splits)
  have m: "mset (recorded_times s) = mset ?L" by (rule recorded_times_rotate [OF h])
  have "sum_list (map unat (recorded_times s)) = sum_list (map unat ?L)"
    using m by (metis mset_map sum_mset_sum_list)
  then show "unat (get_block_time_sum cfg s) = min (sum_list (map unat ?L)) (2 ^ 64 - 1)"
    using nz by (simp add: get_block_time_sum_def foldl_sat_add)
  have "sort (recorded_times s) = sort ?L"
    using m by (metis mset_sort properties_for_sort sorted_sort)
  then show "get_median_block_time cfg s = median_of ?L"
    using nz by (simp add: get_median_block_time_def median_of_def)
qed

section \<open>The end of a block\<close>

lemma percentage_change_total:
  "1024 \<le> unat a \<Longrightarrow> \<exists>r. percentage_change a b = Some r"
proof -
  assume a: "1024 \<le> unat a"
  have "unat (drop_bit 10 a) = unat a div 1024"
    by (simp add: drop_bit_eq_div unat_div)
  then have "drop_bit 10 a \<noteq> 0" using a by (auto simp: word_eq_unat)
  then show ?thesis by (auto simp: percentage_change_def Let_def split: prod.splits)
qed

lemma percentage_change_panics:
  "unat a < 1024 \<Longrightarrow> percentage_change a b = None"
proof -
  assume a: "unat a < 1024"
  have "unat (drop_bit 10 a) = unat a div 1024"
    by (simp add: drop_bit_eq_div unat_div)
  then have "drop_bit 10 a = 0" using a by (simp add: word_eq_unat)
  then show ?thesis by (auto simp: percentage_change_def Let_def split: prod.splits)
qed

lemma difficulty_value:
  assumes "good_config cfg"
  shows "get_difficulty cfg s = Some (get_max_distance cfg div get_distance_threshold cfg s)"
  using get_distance_threshold_pos [OF assms] by (simp add: get_difficulty_def checked_div_def)

lemma get_threshold_le_max:
  assumes "good_config cfg" "qpow_ok cfg s"
  shows "get_distance_threshold cfg s \<le> get_max_distance cfg"
  using assms unat_max_distance [OF assms(1)]
  by (simp add: get_distance_threshold_def Let_def qpow_ok_def word_le_nat_alt)

lemma difficulty_pos:
  assumes "good_config cfg" "qpow_ok cfg s"
  shows "1 \<le> unat (get_max_distance cfg div get_distance_threshold cfg s)"
proof -
  have "0 < unat (get_distance_threshold cfg s)"
    using get_distance_threshold_pos [OF assms(1), of s] by (simp add: word_eq_unat)
  then show ?thesis
    using get_threshold_le_max [OF assms] by (simp add: unat_div word_le_nat_alt div_greater_zero_iff Suc_le_eq)
qed

lemma period_target_nonzero:
  assumes "good_config cfg" "HistorySize s \<noteq> 0"
  shows "sat_mul (TargetBlockTime cfg) (ucast (HistorySize s)) \<noteq> 0"
proof -
  have "unat (ucast (HistorySize s) :: u64) = unat (HistorySize s)"
    using unat_lt_max [of "HistorySize s"] by (simp add: unsigned_ucast_eq take_bit_nat_eq_self)
  moreover have "0 < unat (HistorySize s)" "0 < unat (TargetBlockTime cfg)"
    using assms by (auto simp: good_config_def word_less_nat_alt word_eq_unat)
  ultimately have "0 < unat (sat_mul (TargetBlockTime cfg) (ucast (HistorySize s)))"
    by (simp add: mach_nat)
  then show ?thesis by auto
qed

lemma correct_threshold_step:
  assumes g: "good_config cfg" and fr: "floor_rational_law fr" and h: "HistorySize s \<noteq> 0"
    and c: "1024 \<le> unat (CurrentDistanceThreshold s)"
  shows "\<exists>new. correct_threshold fr cfg s = Some (s\<lparr> CurrentDistanceThreshold := new,
      qpow_events := qpow_events s @ [DistanceThresholdAdjusted (CurrentDistanceThreshold s) new
        (get_block_time_sum cfg s)] \<rparr>) \<and> new \<le> get_max_distance cfg \<and> new \<noteq> 0 \<and>
      calculate_distance_threshold fr cfg (CurrentDistanceThreshold s) (get_block_time_sum cfg s)
        (sat_mul (TargetBlockTime cfg) (ucast (HistorySize s))) = Some new"
proof -
  obtain new where n: "calculate_distance_threshold fr cfg (CurrentDistanceThreshold s)
      (get_block_time_sum cfg s) (sat_mul (TargetBlockTime cfg) (ucast (HistorySize s))) = Some new"
      "unat new = max 1 (min (adjusted_nat cfg (unat (CurrentDistanceThreshold s))
        (unat (get_block_time_sum cfg s))
        (unat (sat_mul (TargetBlockTime cfg) (ucast (HistorySize s)) :: u64)))
      (unat (get_max_distance cfg)))"
    using calculate_value [OF g fr period_target_nonzero [OF g h]] by blast
  have "1 \<le> unat (get_max_distance cfg)"
    using unat_max_distance [OF g] unat_initial_threshold [OF g] by simp
  then have "new \<le> get_max_distance cfg" "new \<noteq> 0"
    using n(2) by (auto simp: word_le_nat_alt word_eq_unat)
  moreover obtain r where "percentage_change (CurrentDistanceThreshold s) new = Some r"
    using percentage_change_total [OF c] by blast
  ultimately show ?thesis using n(1)
    by (intro exI [of _ new] conjI) (simp_all add: correct_threshold_def Let_def)
qed

lemma account_work_step:
  assumes "good_config cfg"
  shows "\<exists>s1. account_work cfg n s = Some s1 \<and>
    BlockDistanceThresholds s1 = (BlockDistanceThresholds s)(n := CurrentDistanceThreshold s) \<and>
    TotalWork s1 = sat_add (TotalWork s) (get_max_distance cfg div get_distance_threshold cfg s) \<and>
    BlocksInPeriod s1 = sat_add (BlocksInPeriod s) 1 \<and>
    CurrentDistanceThreshold s1 = CurrentDistanceThreshold s \<and> HistorySize s1 = HistorySize s \<and>
    HistoryIndex s1 = HistoryIndex s \<and> LastBlockTime s1 = LastBlockTime s \<and>
    LatestNonce s1 = LatestNonce s \<and> qpow_events s1 = qpow_events s"
  using difficulty_value [OF assms, of s] by (simp add: account_work_def)

lemma note_block_time_step:
  assumes g: "good_config cfg" and ok: "qpow_ok cfg s"
  shows "\<exists>s2. note_block_time cfg now n s = Some s2 \<and> qpow_ok cfg s2 \<and>
    BlockDistanceThresholds s2 = BlockDistanceThresholds s \<and> TotalWork s2 = TotalWork s \<and>
    BlocksInPeriod s2 = BlocksInPeriod s \<and> CurrentDistanceThreshold s2 = CurrentDistanceThreshold s \<and>
    LatestNonce s2 = LatestNonce s \<and> qpow_events s2 = qpow_events s \<and>
    (1 < n \<longrightarrow> HistorySize s2 \<noteq> 0) \<and> (n \<le> 1 \<longrightarrow> s2 = s)"
proof (cases "1 < n")
  case True
  let ?m = "BlockTimeHistorySize cfg"
  have m: "?m \<noteq> 0" using g by (auto simp: good_config_def)
  have mu: "0 < unat ?m" using g by (simp add: good_config_def word_less_nat_alt)
  have le: "unat (HistorySize s) \<le> unat ?m" using ok by (simp add: qpow_ok_def word_le_nat_alt)
  have "unat (sat_add (HistorySize s) 1) = unat (HistorySize s) + 1" if "HistorySize s < ?m"
    using that unat_lt_max [of ?m] by (simp add: mach_nat word_less_nat_alt min_def)
  then have size: "unat (if HistorySize s < ?m then sat_add (HistorySize s) 1 else ?m)
      = min (unat (HistorySize s) + 1) (unat ?m)"
    using le by (auto simp: word_less_nat_alt min_def)
  have "(if HistorySize s < ?m then sat_add (HistorySize s) 1 else ?m) \<le> ?m"
    unfolding word_le_nat_alt size by simp
  moreover have "(if HistorySize s < ?m then sat_add (HistorySize s) 1 else ?m) \<noteq> 0"
    unfolding word_eq_unat size using mu by simp
  moreover have "sat_add (HistoryIndex s) 1 mod ?m < ?m"
    using mu by (simp add: word_less_nat_alt unat_mod)
  ultimately show ?thesis using True m ok
    by (simp add: note_block_time_def record_block_time_def Let_def qpow_ok_def not_le)
next
  case False
  then show ?thesis using ok by (simp add: note_block_time_def)
qed

lemma on_finalize_result:
  assumes g: "good_config cfg" and fr: "floor_rational_law fr" and ok: "qpow_ok cfg s"
    and c0: "CurrentDistanceThreshold s \<noteq> 0"
  shows "(on_finalize fr cfg now n s = None \<and> unat (CurrentDistanceThreshold s) < 1024) \<or>
    (\<exists>s'. on_finalize fr cfg now n s = Some s' \<and> qpow_ok cfg s' \<and>
      BlockDistanceThresholds s' = (BlockDistanceThresholds s)(n := CurrentDistanceThreshold s) \<and>
      TotalWork s' = sat_add (TotalWork s) (get_max_distance cfg div CurrentDistanceThreshold s) \<and>
      LastBlockTime s' = now \<and> LatestNonce s' = LatestNonce s \<and> CurrentDistanceThreshold s' \<noteq> 0 \<and>
      (CurrentDistanceThreshold s' = CurrentDistanceThreshold s \<or>
       (\<exists>observed target. target \<noteq> 0 \<and> calculate_distance_threshold fr cfg
          (CurrentDistanceThreshold s) observed target = Some (CurrentDistanceThreshold s'))))"
    and "AdjustmentPeriod cfg \<le> BlocksInPeriod s \<Longrightarrow> 1 < n \<Longrightarrow>
      unat (CurrentDistanceThreshold s) < 1024 \<Longrightarrow> on_finalize fr cfg now n s = None"
proof -
  have t: "get_distance_threshold cfg s = CurrentDistanceThreshold s"
    using c0 by (auto simp: get_distance_threshold_def Let_def)
  obtain s1 where s1: "account_work cfg n s = Some s1"
      "BlockDistanceThresholds s1 = (BlockDistanceThresholds s)(n := CurrentDistanceThreshold s)"
      "TotalWork s1 = sat_add (TotalWork s) (get_max_distance cfg div CurrentDistanceThreshold s)"
      "CurrentDistanceThreshold s1 = CurrentDistanceThreshold s" "HistorySize s1 = HistorySize s"
      "HistoryIndex s1 = HistoryIndex s" "LatestNonce s1 = LatestNonce s"
    using account_work_step [OF g, of n s] t by auto
  have "qpow_ok cfg s1" using ok s1 by (simp add: qpow_ok_def)
  from note_block_time_step [OF g this, of now n] obtain s2 where
    s2: "note_block_time cfg now n s1 = Some s2" "qpow_ok cfg s2"
      "BlockDistanceThresholds s2 = BlockDistanceThresholds s1" "TotalWork s2 = TotalWork s1"
      "CurrentDistanceThreshold s2 = CurrentDistanceThreshold s1" "LatestNonce s2 = LatestNonce s1"
      "1 < n \<longrightarrow> HistorySize s2 \<noteq> 0"
    by blast
  let ?s3 = "s2\<lparr> LastBlockTime := now \<rparr>"
  have cur: "CurrentDistanceThreshold ?s3 = CurrentDistanceThreshold s" using s1 s2 by simp
  have none: "on_finalize fr cfg now n s = None"
    if "AdjustmentPeriod cfg \<le> BlocksInPeriod s" "HistorySize s2 \<noteq> 0"
      "unat (CurrentDistanceThreshold s) < 1024"
  proof -
    have "correct_threshold fr cfg ?s3 = None"
      using percentage_change_panics that(3) cur
      by (simp add: correct_threshold_def Let_def split: option.split)
    then show ?thesis using that(1,2) s1(1) s2(1)
      by (simp add: on_finalize_def adjust_distance_threshold_def Let_def word_neq_0_conv)
  qed
  then show "AdjustmentPeriod cfg \<le> BlocksInPeriod s \<Longrightarrow> 1 < n \<Longrightarrow>
      unat (CurrentDistanceThreshold s) < 1024 \<Longrightarrow> on_finalize fr cfg now n s = None"
    using s2(7) by blast
  show "(on_finalize fr cfg now n s = None \<and> unat (CurrentDistanceThreshold s) < 1024) \<or>
    (\<exists>s'. on_finalize fr cfg now n s = Some s' \<and> qpow_ok cfg s' \<and>
      BlockDistanceThresholds s' = (BlockDistanceThresholds s)(n := CurrentDistanceThreshold s) \<and>
      TotalWork s' = sat_add (TotalWork s) (get_max_distance cfg div CurrentDistanceThreshold s) \<and>
      LastBlockTime s' = now \<and> LatestNonce s' = LatestNonce s \<and> CurrentDistanceThreshold s' \<noteq> 0 \<and>
      (CurrentDistanceThreshold s' = CurrentDistanceThreshold s \<or>
       (\<exists>observed target. target \<noteq> 0 \<and> calculate_distance_threshold fr cfg
          (CurrentDistanceThreshold s) observed target = Some (CurrentDistanceThreshold s'))))"
  proof (cases "AdjustmentPeriod cfg \<le> BlocksInPeriod s \<and> HistorySize s2 \<noteq> 0")
    case True
    show ?thesis
    proof (cases "1024 \<le> unat (CurrentDistanceThreshold s)")
      case c: True
      have h3: "HistorySize ?s3 \<noteq> 0" using True by simp
      have c3: "1024 \<le> unat (CurrentDistanceThreshold ?s3)" using c cur by simp
      from correct_threshold_step [OF g fr h3 c3] obtain new where
        new: "correct_threshold fr cfg ?s3 = Some (?s3\<lparr> CurrentDistanceThreshold := new,
          qpow_events := qpow_events ?s3 @ [DistanceThresholdAdjusted (CurrentDistanceThreshold ?s3) new
          (get_block_time_sum cfg ?s3)] \<rparr>)" "new \<le> get_max_distance cfg" "new \<noteq> 0"
        "calculate_distance_threshold fr cfg (CurrentDistanceThreshold ?s3) (get_block_time_sum cfg ?s3)
          (sat_mul (TargetBlockTime cfg) (ucast (HistorySize ?s3))) = Some new"
        by blast
      have "\<exists>observed target. target \<noteq> 0 \<and> calculate_distance_threshold fr cfg
          (CurrentDistanceThreshold s) observed target = Some new"
        using new(4) period_target_nonzero [OF g h3] cur by metis
      then show ?thesis using True new(1-3) s1 s2(1-6)
        by (simp add: on_finalize_def adjust_distance_threshold_def Let_def qpow_ok_def word_neq_0_conv)
    next
      case False
      then show ?thesis using none True by auto
    qed
  next
    case False
    then show ?thesis using s1 s2 c0
      by (auto simp: on_finalize_def adjust_distance_threshold_def Let_def qpow_ok_def word_neq_0_conv)
  qed
qed

section \<open>Reachable states\<close>

definition empty_qpow :: qpow_state where
  "empty_qpow = \<lparr> BlockDistanceThresholds = (\<lambda>_. 0), LatestNonce = None, LastBlockTime = 0,
     LastBlockDuration = 0, CurrentDistanceThreshold = 0, TotalWork = 0, BlocksInPeriod = 0,
     BlockTimeHistory = (\<lambda>_. 0), HistoryIndex = 0, HistorySize = 0, qpow_events = [] \<rparr>"

text \<open>The states the pallet's hooks and its nonce functions lead to from the genesis build,
  in any order and with any timestamps, block numbers, headers and nonces.\<close>

inductive qpow_reachable ::
    "(u128 \<Rightarrow> u128 \<Rightarrow> u128 option) \<Rightarrow> (bytes \<Rightarrow> bytes) \<Rightarrow> (bytes \<Rightarrow> bytes) \<Rightarrow> qpow_config
      \<Rightarrow> qpow_state \<Rightarrow> bool"
  for fr sha256 sha3 cfg where
  genesis: "qpow_reachable fr sha256 sha3 cfg (genesis_build cfg empty_qpow)"
| idle: "qpow_reachable fr sha256 sha3 cfg s \<Longrightarrow> qpow_reachable fr sha256 sha3 cfg (on_idle cfg now s)"
| finalize: "qpow_reachable fr sha256 sha3 cfg s \<Longrightarrow> on_finalize fr cfg now n s = Some s' \<Longrightarrow>
    qpow_reachable fr sha256 sha3 cfg s'"
| imported: "qpow_reachable fr sha256 sha3 cfg s \<Longrightarrow>
    verify_for_import sha256 sha3 cfg header nonce s = Some (v, s') \<Longrightarrow> qpow_reachable fr sha256 sha3 cfg s'"
| submitted: "qpow_reachable fr sha256 sha3 cfg s \<Longrightarrow>
    submit_nonce sha256 sha3 cfg header nonce s = Some (v, s') \<Longrightarrow> qpow_reachable fr sha256 sha3 cfg s'"

definition qpow_inv :: "(bytes \<Rightarrow> bytes) \<Rightarrow> (bytes \<Rightarrow> bytes) \<Rightarrow> qpow_config \<Rightarrow> qpow_state \<Rightarrow> bool" where
  "qpow_inv sha256 sha3 cfg s \<longleftrightarrow>
     qpow_ok cfg s \<and> CurrentDistanceThreshold s \<noteq> 0 \<and> 1 \<le> unat (TotalWork s) \<and>
     (\<exists>nonce. LatestNonce s = Some nonce \<and> (nonce = zero_nonce \<or>
       (\<exists>header t. t \<le> get_max_distance cfg \<and> is_valid_nonce sha256 sha3 header nonce t = Some True)))"

lemma initial_threshold_range:
  assumes "good_config cfg"
  shows "get_initial_distance_threshold cfg \<noteq> 0"
    "get_initial_distance_threshold cfg \<le> get_max_distance cfg"
  using unat_max_distance [OF assms] unat_initial_threshold [OF assms]
  by (auto simp: word_eq_unat [of _ 0] word_le_nat_alt)

lemma qpow_inv_reachable:
  assumes g: "good_config cfg" and fr: "floor_rational_law fr"
    and r: "qpow_reachable fr sha256 sha3 cfg s"
  shows "qpow_inv sha256 sha3 cfg s"
  using r
proof induction
  case genesis
  have "0 < BlockTimeHistorySize cfg" using g by (simp add: good_config_def)
  then show ?case using initial_threshold_range [OF g]
    by (simp add: qpow_inv_def genesis_build_def empty_qpow_def Let_def qpow_ok_def zero_nonce_def)
next
  case (idle s now)
  then show ?case using initial_threshold_range [OF g]
    by (auto simp: qpow_inv_def on_idle_def qpow_ok_def)
next
  case (finalize s now n s')
  have "unat (TotalWork s) \<le> unat (sat_add (TotalWork s) w)" for w
    using sat_add_ge by (simp add: word_le_nat_alt)
  then show ?case using finalize on_finalize_result(1) [OF g fr, of s now n]
    by (fastforce simp: qpow_inv_def intro: le_trans)
next
  case (imported s header nonce v s')
  then show ?case using get_threshold_le_max [OF g, of s]
    by (auto simp: qpow_inv_def verify_for_import_def qpow_ok_def split: option.splits if_splits)
next
  case (submitted s header nonce v s')
  then show ?case using get_threshold_le_max [OF g, of s]
    by (auto simp: qpow_inv_def submit_nonce_def qpow_ok_def split: option.splits if_splits)
qed

lemma adjustment_upper:
  assumes "good_config cfg" and "floor_rational_law fr" and "target \<noteq> 0"
    and "calculate_distance_threshold fr cfg cur observed target = Some t"
  shows "t = 1 \<or> 100 * unat t \<le> unat cur * (100 + unat (DifficultyAdjustPercentClamp cfg))"
  using calculate_value [OF assms(1-3), of cur observed] assms(4)
    adjusted_upper [of cfg "unat cur" "unat observed" "unat target"]
  by (auto simp: word_eq_unat max_def min_def split: if_splits)

section \<open>Concrete parameters\<close>

text \<open>Division rounding down, as \<open>FixedU128::from_rational\<close> does, and the constants of
  \<open>runtime/src/configs/mod.rs\<close>.\<close>

definition floor_rational_fn :: "u128 \<Rightarrow> u128 \<Rightarrow> u128 option" where
  "floor_rational_fn n d =
     (if d = 0 then None else Some (word_of_nat (unat n * 10 ^ 18 div unat d)))"

lemma floor_rational_fn_law: "floor_rational_law floor_rational_fn"
  unfolding floor_rational_law_def
proof (intro allI impI)
  fix n d :: u128
  assume d: "d \<noteq> 0" and n: "unat n < 2 ^ 64"
  have "unat n * 10 ^ 18 div unat d \<le> unat n * 10 ^ 18" by (rule div_le_dividend)
  also have "\<dots> < 2 ^ 128" using n by simp
  finally have "unat (word_of_nat (unat n * 10 ^ 18 div unat d) :: u128) = unat n * 10 ^ 18 div unat d"
    by (simp add: unat_of_nat)
  then show "\<exists>r. floor_rational_fn n d = Some r \<and> unat r = unat n * 10 ^ 18 div unat d"
    using d by (simp add: floor_rational_fn_def)
qed

definition runtime_qpow :: qpow_config where
  "runtime_qpow = \<lparr> InitialDistanceThresholdExponent = 502, DifficultyAdjustPercentClamp = 10,
     TargetBlockTime = 10000, AdjustmentPeriod = 1, BlockTimeHistorySize = 10, MaxReorgDepth = 10 \<rparr>"

lemma runtime_qpow_good: "good_config runtime_qpow"
  by (simp add: good_config_def runtime_qpow_def)

definition toy_qpow :: "u512 \<Rightarrow> u32 \<Rightarrow> qpow_state" where
  "toy_qpow threshold blocks = empty_qpow\<lparr> CurrentDistanceThreshold := threshold, BlocksInPeriod := blocks,
     TotalWork := 1 \<rparr>"

lemma toy_qpow_ok:
  assumes "unat t \<le> 2 ^ 502"
  shows "qpow_ok runtime_qpow (toy_qpow t b)"
proof -
  have "unat (get_max_distance runtime_qpow) = 2 ^ 504"
    using unat_max_distance [OF runtime_qpow_good] unat_initial_threshold [OF runtime_qpow_good]
    by (simp add: runtime_qpow_def)
  then have "t \<le> get_max_distance runtime_qpow"
    using assms by (simp add: word_le_nat_alt)
  then show ?thesis
    by (simp add: qpow_ok_def toy_qpow_def empty_qpow_def) (simp add: runtime_qpow_def)
qed

section \<open>Properties\<close>



text \<open>The correction goes in the right direction: with equal observed and target times the
  threshold stays as it is (within its bounds), and from a threshold of at least \<open>10 ^ 36\<close>
  slower blocks never give a smaller new threshold than faster ones, so that mining becomes
  easier as blocks take longer.\<close>

theorem threshold_adjustment_monotone:
  assumes "good_config cfg" and "floor_rational_law fr" and "target \<noteq> 0"
    and "observed \<le> observed'" and "10 ^ 36 \<le> unat cur"
  shows "\<exists>t t'. calculate_distance_threshold fr cfg cur observed target = Some t \<and>
    calculate_distance_threshold fr cfg cur observed' target = Some t' \<and> t \<le> t' \<and>
    (observed = target \<longrightarrow> t = clamp_distance cfg cur)"
proof -
  obtain t where t: "calculate_distance_threshold fr cfg cur observed target = Some t"
      "unat t = max 1 (min (adjusted_nat cfg (unat cur) (unat observed) (unat target))
        (unat (get_max_distance cfg)))"
    using calculate_value [OF assms(1-3)] by blast
  obtain t' where t': "calculate_distance_threshold fr cfg cur observed' target = Some t'"
      "unat t' = max 1 (min (adjusted_nat cfg (unat cur) (unat observed') (unat target))
        (unat (get_max_distance cfg)))"
    using calculate_value [OF assms(1-3)] by blast
  have "adjusted_nat cfg (unat cur) (unat observed) (unat target)
      \<le> adjusted_nat cfg (unat cur) (unat observed') (unat target)"
    using assms(4,5) by (intro adjusted_mono) (simp_all add: word_le_nat_alt)
  then have "t \<le> t'" using t(2) t'(2) by (auto simp: word_le_nat_alt)
  moreover have "t = clamp_distance cfg cur" if "observed = target"
  proof -
    have "0 < unat target" using assms(3) by (simp add: word_eq_unat)
    then have "adjusted_nat cfg (unat cur) (unat observed) (unat target) = unat cur"
      using that by (simp add: adjusted_nat_def ratio_nat_def Let_def)
    then show ?thesis using t(2) unat_clamp_distance [OF assms(1), of cur] by (simp add: word_eq_unat)
  qed
  ultimately show ?thesis using t(1) t'(1) by blast
qed

theorem threshold_adjustment_monotone_witness:
  "\<exists>t. calculate_distance_threshold floor_rational_fn runtime_qpow (2 ^ 200) 10000 10000 = Some t \<and>
     t = clamp_distance runtime_qpow (2 ^ 200)"
proof -
  have "unat (2 ^ 200 :: u512) = 2 ^ 200" by simp
  then have "10 ^ 36 \<le> unat (2 ^ 200 :: u512)" by simp
  from threshold_adjustment_monotone [OF runtime_qpow_good floor_rational_fn_law _ _ this,
    of 10000 10000 10000] show ?thesis by auto
qed

text \<open>The ring buffer keeps the most recent block times: after recording any sequence of
  times into an empty history, no recording panics, and the sum and the median the pallet
  computes are the (saturating) sum and the median of the last \<open>BlockTimeHistorySize\<close> of
  them.\<close>

theorem history_keeps_last_times:
  assumes "0 < BlockTimeHistorySize cfg" and "HistorySize s = 0" and "HistoryIndex s = 0"
    and "ts \<noteq> []"
  shows "\<exists>s'. record_all cfg ts s = Some s' \<and>
    unat (get_block_time_sum cfg s') =
      min (sum_list (map unat (last_times (unat (BlockTimeHistorySize cfg)) ts))) (2 ^ 64 - 1) \<and>
    get_median_block_time cfg s' = median_of (last_times (unat (BlockTimeHistorySize cfg)) ts)"
  using record_all_holds [OF holds_times_empty [OF assms(1-3)], of ts]
    holds_times_observed [OF _ assms(4)] by fastforce

theorem history_keeps_last_times_witness:
  "\<exists>s'. record_all (runtime_qpow\<lparr> BlockTimeHistorySize := 2 \<rparr>) [5, 7, 12] empty_qpow = Some s' \<and>
     unat (get_block_time_sum (runtime_qpow\<lparr> BlockTimeHistorySize := 2 \<rparr>) s') = 19"
  using history_keeps_last_times [of "runtime_qpow\<lparr> BlockTimeHistorySize := 2 \<rparr>" empty_qpow "[5, 7, 12]"]
  by (auto simp: runtime_qpow_def empty_qpow_def last_times_def)







text \<open>Checking a nonce answers whether its distance is within the current threshold and
  changes only the latest nonce, and that only for a valid one; the import path deposits no
  event, local submission deposits exactly one for a valid nonce; and a block's nonce that
  was accepted under the threshold recorded for the block is accepted again when the block
  is verified later.\<close>

theorem nonce_verification:
  assumes "is_valid_nonce sha256 sha3 header nonce (get_distance_threshold cfg s) = Some v"
  shows "verify_for_import sha256 sha3 cfg header nonce s =
      Some (v, s\<lparr> LatestNonce := (if v then Some nonce else LatestNonce s) \<rparr>) \<and>
    submit_nonce sha256 sha3 cfg header nonce s =
      Some (v, s\<lparr> LatestNonce := (if v then Some nonce else LatestNonce s),
                 qpow_events := qpow_events s @ (if v then [ProofSubmitted nonce] else []) \<rparr>) \<and>
    (BlockDistanceThresholds s n = get_distance_threshold cfg s \<and> BlockDistanceThresholds s n \<noteq> 0 \<longrightarrow>
       verify_historical_block sha256 sha3 header nonce n s = Some v)"
  using assms
  by (simp add: verify_for_import_def submit_nonce_def verify_historical_block_def Let_def
      get_distance_threshold_at_block_def)

theorem nonce_verification_witness:
  "verify_for_import two_hash nine_hash runtime_qpow toy_header toy_nonce (toy_qpow 7 0) =
     Some (True, (toy_qpow 7 0)\<lparr> LatestNonce := Some toy_nonce \<rparr>)"
proof -
  have "get_distance_threshold runtime_qpow (toy_qpow 7 0) = 7"
    by (simp add: get_distance_threshold_def toy_qpow_def)
  moreover have "is_valid_nonce two_hash nine_hash toy_header toy_nonce 7 = Some True"
    by (rule toy_valid_any)
  ultimately have "is_valid_nonce two_hash nine_hash toy_header toy_nonce
      (get_distance_threshold runtime_qpow (toy_qpow 7 0)) = Some True" by simp
  from nonce_verification [OF this] show ?thesis by simp
qed

end
