(* ===== verification/HeaviestChain.thy ===== *)
theory HeaviestChain
  imports Prelude
begin

text \<open>
  Chain selection and finalization of \<open>client/consensus/qpow/src/chain_management.rs\<close>, with
  the algorithm of \<open>lib.rs\<close> and the miner of \<open>miner.rs\<close> beside it. The client (its headers,
  leaves, auxiliary store, finalizer and runtime interface) is the parameter \<open>cl\<close>, a record
  of its operations over a client state \<open>'x\<close>; what the code relies on is \<open>client_law\<close>. A
  \<open>Result\<close> is a sum; \<open>Panicked\<close> is an \<open>expect\<close> or \<open>panic!\<close> that fires. Block numbers are
  natural numbers: the code only takes one off a number that is not zero.
\<close>

type_synonym h256 = "256 word"

record header =
  header_hash :: h256
  header_number :: nat
  parent_hash :: h256

datatype chain_error = Consensus_Other string | Panicked

record 'x client_ops =
  cl_header :: "'x \<Rightarrow> h256 \<Rightarrow> string + header option"
  cl_hash :: "'x \<Rightarrow> nat \<Rightarrow> string + h256 option"
  cl_best_hash :: "'x \<Rightarrow> h256"
  cl_leaves :: "'x \<Rightarrow> string + h256 list"
  cl_get_aux :: "'x \<Rightarrow> bytes \<Rightarrow> string + bytes option"
  cl_insert_aux :: "bytes \<Rightarrow> bytes \<Rightarrow> 'x \<Rightarrow> string + 'x"
  cl_finalize_block :: "h256 \<Rightarrow> 'x \<Rightarrow> string + 'x"
  cl_total_work :: "'x \<Rightarrow> h256 \<Rightarrow> string + u512"
  cl_max_reorg_depth :: "'x \<Rightarrow> h256 \<Rightarrow> string + u32"
  cl_difficulty :: "'x \<Rightarrow> h256 \<Rightarrow> string + u512"
  cl_verify_for_import :: "'x \<Rightarrow> h256 \<Rightarrow> bytes \<Rightarrow> bytes \<Rightarrow> string + bool"
  cl_submit_nonce :: "'x \<Rightarrow> h256 \<Rightarrow> bytes \<Rightarrow> bytes \<Rightarrow> string + bool"

section \<open>Chain selection\<close>

definition IGNORED_CHAINS_PREFIX :: bytes where
  "IGNORED_CHAINS_PREFIX = map of_char ''QPow:IgnoredChains:''"

definition ignored_chain_key :: "h256 \<Rightarrow> bytes" where
  "ignored_chain_key h = IGNORED_CHAINS_PREFIX @ to_be 32 h"

text \<open>Reading a header that must be there.\<close>

definition require_header ::
    "'x client_ops \<Rightarrow> 'x \<Rightarrow> h256 \<Rightarrow> string \<Rightarrow> chain_error + header" where
  "require_header cl x h missing =
     (case cl_header cl x h of
        Inl e \<Rightarrow> Inl (Consensus_Other e)
      | Inr None \<Rightarrow> Inl (Consensus_Other missing)
      | Inr (Some header) \<Rightarrow> Inr header)"

definition calculate_chain_work :: "'x client_ops \<Rightarrow> 'x \<Rightarrow> header \<Rightarrow> chain_error + u512" where
  "calculate_chain_work cl x chain_head =
     (case cl_total_work cl x (header_hash chain_head) of
        Inl e \<Rightarrow> Inl (Consensus_Other e)
      | Inr total_work \<Rightarrow> Inr total_work)"

fun find_best_loop ::
    "'x client_ops \<Rightarrow> 'x \<Rightarrow> h256 list \<Rightarrow> header option \<Rightarrow> u512 \<Rightarrow> chain_error + header option" where
  "find_best_loop cl x [] best_header best_work = Inr best_header"
| "find_best_loop cl x (leaf # leaves) best_header best_work =
     (case require_header cl x leaf ''Missing header'' of
        Inl e \<Rightarrow> Inl e
      | Inr header \<Rightarrow>
          (case calculate_chain_work cl x header of
             Inl e \<Rightarrow> Inl e
           | Inr chain_work \<Rightarrow>
               if best_work < chain_work
               then find_best_loop cl x leaves (Some header) chain_work
               else find_best_loop cl x leaves best_header best_work))"

definition find_best_chain :: "'x client_ops \<Rightarrow> 'x \<Rightarrow> h256 list \<Rightarrow> chain_error + header" where
  "find_best_chain cl x leaves =
     (case find_best_loop cl x leaves None 0 of
        Inl e \<Rightarrow> Inl e
      | Inr None \<Rightarrow> Inl (Consensus_Other ''No Valid Chain Found'')
      | Inr (Some header) \<Rightarrow> Inr header)"

text \<open>
  The three loops of \<open>find_common_ancestor_and_depth\<close>. The first gives \<open>Inl\<close> when it returns
  early, \<open>Inr\<close> when it falls through to the next.
\<close>

fun lower_current ::
    "'x client_ops \<Rightarrow> 'x \<Rightarrow> h256 \<Rightarrow> h256 \<Rightarrow> nat \<Rightarrow> nat \<Rightarrow> nat
      \<Rightarrow> chain_error + ((h256 \<times> nat) + (h256 \<times> nat \<times> nat))" where
  "lower_current cl x current competing current_height competing_height depth =
     (if competing_height < current_height
      then if current = competing then Inr (Inl (current, depth))
           else (case require_header cl x current ''Missing header'' of
                   Inl e \<Rightarrow> Inl e
                 | Inr header \<Rightarrow>
                     lower_current cl x (parent_hash header) competing (current_height - 1)
                       competing_height (depth + 1))
      else Inr (Inr (current, current_height, depth)))"

fun lower_competing ::
    "'x client_ops \<Rightarrow> 'x \<Rightarrow> h256 \<Rightarrow> nat \<Rightarrow> nat \<Rightarrow> nat \<Rightarrow> chain_error + (h256 \<times> nat)" where
  "lower_competing cl x competing current_height competing_height depth =
     (if current_height < competing_height
      then (case require_header cl x competing ''Missing header'' of
              Inl e \<Rightarrow> Inl e
            | Inr header \<Rightarrow>
                lower_competing cl x (parent_hash header) current_height (competing_height - 1) (depth + 1))
      else Inr (competing, depth))"

fun lower_both ::
    "'x client_ops \<Rightarrow> 'x \<Rightarrow> h256 \<Rightarrow> h256 \<Rightarrow> nat \<Rightarrow> nat \<Rightarrow> chain_error + (h256 \<times> nat)" where
  "lower_both cl x current competing height depth =
     (if current \<noteq> competing
      then if height = 0 then Inl (Consensus_Other ''No common ancestor found'')
           else (case require_header cl x current ''Missing header'' of
                   Inl e \<Rightarrow> Inl e
                 | Inr header \<Rightarrow>
                     (case require_header cl x competing ''Missing header'' of
                        Inl e \<Rightarrow> Inl e
                      | Inr header' \<Rightarrow>
                          lower_both cl x (parent_hash header) (parent_hash header') (height - 1) (depth + 1)))
      else Inr (current, depth))"

declare lower_current.simps [simp del] lower_competing.simps [simp del] lower_both.simps [simp del]

definition find_common_ancestor_and_depth ::
    "'x client_ops \<Rightarrow> 'x \<Rightarrow> header \<Rightarrow> header \<Rightarrow> chain_error + (h256 \<times> nat)" where
  "find_common_ancestor_and_depth cl x current_best competing_header =
     (let current = header_hash current_best; competing = header_hash competing_header
      in if current = competing then Inr (current, 0)
         else (case lower_current cl x current competing (header_number current_best)
                      (header_number competing_header) 0 of
                 Inl e \<Rightarrow> Inl e
               | Inr (Inl found) \<Rightarrow> Inr found
               | Inr (Inr (current', height, depth)) \<Rightarrow>
                   (case lower_competing cl x competing height (header_number competing_header) depth of
                      Inl e \<Rightarrow> Inl e
                    | Inr (competing', depth') \<Rightarrow> lower_both cl x current' competing' height depth')))"

definition is_chain_ignored :: "'x client_ops \<Rightarrow> 'x \<Rightarrow> h256 \<Rightarrow> chain_error + bool" where
  "is_chain_ignored cl x h =
     (case cl_get_aux cl x (ignored_chain_key h) of
        Inr (Some _) \<Rightarrow> Inr True
      | Inr None \<Rightarrow> Inr False
      | Inl e \<Rightarrow> Inl (Consensus_Other e))"

definition add_ignored_chain :: "'x client_ops \<Rightarrow> h256 \<Rightarrow> ('x, chain_error, unit) comp" where
  "add_ignored_chain cl h x =
     (case cl_insert_aux cl (ignored_chain_key h) [] x of
        Inl e \<Rightarrow> (Inl (Consensus_Other e), x)
      | Inr x' \<Rightarrow> (Inr (), x'))"

text \<open>One leaf of the loop of \<open>best_chain\<close>; the best header and its work are carried along.\<close>

definition consider_leaf ::
    "'x client_ops \<Rightarrow> header \<Rightarrow> h256 \<Rightarrow> header \<times> u512 \<Rightarrow> ('x, chain_error, header \<times> u512) comp" where
  "consider_leaf cl current_best leaf best x =
     (let (best_header, best_work) = best
      in if leaf = header_hash best_header then (Inr best, x)
         else case is_chain_ignored cl x leaf of
           Inl e \<Rightarrow> (Inl e, x)
         | Inr True \<Rightarrow> (Inr best, x)
         | Inr False \<Rightarrow>
             (case require_header cl x leaf ''Missing header'' of
                Inl e \<Rightarrow> (Inl e, x)
              | Inr header \<Rightarrow>
                  (case calculate_chain_work cl x header of
                     Inl e \<Rightarrow> (Inl e, x)
                   | Inr chain_work \<Rightarrow>
                       (case cl_max_reorg_depth cl x (header_hash best_header) of
                          Inl e \<Rightarrow> (Inl Panicked, x)
                        | Inr max_reorg_depth \<Rightarrow>
                            (case find_common_ancestor_and_depth cl x current_best header of
                               Inl e \<Rightarrow> (Inl e, x)
                             | Inr (fork_point, reorg_depth) \<Rightarrow>
                                 if best_work \<le> chain_work
                                 then if reorg_depth \<le> unat max_reorg_depth
                                      then if chain_work = best_work
                                           then if header_number best_header < header_number header
                                                then (Inr (header, best_work), x) else (Inr best, x)
                                           else (Inr (header, chain_work), x)
                                      else and_then (add_ignored_chain cl leaf) (\<lambda>_. ret best) x
                                 else if unat max_reorg_depth < reorg_depth
                                      then and_then (add_ignored_chain cl leaf) (\<lambda>_. ret best) x
                                      else (Inr best, x))))))"

fun best_chain_loop ::
    "'x client_ops \<Rightarrow> header \<Rightarrow> h256 list \<Rightarrow> header \<times> u512 \<Rightarrow> ('x, chain_error, header) comp" where
  "best_chain_loop cl current_best [] best = ret (fst best)"
| "best_chain_loop cl current_best (leaf # leaves) best =
     and_then (consider_leaf cl current_best leaf best) (best_chain_loop cl current_best leaves)"

definition best_chain :: "'x client_ops \<Rightarrow> ('x, chain_error, header) comp" where
  "best_chain cl x =
     (case cl_leaves cl x of
        Inl e \<Rightarrow> (Inl (Consensus_Other e), x)
      | Inr leaves \<Rightarrow>
          if leaves = [] then (Inl (Consensus_Other ''Blockchain has no leaves''), x)
          else if cl_best_hash cl x \<noteq> 0
          then (case require_header cl x (cl_best_hash cl x) ''Missing current best header'' of
                  Inl e \<Rightarrow> (Inl e, x)
                | Inr current_best \<Rightarrow>
                    (case calculate_chain_work cl x current_best of
                       Inl e \<Rightarrow> (Inl e, x)
                     | Inr best_work \<Rightarrow>
                         best_chain_loop cl current_best leaves (current_best, best_work) x))
          else (find_best_chain cl x leaves, x))"

section \<open>Finalization\<close>

definition finalize_canonical_at_depth :: "'x client_ops \<Rightarrow> ('x, chain_error, unit) comp" where
  "finalize_canonical_at_depth cl x =
     (let best_hash = cl_best_hash cl x
      in if best_hash = 0 then (Inr (), x)
         else case require_header cl x best_hash ''Missing current best header'' of
           Inl e \<Rightarrow> (Inl e, x)
         | Inr best_header \<Rightarrow>
             (case cl_max_reorg_depth cl x best_hash of
                Inl e \<Rightarrow> (Inl Panicked, x)
              | Inr max_reorg_depth \<Rightarrow>
                  let finalize_depth = unat (sat_sub max_reorg_depth 1)
                  in if header_number best_header \<le> finalize_depth then (Inr (), x)
                     else case cl_hash cl x (header_number best_header - finalize_depth) of
                       Inl e \<Rightarrow> (Inl (Consensus_Other e), x)
                     | Inr None \<Rightarrow> (Inl (Consensus_Other ''No block found''), x)
                     | Inr (Some finalize_hash) \<Rightarrow>
                         (case cl_finalize_block cl finalize_hash x of
                            Inl e \<Rightarrow> (Inl (Consensus_Other e), x)
                          | Inr x' \<Rightarrow> (Inr (), x'))))"

text \<open>The task that finalizes after every import notification; a failure is logged and the
  task goes on. Between two notifications the client moves on as it likes (\<open>steps\<close>).\<close>

fun finalization_task :: "'x client_ops \<Rightarrow> ('x \<Rightarrow> 'x) list \<Rightarrow> 'x \<Rightarrow> 'x" where
  "finalization_task cl [] x = x"
| "finalization_task cl (step # steps) x =
     finalization_task cl steps (snd (finalize_canonical_at_depth cl (step x)))"

section \<open>The algorithm and the miner\<close>

datatype block_id = BlockId_Hash h256 | BlockId_Number nat

datatype pow_error = Pow_Runtime string | Pow_Panicked

definition algorithm_difficulty :: "'x client_ops \<Rightarrow> 'x \<Rightarrow> h256 \<Rightarrow> pow_error + u512" where
  "algorithm_difficulty cl x parent =
     (case cl_difficulty cl x parent of
        Inl e \<Rightarrow> Inl (Pow_Runtime ''Failed to fetch difficulty'')
      | Inr d \<Rightarrow> Inr d)"

definition extract_block_hash :: "block_id \<Rightarrow> pow_error + h256" where
  "extract_block_hash parent =
     (case parent of
        BlockId_Hash h \<Rightarrow> Inr h
      | BlockId_Number _ \<Rightarrow> Inl (Pow_Runtime ''Expected BlockId::Hash, but got BlockId::Number''))"

definition algorithm_verify ::
    "'x client_ops \<Rightarrow> 'x \<Rightarrow> block_id \<Rightarrow> h256 \<Rightarrow> bytes option \<Rightarrow> bytes \<Rightarrow> u512 \<Rightarrow> pow_error + bool" where
  "algorithm_verify cl x parent pre_hash pre_digest seal difficulty =
     (if length seal \<noteq> 64 then Inl Pow_Panicked
      else case extract_block_hash parent of
        Inl e \<Rightarrow> Inr False
      | Inr parent' \<Rightarrow>
          (case cl_verify_for_import cl x parent' (to_be 32 pre_hash) seal of
             Inl e \<Rightarrow> Inl (Pow_Runtime e)
           | Inr valid \<Rightarrow> if \<not> valid then Inr False else Inr True))"

text \<open>The seal a local nonce becomes, or nothing.\<close>

definition try_nonce :: "'x client_ops \<Rightarrow> 'x \<Rightarrow> h256 \<Rightarrow> h256 \<Rightarrow> bytes \<Rightarrow> bytes option" where
  "try_nonce cl x parent pre_hash nonce =
     (case cl_submit_nonce cl x parent (to_be 32 pre_hash) nonce of
        Inr True \<Rightarrow> Some nonce
      | Inr False \<Rightarrow> None
      | Inl e \<Rightarrow> None)"

section \<open>What the code relies on in the client\<close>

text \<open>Headers form a tree under one genesis header, whose number is zero: a header answers for
  its own hash, and the parent of a header of number \<open>n + 1\<close> is a header of number \<open>n\<close>.\<close>

definition header_tree :: "'x client_ops \<Rightarrow> 'x \<Rightarrow> h256 \<Rightarrow> bool" where
  "header_tree cl x genesis \<longleftrightarrow>
     (\<forall>h header. cl_header cl x h = Inr (Some header) \<longrightarrow>
        header_hash header = h \<and>
        (header_number header = 0 \<longrightarrow> h = genesis) \<and>
        (0 < header_number header \<longrightarrow>
           (\<exists>p. cl_header cl x (parent_hash header) = Inr (Some p) \<and>
              header_number header = Suc (header_number p))))"

definition same_queries :: "'x client_ops \<Rightarrow> 'x \<Rightarrow> 'x \<Rightarrow> bool" where
  "same_queries cl x y \<longleftrightarrow>
     cl_header cl y = cl_header cl x \<and> cl_total_work cl y = cl_total_work cl x \<and>
     cl_max_reorg_depth cl y = cl_max_reorg_depth cl x"

text \<open>The auxiliary store keeps what is inserted, and an insertion touches nothing else.\<close>

definition aux_store_law :: "'x client_ops \<Rightarrow> bool" where
  "aux_store_law cl \<longleftrightarrow>
     (\<forall>key v x x'. cl_insert_aux cl key v x = Inr x' \<longrightarrow>
        cl_get_aux cl x' key = Inr (Some v) \<and>
        (\<forall>key'. key' \<noteq> key \<longrightarrow> cl_get_aux cl x' key' = cl_get_aux cl x key') \<and>
        same_queries cl x x')"

section \<open>Ancestors\<close>

fun nth_parent :: "'x client_ops \<Rightarrow> 'x \<Rightarrow> nat \<Rightarrow> h256 \<Rightarrow> h256 option" where
  "nth_parent cl x 0 h = Some h"
| "nth_parent cl x (Suc k) h =
     (case cl_header cl x h of
        Inr (Some header) \<Rightarrow> nth_parent cl x k (parent_hash header)
      | _ \<Rightarrow> None)"

definition numbered :: "'x client_ops \<Rightarrow> 'x \<Rightarrow> h256 \<Rightarrow> nat \<Rightarrow> bool" where
  "numbered cl x h n \<longleftrightarrow> (\<exists>header. cl_header cl x h = Inr (Some header) \<and> header_number header = n)"

definition ancestor :: "'x client_ops \<Rightarrow> 'x \<Rightarrow> h256 \<Rightarrow> h256 \<Rightarrow> bool" where
  "ancestor cl x a h \<longleftrightarrow> (\<exists>n k. numbered cl x h n \<and> k \<le> n \<and> nth_parent cl x k h = Some a)"

lemma header_tree_parent:
  assumes "header_tree cl x g" "cl_header cl x h = Inr (Some header)" "header_number header = Suc n"
  shows "numbered cl x (parent_hash header) n"
  using assms unfolding header_tree_def numbered_def by fastforce

lemma numbered_unique: "numbered cl x h n \<Longrightarrow> numbered cl x h m \<Longrightarrow> n = m"
  by (auto simp: numbered_def)

lemma nth_parent_add:
  "nth_parent cl x (j + k) h = Option.bind (nth_parent cl x j h) (nth_parent cl x k)"
  by (induction j arbitrary: h) (auto split: sum.splits option.splits)

lemma nth_parent_numbered:
  assumes tree: "header_tree cl x g"
  shows "numbered cl x h n \<Longrightarrow> k \<le> n \<Longrightarrow> \<exists>a. nth_parent cl x k h = Some a \<and> numbered cl x a (n - k)"
proof (induction k arbitrary: h n)
  case 0
  then show ?case by simp
next
  case (Suc k)
  obtain header where h: "cl_header cl x h = Inr (Some header)" "header_number header = n"
    using Suc.prems(1) by (auto simp: numbered_def)
  obtain m where m: "n = Suc m" using Suc.prems(2) by (cases n) auto
  have "numbered cl x (parent_hash header) m"
    using header_tree_parent [OF tree h(1)] h(2) m by simp
  from Suc.IH [OF this] show ?case using h(1) m Suc.prems(2) by auto
qed

lemma ancestor_number:
  assumes tree: "header_tree cl x g" and a: "ancestor cl x a h" and h: "numbered cl x h n"
  shows "\<exists>m\<le>n. numbered cl x a m \<and> nth_parent cl x (n - m) h = Some a"
proof -
  obtain k where k: "k \<le> n" "nth_parent cl x k h = Some a"
    using a h numbered_unique unfolding ancestor_def by metis
  obtain b where "nth_parent cl x k h = Some b" "numbered cl x b (n - k)"
    using nth_parent_numbered [OF tree h k(1)] by blast
  then show ?thesis using k by (intro exI [of _ "n - k"]) auto
qed

section \<open>The common ancestor\<close>

lemma require_header_numbered:
  assumes "numbered cl x h n"
  obtains header where "require_header cl x h msg = Inr header"
    "cl_header cl x h = Inr (Some header)" "header_number header = n"
  using assms by (auto simp: numbered_def require_header_def)

lemma lower_current_result:
  assumes tree: "header_tree cl x g" and c: "numbered cl x competing m"
  shows "numbered cl x current n \<Longrightarrow> m \<le> n \<Longrightarrow>
    \<exists>a. lower_current cl x current competing n m d = Inr (Inr (a, m, d + (n - m))) \<and>
      nth_parent cl x (n - m) current = Some a \<and> numbered cl x a m"
proof (induction "n - m" arbitrary: current n d)
  case 0
  then show ?case by (subst lower_current.simps) auto
next
  case (Suc k)
  then obtain n' where n: "n = Suc n'" and n': "m \<le> n'" "k = n' - m" by (cases n) auto
  obtain hd where hd: "require_header cl x current ''Missing header'' = Inr hd"
      "cl_header cl x current = Inr (Some hd)" "header_number hd = n"
    by (rule require_header_numbered [OF Suc.prems(1)])
  have p: "numbered cl x (parent_hash hd) n'"
    using header_tree_parent [OF tree hd(2)] hd(3) n by simp
  obtain a where a: "lower_current cl x (parent_hash hd) competing n' m (Suc d) =
        Inr (Inr (a, m, Suc d + (n' - m)))"
      "nth_parent cl x (n' - m) (parent_hash hd) = Some a" "numbered cl x a m"
    using Suc.hyps(1) [OF n'(2) p n'(1)] by blast
  have "current \<noteq> competing" using numbered_unique [OF Suc.prems(1)] c Suc.hyps(2) by auto
  moreover have "m < n" using Suc.hyps(2) by simp
  ultimately have "lower_current cl x current competing n m d
      = lower_current cl x (parent_hash hd) competing n' m (Suc d)"
    using hd(1) n by (subst lower_current.simps) simp
  moreover have "n - m = Suc (n' - m)" using n n' by simp
  ultimately show ?case using a hd(2) by simp
qed

lemma lower_current_skip:
  "n \<le> m \<Longrightarrow> lower_current cl x current competing n m d = Inr (Inr (current, n, d))"
  by (subst lower_current.simps) simp

lemma lower_competing_result:
  assumes tree: "header_tree cl x g"
  shows "numbered cl x competing n \<Longrightarrow> m \<le> n \<Longrightarrow>
    \<exists>a. lower_competing cl x competing m n d = Inr (a, d + (n - m)) \<and>
      nth_parent cl x (n - m) competing = Some a \<and> numbered cl x a m"
proof (induction "n - m" arbitrary: competing n d)
  case 0
  then show ?case by (subst lower_competing.simps) auto
next
  case (Suc k)
  then obtain n' where n: "n = Suc n'" and n': "m \<le> n'" "k = n' - m" by (cases n) auto
  obtain hd where hd: "require_header cl x competing ''Missing header'' = Inr hd"
      "cl_header cl x competing = Inr (Some hd)" "header_number hd = n"
    by (rule require_header_numbered [OF Suc.prems(1)])
  have p: "numbered cl x (parent_hash hd) n'"
    using header_tree_parent [OF tree hd(2)] hd(3) n by simp
  obtain a where a: "lower_competing cl x (parent_hash hd) m n' (Suc d) = Inr (a, Suc d + (n' - m))"
      "nth_parent cl x (n' - m) (parent_hash hd) = Some a" "numbered cl x a m"
    using Suc.hyps(1) [OF n'(2) p n'(1)] by blast
  have "m < n" using Suc.hyps(2) by simp
  then have "lower_competing cl x competing m n d = lower_competing cl x (parent_hash hd) m n' (Suc d)"
    using hd(1) n by (subst lower_competing.simps) simp
  moreover have "n - m = Suc (n' - m)" using n n' by simp
  ultimately show ?case using a hd(2) by simp
qed

lemma lower_both_result:
  assumes tree: "header_tree cl x g"
  shows "numbered cl x a n \<Longrightarrow> numbered cl x b n \<Longrightarrow>
    \<exists>j f. lower_both cl x a b n d = Inr (f, d + j) \<and> j \<le> n \<and>
      nth_parent cl x j a = Some f \<and> nth_parent cl x j b = Some f \<and>
      (\<forall>i<j. nth_parent cl x i a \<noteq> nth_parent cl x i b)"
proof (induction n arbitrary: a b d)
  case 0
  have "a = b" using tree 0 unfolding header_tree_def numbered_def by metis
  then show ?case by (subst lower_both.simps) simp
next
  case (Suc n)
  show ?case
  proof (cases "a = b")
    case True
    then show ?thesis by (subst lower_both.simps) (auto intro: exI [of _ "0 :: nat"])
  next
    case False
    obtain ha where ha: "require_header cl x a ''Missing header'' = Inr ha"
        "cl_header cl x a = Inr (Some ha)" "header_number ha = Suc n"
      by (rule require_header_numbered [OF Suc.prems(1)])
    obtain hb where hb: "require_header cl x b ''Missing header'' = Inr hb"
        "cl_header cl x b = Inr (Some hb)" "header_number hb = Suc n"
      by (rule require_header_numbered [OF Suc.prems(2)])
    obtain j f where jf: "lower_both cl x (parent_hash ha) (parent_hash hb) n (Suc d) = Inr (f, Suc d + j)"
        "j \<le> n" "nth_parent cl x j (parent_hash ha) = Some f" "nth_parent cl x j (parent_hash hb) = Some f"
        "\<forall>i<j. nth_parent cl x i (parent_hash ha) \<noteq> nth_parent cl x i (parent_hash hb)"
      using Suc.IH [OF header_tree_parent [OF tree ha(2,3)] header_tree_parent [OF tree hb(2,3)]]
      by blast
    have "lower_both cl x a b (Suc n) d = Inr (f, d + Suc j)"
      using False ha(1) hb(1) jf(1) by (subst lower_both.simps) simp
    moreover have "nth_parent cl x i a \<noteq> nth_parent cl x i b" if "i < Suc j" for i
      using that jf(5) False ha(2) hb(2) by (cases i) auto
    moreover have "nth_parent cl x (Suc j) a = Some f" "nth_parent cl x (Suc j) b = Some f" "Suc j \<le> Suc n"
      using jf ha(2) hb(2) by auto
    ultimately show ?thesis by blast
  qed
qed

definition highest_common :: "'x client_ops \<Rightarrow> 'x \<Rightarrow> h256 \<Rightarrow> h256 \<Rightarrow> h256 \<Rightarrow> nat \<Rightarrow> bool" where
  "highest_common cl x a b f nf \<longleftrightarrow>
     numbered cl x f nf \<and> ancestor cl x f a \<and> ancestor cl x f b \<and>
     (\<forall>g ng. ancestor cl x g a \<and> ancestor cl x g b \<and> numbered cl x g ng \<longrightarrow> ng \<le> nf)"

lemma highest_common_aligned:
  assumes tree: "header_tree cl x g" and a: "numbered cl x a na" and b: "numbered cl x b nb"
    and m: "m = min na nb"
    and a': "nth_parent cl x (na - m) a = Some a'" and b': "nth_parent cl x (nb - m) b = Some b'"
    and n': "numbered cl x a' m" "numbered cl x b' m"
    and j: "j \<le> m" "nth_parent cl x j a' = Some f" "nth_parent cl x j b' = Some f"
      "\<forall>i<j. nth_parent cl x i a' \<noteq> nth_parent cl x i b'"
  shows "highest_common cl x a b f (m - j)"
proof -
  have via: "nth_parent cl x (na - m + i) a = nth_parent cl x i a'"
    "nth_parent cl x (nb - m + i) b = nth_parent cl x i b'" for i
    using a' b' by (simp_all add: nth_parent_add)
  have "numbered cl x f (m - j)"
    using nth_parent_numbered [OF tree n'(1) j(1)] j(2) by auto
  moreover have "na - m + j \<le> na" "nb - m + j \<le> nb" using j(1) m by auto
  then have "ancestor cl x f a" "ancestor cl x f b"
    unfolding ancestor_def using a b trans [OF via(1) j(2)] trans [OF via(2) j(3)] by blast+
  moreover have "ng \<le> m - j"
    if g: "ancestor cl x h a" "ancestor cl x h b" "numbered cl x h ng" for h ng
  proof (rule ccontr)
    assume "\<not> ng \<le> m - j"
    obtain k where k: "k \<le> na" "numbered cl x h k" "nth_parent cl x (na - k) a = Some h"
      using ancestor_number [OF tree g(1) a] by blast
    obtain l where l: "l \<le> nb" "numbered cl x h l" "nth_parent cl x (nb - l) b = Some h"
      using ancestor_number [OF tree g(2) b] by blast
    have kl: "k = ng" "l = ng"
      by (rule numbered_unique [OF k(2) g(3)], rule numbered_unique [OF l(2) g(3)])
    then have "ng \<le> m" using k(1) l(1) m by simp
    then have "na - ng = na - m + (m - ng)" "nb - ng = nb - m + (m - ng)" using m by auto
    then have "nth_parent cl x (m - ng) a' = nth_parent cl x (m - ng) b'"
      using via [of "m - ng"] k(3) l(3) kl by simp
    moreover have "m - ng < j" using \<open>\<not> ng \<le> m - j\<close> \<open>ng \<le> m\<close> j(1) by linarith
    ultimately show False using j(4) by blast
  qed
  ultimately show ?thesis unfolding highest_common_def by blast
qed

lemma header_numbered:
  assumes "header_tree cl x g" "cl_header cl x h = Inr (Some a)"
  shows "header_hash a = h" "numbered cl x h (header_number a)"
  using assms by (auto simp: header_tree_def numbered_def)

lemma find_common_ancestor_result:
  assumes tree: "header_tree cl x g"
    and a: "cl_header cl x ha = Inr (Some a)" and b: "cl_header cl x hb = Inr (Some b)"
  shows "\<exists>f nf. find_common_ancestor_and_depth cl x a b =
      Inr (f, max (header_number a) (header_number b) - nf) \<and>
    highest_common cl x ha hb f nf \<and> nf \<le> min (header_number a) (header_number b)"
proof -
  let ?na = "header_number a" and ?nb = "header_number b"
  have na: "header_hash a = ha" "numbered cl x ha ?na" and nb: "header_hash b = hb" "numbered cl x hb ?nb"
    using header_numbered [OF tree a] header_numbered [OF tree b] by auto
  show ?thesis
  proof (cases "ha = hb")
    case True
    then have "a = b" using a b by simp
    have n0: "nth_parent cl x 0 ha = Some ha" "nth_parent cl x (?na - ?na) ha = Some ha" by simp_all
    have "highest_common cl x ha ha ha (?na - 0)"
      by (rule highest_common_aligned [OF tree na(2) na(2), of ?na ha ha 0]) (use na in simp_all)
    then show ?thesis using True \<open>a = b\<close> na
      by (intro exI [of _ ha] exI [of _ ?na]) (simp add: find_common_ancestor_and_depth_def)
  next
    case False
    define m where "m = min ?na ?nb"
    obtain a' where a': "lower_current cl x ha hb ?na ?nb 0 = Inr (Inr (a', m, ?na - m))"
        "nth_parent cl x (?na - m) ha = Some a'" "numbered cl x a' m"
    proof (cases "?nb \<le> ?na")
      case True
      then show ?thesis
        using that lower_current_result [OF tree nb(2) na(2) True, of 0] by (simp add: m_def) blast
    next
      case False
      then show ?thesis
        using that [of ha] lower_current_skip [of ?na ?nb cl x ha hb 0] na(2) by (simp add: m_def)
    qed
    have mb: "m \<le> ?nb" by (simp add: m_def)
    obtain b' where b': "lower_competing cl x hb m ?nb (?na - m) = Inr (b', ?na - m + (?nb - m))"
        "nth_parent cl x (?nb - m) hb = Some b'" "numbered cl x b' m"
      using lower_competing_result [OF tree nb(2) mb] by blast
    obtain j f where j: "lower_both cl x a' b' m (?na - m + (?nb - m)) = Inr (f, ?na - m + (?nb - m) + j)"
        "j \<le> m" "nth_parent cl x j a' = Some f" "nth_parent cl x j b' = Some f"
        "\<forall>i<j. nth_parent cl x i a' \<noteq> nth_parent cl x i b'"
      using lower_both_result [OF tree a'(3) b'(3)] by blast
    have "highest_common cl x ha hb f (m - j)"
      by (rule highest_common_aligned [OF tree na(2) nb(2) m_def a'(2) b'(2) a'(3) b'(3) j(2-5)])
    moreover have "find_common_ancestor_and_depth cl x a b = Inr (f, ?na - m + (?nb - m) + j)"
      using False a'(1) b'(1) j(1) na(1) nb(1)
      by (simp add: find_common_ancestor_and_depth_def Let_def)
    moreover have "?na - m + (?nb - m) + j = max ?na ?nb - (m - j)"
      using j(2) by (auto simp: m_def)
    moreover have "m - j \<le> min ?na ?nb" unfolding m_def by (rule diff_le_self)
    ultimately show ?thesis by (intro exI [of _ f] exI [of _ "m - j"]) simp
  qed
qed

lemma highest_common_self:
  assumes "header_tree cl x g" "ancestor cl x a b" "numbered cl x a n" "highest_common cl x a b f nf"
  shows "f = a \<and> nf = n"
proof -
  have "ancestor cl x a a" using assms(3) unfolding ancestor_def
    by (intro exI [of _ n] exI [of _ "0 :: nat"]) simp
  then have "n \<le> nf" using assms(2-4) by (auto simp: highest_common_def)
  moreover have "ancestor cl x f a" using assms(4) by (simp add: highest_common_def)
  then obtain m where m: "m \<le> n" "numbered cl x f m" "nth_parent cl x (n - m) a = Some f"
    using ancestor_number [OF assms(1) _ assms(3)] by metis
  moreover have "numbered cl x f nf" using assms(4) by (simp add: highest_common_def)
  then have "m = nf" by (rule numbered_unique [OF m(2)])
  ultimately show ?thesis by simp
qed

section \<open>The selection loop\<close>

lemma ignored_chain_key_inj: "ignored_chain_key a = ignored_chain_key b \<longleftrightarrow> a = b"
proof
  assume "ignored_chain_key a = ignored_chain_key b"
  then have "to_be 32 a = to_be 32 b" by (simp add: ignored_chain_key_def)
  then have "from_be (to_be 32 a) = (from_be (to_be 32 b) :: h256)" by simp
  then show "a = b" by (simp add: from_be_to_be)
qed simp

definition ignored :: "'x client_ops \<Rightarrow> 'x \<Rightarrow> h256 \<Rightarrow> bool" where
  "ignored cl x h \<longleftrightarrow> is_chain_ignored cl x h = Inr True"

definition reorg_depth_of :: "'x client_ops \<Rightarrow> 'x \<Rightarrow> header \<Rightarrow> h256 \<Rightarrow> nat \<Rightarrow> bool" where
  "reorg_depth_of cl x current_best h d \<longleftrightarrow>
     (\<exists>header f. cl_header cl x h = Inr (Some header) \<and>
        find_common_ancestor_and_depth cl x current_best header = Inr (f, d))"

lemma same_queries_refl [simp]: "same_queries cl x x"
  by (simp add: same_queries_def)

lemma same_queries_trans: "same_queries cl x y \<Longrightarrow> same_queries cl y z \<Longrightarrow> same_queries cl x z"
  by (simp add: same_queries_def)

lemma require_header_cong:
  "cl_header cl y = cl_header cl x \<Longrightarrow> require_header cl y = require_header cl x"
  by (intro ext) (simp add: require_header_def)

lemma lower_current_cong:
  assumes "cl_header cl y = cl_header cl x"
  shows "lower_current cl y a b n m d = lower_current cl x a b n m d"
proof (induction "n" arbitrary: a d)
  case 0
  then show ?case by (simp add: lower_current.simps)
next
  case (Suc n)
  then show ?case
    by (subst (1 2) lower_current.simps)
       (simp add: require_header_cong [OF assms] split: sum.split)
qed

lemma lower_competing_cong:
  assumes "cl_header cl y = cl_header cl x"
  shows "lower_competing cl y b m n d = lower_competing cl x b m n d"
proof (induction "n" arbitrary: b d)
  case 0
  then show ?case by (simp add: lower_competing.simps)
next
  case (Suc n)
  then show ?case
    by (subst (1 2) lower_competing.simps)
       (simp add: require_header_cong [OF assms] split: sum.split)
qed

lemma lower_both_cong:
  assumes "cl_header cl y = cl_header cl x"
  shows "lower_both cl y a b n d = lower_both cl x a b n d"
proof (induction "n" arbitrary: a b d)
  case 0
  then show ?case by (simp add: lower_both.simps)
next
  case (Suc n)
  then show ?case
    by (subst (1 2) lower_both.simps)
       (simp add: require_header_cong [OF assms] split: sum.split)
qed

lemma find_common_ancestor_cong:
  assumes "cl_header cl y = cl_header cl x"
  shows "find_common_ancestor_and_depth cl y = find_common_ancestor_and_depth cl x"
  by (intro ext) (auto simp: find_common_ancestor_and_depth_def Let_def lower_current_cong [OF assms]
      lower_competing_cong [OF assms] lower_both_cong [OF assms] split: sum.split prod.split)

lemma reorg_depth_of_cong:
  "same_queries cl x y \<Longrightarrow> reorg_depth_of cl y = reorg_depth_of cl x"
proof (intro ext)
  fix cb h d
  assume "same_queries cl x y"
  then have e: "cl_header cl y = cl_header cl x" by (simp add: same_queries_def)
  show "reorg_depth_of cl y cb h d = reorg_depth_of cl x cb h d"
    unfolding reorg_depth_of_def find_common_ancestor_cong [OF e] e ..
qed

lemma add_ignored_chain_result:
  assumes law: "aux_store_law cl" and a: "add_ignored_chain cl h x = (Inr u, x')"
  shows "same_queries cl x x'" "ignored cl x' k \<longleftrightarrow> k = h \<or> ignored cl x k"
proof -
  have "cl_insert_aux cl (ignored_chain_key h) [] x = Inr x'"
    using a by (auto simp: add_ignored_chain_def split: sum.splits)
  then have l: "cl_get_aux cl x' (ignored_chain_key h) = Inr (Some [])"
      "\<And>key. key \<noteq> ignored_chain_key h \<Longrightarrow> cl_get_aux cl x' key = cl_get_aux cl x key"
      "same_queries cl x x'"
    using law unfolding aux_store_law_def by blast+
  show "same_queries cl x x'" by (rule l(3))
  show "ignored cl x' k \<longleftrightarrow> k = h \<or> ignored cl x k"
    using l(1) l(2) [of "ignored_chain_key k"]
    by (cases "k = h") (simp_all add: ignored_def is_chain_ignored_def ignored_chain_key_inj)
qed

text \<open>What one round of the loop does, when it does not fail.\<close>

definition leaf_step ::
    "'x client_ops \<Rightarrow> nat \<Rightarrow> header \<Rightarrow> h256 \<Rightarrow> header \<times> u512 \<Rightarrow> 'x \<Rightarrow> header \<times> u512 \<Rightarrow> 'x \<Rightarrow> bool" where
  "leaf_step cl md cb leaf best x best' x' \<longleftrightarrow>
     same_queries cl x x' \<and> snd best \<le> snd best' \<and>
     (best' = best \<or>
       (\<not> ignored cl x leaf \<and> cl_header cl x leaf = Inr (Some (fst best')) \<and>
        cl_total_work cl x (header_hash (fst best')) = Inr (snd best') \<and>
        (\<exists>d\<le>md. reorg_depth_of cl x cb leaf d))) \<and>
     (\<forall>h. ignored cl x' h \<longrightarrow> ignored cl x h \<or>
        h = leaf \<and> (\<exists>d>md. reorg_depth_of cl x cb leaf d)) \<and>
     (\<forall>h. ignored cl x h \<longrightarrow> ignored cl x' h) \<and>
     (leaf = header_hash (fst best) \<or> ignored cl x' leaf \<or>
       (\<exists>header w. cl_header cl x leaf = Inr (Some header) \<and>
          cl_total_work cl x (header_hash header) = Inr w \<and> w \<le> snd best'))"

lemma ignored_add_step:
  assumes law: "aux_store_law cl"
    and a: "and_then (add_ignored_chain cl leaf) (\<lambda>_. ret best) x = (Inr best', x')"
    and d: "reorg_depth_of cl x cb leaf d" "md < d"
  shows "leaf_step cl md cb leaf best x best' x'"
proof -
  obtain u where u: "add_ignored_chain cl leaf x = (Inr u, x')" "best' = best"
    using a by (auto simp: and_then_Inr)
  show ?thesis
    using add_ignored_chain_result [OF law u(1)] d u(2) unfolding leaf_step_def by auto
qed

lemma consider_leaf_step:
  assumes law: "aux_store_law cl" and md: "\<forall>h. cl_max_reorg_depth cl x h = Inr md"
    and c: "consider_leaf cl cb leaf best x = (Inr best', x')"
  shows "leaf_step cl (unat md) cb leaf best x best' x'"
proof -
  obtain bh bw where b: "best = (bh, bw)" by (cases best)
  consider (same) "leaf = header_hash bh" | (skip) "leaf \<noteq> header_hash bh" "ignored cl x leaf"
    | (new) "leaf \<noteq> header_hash bh" "is_chain_ignored cl x leaf = Inr False"
    using c b unfolding consider_leaf_def ignored_def
    by (cases "leaf = header_hash bh") (auto split: sum.splits bool.splits)
  then show ?thesis
  proof cases
    case same
    then have "best' = best" "x' = x" using c b by (simp_all add: consider_leaf_def)
    then show ?thesis using same b by (simp add: leaf_step_def)
  next
    case skip
    then show ?thesis using c b by (simp add: consider_leaf_def leaf_step_def ignored_def)
  next
    case new
    then have ni: "\<not> ignored cl x leaf" by (simp add: ignored_def)
    obtain hd where hd: "require_header cl x leaf ''Missing header'' = Inr hd"
      using c b new by (auto simp: consider_leaf_def split: sum.splits)
    then have hd': "cl_header cl x leaf = Inr (Some hd)"
      by (auto simp: require_header_def split: sum.splits option.splits)
    obtain w where w: "calculate_chain_work cl x hd = Inr w"
      using c b new hd by (auto simp: consider_leaf_def split: sum.splits)
    then have w': "cl_total_work cl x (header_hash hd) = Inr w"
      by (auto simp: calculate_chain_work_def split: sum.splits)
    obtain f d where fd: "find_common_ancestor_and_depth cl x cb hd = Inr (f, d)"
      using c b new hd w md by (auto simp: consider_leaf_def split: sum.splits)
    have dep: "reorg_depth_of cl x cb leaf d"
      using hd' fd by (auto simp: reorg_depth_of_def)
    have "consider_leaf cl cb leaf best x = (if bw \<le> w
        then if d \<le> unat md
             then if w = bw then if header_number bh < header_number hd then (Inr (hd, bw), x) else (Inr best, x)
                  else (Inr (hd, w), x)
             else and_then (add_ignored_chain cl leaf) (\<lambda>_. ret best) x
        else if unat md < d then and_then (add_ignored_chain cl leaf) (\<lambda>_. ret best) x
             else (Inr best, x))"
      using b new hd w md fd by (simp add: consider_leaf_def)
    note c' = trans [OF this [symmetric] c]
    show ?thesis
    proof (cases "unat md < d")
      case True
      then have "and_then (add_ignored_chain cl leaf) (\<lambda>_. ret best) x = (Inr best', x')"
        using c' by (auto split: if_splits)
      from ignored_add_step [OF law this dep True] show ?thesis .
    next
      case False
      then show ?thesis using c' b hd' w' dep ni
        by (auto simp: leaf_step_def not_less split: if_splits)
    qed
  qed
qed

text \<open>What the loop keeps: \<open>x0\<close> is the client before it, \<open>ls\<close> the leaves seen so far.\<close>

definition selection_inv ::
    "'x client_ops \<Rightarrow> nat \<Rightarrow> header \<Rightarrow> u512 \<Rightarrow> 'x \<Rightarrow> h256 list \<Rightarrow> header \<times> u512 \<Rightarrow> 'x \<Rightarrow> bool" where
  "selection_inv cl md cb w0 x0 ls best x \<longleftrightarrow>
     same_queries cl x0 x \<and> w0 \<le> snd best \<and>
     cl_total_work cl x0 (header_hash (fst best)) = Inr (snd best) \<and>
     (fst best = cb \<or>
       (\<exists>leaf\<in>set ls. \<not> ignored cl x0 leaf \<and> cl_header cl x0 leaf = Inr (Some (fst best)) \<and>
          (\<exists>d\<le>md. reorg_depth_of cl x0 cb leaf d))) \<and>
     (\<forall>h. ignored cl x0 h \<longrightarrow> ignored cl x h) \<and>
     (\<forall>h. ignored cl x h \<longrightarrow> ignored cl x0 h \<or> h \<in> set ls \<and> (\<exists>d>md. reorg_depth_of cl x0 cb h d)) \<and>
     (\<forall>leaf\<in>set ls. ignored cl x leaf \<or>
       (\<exists>w. cl_total_work cl x0 leaf = Inr w \<and> w \<le> snd best))"

lemma selection_inv_step:
  assumes tree: "header_tree cl x0 g"
    and inv: "selection_inv cl md cb w0 x0 ls best x"
    and st: "leaf_step cl md cb leaf best x best' x'"
  shows "selection_inv cl md cb w0 x0 (ls @ [leaf]) best' x'"
proof -
  have sq: "same_queries cl x0 x" using inv by (simp add: selection_inv_def)
  then have q: "cl_header cl x = cl_header cl x0" "cl_total_work cl x = cl_total_work cl x0"
    by (simp_all add: same_queries_def)
  note rd = reorg_depth_of_cong [OF sq]
  have le: "snd best \<le> snd best'" using st by (simp add: leaf_step_def)
  have "\<not> ignored cl x leaf \<Longrightarrow> \<not> ignored cl x0 leaf" using inv by (auto simp: selection_inv_def)
  then have chosen: "best' = best \<or> \<not> ignored cl x0 leaf \<and> cl_header cl x0 leaf = Inr (Some (fst best')) \<and>
      cl_total_work cl x0 (header_hash (fst best')) = Inr (snd best') \<and>
      (\<exists>d\<le>md. reorg_depth_of cl x0 cb leaf d)"
    using st unfolding leaf_step_def q rd by blast
  have seen: "leaf = header_hash (fst best) \<or> ignored cl x' leaf \<or>
       (\<exists>w. cl_total_work cl x0 leaf = Inr w \<and> w \<le> snd best')"
    using st header_numbered(1) [OF tree] unfolding leaf_step_def q by metis
  have ign: "ignored cl x' h \<Longrightarrow> ignored cl x h \<or> h = leaf \<and> (\<exists>d>md. reorg_depth_of cl x0 cb leaf d)"
    "ignored cl x h \<Longrightarrow> ignored cl x' h" for h
    using st unfolding leaf_step_def rd by blast+
  have "same_queries cl x0 x'"
    using sq st same_queries_trans by (auto simp: leaf_step_def)
  moreover have "w0 \<le> snd best'" using inv le by (auto simp: selection_inv_def intro: order_trans)
  moreover have "cl_total_work cl x0 (header_hash (fst best')) = Inr (snd best')"
    using chosen inv by (auto simp: selection_inv_def)
  moreover have "fst best' = cb \<or>
       (\<exists>l\<in>set (ls @ [leaf]). \<not> ignored cl x0 l \<and> cl_header cl x0 l = Inr (Some (fst best')) \<and>
          (\<exists>d\<le>md. reorg_depth_of cl x0 cb l d))"
    using chosen inv by (auto simp: selection_inv_def)
  moreover have "\<forall>h. ignored cl x0 h \<longrightarrow> ignored cl x' h"
    using inv ign(2) by (simp add: selection_inv_def)
  moreover have "\<forall>h. ignored cl x' h \<longrightarrow> ignored cl x0 h \<or>
      h \<in> set (ls @ [leaf]) \<and> (\<exists>d>md. reorg_depth_of cl x0 cb h d)"
    using inv ign(1) unfolding selection_inv_def by fastforce
  moreover have "ignored cl x' l \<or> (\<exists>w. cl_total_work cl x0 l = Inr w \<and> w \<le> snd best')"
    if l: "l \<in> set (ls @ [leaf])" for l
  proof (cases "l = leaf")
    case True
    have "cl_total_work cl x0 (header_hash (fst best)) = Inr (snd best)"
      using inv by (simp add: selection_inv_def)
    then show ?thesis using seen le True by auto
  next
    case False
    then have "ignored cl x l \<or> (\<exists>w. cl_total_work cl x0 l = Inr w \<and> w \<le> snd best)"
      using l inv by (auto simp: selection_inv_def)
    then show ?thesis using ign(2) le order_trans by blast
  qed
  ultimately show ?thesis unfolding selection_inv_def by blast
qed

lemma best_chain_loop_inv:
  assumes law: "aux_store_law cl" and md: "\<forall>h. cl_max_reorg_depth cl x0 h = Inr md"
    and tree: "header_tree cl x0 g"
  shows "selection_inv cl (unat md) cb w0 x0 ls best x \<Longrightarrow>
    best_chain_loop cl cb leaves best x = (Inr chosen, x') \<Longrightarrow>
    \<exists>w. selection_inv cl (unat md) cb w0 x0 (ls @ leaves) (chosen, w) x'"
proof (induction leaves arbitrary: ls best x)
  case Nil
  then show ?case by (cases best) auto
next
  case (Cons leaf leaves)
  obtain best1 x1 where s: "consider_leaf cl cb leaf best x = (Inr best1, x1)"
      "best_chain_loop cl cb leaves best1 x1 = (Inr chosen, x')"
    using Cons.prems(2) by (auto simp: and_then_Inr)
  have "\<forall>h. cl_max_reorg_depth cl x h = Inr md"
    using Cons.prems(1) md by (simp add: selection_inv_def same_queries_def)
  from selection_inv_step [OF tree Cons.prems(1) consider_leaf_step [OF law this s(1)]]
  have "selection_inv cl (unat md) cb w0 x0 (ls @ [leaf]) best1 x1" .
  from Cons.IH [OF this s(2)] show ?case by simp
qed

lemma best_chain_selection:
  assumes law: "aux_store_law cl" and md: "\<forall>h. cl_max_reorg_depth cl x h = Inr md"
    and tree: "header_tree cl x g" and nb: "cl_best_hash cl x \<noteq> 0"
    and r: "best_chain cl x = (Inr chosen, x')"
  shows "\<exists>cb w0 w leaves. cl_leaves cl x = Inr leaves \<and>
    cl_header cl x (cl_best_hash cl x) = Inr (Some cb) \<and>
    cl_total_work cl x (header_hash cb) = Inr w0 \<and>
    selection_inv cl (unat md) cb w0 x leaves (chosen, w) x'"
proof -
  obtain leaves where l: "cl_leaves cl x = Inr leaves" "leaves \<noteq> []"
    using r by (auto simp: best_chain_def split: sum.splits if_splits)
  obtain cb where cb: "require_header cl x (cl_best_hash cl x) ''Missing current best header'' = Inr cb"
    using r l nb by (auto simp: best_chain_def split: sum.splits)
  then have cb': "cl_header cl x (cl_best_hash cl x) = Inr (Some cb)"
    by (auto simp: require_header_def split: sum.splits option.splits)
  obtain w0 where w0: "calculate_chain_work cl x cb = Inr w0"
    using r l nb cb by (auto simp: best_chain_def split: sum.splits)
  then have w0': "cl_total_work cl x (header_hash cb) = Inr w0"
    by (auto simp: calculate_chain_work_def split: sum.splits)
  have loop: "best_chain_loop cl cb leaves (cb, w0) x = (Inr chosen, x')"
    using r l nb cb w0 by (simp add: best_chain_def)
  have "selection_inv cl (unat md) cb w0 x [] (cb, w0) x"
    using w0' by (simp add: selection_inv_def)
  from best_chain_loop_inv [OF law md tree this loop] show ?thesis
    using l(1) cb' w0' by auto
qed

text \<open>A leaf that extends the current best by more than the allowed depth.\<close>

lemma long_extension_step:
  assumes tree: "header_tree cl x g" and md: "\<forall>h. cl_max_reorg_depth cl x h = Inr md"
    and cb: "cl_header cl x cbh = Inr (Some cb)" and leaf: "cl_header cl x leaf = Inr (Some lh)"
    and ext: "ancestor cl x cbh leaf" and far: "header_number cb + unat md < header_number lh"
    and ni: "is_chain_ignored cl x leaf = Inr False"
    and w: "cl_total_work cl x leaf = Inr w"
    and ins: "cl_insert_aux cl (ignored_chain_key leaf) [] x = Inr x'"
  shows "consider_leaf cl cb leaf (cb, w0) x = (Inr (cb, w0), x')"
proof -
  have n: "numbered cl x cbh (header_number cb)" "numbered cl x leaf (header_number lh)"
    "header_hash cb = cbh" "header_hash lh = leaf"
    using header_numbered [OF tree cb] header_numbered [OF tree leaf] by auto
  obtain f nf where f: "find_common_ancestor_and_depth cl x cb lh =
      Inr (f, max (header_number cb) (header_number lh) - nf)" "highest_common cl x cbh leaf f nf"
    using find_common_ancestor_result [OF tree cb leaf] by blast
  have "nf = header_number cb"
    using highest_common_self [OF tree ext n(1) f(2)] by simp
  then have fd: "find_common_ancestor_and_depth cl x cb lh = Inr (f, header_number lh - header_number cb)"
    using f(1) far by (simp add: max_def)
  have "unat md < header_number lh - header_number cb" using far by linarith
  moreover have "leaf \<noteq> cbh" using far cb leaf by auto
  moreover have "add_ignored_chain cl leaf x = (Inr (), x')" using ins by (simp add: add_ignored_chain_def)
  moreover have "require_header cl x leaf ''Missing header'' = Inr lh"
    using leaf by (simp add: require_header_def)
  ultimately show ?thesis using n fd far ni md w
    by (simp add: consider_leaf_def calculate_chain_work_def and_then_def)
qed

section \<open>A concrete client\<close>

text \<open>A chain of headers 1 (the genesis), 2, 3, 4 and a fork 5 on the genesis; the client state is
  the auxiliary store and the number of the last finalized block's hash.\<close>

type_synonym toy_state = "(bytes \<Rightarrow> bytes option) \<times> h256"

definition toy_header_at :: "h256 \<Rightarrow> header option" where
  "toy_header_at h =
     (if h = 1 then Some \<lparr> header_hash = 1, header_number = 0, parent_hash = 0 \<rparr>
      else if h = 2 then Some \<lparr> header_hash = 2, header_number = 1, parent_hash = 1 \<rparr>
      else if h = 3 then Some \<lparr> header_hash = 3, header_number = 2, parent_hash = 2 \<rparr>
      else if h = 4 then Some \<lparr> header_hash = 4, header_number = 3, parent_hash = 3 \<rparr>
      else if h = 5 then Some \<lparr> header_hash = 5, header_number = 1, parent_hash = 1 \<rparr>
      else None)"

definition toy_client :: "h256 \<Rightarrow> h256 list \<Rightarrow> u32 \<Rightarrow> toy_state client_ops" where
  "toy_client best leaves depth = \<lparr>
     cl_header = (\<lambda>x h. Inr (toy_header_at h)),
     cl_hash = (\<lambda>x n. Inr (if n = 0 then Some 1 else if n = 1 then Some 2 else if n = 2 then Some 3
       else if n = 3 then Some 4 else None)),
     cl_best_hash = (\<lambda>x. best), cl_leaves = (\<lambda>x. Inr leaves),
     cl_get_aux = (\<lambda>x key. Inr (fst x key)),
     cl_insert_aux = (\<lambda>key v x. Inr ((fst x)(key \<mapsto> v), snd x)),
     cl_finalize_block = (\<lambda>h x. Inr (fst x, h)),
     cl_total_work = (\<lambda>x h. Inr (ucast h)), cl_max_reorg_depth = (\<lambda>x h. Inr depth),
     cl_difficulty = (\<lambda>x h. Inr 4), cl_verify_for_import = (\<lambda>x p h n. Inr (n ! 0 = 7)),
     cl_submit_nonce = (\<lambda>x p h n. Inr (n ! 0 = 7)) \<rparr>"

lemma toy_client_tree: "header_tree (toy_client best leaves depth) x 1"
  by (auto simp: header_tree_def toy_client_def toy_header_at_def)

lemma toy_client_aux: "aux_store_law (toy_client best leaves depth)"
  by (auto simp: aux_store_law_def toy_client_def same_queries_def)
section \<open>Properties\<close>

text \<open>C20: On a tree of headers the search for the fork point returns, without an error and
  without missing the genesis: it gives the highest common ancestor of the two heads, and as
  reorg depth the larger of the two heights less the fork's height.\<close>

theorem common_ancestor_correct:
  assumes "header_tree cl x genesis"
    and "cl_header cl x ha = Inr (Some a)" and "cl_header cl x hb = Inr (Some b)"
  shows "\<exists>f nf. find_common_ancestor_and_depth cl x a b =
      Inr (f, max (header_number a) (header_number b) - nf) \<and>
    numbered cl x f nf \<and> ancestor cl x f ha \<and> ancestor cl x f hb \<and>
    (\<forall>g ng. ancestor cl x g ha \<and> ancestor cl x g hb \<and> numbered cl x g ng \<longrightarrow> ng \<le> nf)"
  using find_common_ancestor_result [OF assms] unfolding highest_common_def by blast

theorem common_ancestor_correct_witness:
  "\<exists>f nf. find_common_ancestor_and_depth (toy_client 4 [4, 5] 1) (Map.empty, 1)
      \<lparr> header_hash = 4, header_number = 3, parent_hash = 3 \<rparr>
      \<lparr> header_hash = 5, header_number = 1, parent_hash = 1 \<rparr> = Inr (f, 3 - nf)
    \<and> ancestor (toy_client 4 [4, 5] 1) (Map.empty, 1) f 5"
proof -
  have "cl_header (toy_client 4 [4, 5] 1) (Map.empty, 1) 4 =
      Inr (Some \<lparr> header_hash = 4, header_number = 3, parent_hash = 3 \<rparr>)"
    "cl_header (toy_client 4 [4, 5] 1) (Map.empty, 1) 5 =
      Inr (Some \<lparr> header_hash = 5, header_number = 1, parent_hash = 1 \<rparr>)"
    by (simp_all add: toy_client_def toy_header_at_def)
  from common_ancestor_correct [OF toy_client_tree this] show ?thesis by auto
qed

text \<open>C5: Chain selection is sound and complete for one maximal depth: the chosen head is the
  current best or a leaf that was not ignored and whose reorg depth against the current best
  is within the limit; it has at least the work of the current best and of every leaf that
  is not ignored afterwards; and the set of ignored heads only grows, by leaves whose reorg
  depth is beyond the limit.\<close>

theorem best_chain_correct:
  assumes "aux_store_law cl" and "\<forall>h. cl_max_reorg_depth cl x h = Inr md"
    and "header_tree cl x genesis" and "cl_best_hash cl x \<noteq> 0"
    and "best_chain cl x = (Inr chosen, x')"
  shows "\<exists>cb w0 w leaves. cl_leaves cl x = Inr leaves \<and>
    cl_header cl x (cl_best_hash cl x) = Inr (Some cb) \<and>
    cl_total_work cl x (header_hash cb) = Inr w0 \<and>
    cl_total_work cl x (header_hash chosen) = Inr w \<and> w0 \<le> w \<and>
    (chosen = cb \<or> (\<exists>leaf\<in>set leaves. \<not> ignored cl x leaf \<and>
       cl_header cl x leaf = Inr (Some chosen) \<and> (\<exists>d\<le>unat md. reorg_depth_of cl x cb leaf d))) \<and>
    (\<forall>leaf\<in>set leaves. ignored cl x' leaf \<or> (\<exists>v\<le>w. cl_total_work cl x leaf = Inr v)) \<and>
    (\<forall>h. ignored cl x h \<longrightarrow> ignored cl x' h) \<and>
    (\<forall>h. ignored cl x' h \<longrightarrow> ignored cl x h \<or>
       h \<in> set leaves \<and> (\<exists>d>unat md. reorg_depth_of cl x cb h d))"
proof -
  obtain cb w0 w leaves where *: "cl_leaves cl x = Inr leaves"
    "cl_header cl x (cl_best_hash cl x) = Inr (Some cb)"
    "cl_total_work cl x (header_hash cb) = Inr w0"
    "selection_inv cl (unat md) cb w0 x leaves (chosen, w) x'"
    using best_chain_selection [OF assms] by blast
  have inv: "w0 \<le> w" "cl_total_work cl x (header_hash chosen) = Inr w"
    "chosen = cb \<or> (\<exists>leaf\<in>set leaves. \<not> ignored cl x leaf \<and>
       cl_header cl x leaf = Inr (Some chosen) \<and> (\<exists>d\<le>unat md. reorg_depth_of cl x cb leaf d))"
    "\<forall>h. ignored cl x h \<longrightarrow> ignored cl x' h"
    "\<forall>h. ignored cl x' h \<longrightarrow> ignored cl x h \<or>
       h \<in> set leaves \<and> (\<exists>d>unat md. reorg_depth_of cl x cb h d)"
    using *(4) by (simp_all add: selection_inv_def)
  have "\<forall>leaf\<in>set leaves. ignored cl x' leaf \<or> (\<exists>v\<le>w. cl_total_work cl x leaf = Inr v)"
    using *(4) by (auto simp: selection_inv_def)
  with *(1-3) inv show ?thesis by blast
qed

lemma toy_fork:
  "find_common_ancestor_and_depth (toy_client b l d) x
      \<lparr> header_hash = 2, header_number = 1, parent_hash = 1 \<rparr>
      \<lparr> header_hash = 5, header_number = 1, parent_hash = 1 \<rparr> = Inr (1, 1)"
proof -
  have "lower_both (toy_client b l d) x 1 1 0 (Suc 0) = Inr (1, 1)"    by (subst lower_both.simps) simp
  then have "lower_both (toy_client b l d) x 2 5 1 0 = Inr (1, 1)"
    by (subst lower_both.simps) (simp add: require_header_def toy_client_def toy_header_at_def)
  moreover have "lower_current (toy_client b l d) x 2 5 1 1 0 = Inr (Inr (2, 1, 0))"
    by (rule lower_current_skip) simp
  moreover have "lower_competing (toy_client b l d) x 5 1 1 0 = Inr (5, 0)"
    by (subst lower_competing.simps) simp
  ultimately show ?thesis by (simp add: find_common_ancestor_and_depth_def)
qed

lemma toy_best_chain:
  "best_chain (toy_client 2 [5] 1) (Map.empty, 1) =
     (Inr \<lparr> header_hash = 5, header_number = 1, parent_hash = 1 \<rparr>, (Map.empty, 1))"
proof -
  let ?c = "toy_client 2 [5] 1" and ?x = "(Map.empty, 1) :: toy_state"
  have "require_header ?c ?x 5 s = Inr \<lparr> header_hash = 5, header_number = 1, parent_hash = 1 \<rparr>"
    "require_header ?c ?x 2 s = Inr \<lparr> header_hash = 2, header_number = 1, parent_hash = 1 \<rparr>" for s
    by (simp_all add: require_header_def toy_client_def toy_header_at_def)
  moreover have "cl_leaves ?c ?x = Inr [5]" "cl_best_hash ?c ?x = 2" "cl_total_work ?c ?x h = Inr (ucast h)"
    "cl_max_reorg_depth ?c ?x h = Inr 1" "is_chain_ignored ?c ?x h = Inr False" for h
    by (simp_all add: toy_client_def is_chain_ignored_def)
  ultimately show ?thesis
    by (simp add: best_chain_def calculate_chain_work_def consider_leaf_def toy_fork [simplified] and_then_def)
qed

theorem best_chain_correct_witness:
  "\<exists>w leaves. cl_leaves (toy_client 2 [5] 1) (Map.empty, 1) = Inr leaves \<and>
    cl_total_work (toy_client 2 [5] 1) (Map.empty, 1) 5 = Inr w"
proof -
  have "\<forall>h. cl_max_reorg_depth (toy_client 2 [5] 1) (Map.empty, 1) h = Inr 1"
    "cl_best_hash (toy_client 2 [5] 1) (Map.empty, 1) \<noteq> 0"
    by (simp_all add: toy_client_def)
  from best_chain_correct [OF toy_client_aux this(1) toy_client_tree this(2) toy_best_chain]
  show ?thesis by auto
qed



text \<open>Finalization picks the block \<open>max_reorg_depth - 1\<close> below the best one on the client's
  canonical chain, and nothing else: when it succeeds, either there was no best block or the
  chain was too short, and the client is unchanged, or exactly that block was finalized; when
  it fails, the client is unchanged.\<close>

theorem finalization_depth:
  assumes "cl_max_reorg_depth cl x (cl_best_hash cl x) = Inr md"
  shows "case finalize_canonical_at_depth cl x of
      (Inl e, x') \<Rightarrow> x' = x \<and> e \<noteq> Panicked
    | (Inr _, x') \<Rightarrow>
        (cl_best_hash cl x = 0 \<and> x' = x) \<or>
        (\<exists>best. cl_header cl x (cl_best_hash cl x) = Inr (Some best) \<and>
          ((header_number best \<le> unat md - 1 \<and> x' = x) \<or>
           (\<exists>target. cl_hash cl x (header_number best - (unat md - 1)) = Inr (Some target) \<and>
              cl_finalize_block cl target x = Inr x')))"
  using assms
  by (auto simp: finalize_canonical_at_depth_def require_header_def Let_def unat_sat_sub
      split: sum.split option.split)

theorem finalization_depth_witness:
  "finalize_canonical_at_depth (toy_client 4 [4] 2) (Map.empty, 1) = (Inr (), (Map.empty, 3))"
proof -
  have "cl_max_reorg_depth (toy_client 4 [4] 2) (Map.empty, 1)
      (cl_best_hash (toy_client 4 [4] 2) (Map.empty, 1)) = Inr 2"
    by (simp add: toy_client_def)
  from finalization_depth [OF this] show ?thesis
    by (auto simp: toy_client_def toy_header_at_def finalize_canonical_at_depth_def require_header_def
        unat_sat_sub Let_def)
qed

text \<open>The algorithm's check of a seal is exactly the runtime's check of its nonce on the
  parent's state, whatever the difficulty and the pre-digest; a parent given by number is
  refused; but a seal that is not 64 bytes long, as a peer may send it, panics instead of
  being refused. A local nonce becomes a seal exactly when the runtime accepts it.\<close>

theorem algorithm_verify_seal:
  "(length seal \<noteq> 64 \<longrightarrow> algorithm_verify cl x parent pre_hash pre_digest seal difficulty = Inl Pow_Panicked) \<and>
   (length seal = 64 \<longrightarrow>
      algorithm_verify cl x (BlockId_Number n) pre_hash pre_digest seal difficulty = Inr False \<and>
      (algorithm_verify cl x (BlockId_Hash h) pre_hash pre_digest seal difficulty = Inr v \<longleftrightarrow>
         cl_verify_for_import cl x h (to_be 32 pre_hash) seal = Inr v)) \<and>
   (try_nonce cl x h pre_hash nonce = Some s \<longleftrightarrow>
      s = nonce \<and> cl_submit_nonce cl x h (to_be 32 pre_hash) nonce = Inr True)"
  by (auto simp: algorithm_verify_def extract_block_hash_def try_nonce_def
      split: sum.splits bool.splits)

theorem algorithm_verify_seal_witness:
  "algorithm_verify (toy_client 4 [4] 2) (Map.empty, 1) (BlockId_Hash 3) 0 None [7] 0 = Inl Pow_Panicked"
  using algorithm_verify_seal [of "[7]" "toy_client 4 [4] 2" "(Map.empty, 1)" "BlockId_Hash 3" 0 None 0]
  by simp

end
