(* ===== verification/Frame.thy ===== *)
theory Frame
  imports Prelude
begin

text \<open>
  What the pallets share of the runtime: account identifiers and balances, the errors a
  dispatchable returns (with one constructor for the \<open>Error\<close> enum of each pallet, as their
  sources declare it), the origins, and \<open>BalanceStatus\<close> and the other small enums of the token
  traits the pallets pass around. \<open>Panicked\<close> is not a value of the code: it stands for a panic.
\<close>

type_synonym account = "256 word"
type_synonym hash256 = "256 word"
type_synonym balance = u128
type_synonym block_number = u32

datatype token_error = FundsUnavailable | OnlyProvider | BelowMinimum | CannotCreate | UnknownAsset
  | Token_Frozen | Unsupported | CannotCreateHold | NotExpendable | Token_Blocked

datatype arithmetic_error = Underflow | Overflow | DivisionByZero

datatype balances_error = VestingBalance | LiquidityRestrictions | InsufficientBalance
  | ExistentialDeposit_Error | Expendability | ExistingVestingSchedule | DeadAccount
  | TooManyReserves | TooManyHolds | TooManyFreezes | IssuanceDeactivated | DeltaZero

datatype reversible_error = AccountAlreadyReversible | AccountNotReversible
  | ExplicitReverserCanNotBeSelf | PendingTxNotFound | NotOwner | TooManyPendingTransactions
  | DelayTooShort | SchedulingFailed | CancellationFailed | CallDecodingFailed | InvalidCall
  | InvalidSchedulerOrigin | InvalidReverser

datatype airdrop_error = AirdropNotFound | InsufficientAirdropBalance | AlreadyClaimed
  | Airdrop_InvalidProof | NotAirdropCreator

datatype wormhole_error = Wormhole_InvalidProof | ProofDeserializationFailed
  | InvalidVerificationKey | NotInitialized | AlreadyInitialized | VerificationFailed
  | VerifierNotFound | InvalidPublicInputs | NullifierAlreadyUsed

datatype faucet_error = MintFailed

datatype dispatch_error =
  Other string
| CannotLookup
| BadOrigin
| Balances_Error balances_error
| Reversible_Error reversible_error
| Airdrop_Error airdrop_error
| Wormhole_Error wormhole_error
| Faucet_Error faucet_error
| ConsumerRemaining
| NoProviders
| TooManyConsumers
| Token token_error
| Arithmetic arithmetic_error
| External nat
| Panicked

text \<open>The items of a header's digest, with the identifier of their engine.\<close>

datatype digest_item =
  PreRuntime bytes bytes
| Digest_Consensus bytes bytes
| Digest_Seal bytes bytes
| Digest_Other bytes
| RuntimeEnvironmentUpdated

datatype origin = Root | Signed account | Unsigned

definition ensure_signed :: "origin \<Rightarrow> dispatch_error + account" where
  "ensure_signed origin = (case origin of Signed who \<Rightarrow> Inr who | _ \<Rightarrow> Inl BadOrigin)"

definition ensure_root :: "origin \<Rightarrow> dispatch_error + unit" where
  "ensure_root origin = (case origin of Root \<Rightarrow> Inr () | _ \<Rightarrow> Inl BadOrigin)"

definition ensure_none :: "origin \<Rightarrow> dispatch_error + unit" where
  "ensure_none origin = (case origin of Unsigned \<Rightarrow> Inr () | _ \<Rightarrow> Inl BadOrigin)"

datatype balance_status = Status_Free | Status_Reserved
datatype precision = Exact | BestEffort
datatype preservation = Expendable | Protect | Preserve
datatype fortitude = Polite | Force
datatype existence_requirement = KeepAlive | AllowDeath

lemma ensure_signed_Inr [simp]: "ensure_signed origin = Inr who \<longleftrightarrow> origin = Signed who"
  by (auto simp: ensure_signed_def split: origin.splits)

lemma ensure_root_Inr [simp]: "ensure_root origin = Inr u \<longleftrightarrow> origin = Root"
  by (auto simp: ensure_root_def split: origin.splits)

lemma ensure_none_Inr [simp]: "ensure_none origin = Inr u \<longleftrightarrow> origin = Unsigned"
  by (auto simp: ensure_none_def split: origin.splits)

end
