(* ===== verification/Balances.thy ===== *)
theory Balances
  imports Frame
begin

text \<open>
  The core of the balances pallet: the types of \<open>pallets/balances/src/types.rs\<close>, the storage
  and the events of \<open>lib.rs\<close>, and the low-level account mutation everything else goes through
  (\<open>ensure_upgraded\<close>, \<open>try_mutate_account\<close> and its variants, the dust), with the law of the
  existential deposit and the accounting of the total issuance.

  \<open>frame_system\<close> is the parameter \<open>sy\<close> of the configuration: the account store and the provider
  and consumer references, as operations on a state \<open>'e\<close>; \<open>system_law\<close> is its documented
  behaviour. \<open>DustRemoval\<close> is the parameter \<open>DustRemoval\<close>. An operation keeps its writes when it
  fails: only the storage layer of a dispatchable takes them back.
\<close>

unbundle bit_operations_syntax

section \<open>Types\<close>

datatype reasons = Fee | Misc | All

text \<open>\<open>WithdrawReasons\<close> is a bit mask; bit zero is \<open>TRANSACTION_PAYMENT\<close>.\<close>

type_synonym withdraw_reasons = u8

definition TRANSACTION_PAYMENT :: withdraw_reasons where
  "TRANSACTION_PAYMENT = 1"

definition reasons_of :: "withdraw_reasons \<Rightarrow> reasons" where
  "reasons_of r =
     (if r = TRANSACTION_PAYMENT then Fee
      else if r AND TRANSACTION_PAYMENT = TRANSACTION_PAYMENT then All
      else Misc)"

definition reasons_or :: "reasons \<Rightarrow> reasons \<Rightarrow> reasons" where
  "reasons_or a b = (if a = b then a else All)"

record balance_lock =
  lock_id :: bytes
  lock_amount :: balance
  lock_reasons :: reasons

text \<open>\<open>ReserveData\<close> and \<open>IdAmount\<close>; reserve identifiers are any linear order, here numbers.\<close>

record id_amount =
  id_of :: nat
  amount_of :: balance

definition IS_NEW_LOGIC :: u128 where
  "IS_NEW_LOGIC = push_bit 127 1"

record account_data =
  free :: balance
  reserved :: balance
  frozen :: balance
  flags :: u128

definition is_new_logic :: "u128 \<Rightarrow> bool" where
  "is_new_logic fl = (fl AND IS_NEW_LOGIC = IS_NEW_LOGIC)"

definition set_new_logic :: "u128 \<Rightarrow> u128" where
  "set_new_logic fl = fl OR IS_NEW_LOGIC"

definition default_account :: account_data where
  "default_account = \<lparr> free = 0, reserved = 0, frozen = 0, flags = IS_NEW_LOGIC \<rparr>"

definition account_usable :: "account_data \<Rightarrow> balance" where
  "account_usable a = sat_sub (free a) (frozen a)"

definition account_total :: "account_data \<Rightarrow> balance" where
  "account_total a = sat_add (free a) (reserved a)"

datatype adjustment_direction = Increase | Decrease

section \<open>Storage and configuration\<close>

datatype bal_event =
  B_Endowed account balance
| B_DustLost account balance
| B_Transfer account account balance
| B_BalanceSet account balance
| B_Reserved account balance
| B_Unreserved account balance
| B_ReserveRepatriated account account balance balance_status
| B_Deposit account balance
| B_Withdraw account balance
| B_Slashed account balance
| B_Minted account balance
| B_Burned account balance
| B_Suspended account balance
| B_Restored account balance
| B_Upgraded account
| B_Issued balance
| B_Rescinded balance
| B_Locked account balance
| B_Unlocked account balance
| B_Frozen account balance
| B_Thawed account balance
| B_TotalIssuanceForced balance balance

record 'e bal_state =
  TotalIssuance :: balance
  InactiveIssuance :: balance
  Locks :: "account \<Rightarrow> balance_lock list"
  Reserves :: "account \<Rightarrow> id_amount list"
  Holds :: "account \<Rightarrow> id_amount list"
  Freezes :: "account \<Rightarrow> id_amount list"
  TransferProof :: "u32 \<times> account \<times> account \<times> balance \<Rightarrow> bool option"
  sys :: 'e
  bal_events :: "bal_event list"

type_synonym ('e, 'a) bal = "('e bal_state, dispatch_error, 'a) comp"

record 'e system_ops =
  sys_account :: "'e \<Rightarrow> account \<Rightarrow> account_data option"
  sys_put :: "account \<Rightarrow> account_data option \<Rightarrow> 'e \<Rightarrow> dispatch_error + 'e"
  sys_providers :: "'e \<Rightarrow> account \<Rightarrow> u32"
  sys_consumers :: "'e \<Rightarrow> account \<Rightarrow> u32"
  sys_can_dec_provider :: "'e \<Rightarrow> account \<Rightarrow> bool"
  sys_inc_providers :: "account \<Rightarrow> 'e \<Rightarrow> 'e"
  sys_dec_providers :: "account \<Rightarrow> 'e \<Rightarrow> dispatch_error + 'e"
  sys_inc_consumers :: "account \<Rightarrow> 'e \<Rightarrow> dispatch_error + 'e"
  sys_inc_consumers_without_limit :: "account \<Rightarrow> 'e \<Rightarrow> dispatch_error + 'e"
  sys_dec_consumers :: "account \<Rightarrow> 'e \<Rightarrow> 'e"
  sys_account_nonce :: "'e \<Rightarrow> account \<Rightarrow> u32"

record 'e bal_config =
  ExistentialDeposit :: balance
  MaxLocks :: u32
  MaxReserves :: u32
  MaxFreezes :: u32
  MaxHolds :: u32
  DustRemoval :: "balance \<Rightarrow> 'e bal_state \<Rightarrow> 'e bal_state"
  sy :: "'e system_ops"

definition deposit_event :: "bal_event \<Rightarrow> 'e bal_state \<Rightarrow> 'e bal_state" where
  "deposit_event ev s = s\<lparr> bal_events := bal_events s @ [ev] \<rparr>"

section \<open>Accounts\<close>

text \<open>\<open>StoredMap::get\<close>: the stored data, or the default when there is none.\<close>

definition data_or_default :: "account_data option \<Rightarrow> account_data" where
  "data_or_default m = (case m of None \<Rightarrow> default_account | Some a \<Rightarrow> a)"

definition account_of :: "'e bal_config \<Rightarrow> 'e bal_state \<Rightarrow> account \<Rightarrow> account_data" where
  "account_of cfg s who = data_or_default (sys_account (sy cfg) (sys s) who)"

definition free_balance :: "'e bal_config \<Rightarrow> 'e bal_state \<Rightarrow> account \<Rightarrow> balance" where
  "free_balance cfg s who = free (account_of cfg s who)"

definition reserved_balance :: "'e bal_config \<Rightarrow> 'e bal_state \<Rightarrow> account \<Rightarrow> balance" where
  "reserved_balance cfg s who = reserved (account_of cfg s who)"

definition total_balance :: "'e bal_config \<Rightarrow> 'e bal_state \<Rightarrow> account \<Rightarrow> balance" where
  "total_balance cfg s who = account_total (account_of cfg s who)"

text \<open>Applying an operation of \<open>frame_system\<close> inside the pallet's state.\<close>

definition on_sys :: "('e \<Rightarrow> dispatch_error + 'e) \<Rightarrow> ('e, unit) bal" where
  "on_sys f s = (case f (sys s) of Inl e \<Rightarrow> (Inl e, s) | Inr e' \<Rightarrow> (Inr (), s\<lparr> sys := e' \<rparr>))"

definition on_sys_pure :: "('e \<Rightarrow> 'e) \<Rightarrow> 'e bal_state \<Rightarrow> 'e bal_state" where
  "on_sys_pure f s = s\<lparr> sys := f (sys s) \<rparr>"

text \<open>The failsafe for a reserved balance without a provider, then the consumer reference an
  account under the old logic did not have; a failure there is only reported.\<close>

definition upgrade_references :: "'e bal_config \<Rightarrow> account \<Rightarrow> account_data \<Rightarrow> 'e bal_state \<Rightarrow> account_data \<times> 'e bal_state" where
  "upgrade_references cfg who a s =
     (let (a1, s1) = (if sys_providers (sy cfg) (sys s) who = 0
            then (a\<lparr> free := max (free a) (ExistentialDeposit cfg) \<rparr>,
                  on_sys_pure (sys_inc_providers (sy cfg) who) s)
            else (a, s))
      in (a1, snd (on_sys (sys_inc_consumers_without_limit (sy cfg) who) s1)))"

definition ensure_upgraded :: "'e bal_config \<Rightarrow> account \<Rightarrow> 'e bal_state \<Rightarrow> bool \<times> 'e bal_state" where
  "ensure_upgraded cfg who s =
     (let a = account_of cfg s who
      in if is_new_logic (flags a) then (False, s)
         else let a1 = a\<lparr> flags := set_new_logic (flags a) \<rparr>;
                  (a2, s2) = (if reserved a1 \<noteq> 0 \<and> frozen a1 = 0
                              then upgrade_references cfg who a1 s else (a1, s));
                  s3 = snd (on_sys (sys_put (sy cfg) who (Some a2)) s2)
              in (True, deposit_event (B_Upgraded who) s3))"

text \<open>The provider and consumer references after a mutation, in the order the code updates
  them; losing the provider goes last and puts the consumer change back when it fails.\<close>

definition does_provide :: "'e bal_config \<Rightarrow> account_data \<Rightarrow> bool" where
  "does_provide cfg a = (ExistentialDeposit cfg \<le> free a)"

definition does_consume :: "account_data \<Rightarrow> bool" where
  "does_consume a = (reserved a \<noteq> 0 \<or> frozen a \<noteq> 0)"

definition inc_consumers_if :: "'e bal_config \<Rightarrow> account \<Rightarrow> bool \<Rightarrow> ('e, unit) bal" where
  "inc_consumers_if cfg who b = (if b then on_sys (sys_inc_consumers (sy cfg) who) else ret ())"

definition drop_provider :: "'e bal_config \<Rightarrow> account \<Rightarrow> bool \<Rightarrow> bool \<Rightarrow> ('e, unit) bal" where
  "drop_provider cfg who did does s =
     (case sys_dec_providers (sy cfg) who (sys s) of
        Inr e' \<Rightarrow> (Inr (), s\<lparr> sys := e' \<rparr>)
      | Inl e \<Rightarrow>
          (Inl e,
           if did \<and> \<not> does then snd (on_sys (sys_inc_consumers (sy cfg) who) s)
           else if \<not> did \<and> does then on_sys_pure (sys_dec_consumers (sy cfg) who) s
           else s))"

definition update_references ::
    "'e bal_config \<Rightarrow> account \<Rightarrow> bool \<Rightarrow> bool \<Rightarrow> account_data \<Rightarrow> ('e, unit) bal" where
  "update_references cfg who did_provide did_consume a s =
     (let provides = does_provide cfg a; consumes = does_consume a;
          s1 = (if \<not> did_provide \<and> provides then on_sys_pure (sys_inc_providers (sy cfg) who) s else s);
          s2 = (if did_consume \<and> \<not> consumes then on_sys_pure (sys_dec_consumers (sy cfg) who) s1 else s1)
      in and_then (inc_consumers_if cfg who (\<not> did_consume \<and> consumes)) (\<lambda>_ s3.
           and_then (inc_consumers_if cfg who (consumes \<and> sys_consumers (sy cfg) (sys s3) who = 0))
             (\<lambda>_. if did_provide \<and> \<not> provides then drop_provider cfg who did_consume consumes
                  else ret ()) s3) s2)"

text \<open>What is written back: nothing for an account below the existential deposit and without
  reserve, whose remaining free balance is dust; \<open>None\<close> is the assertion that fails.\<close>

definition settle :: "'e bal_config \<Rightarrow> account_data \<Rightarrow> (account_data option \<times> balance option) option" where
  "settle cfg a =
     (if free a < ExistentialDeposit cfg \<and> reserved a = 0
      then Some (None, if free a = 0 then None else Some (free a))
      else if free a = 0 \<or> ExistentialDeposit cfg \<le> free a \<or> reserved a \<noteq> 0
      then Some (Some a, None)
      else None)"

definition account_events :: "account \<Rightarrow> balance option \<Rightarrow> balance option \<Rightarrow> 'e bal_state \<Rightarrow> 'e bal_state" where
  "account_events who maybe_endowed maybe_dust s =
     (let s1 = (case maybe_endowed of None \<Rightarrow> s | Some x \<Rightarrow> deposit_event (B_Endowed who x) s)
      in case maybe_dust of None \<Rightarrow> s1 | Some x \<Rightarrow> deposit_event (B_DustLost who x) s1)"

text \<open>A closure gets the account and whether it is new, and returns its result with the account
  as it leaves it. The argument \<open>on_drop\<close> is what dropping such a result does to the storage:
  nothing for most, but a result that is an imbalance squares the total issuance when it goes
  out of scope, also when the code returns early with an error after the closure.\<close>

type_synonym ('e, 'r) closure = "account_data \<Rightarrow> bool \<Rightarrow> ('e, 'r \<times> account_data) bal"

definition no_drop :: "'r \<Rightarrow> 'e bal_state \<Rightarrow> 'e bal_state" where
  "no_drop r s = s"

definition try_mutate_account ::
    "'e bal_config \<Rightarrow> account \<Rightarrow> ('r \<Rightarrow> 'e bal_state \<Rightarrow> 'e bal_state) \<Rightarrow> ('e, 'r) closure
      \<Rightarrow> ('e, 'r \<times> balance option) bal" where
  "try_mutate_account cfg who on_drop f s =
     (let s0 = snd (ensure_upgraded cfg who s);
          maybe_account = sys_account (sy cfg) (sys s0) who;
          is_new = (maybe_account = None);
          account = data_or_default maybe_account;
          did_provide = does_provide cfg account;
          did_consume = (\<not> is_new \<and> does_consume account)
      in case f account is_new s0 of
           (Inl e, s1) \<Rightarrow> (Inl e, s1)
         | (Inr (result, account'), s1) \<Rightarrow>
             (case update_references cfg who did_provide did_consume account' s1 of
                (Inl e, s2) \<Rightarrow> (Inl e, on_drop result s2)
              | (Inr _, s2) \<Rightarrow>
                  (case settle cfg account' of
                     None \<Rightarrow> (Inl Panicked, s2)
                   | Some (stored, maybe_dust) \<Rightarrow>
                       (case on_sys (sys_put (sy cfg) who stored) s2 of
                          (Inl e, s3) \<Rightarrow> (Inl e, on_drop result s3)
                        | (Inr _, s3) \<Rightarrow>
                            (Inr (result, maybe_dust),
                             account_events who (if is_new then Some (free account') else None)
                               maybe_dust s3)))))"

definition mutate_account ::
    "'e bal_config \<Rightarrow> account \<Rightarrow> ('r \<Rightarrow> 'e bal_state \<Rightarrow> 'e bal_state) \<Rightarrow> (account_data \<Rightarrow> 'r \<times> account_data)
      \<Rightarrow> ('e, 'r \<times> balance option) bal" where
  "mutate_account cfg who on_drop f = try_mutate_account cfg who on_drop (\<lambda>a _. ret (f a))"

definition handle_raw_dust :: "'e bal_config \<Rightarrow> balance option \<Rightarrow> 'e bal_state \<Rightarrow> 'e bal_state" where
  "handle_raw_dust cfg maybe_dust s =
     (case maybe_dust of None \<Rightarrow> s | Some dust \<Rightarrow> DustRemoval cfg dust s)"

definition try_mutate_account_handling_dust ::
    "'e bal_config \<Rightarrow> account \<Rightarrow> ('r \<Rightarrow> 'e bal_state \<Rightarrow> 'e bal_state) \<Rightarrow> ('e, 'r) closure \<Rightarrow> ('e, 'r) bal" where
  "try_mutate_account_handling_dust cfg who on_drop f =
     and_then (try_mutate_account cfg who on_drop f)
       (\<lambda>(r, maybe_dust) s. (Inr r, handle_raw_dust cfg maybe_dust s))"

definition mutate_account_handling_dust ::
    "'e bal_config \<Rightarrow> account \<Rightarrow> ('r \<Rightarrow> 'e bal_state \<Rightarrow> 'e bal_state) \<Rightarrow> (account_data \<Rightarrow> 'r \<times> account_data)
      \<Rightarrow> ('e, 'r) bal" where
  "mutate_account_handling_dust cfg who on_drop f =
     and_then (mutate_account cfg who on_drop f)
       (\<lambda>(r, maybe_dust) s. (Inr r, handle_raw_dust cfg maybe_dust s))"

end
