(* ===== verification/BalancesLaw.thy ===== *)
theory BalancesLaw
  imports Balances
begin

text \<open>
  What the low-level account mutation of the balances pallet guarantees: the documented
  behaviour of \<open>frame_system\<close> the pallet relies on (\<open>system_law\<close>), the consistency of provider
  and consumer references, the existential deposit (no account is left with dust), and the
  exact effect of \<open>try_mutate_account\<close> on balances and issuance.
\<close>

section \<open>The system pallet's behaviour\<close>

definition stored_data :: "'e system_ops \<Rightarrow> 'e \<Rightarrow> account \<Rightarrow> account_data" where
  "stored_data y e a = data_or_default (sys_account y e a)"

text \<open>Nothing but the entry of \<open>who\<close> differs.\<close>

definition only_at :: "'e system_ops \<Rightarrow> account \<Rightarrow> 'e \<Rightarrow> 'e \<Rightarrow> bool" where
  "only_at y who e e' \<longleftrightarrow>
     (\<forall>b. b \<noteq> who \<longrightarrow> sys_account y e' b = sys_account y e b \<and>
        sys_providers y e' b = sys_providers y e b \<and> sys_consumers y e' b = sys_consumers y e b)"

text \<open>References never change data, unless the last provider goes, which needs that there is no
  consumer; a consumer reference needs a provider; data is stored for an account that has a
  provider, and may be dropped for one that has none; default data counts as no account.\<close>

definition system_law :: "'e system_ops \<Rightarrow> bool" where
  "system_law y \<longleftrightarrow>
     (\<forall>a m e e'. sys_put y a m e = Inr e' \<longrightarrow> only_at y a e e' \<and>
        sys_providers y e' a = sys_providers y e a \<and> sys_consumers y e' a \<le> sys_consumers y e a \<and>
        (0 < sys_providers y e a \<longrightarrow> sys_consumers y e' a = sys_consumers y e a) \<and>
        (stored_data y e' a = data_or_default m \<or>
         sys_providers y e a = 0 \<and> stored_data y e' a = default_account)) \<and>
     (\<forall>a e. only_at y a e (sys_inc_providers y a e) \<and>
        stored_data y (sys_inc_providers y a e) a = stored_data y e a \<and>
        0 < sys_providers y (sys_inc_providers y a e) a \<and>
        sys_consumers y (sys_inc_providers y a e) a = sys_consumers y e a) \<and>
     (\<forall>a e e'. sys_dec_providers y a e = Inr e' \<longrightarrow> only_at y a e e' \<and>
        sys_consumers y e' a \<le> sys_consumers y e a \<and>
        (0 < sys_consumers y e a \<longrightarrow> 0 < sys_providers y e' a \<and> sys_consumers y e' a = sys_consumers y e a) \<and>
        (0 < sys_providers y e' a \<longrightarrow> stored_data y e' a = stored_data y e a)) \<and>
     (\<forall>a e e'. sys_inc_consumers y a e = Inr e' \<or> sys_inc_consumers_without_limit y a e = Inr e' \<longrightarrow>
        only_at y a e e' \<and> stored_data y e' a = stored_data y e a \<and>
        sys_providers y e' a = sys_providers y e a \<and> 0 < sys_providers y e a \<and> 0 < sys_consumers y e' a) \<and>
     (\<forall>a e. only_at y a e (sys_dec_consumers y a e) \<and>
        stored_data y (sys_dec_consumers y a e) a = stored_data y e a \<and>
        sys_providers y (sys_dec_consumers y a e) a = sys_providers y e a \<and>
        sys_consumers y (sys_dec_consumers y a e) a \<le> sys_consumers y e a) \<and>
     (\<forall>a e. sys_account y e a \<noteq> Some default_account)"

lemma only_at_refl [simp]: "only_at y a e e"
  by (simp add: only_at_def)

lemma only_at_trans: "only_at y a e e' \<Longrightarrow> only_at y a e' e'' \<Longrightarrow> only_at y a e e''"
  by (simp add: only_at_def)

lemma only_atD:
  assumes "only_at y a e e'" "b \<noteq> a"
  shows "stored_data y e' b = stored_data y e b" "sys_providers y e' b = sys_providers y e b"
    "sys_consumers y e' b = sys_consumers y e b" "sys_account y e' b = sys_account y e b"
  using assms by (simp_all add: only_at_def stored_data_def)

lemma law_put:
  assumes "system_law y" "sys_put y a m e = Inr e'"
  shows "only_at y a e e'" "sys_providers y e' a = sys_providers y e a"
    "sys_consumers y e' a \<le> sys_consumers y e a"
    "stored_data y e' a = data_or_default m \<or>
       sys_providers y e a = 0 \<and> stored_data y e' a = default_account"
    "0 < sys_providers y e a \<Longrightarrow> sys_consumers y e' a = sys_consumers y e a"
  using assms unfolding system_law_def by blast+

lemma law_inc_providers:
  assumes "system_law y"
  shows "only_at y a e (sys_inc_providers y a e)"
    "stored_data y (sys_inc_providers y a e) a = stored_data y e a"
    "0 < sys_providers y (sys_inc_providers y a e) a"
    "sys_consumers y (sys_inc_providers y a e) a = sys_consumers y e a"
  using assms unfolding system_law_def by blast+

lemma law_dec_providers:
  assumes "system_law y" "sys_dec_providers y a e = Inr e'"
  shows "only_at y a e e'" "sys_consumers y e' a \<le> sys_consumers y e a"
    "0 < sys_consumers y e a \<Longrightarrow> 0 < sys_providers y e' a"
    "0 < sys_providers y e' a \<Longrightarrow> stored_data y e' a = stored_data y e a"
    "0 < sys_consumers y e a \<Longrightarrow> sys_consumers y e' a = sys_consumers y e a"
  using assms unfolding system_law_def by blast+

lemma law_inc_consumers:
  assumes "system_law y" "sys_inc_consumers y a e = Inr e' \<or> sys_inc_consumers_without_limit y a e = Inr e'"
  shows "only_at y a e e'" "stored_data y e' a = stored_data y e a"
    "sys_providers y e' a = sys_providers y e a" "0 < sys_providers y e a" "0 < sys_consumers y e' a"
  using assms unfolding system_law_def by blast+

lemma law_dec_consumers:
  assumes "system_law y"
  shows "only_at y a e (sys_dec_consumers y a e)"
    "stored_data y (sys_dec_consumers y a e) a = stored_data y e a"
    "sys_providers y (sys_dec_consumers y a e) a = sys_providers y e a"
    "sys_consumers y (sys_dec_consumers y a e) a \<le> sys_consumers y e a"
  using assms unfolding system_law_def by blast+

lemma law_account: "system_law y \<Longrightarrow> sys_account y e a \<noteq> Some default_account"
  unfolding system_law_def by blast

text \<open>A consumer reference implies a provider.\<close>

definition refs_ok :: "'e system_ops \<Rightarrow> 'e \<Rightarrow> bool" where
  "refs_ok y e \<longleftrightarrow> (\<forall>a. 0 < sys_consumers y e a \<longrightarrow> 0 < sys_providers y e a)"

lemma refs_ok_only_at:
  assumes "refs_ok y e" "only_at y a e e'"
    and "0 < sys_consumers y e' a \<Longrightarrow> 0 < sys_providers y e' a"
  shows "refs_ok y e'"
  unfolding refs_ok_def
proof (intro allI impI)
  fix b assume b: "0 < sys_consumers y e' b"
  show "0 < sys_providers y e' b"
  proof (cases "b = a")
    case True
    then show ?thesis using assms(3) b by simp
  next
    case False
    then show ?thesis using only_atD [OF assms(2) False] assms(1) b by (simp add: refs_ok_def)
  qed
qed

section \<open>The references after a mutation\<close>

text \<open>Everything but \<open>sys\<close> is as before.\<close>

definition sys_only :: "'e bal_state \<Rightarrow> 'e bal_state \<Rightarrow> bool" where
  "sys_only s s' \<longleftrightarrow> (\<exists>e. s' = s\<lparr> sys := e \<rparr>)"

lemma sys_only_refl [simp]: "sys_only s s"
  unfolding sys_only_def by (rule exI [of _ "sys s"]) simp

lemma sys_only_trans: "sys_only s s' \<Longrightarrow> sys_only s' s'' \<Longrightarrow> sys_only s s''"
  unfolding sys_only_def by auto

lemma sys_only_fields:
  assumes "sys_only s s'"
  shows "TotalIssuance s' = TotalIssuance s" "InactiveIssuance s' = InactiveIssuance s"
    "Locks s' = Locks s" "Reserves s' = Reserves s" "Holds s' = Holds s" "Freezes s' = Freezes s"
    "TransferProof s' = TransferProof s" "bal_events s' = bal_events s"
  using assms unfolding sys_only_def by auto

lemma on_sys_Inr: "on_sys f s = (Inr u, s') \<longleftrightarrow> (\<exists>e'. f (sys s) = Inr e' \<and> s' = s\<lparr> sys := e' \<rparr>)"
  by (auto simp: on_sys_def split: sum.splits)

lemma sys_only_update [simp]: "sys_only s (s\<lparr> sys := e \<rparr>)"
  unfolding sys_only_def by blast

text \<open>What holds of the account's references between the steps: the data of the others is
  untouched, references stay consistent.\<close>

definition refs_step :: "'e bal_config \<Rightarrow> account \<Rightarrow> 'e bal_state \<Rightarrow> 'e bal_state \<Rightarrow> bool" where
  "refs_step cfg who s s' \<longleftrightarrow>
     sys_only s s' \<and> only_at (sy cfg) who (sys s) (sys s') \<and> refs_ok (sy cfg) (sys s')"

lemma refs_step_trans: "refs_step cfg who s s' \<Longrightarrow> refs_step cfg who s' s'' \<Longrightarrow> refs_step cfg who s s''"
  unfolding refs_step_def by (auto intro: sys_only_trans only_at_trans)

lemma inc_providers_step:
  assumes "system_law (sy cfg)" "refs_ok (sy cfg) (sys s)"
  shows "refs_step cfg who s (on_sys_pure (sys_inc_providers (sy cfg) who) s)"
proof -
  note l = law_inc_providers [OF assms(1), of who "sys s"]
  have "refs_ok (sy cfg) (sys_inc_providers (sy cfg) who (sys s))"
    by (rule refs_ok_only_at [OF assms(2) l(1)]) (rule l(3))
  then show ?thesis using l(1) by (simp add: refs_step_def on_sys_pure_def)
qed

lemma dec_consumers_step:
  assumes "system_law (sy cfg)" "refs_ok (sy cfg) (sys s)"
  shows "refs_step cfg who s (on_sys_pure (sys_dec_consumers (sy cfg) who) s)"
proof -
  let ?e = "sys_dec_consumers (sy cfg) who (sys s)"
  note l = law_dec_consumers [OF assms(1), of who "sys s"]
  have "refs_ok (sy cfg) ?e"
    by (rule refs_ok_only_at [OF assms(2) l(1)])
       (use l(3,4) assms(2) in \<open>auto simp: refs_ok_def\<close>)
  then show ?thesis using l(1) by (simp add: refs_step_def on_sys_pure_def)
qed

lemma inc_consumers_if_step:
  assumes "system_law (sy cfg)" "refs_ok (sy cfg) (sys s)"
    and "inc_consumers_if cfg who b s = (Inr u, s')"
  shows "refs_step cfg who s s'" "sys_providers (sy cfg) (sys s') who = sys_providers (sy cfg) (sys s) who"
    "b \<Longrightarrow> 0 < sys_consumers (sy cfg) (sys s') who" "\<not> b \<Longrightarrow> s' = s"
proof -
  have "refs_step cfg who s s' \<and> sys_providers (sy cfg) (sys s') who = sys_providers (sy cfg) (sys s) who
    \<and> (b \<longrightarrow> 0 < sys_consumers (sy cfg) (sys s') who) \<and> (\<not> b \<longrightarrow> s' = s)"
  proof (cases b)
    case True
    then obtain e' where e': "sys_inc_consumers (sy cfg) who (sys s) = Inr e'" "s' = s\<lparr> sys := e' \<rparr>"
      using assms(3) by (auto simp: inc_consumers_if_def on_sys_Inr)
    note l = law_inc_consumers [OF assms(1) disjI1 [OF e'(1)]]
    have "refs_ok (sy cfg) e'" by (rule refs_ok_only_at [OF assms(2) l(1)]) (use l in auto)
    then show ?thesis using e' l True by (simp add: refs_step_def)
  next
    case False
    then show ?thesis using assms(2,3) by (simp add: inc_consumers_if_def refs_step_def)
  qed
  then show "refs_step cfg who s s'" "sys_providers (sy cfg) (sys s') who = sys_providers (sy cfg) (sys s) who"
    "b \<Longrightarrow> 0 < sys_consumers (sy cfg) (sys s') who" "\<not> b \<Longrightarrow> s' = s" by auto
qed

lemma update_references_step:
  assumes law: "system_law (sy cfg)" and ok: "refs_ok (sy cfg) (sys s)"
    and p: "did_provide \<Longrightarrow> 0 < sys_providers (sy cfg) (sys s) who"
    and u: "update_references cfg who did_provide did_consume a s = (Inr v, s')"
  shows "refs_step cfg who s s' \<and>
    (does_provide cfg a \<or> does_consume a \<longrightarrow> 0 < sys_providers (sy cfg) (sys s') who)"
proof -
  let ?y = "sy cfg"
  define s1 where "s1 = (if \<not> did_provide \<and> does_provide cfg a
    then on_sys_pure (sys_inc_providers ?y who) s else s)"
  define s2 where "s2 = (if did_consume \<and> \<not> does_consume a
    then on_sys_pure (sys_dec_consumers ?y who) s1 else s1)"
  obtain u1 s3 where 3: "inc_consumers_if cfg who (\<not> did_consume \<and> does_consume a) s2 = (Inr u1, s3)"
    and u': "and_then (inc_consumers_if cfg who (does_consume a \<and> sys_consumers ?y (sys s3) who = 0))
      (\<lambda>_. if did_provide \<and> \<not> does_provide cfg a then drop_provider cfg who did_consume (does_consume a)
           else ret ()) s3 = (Inr v, s')"
    using u unfolding update_references_def Let_def s1_def [symmetric] s2_def [symmetric]
    by (auto simp: and_then_Inr)
  obtain u2 s4 where 4: "inc_consumers_if cfg who (does_consume a \<and> sys_consumers ?y (sys s3) who = 0) s3
      = (Inr u2, s4)"
    and 5: "(if did_provide \<and> \<not> does_provide cfg a then drop_provider cfg who did_consume (does_consume a)
           else ret ()) s4 = (Inr v, s')"
    using u' by (auto simp: and_then_Inr)
  have r1: "refs_step cfg who s s1"
    using inc_providers_step [OF law ok] ok by (simp add: s1_def refs_step_def)
  have p1: "did_provide \<or> does_provide cfg a \<Longrightarrow> 0 < sys_providers ?y (sys s1) who"
    using p law_inc_providers(3) [OF law] by (auto simp: s1_def on_sys_pure_def)
  have ok1: "refs_ok ?y (sys s1)" using r1 by (simp add: refs_step_def)
  have r2: "refs_step cfg who s1 s2"
    using dec_consumers_step [OF law ok1] ok1 by (simp add: s2_def refs_step_def)
  have p2: "sys_providers ?y (sys s2) who = sys_providers ?y (sys s1) who"
    using law_dec_consumers(3) [OF law] by (simp add: s2_def on_sys_pure_def)
  have ok2: "refs_ok ?y (sys s2)" using r2 by (simp add: refs_step_def)
  note i3 = inc_consumers_if_step [OF law ok2 3]
  have ok3: "refs_ok ?y (sys s3)" using i3(1) by (simp add: refs_step_def)
  note i4 = inc_consumers_if_step [OF law ok3 4]
  have ok4: "refs_ok ?y (sys s4)" using i4(1) by (simp add: refs_step_def)
  have c4: "0 < sys_consumers ?y (sys s4) who" if "does_consume a"
    using that i4(3,4) by (cases "sys_consumers ?y (sys s3) who = 0") (auto simp: word_neq_0_conv)
  have p4: "0 < sys_providers ?y (sys s4) who" if "did_provide \<or> does_provide cfg a \<or> does_consume a"
    using that p1 p2 i3(2) i4(2) c4 ok4 by (auto simp: refs_ok_def)
  have r4: "refs_step cfg who s s4"
    using refs_step_trans [OF refs_step_trans [OF r1 r2] refs_step_trans [OF i3(1) i4(1)]] .
  show ?thesis
  proof (cases "did_provide \<and> \<not> does_provide cfg a")
    case True
    then obtain e' where e': "sys_dec_providers ?y who (sys s4) = Inr e'" "s' = s4\<lparr> sys := e' \<rparr>"
      using 5 by (auto simp: drop_provider_def split: sum.splits)
    note l = law_dec_providers [OF law e'(1)]
    have "refs_ok ?y e'"
      by (rule refs_ok_only_at [OF ok4 l(1)]) (use l(2,3) in auto)
    then have "refs_step cfg who s4 s'" using e'(2) l(1) by (simp add: refs_step_def)
    moreover have "0 < sys_providers ?y (sys s') who" if "does_consume a"
      using l(3) c4 [OF that] e'(2) by simp
    ultimately show ?thesis using refs_step_trans [OF r4] True by auto
  next
    case False
    then have "s' = s4" using 5 by (auto split: if_splits)
    then show ?thesis using r4 p4 by auto
  qed
qed

lemma refs_ok_put:
  assumes "system_law y" "refs_ok y e" "sys_put y a m e = Inr e'"
  shows "refs_ok y e'"
proof (rule refs_ok_only_at [OF assms(2) law_put(1) [OF assms(1,3)]])
  assume "0 < sys_consumers y e' a"
  then have "0 < sys_consumers y e a"
    using law_put(3) [OF assms(1,3)] by (rule less_le_trans)
  then show "0 < sys_providers y e' a"
    using assms(2) law_put(2) [OF assms(1,3)] by (simp add: refs_ok_def)
qed

section \<open>The pallet's invariant\<close>

text \<open>References are consistent, an account that needs a provider has one, and there is no
  dust: an account's free balance is zero or at least the existential deposit, unless it has
  reserved balance.\<close>

definition no_dust :: "'e bal_config \<Rightarrow> account_data \<Rightarrow> bool" where
  "no_dust cfg a \<longleftrightarrow> free a = 0 \<or> does_provide cfg a \<or> reserved a \<noteq> 0"

definition bal_ok :: "'e bal_config \<Rightarrow> 'e bal_state \<Rightarrow> bool" where
  "bal_ok cfg s \<longleftrightarrow> refs_ok (sy cfg) (sys s) \<and>
     (\<forall>a. no_dust cfg (account_of cfg s a) \<and>
        (does_provide cfg (account_of cfg s a) \<or> reserved (account_of cfg s a) \<noteq> 0 \<longrightarrow>
           0 < sys_providers (sy cfg) (sys s) a))"

lemma account_of_stored: "account_of cfg s a = stored_data (sy cfg) (sys s) a"
  by (simp add: account_of_def stored_data_def)

lemma default_account_simps [simp]:
  "free default_account = 0" "reserved default_account = 0" "frozen default_account = 0"
  by (simp_all add: default_account_def)

lemma data_or_default_simps [simp]:
  "data_or_default None = default_account" "data_or_default (Some a) = a"
  by (simp_all add: data_or_default_def)

lemma default_no_provide: "ExistentialDeposit cfg \<noteq> 0 \<Longrightarrow> \<not> does_provide cfg default_account"
  by (simp add: does_provide_def word_le_0_iff)

lemma bal_ok_only_at:
  assumes "bal_ok cfg s" "only_at (sy cfg) who (sys s) (sys s')" "refs_ok (sy cfg) (sys s')"
    and "no_dust cfg (account_of cfg s' who)"
    and "does_provide cfg (account_of cfg s' who) \<or> reserved (account_of cfg s' who) \<noteq> 0 \<Longrightarrow>
      0 < sys_providers (sy cfg) (sys s') who"
  shows "bal_ok cfg s'"
proof -
  have "no_dust cfg (account_of cfg s' a) \<and>
        (does_provide cfg (account_of cfg s' a) \<or> reserved (account_of cfg s' a) \<noteq> 0 \<longrightarrow>
           0 < sys_providers (sy cfg) (sys s') a)" for a
  proof (cases "a = who")
    case True
    then show ?thesis using assms(4,5) by blast
  next
    case False
    then show ?thesis using only_atD [OF assms(2) False] assms(1)
      by (auto simp: bal_ok_def account_of_stored)
  qed
  then show ?thesis using assms(3) by (simp add: bal_ok_def)
qed

text \<open>Only the account store and the events differ.\<close>

definition store_only :: "'e bal_state \<Rightarrow> 'e bal_state \<Rightarrow> bool" where
  "store_only s s' \<longleftrightarrow> (\<exists>e ev. s' = s\<lparr> sys := e, bal_events := bal_events s @ ev \<rparr>)"

lemma store_only_refl [simp]: "store_only s s"
  unfolding store_only_def by (rule exI [of _ "sys s"], rule exI [of _ "[]"]) simp

lemma store_only_trans:
  assumes "store_only s s'" "store_only s' s''"
  shows "store_only s s''"
proof -
  obtain e ev where 1: "s' = s\<lparr> sys := e, bal_events := bal_events s @ ev \<rparr>"
    using assms(1) unfolding store_only_def by blast
  obtain e' ev' where "s'' = s'\<lparr> sys := e', bal_events := bal_events s' @ ev' \<rparr>"
    using assms(2) unfolding store_only_def by blast
  then have "s'' = s\<lparr> sys := e', bal_events := bal_events s @ (ev @ ev') \<rparr>" using 1 by simp
  then show ?thesis unfolding store_only_def by blast
qed

lemma store_only_sys: "sys_only s s' \<Longrightarrow> store_only s s'"
  unfolding store_only_def sys_only_def
  by (elim exE, rule_tac x = e in exI, rule exI [of _ "[]"]) simp

lemma store_only_event [simp]: "store_only s (deposit_event ev s)"
  unfolding store_only_def deposit_event_def
  by (rule exI [of _ "sys s"], rule exI [of _ "[ev]"]) simp

lemma store_only_fields:
  assumes "store_only s s'"
  shows "TotalIssuance s' = TotalIssuance s" "InactiveIssuance s' = InactiveIssuance s"
    "Locks s' = Locks s" "Reserves s' = Reserves s" "Holds s' = Holds s" "Freezes s' = Freezes s"
    "TransferProof s' = TransferProof s"
  using assms unfolding store_only_def by auto

lemma sys_deposit_event [simp]: "sys (deposit_event ev s) = sys s"
  by (simp add: deposit_event_def)

lemma account_events_simps [simp]:
  "sys (account_events who x d s) = sys s" "store_only s (account_events who x d s)"
proof -
  show "sys (account_events who x d s) = sys s" by (simp add: account_events_def split: option.split)
  show "store_only s (account_events who x d s)"
    by (simp add: account_events_def store_only_trans [OF store_only_event store_only_event]
        split: option.split)
qed

section \<open>Upgrading an account\<close>

text \<open>In a consistent state the failsafe of \<open>ensure_upgraded\<close> is not reached, and an upgrade
  leaves every balance as it is.\<close>

lemma ensure_upgraded_effect:
  assumes law: "system_law (sy cfg)" and ok: "bal_ok cfg s" and ed: "ExistentialDeposit cfg \<noteq> 0"
  shows "bal_ok cfg (snd (ensure_upgraded cfg who s)) \<and> store_only s (snd (ensure_upgraded cfg who s)) \<and>
    only_at (sy cfg) who (sys s) (sys (snd (ensure_upgraded cfg who s))) \<and>
    free (account_of cfg (snd (ensure_upgraded cfg who s)) who) = free (account_of cfg s who) \<and>
    reserved (account_of cfg (snd (ensure_upgraded cfg who s)) who) = reserved (account_of cfg s who)"
proof (cases "is_new_logic (flags (account_of cfg s who))")
  case True
  then show ?thesis using ok by (simp add: ensure_upgraded_def Let_def)
next
  case False
  let ?y = "sy cfg"
  define a where "a = account_of cfg s who"
  define a1 where "a1 = a\<lparr> flags := set_new_logic (flags a) \<rparr>"
  define up where "up = (reserved a \<noteq> 0 \<and> frozen a = 0)"
  have a1s: "free a1 = free a" "reserved a1 = reserved a" "frozen a1 = frozen a" by (simp_all add: a1_def)
  have nd: "no_dust cfg a" and pr: "does_provide cfg a \<or> reserved a \<noteq> 0 \<Longrightarrow> 0 < sys_providers ?y (sys s) who"
    and rok: "refs_ok ?y (sys s)"
    using ok by (auto simp: bal_ok_def a_def)
  obtain a2 s2 where 2: "(if reserved a1 \<noteq> 0 \<and> frozen a1 = 0 then upgrade_references cfg who a1 s else (a1, s))
      = (a2, s2)" by (cases "if reserved a1 \<noteq> 0 \<and> frozen a1 = 0 then upgrade_references cfg who a1 s else (a1, s)")
  have st2: "a2 = a1 \<and> sys_only s s2 \<and> only_at ?y who (sys s) (sys s2) \<and> refs_ok ?y (sys s2) \<and>
      sys_providers ?y (sys s2) who = sys_providers ?y (sys s) who \<and> stored_data ?y (sys s2) who = a"
  proof (cases "reserved a1 \<noteq> 0 \<and> frozen a1 = 0")
    case True
    then have "sys_providers ?y (sys s) who \<noteq> 0" using pr a1s by auto
    then have u: "a2 = a1" "s2 = snd (on_sys (sys_inc_consumers_without_limit ?y who) s)"
      using 2 True by (auto simp: upgrade_references_def)
    show ?thesis
    proof (cases "sys_inc_consumers_without_limit ?y who (sys s)")
      case (Inl e)
      then show ?thesis using u rok by (simp add: on_sys_def a_def account_of_stored)
    next
      case (Inr e')
      note l = law_inc_consumers [OF law disjI2 [OF Inr]]
      have "refs_ok ?y e'" by (rule refs_ok_only_at [OF rok l(1)]) (use l in auto)
      then show ?thesis using u Inr l by (simp add: on_sys_def a_def account_of_stored)
    qed
  next
    case False
    then show ?thesis using 2 rok by (auto simp: a_def account_of_stored)
  qed
  define s3 where "s3 = snd (on_sys (sys_put ?y who (Some a2)) s2)"
  have eu: "snd (ensure_upgraded cfg who s) = deposit_event (B_Upgraded who) s3"
    using False 2 unfolding ensure_upgraded_def Let_def a_def [symmetric] a1_def [symmetric] s3_def
    by simp

  have "bal_ok cfg s3 \<and> store_only s s3 \<and> only_at ?y who (sys s) (sys s3) \<and>
    free (account_of cfg s3 who) = free a \<and> reserved (account_of cfg s3 who) = reserved a"
  proof (cases "sys_put ?y who (Some a2) (sys s2)")
    case (Inr e')
    note l = law_put [OF law Inr]
    have s3: "s3 = s2\<lparr> sys := e' \<rparr>" using Inr by (simp add: s3_def on_sys_def)
    have oa: "only_at ?y who (sys s) e'" using st2 only_at_trans [OF _ l(1)] by blast
    have fr: "free (stored_data ?y e' who) = free a \<and> reserved (stored_data ?y e' who) = reserved a"
      using l(4)
    proof
      assume "stored_data ?y e' who = data_or_default (Some a2)"
      then show ?thesis using st2 a1s by simp
    next
      assume z: "sys_providers ?y (sys s2) who = 0 \<and> stored_data ?y e' who = default_account"
      then have "\<not> does_provide cfg a" "reserved a = 0" using st2 pr by auto
      then have "free a = 0" using nd by (simp add: no_dust_def)
      then show ?thesis using z \<open>reserved a = 0\<close> by simp
    qed
    have "refs_ok ?y e'"
      using refs_ok_put [OF law _ Inr] st2 by blast
    moreover have "bal_ok cfg s3"
    proof (rule bal_ok_only_at [OF ok])
      show "only_at ?y who (sys s) (sys s3)" using oa s3 by simp
      show "refs_ok ?y (sys s3)" using \<open>refs_ok ?y e'\<close> s3 by simp
      show "no_dust cfg (account_of cfg s3 who)"
        using fr nd s3 by (simp add: no_dust_def does_provide_def account_of_stored)
      show "0 < sys_providers ?y (sys s3) who"
        if "does_provide cfg (account_of cfg s3 who) \<or> reserved (account_of cfg s3 who) \<noteq> 0"
        using that fr pr s3 st2 l(2) by (simp add: does_provide_def account_of_stored)
    qed
    moreover have "store_only s s3"
      using st2 unfolding s3 by (intro store_only_trans [OF store_only_sys store_only_sys [OF sys_only_update]]) simp
    ultimately show ?thesis using oa fr s3 by (simp add: account_of_stored)
  next
    case (Inl e)
    then have s3: "s3 = s2" by (simp add: s3_def on_sys_def)
    have "bal_ok cfg s2"
      by (rule bal_ok_only_at [OF ok, of who]) (use st2 nd pr in \<open>simp_all add: account_of_stored\<close>)
    then show ?thesis using st2 s3 store_only_sys by (auto simp: account_of_stored)
  qed
  then show ?thesis unfolding eu a_def
    by (simp add: account_of_def bal_ok_def store_only_trans [OF _ store_only_event])
qed

section \<open>The effect of a mutation\<close>

text \<open>What a closure may do besides computing the new account: change the storage in ways that
  leave the pallet consistent and the account itself alone.\<close>

definition leaves_alone :: "'e bal_config \<Rightarrow> account \<Rightarrow> 'e bal_state \<Rightarrow> 'e bal_state \<Rightarrow> bool" where
  "leaves_alone cfg who s s' \<longleftrightarrow>
     (bal_ok cfg s \<longrightarrow> bal_ok cfg s') \<and>
     stored_data (sy cfg) (sys s') who = stored_data (sy cfg) (sys s) who \<and>
     sys_providers (sy cfg) (sys s') who = sys_providers (sy cfg) (sys s) who"

lemma leaves_alone_store:
  "sys s' = sys s \<Longrightarrow> leaves_alone cfg who s s'"
  by (simp add: leaves_alone_def bal_ok_def account_of_def)

lemma settle_result:
  assumes "settle cfg a = Some (stored, dust)"
  shows "(stored = Some a \<and> dust = None \<and> (does_provide cfg a \<or> reserved a \<noteq> 0)) \<or>
    (stored = None \<and> reserved a = 0 \<and> \<not> does_provide cfg a \<and>
      (dust = None \<and> free a = 0 \<or> dust = Some (free a)))"
    "does_provide cfg a \<or> reserved a \<noteq> 0 \<Longrightarrow> stored = Some a \<and> dust = None"
  using assms by (auto simp: settle_def does_provide_def not_less split: if_splits)

lemma settle_total: "settle cfg a \<noteq> None"
  by (auto simp: settle_def)

lemma try_mutate_account_effect:
  assumes law: "system_law (sy cfg)" and ok: "bal_ok cfg s" and ed: "ExistentialDeposit cfg \<noteq> 0"
    and r: "try_mutate_account cfg who on_drop f s = (Inr (res, dust), s')"
    and f: "\<And>a new s0 x a' s1. f a new s0 = (Inr (x, a'), s1) \<Longrightarrow> bal_ok cfg s0 \<Longrightarrow>
      a = account_of cfg s0 who \<Longrightarrow> leaves_alone cfg who s0 s1"
  shows "\<exists>s0 a new a' s1 stored s2. s0 = snd (ensure_upgraded cfg who s) \<and>
    a = account_of cfg s0 who \<and> new = (sys_account (sy cfg) (sys s0) who = None) \<and>
    bal_ok cfg s0 \<and> store_only s s0 \<and> only_at (sy cfg) who (sys s) (sys s0) \<and>
    free a = free (account_of cfg s who) \<and> reserved a = reserved (account_of cfg s who) \<and>
    f a new s0 = (Inr (res, a'), s1) \<and> settle cfg a' = Some (stored, dust) \<and>
    sys_only s1 s2 \<and> s' = account_events who (if new then Some (free a') else None) dust s2 \<and>
    only_at (sy cfg) who (sys s1) (sys s') \<and> bal_ok cfg s' \<and>
    account_of cfg s' who = data_or_default stored"
proof -
  let ?y = "sy cfg"
  define s0 where "s0 = snd (ensure_upgraded cfg who s)"
  define a where "a = account_of cfg s0 who"
  define new where "new = (sys_account ?y (sys s0) who = None)"
  define dp where "dp = does_provide cfg a"
  define dc where "dc = (\<not> new \<and> does_consume a)"
  have up: "bal_ok cfg s0" "store_only s s0" "only_at ?y who (sys s) (sys s0)"
    "free a = free (account_of cfg s who)" "reserved a = reserved (account_of cfg s who)"
    using ensure_upgraded_effect [OF law ok ed, of who] unfolding s0_def a_def by auto
  have aq: "data_or_default (sys_account ?y (sys s0) who) = a" by (simp add: a_def account_of_def)
  obtain a' s1 where fa: "f a new s0 = (Inr (res, a'), s1)"
    using r unfolding try_mutate_account_def Let_def s0_def [symmetric] new_def [symmetric] aq
    by (auto split: prod.splits sum.splits option.splits)
  obtain s2 where ur: "update_references cfg who dp dc a' s1 = (Inr (), s2)"
    using r fa unfolding try_mutate_account_def Let_def s0_def [symmetric] new_def [symmetric] aq
      dp_def [symmetric] dc_def [symmetric]
    by (auto split: prod.splits sum.splits option.splits)
  obtain stored d where st: "settle cfg a' = Some (stored, d)"
    using settle_total [of cfg a'] by auto
  obtain s3 where pt: "on_sys (sys_put ?y who stored) s2 = (Inr (), s3)" and d: "d = dust"
    and s': "s' = account_events who (if new then Some (free a') else None) dust s3"
    using r fa ur st unfolding try_mutate_account_def Let_def s0_def [symmetric] new_def [symmetric] aq
      dp_def [symmetric] dc_def [symmetric]
    by (auto split: prod.splits sum.splits option.splits)
  obtain e' where e': "sys_put ?y who stored (sys s2) = Inr e'" "s3 = s2\<lparr> sys := e' \<rparr>"
    using pt by (auto simp: on_sys_Inr)
  have la: "leaves_alone cfg who s0 s1" by (rule f [OF fa up(1) a_def])
  then have ok1: "bal_ok cfg s1" using up(1) by (simp add: leaves_alone_def)
  have rok1: "refs_ok ?y (sys s1)" using ok1 by (simp add: bal_ok_def)
  have dpp: "dp \<Longrightarrow> 0 < sys_providers ?y (sys s1) who"
    using up(1) la by (auto simp: dp_def a_def bal_ok_def leaves_alone_def)
  have rs: "refs_step cfg who s1 s2"
    and prov: "does_provide cfg a' \<or> does_consume a' \<Longrightarrow> 0 < sys_providers ?y (sys s2) who"
    using update_references_step [OF law rok1 dpp ur] by auto
  have so: "sys_only s1 s3"
    using rs unfolding e'(2) refs_step_def by (intro sys_only_trans [OF _ sys_only_update]) blast
  note l = law_put [OF law e'(1)]
  have oa: "only_at ?y who (sys s1) (sys s')"
    using rs only_at_trans [OF _ l(1)] e'(2) s' by (simp add: refs_step_def)
  have rok: "refs_ok ?y (sys s')"
    using refs_ok_put [OF law _ e'(1)] rs e'(2) s' by (simp add: refs_step_def)
  have acc: "account_of cfg s' who = data_or_default stored"
  proof (cases "does_provide cfg a' \<or> reserved a' \<noteq> 0")
    case True
    then have "0 < sys_providers ?y (sys s2) who" using prov by (auto simp: does_consume_def)
    then show ?thesis using l(4) e'(2) s' by (auto simp: account_of_stored)
  next
    case False
    then have "stored = None" using settle_result(1) [OF st] by auto
    then show ?thesis using l(4) e'(2) s' by (auto simp: account_of_stored)
  qed
  have "bal_ok cfg s'"
  proof (rule bal_ok_only_at [OF ok1 oa rok])
    show "no_dust cfg (account_of cfg s' who)"
      using settle_result(1) [OF st] acc by (auto simp: no_dust_def)
    show "0 < sys_providers ?y (sys s') who"
      if h: "does_provide cfg (account_of cfg s' who) \<or> reserved (account_of cfg s' who) \<noteq> 0"
    proof -
      have "does_provide cfg a' \<or> reserved a' \<noteq> 0"
        using h acc settle_result(1) [OF st] default_no_provide [OF ed] by auto
      then show ?thesis using prov l(2) e'(2) s' by (auto simp: does_consume_def)
    qed
  qed
  then show ?thesis
    using up fa st d so s' oa acc unfolding s0_def [symmetric] a_def [symmetric] new_def [symmetric]
    by (intro exI [of _ s0] exI [of _ a] exI [of _ new] exI [of _ a'] exI [of _ s1] exI [of _ stored]
        exI [of _ s3]) (simp add: s0_def a_def new_def)
qed

section \<open>Mutations that only touch the account\<close>

text \<open>Dust handed to \<open>DustRemoval\<close> leaves the total issuance and nothing else.\<close>

definition dust_law :: "'e bal_config \<Rightarrow> bool" where
  "dust_law cfg \<longleftrightarrow>
     (\<forall>d s. \<exists>ev. DustRemoval cfg d s =
        s\<lparr> TotalIssuance := sat_sub (TotalIssuance s) d, bal_events := bal_events s @ ev \<rparr>)"

definition good_balances :: "'e bal_config \<Rightarrow> bool" where
  "good_balances cfg \<longleftrightarrow> system_law (sy cfg) \<and> dust_law cfg \<and> ExistentialDeposit cfg \<noteq> 0"

text \<open>A closure that at most deposits events.\<close>

definition quiet :: "('e, 'r) closure \<Rightarrow> bool" where
  "quiet f \<longleftrightarrow> (\<forall>a new s x s1. f a new s = (x, s1) \<longrightarrow> (\<exists>ev. s1 = s\<lparr> bal_events := bal_events s @ ev \<rparr>))"

text \<open>The state after the account of \<open>who\<close> has become \<open>a\<close>: it is stored, or, when it is below
  the existential deposit and has no reserve, it is gone and its free balance is dust.\<close>

definition mutated :: "'e bal_config \<Rightarrow> account \<Rightarrow> 'e bal_state \<Rightarrow> account_data \<Rightarrow> 'e bal_state \<Rightarrow> bool" where
  "mutated cfg who s a s' \<longleftrightarrow>
     bal_ok cfg s' \<and> (\<forall>b. b \<noteq> who \<longrightarrow> account_of cfg s' b = account_of cfg s b) \<and>
     (if does_provide cfg a \<or> reserved a \<noteq> 0
      then account_of cfg s' who = a \<and> TotalIssuance s' = TotalIssuance s
      else account_of cfg s' who = default_account \<and>
        TotalIssuance s' = sat_sub (TotalIssuance s) (free a)) \<and>
     Reserves s' = Reserves s \<and> Locks s' = Locks s \<and> Holds s' = Holds s \<and> Freezes s' = Freezes s \<and>
     TransferProof s' = TransferProof s \<and> InactiveIssuance s' = InactiveIssuance s"

lemma deposit_event_fields [simp]:
  "TotalIssuance (deposit_event ev s) = TotalIssuance s" "InactiveIssuance (deposit_event ev s) = InactiveIssuance s"
  "Locks (deposit_event ev s) = Locks s" "Reserves (deposit_event ev s) = Reserves s"
  "Holds (deposit_event ev s) = Holds s" "Freezes (deposit_event ev s) = Freezes s"
  "TransferProof (deposit_event ev s) = TransferProof s"
  by (simp_all add: deposit_event_def)

lemma account_of_sys: "sys s' = sys s \<Longrightarrow> account_of cfg s' = account_of cfg s"
  by (intro ext) (simp add: account_of_def)

lemma bal_ok_sys: "sys s' = sys s \<Longrightarrow> bal_ok cfg s' = bal_ok cfg s"
  by (simp add: bal_ok_def account_of_sys [of s' s])

lemma deposit_event_account [simp]: "account_of cfg (deposit_event ev s) = account_of cfg s"
  "bal_ok cfg (deposit_event ev s) = bal_ok cfg s"
  by (simp_all add: account_of_sys [of "deposit_event ev s" s] bal_ok_sys [of "deposit_event ev s" s])

lemma mutated_event: "mutated cfg who s a s' \<Longrightarrow> mutated cfg who s a (deposit_event ev s')"
  by (simp add: mutated_def)

lemma quiet_leaves_alone:
  assumes "quiet f" "f a new s = (x, s1)"
  shows "leaves_alone cfg who s s1" "store_only s s1" "sys s1 = sys s"
proof -
  obtain ev where s1: "s1 = s\<lparr> bal_events := bal_events s @ ev \<rparr>"
    using assms unfolding quiet_def by blast
  then show "sys s1 = sys s" by simp
  then show "leaves_alone cfg who s s1" by (rule leaves_alone_store)
  have "s1 = s\<lparr> sys := sys s, bal_events := bal_events s @ ev \<rparr>" using s1 by simp
  then show "store_only s s1" unfolding store_only_def by blast
qed

lemma handle_raw_dust_None [simp]: "handle_raw_dust cfg None s = s"
  by (simp add: handle_raw_dust_def)

lemma handle_raw_dust_Some:
  assumes "dust_law cfg"
  obtains ev where "handle_raw_dust cfg (Some d) s =
    s\<lparr> TotalIssuance := sat_sub (TotalIssuance s) d, bal_events := bal_events s @ ev \<rparr>"
  using assms unfolding dust_law_def handle_raw_dust_def by auto

lemma try_mutate_handling_dust_effect:
  assumes g: "good_balances cfg" and ok: "bal_ok cfg s" and q: "quiet f"
    and r: "try_mutate_account_handling_dust cfg who on_drop f s = (Inr res, s')"
  shows "\<exists>a new a' s0 s1. f a new s0 = (Inr (res, a'), s1) \<and>
    free a = free (account_of cfg s who) \<and> reserved a = reserved (account_of cfg s who) \<and>
    a = account_of cfg s0 who \<and> mutated cfg who s a' s'"
proof -
  have law: "system_law (sy cfg)" and dl: "dust_law cfg" and ed: "ExistentialDeposit cfg \<noteq> 0"
    using g by (auto simp: good_balances_def)
  obtain dust s3 where t: "try_mutate_account cfg who on_drop f s = (Inr (res, dust), s3)"
    and s': "s' = handle_raw_dust cfg dust s3"
    using r by (auto simp: try_mutate_account_handling_dust_def and_then_Inr)
  obtain s0 a new a' s1 stored s2 where e: "a = account_of cfg s0 who" "store_only s s0"
      "only_at (sy cfg) who (sys s) (sys s0)" "free a = free (account_of cfg s who)"
      "reserved a = reserved (account_of cfg s who)" "f a new s0 = (Inr (res, a'), s1)"
      "settle cfg a' = Some (stored, dust)" "sys_only s1 s2"
      "s3 = account_events who (if new then Some (free a') else None) dust s2"
      "only_at (sy cfg) who (sys s1) (sys s3)" "bal_ok cfg s3" "account_of cfg s3 who = data_or_default stored"
    by (rule exE [OF try_mutate_account_effect [OF law ok ed t quiet_leaves_alone(1) [OF q]]], assumption)
       (elim exE conjE, rule that, assumption+)
  note ql = quiet_leaves_alone [OF q e(6)]
  have so: "store_only s s3"
    unfolding e(9) using e(2,8) ql(2)
    by (intro store_only_trans [OF store_only_trans [OF store_only_trans [OF e(2) ql(2)] store_only_sys [OF e(8)]]])
       simp
  have oth: "account_of cfg s3 b = account_of cfg s b" if "b \<noteq> who" for b
    using only_atD(1) [OF e(10) that] only_atD(1) [OF e(3) that] ql(3) by (simp add: account_of_stored)
  note sf = store_only_fields [OF so]
  have "mutated cfg who s a' s'"
  proof (cases "does_provide cfg a' \<or> reserved a' \<noteq> 0")
    case True
    then have "stored = Some a'" "dust = None" using settle_result(2) [OF e(7)] by auto
    then show ?thesis using True s' e(11,12) oth sf by (simp add: mutated_def)
  next
    case False
    then have n: "stored = None" "dust = None \<and> free a' = 0 \<or> dust = Some (free a')"
      using settle_result(1) [OF e(7)] by auto
    from n(2) show ?thesis
    proof
      assume "dust = None \<and> free a' = 0"
      then show ?thesis using False n(1) s' e(11,12) oth sf by (simp add: mutated_def)
    next
      assume d: "dust = Some (free a')"
      obtain ev where s3': "s' = s3\<lparr> TotalIssuance := sat_sub (TotalIssuance s3) (free a'),
          bal_events := bal_events s3 @ ev \<rparr>"
        using handle_raw_dust_Some [OF dl, of "free a'" s3] d s' by metis
      then have "sys s' = sys s3" by simp
      note same = account_of_sys [OF this] bal_ok_sys [OF this]
      have fl: "TotalIssuance s' = sat_sub (TotalIssuance s3) (free a')" "Reserves s' = Reserves s3"
        "Locks s' = Locks s3" "Holds s' = Holds s3" "Freezes s' = Freezes s3"
        "TransferProof s' = TransferProof s3" "InactiveIssuance s' = InactiveIssuance s3"
        using s3' by simp_all
      show ?thesis using False n(1) e(11,12) oth sf by (simp add: mutated_def same fl)
    qed
  qed
  then show ?thesis using e by blast
qed

lemma quiet_ret: "quiet (\<lambda>a _. ret (f a) :: ('e, 'r \<times> account_data) bal)"
  unfolding quiet_def
proof (intro allI impI)
  fix a new and s :: "'e bal_state" and x s1
  assume "ret (f a) s = (x, s1)"
  then have "s1 = s\<lparr> bal_events := bal_events s @ [] \<rparr>" by simp
  then show "\<exists>ev. s1 = s\<lparr> bal_events := bal_events s @ ev \<rparr>" by blast
qed

lemma mutate_handling_dust_effect:
  assumes "good_balances cfg" "bal_ok cfg s"
    and "mutate_account_handling_dust cfg who on_drop f s = (Inr res, s')"
  shows "\<exists>a a'. f a = (res, a') \<and> free a = free (account_of cfg s who) \<and>
    reserved a = reserved (account_of cfg s who) \<and> mutated cfg who s a' s'"
proof -
  have "try_mutate_account_handling_dust cfg who on_drop (\<lambda>a _. ret (f a)) s = (Inr res, s')"
    using assms(3)
    by (simp add: mutate_account_handling_dust_def mutate_account_def try_mutate_account_handling_dust_def)
  from try_mutate_handling_dust_effect [OF assms(1,2) quiet_ret this] show ?thesis by auto
qed

section \<open>Issuance\<close>

definition holdings :: "'e bal_config \<Rightarrow> 'e bal_state \<Rightarrow> nat" where
  "holdings cfg s = (\<Sum>a\<in>UNIV. unat (free (account_of cfg s a)) + unat (reserved (account_of cfg s a)))"

definition issued_ok :: "'e bal_config \<Rightarrow> 'e bal_state \<Rightarrow> bool" where
  "issued_ok cfg s \<longleftrightarrow> unat (TotalIssuance s) = holdings cfg s"

definition total_nat :: "account_data \<Rightarrow> nat" where
  "total_nat a = unat (free a) + unat (reserved a)"

lemma holdings_changed:
  assumes "\<And>b. b \<noteq> who \<Longrightarrow> account_of cfg s' b = account_of cfg s b"
  shows "holdings cfg s' + total_nat (account_of cfg s who) = holdings cfg s + total_nat (account_of cfg s' who)"
  unfolding holdings_def total_nat_def by (rule sum_changed_at) (simp add: assms)

lemma total_le_holdings: "total_nat (account_of cfg s who) \<le> holdings cfg s"
  unfolding holdings_def total_nat_def by (rule member_le_sum) auto

text \<open>The balance of issuance and holdings after a mutation: the dust goes from both.\<close>

lemma mutated_holdings:
  assumes m: "mutated cfg who s a s'"
    and ed: "does_provide cfg a \<or> unat (free a) \<le> unat (TotalIssuance s)"
  shows "\<exists>dust. holdings cfg s' + dust + total_nat (account_of cfg s who) = holdings cfg s + total_nat a \<and>
    unat (TotalIssuance s') + dust = unat (TotalIssuance s)"
proof -
  have h: "holdings cfg s' + total_nat (account_of cfg s who) = holdings cfg s + total_nat (account_of cfg s' who)"
    using m by (intro holdings_changed) (simp add: mutated_def)
  show ?thesis
  proof (cases "does_provide cfg a \<or> reserved a \<noteq> 0")
    case True
    then show ?thesis using m h by (intro exI [of _ 0]) (simp add: mutated_def)
  next
    case False
    then have a: "account_of cfg s' who = default_account" "TotalIssuance s' = sat_sub (TotalIssuance s) (free a)"
      "reserved a = 0"
      using m by (auto simp: mutated_def)
    have "unat (free a) \<le> unat (TotalIssuance s)" using ed False by blast
    then show ?thesis using h a
      by (intro exI [of _ "unat (free a)"]) (simp add: total_nat_def mach_nat)
  qed
qed

lemma dust_is_issued:
  "ExistentialDeposit cfg \<le> TotalIssuance s \<Longrightarrow> does_provide cfg a \<or> unat (free a) \<le> unat (TotalIssuance s)"
  by (auto simp: does_provide_def word_le_nat_alt)

end
