(* ===== verification/BalancesCurrency.thy ===== *)
theory BalancesCurrency
  imports BalancesLaw
begin

text \<open>
  The traits \<open>Currency\<close> and \<open>ReservableCurrency\<close> of \<open>pallets/balances/src/impl_currency.rs\<close>, with
  its imbalances, and \<open>do_transfer_reserved\<close> of \<open>lib.rs\<close>. An imbalance is a value; dropping it
  squares the total issuance (\<open>drop_positive\<close>, \<open>drop_negative\<close>). \<open>fungible::Mutate::transfer\<close>
  is a default method of \<open>frame_support\<close> and a parameter.
\<close>

section \<open>Imbalances\<close>

datatype positive_imbalance = PositiveImbalance (pos_peek: balance)
datatype negative_imbalance = NegativeImbalance (neg_peek: balance)

datatype signed_imbalance = Signed_Positive positive_imbalance | Signed_Negative negative_imbalance

datatype ('a, 'b) same_or_other = SO_None | SO_Same 'a | SO_Other 'b

definition pos_drop_zero :: "positive_imbalance \<Rightarrow> positive_imbalance + unit" where
  "pos_drop_zero i = (if pos_peek i = 0 then Inr () else Inl i)"

definition pos_split :: "positive_imbalance \<Rightarrow> balance \<Rightarrow> positive_imbalance \<times> positive_imbalance" where
  "pos_split i amount =
     (let first = min (pos_peek i) amount; second = pos_peek i - first
      in (PositiveImbalance first, PositiveImbalance second))"

text \<open>\<open>extract\<close> gives the new imbalance and what remains of \<open>self\<close>.\<close>

definition pos_extract :: "positive_imbalance \<Rightarrow> balance \<Rightarrow> positive_imbalance \<times> positive_imbalance" where
  "pos_extract i amount =
     (let new = min (pos_peek i) amount
      in (PositiveImbalance new, PositiveImbalance (pos_peek i - new)))"

definition pos_merge :: "positive_imbalance \<Rightarrow> positive_imbalance \<Rightarrow> positive_imbalance" where
  "pos_merge i j = PositiveImbalance (sat_add (pos_peek i) (pos_peek j))"

definition pos_offset ::
    "positive_imbalance \<Rightarrow> negative_imbalance \<Rightarrow> (positive_imbalance, negative_imbalance) same_or_other" where
  "pos_offset i j =
     (let a = pos_peek i; b = neg_peek j
      in if b < a then SO_Same (PositiveImbalance (a - b))
         else if a < b then SO_Other (NegativeImbalance (b - a))
         else SO_None)"

definition neg_drop_zero :: "negative_imbalance \<Rightarrow> negative_imbalance + unit" where
  "neg_drop_zero i = (if neg_peek i = 0 then Inr () else Inl i)"

definition neg_split :: "negative_imbalance \<Rightarrow> balance \<Rightarrow> negative_imbalance \<times> negative_imbalance" where
  "neg_split i amount =
     (let first = min (neg_peek i) amount; second = neg_peek i - first
      in (NegativeImbalance first, NegativeImbalance second))"

definition neg_extract :: "negative_imbalance \<Rightarrow> balance \<Rightarrow> negative_imbalance \<times> negative_imbalance" where
  "neg_extract i amount =
     (let new = min (neg_peek i) amount
      in (NegativeImbalance new, NegativeImbalance (neg_peek i - new)))"

definition neg_merge :: "negative_imbalance \<Rightarrow> negative_imbalance \<Rightarrow> negative_imbalance" where
  "neg_merge i j = NegativeImbalance (sat_add (neg_peek i) (neg_peek j))"

definition neg_offset ::
    "negative_imbalance \<Rightarrow> positive_imbalance \<Rightarrow> (negative_imbalance, positive_imbalance) same_or_other" where
  "neg_offset i j =
     (let a = neg_peek i; b = pos_peek j
      in if b < a then SO_Same (NegativeImbalance (a - b))
         else if a < b then SO_Other (PositiveImbalance (b - a))
         else SO_None)"

definition drop_positive :: "positive_imbalance \<Rightarrow> 'e bal_state \<Rightarrow> 'e bal_state" where
  "drop_positive i s =
     (if pos_peek i \<noteq> 0
      then deposit_event (B_Issued (pos_peek i))
             (s\<lparr> TotalIssuance := sat_add (TotalIssuance s) (pos_peek i) \<rparr>)
      else s)"

definition drop_negative :: "negative_imbalance \<Rightarrow> 'e bal_state \<Rightarrow> 'e bal_state" where
  "drop_negative i s =
     (if neg_peek i \<noteq> 0
      then deposit_event (B_Rescinded (neg_peek i))
             (s\<lparr> TotalIssuance := sat_sub (TotalIssuance s) (neg_peek i) \<rparr>)
      else s)"

definition drop_signed :: "signed_imbalance \<Rightarrow> 'e bal_state \<Rightarrow> 'e bal_state" where
  "drop_signed i s = (case i of Signed_Positive p \<Rightarrow> drop_positive p s | Signed_Negative n \<Rightarrow> drop_negative n s)"

section \<open>Currency\<close>

definition can_slash :: "'e bal_config \<Rightarrow> 'e bal_state \<Rightarrow> account \<Rightarrow> balance \<Rightarrow> bool" where
  "can_slash cfg s who value = (if value = 0 then True else value \<le> free_balance cfg s who)"

definition active_issuance :: "'e bal_state \<Rightarrow> balance" where
  "active_issuance s = sat_sub (TotalIssuance s) (InactiveIssuance s)"

definition currency_burn :: "balance \<Rightarrow> 'e bal_state \<Rightarrow> positive_imbalance \<times> 'e bal_state" where
  "currency_burn amount s =
     (if amount = 0 then (PositiveImbalance 0, s)
      else let (issued, amount') = (case checked_sub (TotalIssuance s) amount of
                 Some x \<Rightarrow> (x, amount) | None \<Rightarrow> (0, TotalIssuance s))
           in (PositiveImbalance amount',
               deposit_event (B_Rescinded amount') (s\<lparr> TotalIssuance := issued \<rparr>)))"

definition currency_issue :: "balance \<Rightarrow> 'e bal_state \<Rightarrow> negative_imbalance \<times> 'e bal_state" where
  "currency_issue amount s =
     (if amount = 0 then (NegativeImbalance 0, s)
      else let (issued, amount') = (case checked_add (TotalIssuance s) amount of
                 Some x \<Rightarrow> (x, amount) | None \<Rightarrow> (- 1, - 1 - TotalIssuance s))
           in (NegativeImbalance amount',
               deposit_event (B_Issued amount') (s\<lparr> TotalIssuance := issued \<rparr>)))"

definition ensure_can_withdraw ::
    "'e bal_config \<Rightarrow> account \<Rightarrow> balance \<Rightarrow> withdraw_reasons \<Rightarrow> balance \<Rightarrow> ('e, unit) bal" where
  "ensure_can_withdraw cfg who amount reasons new_balance s =
     (if amount = 0 then (Inr (), s)
      else ensure (frozen (account_of cfg s who) \<le> new_balance) (Balances_Error LiquidityRestrictions) s)"

text \<open>\<open>mutate_transfer\<close> is \<open>fungible::Mutate::transfer\<close>.\<close>

definition currency_transfer ::
    "(account \<Rightarrow> account \<Rightarrow> balance \<Rightarrow> preservation \<Rightarrow> ('e, balance) bal)
      \<Rightarrow> account \<Rightarrow> account \<Rightarrow> balance \<Rightarrow> existence_requirement \<Rightarrow> ('e, unit) bal" where
  "currency_transfer mutate_transfer transactor dest value existence_requirement =
     (if value = 0 \<or> transactor = dest then ret ()
      else let keep_alive = (case existence_requirement of KeepAlive \<Rightarrow> Preserve | AllowDeath \<Rightarrow> Expendable)
           in and_then (mutate_transfer transactor dest value keep_alive) (\<lambda>_. ret ()))"

definition slash_closure ::
    "'e bal_config \<Rightarrow> account \<Rightarrow> balance \<Rightarrow> ('e, negative_imbalance \<times> balance) closure" where
  "slash_closure cfg who value a is_new s =
     (let ed = ExistentialDeposit cfg;
          actual = (if sys_can_dec_provider (sy cfg) (sys s) who then min value (free a)
                    else min value (sat_sub (free a) ed));
          remaining = sat_sub value actual
      in (Inr ((NegativeImbalance actual, remaining), a\<lparr> free := sat_sub (free a) actual \<rparr>), s))"

definition slash ::
    "'e bal_config \<Rightarrow> account \<Rightarrow> balance \<Rightarrow> 'e bal_state \<Rightarrow> (negative_imbalance \<times> balance) \<times> 'e bal_state" where
  "slash cfg who value s =
     (if value = 0 then ((NegativeImbalance 0, 0), s)
      else if total_balance cfg s who = 0 then ((NegativeImbalance 0, value), s)
      else case try_mutate_account_handling_dust cfg who (drop_negative \<circ> fst) (slash_closure cfg who value) s of
          (Inr (imbalance, remaining), s') \<Rightarrow>
            ((imbalance, remaining), deposit_event (B_Slashed who (sat_sub value remaining)) s')
        | (Inl _, s') \<Rightarrow> ((NegativeImbalance 0, value), s'))"

definition add_free :: "balance \<Rightarrow> account_data \<Rightarrow> dispatch_error + account_data" where
  "add_free value a =
     (case checked_add (free a) value of
        None \<Rightarrow> Inl (Arithmetic Overflow) | Some x \<Rightarrow> Inr (a\<lparr> free := x \<rparr>))"

definition deposit_existing_closure ::
    "'e bal_config \<Rightarrow> account \<Rightarrow> balance \<Rightarrow> ('e, positive_imbalance) closure" where
  "deposit_existing_closure cfg who value a is_new =
     and_then (ensure (\<not> is_new) (Balances_Error DeadAccount)) (\<lambda>_.
       and_then (lift_res (add_free value a)) (\<lambda>a'.
       and_then (update_st (deposit_event (B_Deposit who value)))
         (\<lambda>_. ret (PositiveImbalance value, a'))))"

definition deposit_into_existing ::
    "'e bal_config \<Rightarrow> account \<Rightarrow> balance \<Rightarrow> ('e, positive_imbalance) bal" where
  "deposit_into_existing cfg who value =
     (if value = 0 then ret (PositiveImbalance 0)
      else try_mutate_account_handling_dust cfg who drop_positive (deposit_existing_closure cfg who value))"

definition deposit_closure ::
    "'e bal_config \<Rightarrow> account \<Rightarrow> balance \<Rightarrow> ('e, positive_imbalance) closure" where
  "deposit_closure cfg who value a is_new =
     and_then (ensure (ExistentialDeposit cfg \<le> value \<or> \<not> is_new) (Balances_Error ExistentialDeposit_Error)) (\<lambda>_.
       case checked_add (free a) value of
         None \<Rightarrow> ret (PositiveImbalance 0, a)
       | Some x \<Rightarrow>
           and_then (update_st (deposit_event (B_Deposit who value)))
             (\<lambda>_. ret (PositiveImbalance value, a\<lparr> free := x \<rparr>)))"

definition deposit_creating ::
    "'e bal_config \<Rightarrow> account \<Rightarrow> balance \<Rightarrow> 'e bal_state \<Rightarrow> positive_imbalance \<times> 'e bal_state" where
  "deposit_creating cfg who value s =
     (if value = 0 then (PositiveImbalance 0, s)
      else case try_mutate_account_handling_dust cfg who drop_positive (deposit_closure cfg who value) s of
          (Inr imbalance, s') \<Rightarrow> (imbalance, s')
        | (Inl _, s') \<Rightarrow> (PositiveImbalance 0, s'))"

definition withdraw_closure ::
    "'e bal_config \<Rightarrow> account \<Rightarrow> balance \<Rightarrow> withdraw_reasons \<Rightarrow> existence_requirement
      \<Rightarrow> ('e, negative_imbalance) closure" where
  "withdraw_closure cfg who value reasons liveness a is_new =
     (case checked_sub (free a) value of
        None \<Rightarrow> fail (Balances_Error InsufficientBalance)
      | Some new_free_account \<Rightarrow>
          let ed = ExistentialDeposit cfg;
              would_be_dead = new_free_account < ed;
              would_kill = (would_be_dead \<and> ed \<le> free a)
          in and_then (ensure (liveness = AllowDeath \<or> \<not> would_kill) (Balances_Error Expendability)) (\<lambda>_.
               and_then (ensure_can_withdraw cfg who value reasons new_free_account) (\<lambda>_.
               and_then (update_st (deposit_event (B_Withdraw who value))) (\<lambda>_.
                 ret (NegativeImbalance value, a\<lparr> free := new_free_account \<rparr>)))))"

definition withdraw ::
    "'e bal_config \<Rightarrow> account \<Rightarrow> balance \<Rightarrow> withdraw_reasons \<Rightarrow> existence_requirement
      \<Rightarrow> ('e, negative_imbalance) bal" where
  "withdraw cfg who value reasons liveness =
     (if value = 0 then ret (NegativeImbalance 0)
      else try_mutate_account_handling_dust cfg who drop_negative
             (withdraw_closure cfg who value reasons liveness))"

definition set_free_closure ::
    "'e bal_config \<Rightarrow> account \<Rightarrow> balance \<Rightarrow> ('e, signed_imbalance) closure" where
  "set_free_closure cfg who value a is_new =
     and_then (ensure (ExistentialDeposit cfg \<le> value \<or> \<not> is_new) (Balances_Error ExistentialDeposit_Error)) (\<lambda>_.
       let imbalance = (if free a \<le> value
             then Signed_Positive (PositiveImbalance (value - free a))
             else Signed_Negative (NegativeImbalance (free a - value)))
       in and_then (update_st (deposit_event (B_BalanceSet who value)))
            (\<lambda>_. ret (imbalance, a\<lparr> free := value \<rparr>)))"

definition make_free_balance_be ::
    "'e bal_config \<Rightarrow> account \<Rightarrow> balance \<Rightarrow> 'e bal_state \<Rightarrow> signed_imbalance \<times> 'e bal_state" where
  "make_free_balance_be cfg who value s =
     (case try_mutate_account_handling_dust cfg who drop_signed (set_free_closure cfg who value) s of
        (Inr imbalance, s') \<Rightarrow> (imbalance, s')
      | (Inl _, s') \<Rightarrow> (Signed_Positive (PositiveImbalance 0), s'))"

section \<open>ReservableCurrency\<close>

definition RESERVE :: withdraw_reasons where
  "RESERVE = 4"

definition can_reserve :: "'e bal_config \<Rightarrow> 'e bal_state \<Rightarrow> account \<Rightarrow> balance \<Rightarrow> bool" where
  "can_reserve cfg s who value =
     (if value = 0 then True
      else case checked_sub (free (account_of cfg s who)) value of
          None \<Rightarrow> False
        | Some new_balance \<Rightarrow>
            ExistentialDeposit cfg \<le> new_balance \<and>
            fst (ensure_can_withdraw cfg who value RESERVE new_balance s) = Inr ())"

definition reserve_closure :: "'e bal_config \<Rightarrow> account \<Rightarrow> balance \<Rightarrow> ('e, unit) closure" where
  "reserve_closure cfg who value a is_new =
     (case checked_sub (free a) value of
        None \<Rightarrow> fail (Balances_Error InsufficientBalance)
      | Some new_free \<Rightarrow>
          (case checked_add (reserved a) value of
             None \<Rightarrow> fail (Arithmetic Overflow)
           | Some new_reserved \<Rightarrow>
               and_then (ensure_can_withdraw cfg who value RESERVE new_free)
                 (\<lambda>_. ret ((), a\<lparr> free := new_free, reserved := new_reserved \<rparr>))))"

definition reserve :: "'e bal_config \<Rightarrow> account \<Rightarrow> balance \<Rightarrow> ('e, unit) bal" where
  "reserve cfg who value =
     (if value = 0 then ret ()
      else and_then (try_mutate_account_handling_dust cfg who no_drop (reserve_closure cfg who value))
             (\<lambda>_. update_st (deposit_event (B_Reserved who value))))"

definition unreserve_closure :: "balance \<Rightarrow> account_data \<Rightarrow> balance \<times> account_data" where
  "unreserve_closure value a =
     (let actual = min (reserved a) value
      in (actual, a\<lparr> reserved := reserved a - actual, free := sat_add (free a) actual \<rparr>))"

definition unreserve ::
    "'e bal_config \<Rightarrow> account \<Rightarrow> balance \<Rightarrow> 'e bal_state \<Rightarrow> balance \<times> 'e bal_state" where
  "unreserve cfg who value s =
     (if value = 0 then (0, s)
      else if total_balance cfg s who = 0 then (value, s)
      else case mutate_account_handling_dust cfg who no_drop (unreserve_closure value) s of
          (Inr actual, s') \<Rightarrow> (value - actual, deposit_event (B_Unreserved who actual) s')
        | (Inl _, s') \<Rightarrow> (value, s'))"

definition slash_reserved_closure :: "balance \<Rightarrow> account_data \<Rightarrow> (negative_imbalance \<times> balance) \<times> account_data" where
  "slash_reserved_closure value a =
     (let actual = min value (reserved a)
      in ((NegativeImbalance actual, sat_sub value actual), a\<lparr> reserved := sat_sub (reserved a) actual \<rparr>))"

definition slash_reserved ::
    "'e bal_config \<Rightarrow> account \<Rightarrow> balance \<Rightarrow> 'e bal_state \<Rightarrow> (negative_imbalance \<times> balance) \<times> 'e bal_state" where
  "slash_reserved cfg who value s =
     (if value = 0 then ((NegativeImbalance 0, 0), s)
      else if total_balance cfg s who = 0 then ((NegativeImbalance 0, value), s)
      else case mutate_account_handling_dust cfg who (drop_negative \<circ> fst) (slash_reserved_closure value) s of
          (Inr (imbalance, not_slashed), s') \<Rightarrow>
            ((imbalance, not_slashed), deposit_event (B_Slashed who (sat_sub value not_slashed)) s')
        | (Inl _, s') \<Rightarrow> ((NegativeImbalance 0, value), s'))"

definition reducible_total_balance_on_hold :: "'e bal_config \<Rightarrow> 'e bal_state \<Rightarrow> account \<Rightarrow> fortitude \<Rightarrow> balance" where
  "reducible_total_balance_on_hold cfg s who force =
     (let a = account_of cfg s who;
          unavailable = (if force = Force then 0 else sat_sub (frozen a) (free a))
      in sat_sub (reserved a) unavailable)"

text \<open>The inner and the outer closure of \<open>do_transfer_reserved\<close>: the inner one mutates the slashed
  account and, through the reference it captured, the beneficiary's.\<close>

definition move_reserved_inner ::
    "balance \<Rightarrow> balance_status \<Rightarrow> account_data \<Rightarrow> ('e, account_data) closure" where
  "move_reserved_inner actual status to_account from_account is_new =
     (case status of
        Status_Free \<Rightarrow>
          (case checked_add (free to_account) actual of
             None \<Rightarrow> fail (Arithmetic Overflow)
           | Some x \<Rightarrow> ret (to_account\<lparr> free := x \<rparr>, from_account\<lparr> reserved := sat_sub (reserved from_account) actual \<rparr>))
      | Status_Reserved \<Rightarrow>
          (case checked_add (reserved to_account) actual of
             None \<Rightarrow> fail (Arithmetic Overflow)
           | Some x \<Rightarrow> ret (to_account\<lparr> reserved := x \<rparr>, from_account\<lparr> reserved := sat_sub (reserved from_account) actual \<rparr>)))"

definition move_reserved_outer ::
    "'e bal_config \<Rightarrow> account \<Rightarrow> balance \<Rightarrow> balance_status \<Rightarrow> ('e, balance option) closure" where
  "move_reserved_outer cfg slashed actual status to_account is_new =
     and_then (ensure (\<not> is_new) (Balances_Error DeadAccount)) (\<lambda>_.
       and_then (try_mutate_account cfg slashed no_drop (move_reserved_inner actual status to_account))
         (\<lambda>(to_account', maybe_dust). ret (maybe_dust, to_account')))"

definition do_transfer_reserved ::
    "'e bal_config \<Rightarrow> account \<Rightarrow> account \<Rightarrow> balance \<Rightarrow> precision \<Rightarrow> fortitude \<Rightarrow> balance_status
      \<Rightarrow> ('e, balance) bal" where
  "do_transfer_reserved cfg slashed beneficiary value precision fortitude status s =
     (if value = 0 then (Inr 0, s)
      else let max_amount = reducible_total_balance_on_hold cfg s slashed fortitude;
               actual = (case precision of BestEffort \<Rightarrow> min value max_amount | Exact \<Rightarrow> value)
           in if \<not> actual \<le> max_amount then (Inl (Token FundsUnavailable), s)
              else if slashed = beneficiary
              then (case status of
                      Status_Free \<Rightarrow> let (left, s') = unreserve cfg slashed actual s
                                     in (Inr (sat_sub actual left), s')
                    | Status_Reserved \<Rightarrow> (Inr actual, s))
              else case try_mutate_account cfg beneficiary no_drop (move_reserved_outer cfg slashed actual status) s of
                  (Inl e, s1) \<Rightarrow> (Inl e, s1)
                | (Inr (maybe_dust_1, maybe_dust_2), s1) \<Rightarrow>
                    (Inr actual,
                     deposit_event (B_ReserveRepatriated slashed beneficiary actual status)
                       (handle_raw_dust cfg maybe_dust_2 (handle_raw_dust cfg maybe_dust_1 s1))))"

definition repatriate_reserved ::
    "'e bal_config \<Rightarrow> account \<Rightarrow> account \<Rightarrow> balance \<Rightarrow> balance_status \<Rightarrow> ('e, balance) bal" where
  "repatriate_reserved cfg slashed beneficiary value status =
     and_then (do_transfer_reserved cfg slashed beneficiary value BestEffort Polite status)
       (\<lambda>actual. ret (sat_sub value actual))"

end
