(* ===== verification/BalancesHolds.thy ===== *)
theory BalancesHolds
  imports BalancesCurrency
begin

text \<open>
  The rest of the balances pallet's traits: named reserves and locks of \<open>impl_currency.rs\<close> (with
  \<open>update_locks\<close> of \<open>lib.rs\<close>), and of \<open>impl_fungible.rs\<close> the inspection of what can be withdrawn or
  deposited, the holds and the freezes (with \<open>update_freezes\<close>).
\<close>

section \<open>Named reserves\<close>

text \<open>The standard library's binary search of a slice sorted by identifier.\<close>

datatype search = Found nat | Missing nat

function search_between :: "nat \<Rightarrow> id_amount list \<Rightarrow> nat \<Rightarrow> nat \<Rightarrow> search" where
  "search_between ident xs lo hi =
     (if lo < hi then
        let mid = lo + (hi - lo) div 2
        in if id_of (xs ! mid) < ident then search_between ident xs (mid + 1) hi
           else if ident < id_of (xs ! mid) then search_between ident xs lo mid
           else Found mid
      else Missing lo)"
  by pat_completeness auto
termination by (relation "measure (\<lambda>(ident, xs, lo, hi). hi - lo)") auto

declare search_between.simps [simp del]

definition binary_search_by_id :: "nat \<Rightarrow> id_amount list \<Rightarrow> search" where
  "binary_search_by_id ident xs = search_between ident xs 0 (length xs)"

definition list_insert_at :: "nat \<Rightarrow> 'a \<Rightarrow> 'a list \<Rightarrow> 'a list" where
  "list_insert_at i x xs = take i xs @ x # drop i xs"

definition list_remove_at :: "nat \<Rightarrow> 'a list \<Rightarrow> 'a list" where
  "list_remove_at i xs = take i xs @ drop (Suc i) xs"

definition set_amount :: "nat \<Rightarrow> balance \<Rightarrow> id_amount list \<Rightarrow> id_amount list" where
  "set_amount i v xs = xs[i := (xs ! i)\<lparr> amount_of := v \<rparr>]"

definition try_insert :: "u32 \<Rightarrow> nat \<Rightarrow> id_amount \<Rightarrow> id_amount list \<Rightarrow> id_amount list option" where
  "try_insert bound i x xs =
     (if length xs < unat bound \<and> i \<le> length xs then Some (list_insert_at i x xs) else None)"

definition put_reserves :: "account \<Rightarrow> id_amount list \<Rightarrow> 'e bal_state \<Rightarrow> 'e bal_state" where
  "put_reserves who rs s = s\<lparr> Reserves := (Reserves s)(who := rs) \<rparr>"

definition reserved_balance_named :: "'e bal_state \<Rightarrow> nat \<Rightarrow> account \<Rightarrow> balance" where
  "reserved_balance_named s ident who =
     (case binary_search_by_id ident (Reserves s who) of
        Found i \<Rightarrow> amount_of (Reserves s who ! i) | Missing i \<Rightarrow> 0)"

text \<open>The list with \<open>value\<close> added to the reserve \<open>ident\<close>.\<close>

definition add_named :: "'e bal_config \<Rightarrow> nat \<Rightarrow> balance \<Rightarrow> id_amount list \<Rightarrow> dispatch_error + id_amount list" where
  "add_named cfg ident value rs =
     (case binary_search_by_id ident rs of
        Found i \<Rightarrow>
          (case checked_add (amount_of (rs ! i)) value of
             None \<Rightarrow> Inl (Arithmetic Overflow) | Some x \<Rightarrow> Inr (set_amount i x rs))
      | Missing i \<Rightarrow>
          (case try_insert (MaxReserves cfg) i \<lparr> id_of = ident, amount_of = value \<rparr> rs of
             None \<Rightarrow> Inl (Balances_Error TooManyReserves) | Some rs' \<Rightarrow> Inr rs'))"

definition reserve_named :: "'e bal_config \<Rightarrow> nat \<Rightarrow> account \<Rightarrow> balance \<Rightarrow> ('e, unit) bal" where
  "reserve_named cfg ident who value s =
     (if value = 0 then (Inr (), s)
      else and_then (lift_res (add_named cfg ident value (Reserves s who))) (\<lambda>rs.
             and_then (reserve cfg who value) (\<lambda>_. update_st (put_reserves who rs))) s)"

definition unreserve_named ::
    "'e bal_config \<Rightarrow> nat \<Rightarrow> account \<Rightarrow> balance \<Rightarrow> 'e bal_state \<Rightarrow> balance \<times> 'e bal_state" where
  "unreserve_named cfg ident who value s =
     (if value = 0 then (0, s)
      else let rs = Reserves s who
           in case binary_search_by_id ident rs of
                Missing i \<Rightarrow> (value, s)
              | Found i \<Rightarrow>
                  let to_change = min (amount_of (rs ! i)) value;
                      (remain, s') = unreserve cfg who to_change s;
                      actual = sat_sub to_change remain;
                      left = amount_of (rs ! i) - actual;
                      rs' = (if left = 0 then list_remove_at i rs else set_amount i left rs)
                  in (value - actual, put_reserves who rs' s'))"

definition slash_reserved_named ::
    "'e bal_config \<Rightarrow> nat \<Rightarrow> account \<Rightarrow> balance \<Rightarrow> 'e bal_state \<Rightarrow> (negative_imbalance \<times> balance) \<times> 'e bal_state" where
  "slash_reserved_named cfg ident who value s =
     (if value = 0 then ((NegativeImbalance 0, 0), s)
      else let rs = Reserves s who
           in case binary_search_by_id ident rs of
                Missing i \<Rightarrow> ((NegativeImbalance 0, value), s)
              | Found i \<Rightarrow>
                  let to_change = min (amount_of (rs ! i)) value;
                      ((imb, remain), s') = slash_reserved cfg who to_change s;
                      actual = sat_sub to_change remain
                  in ((imb, value - actual),
                      put_reserves who (set_amount i (amount_of (rs ! i) - actual) rs)
                        (deposit_event (B_Slashed who actual) s')))"

text \<open>Moving between accounts; under \<open>Reserved\<close> the beneficiary's list gets the amount under the
  same identifier, and its bound is only checked after the balance has moved.\<close>

definition repatriate_into_named ::
    "'e bal_config \<Rightarrow> nat \<Rightarrow> account \<Rightarrow> account \<Rightarrow> balance \<Rightarrow> ('e, balance) bal" where
  "repatriate_into_named cfg ident slashed beneficiary to_change s =
     (let rs = Reserves s beneficiary
      in case repatriate_reserved cfg slashed beneficiary to_change Status_Reserved s of
           (Inl e, s1) \<Rightarrow> (Inl e, s1)
         | (Inr remain, s1) \<Rightarrow>
             let actual = sat_sub to_change remain
             in (case binary_search_by_id ident rs of
                   Found i \<Rightarrow>
                     (Inr actual, put_reserves beneficiary (set_amount i (sat_add (amount_of (rs ! i)) actual) rs) s1)
                 | Missing i \<Rightarrow>
                     (case try_insert (MaxReserves cfg) i \<lparr> id_of = ident, amount_of = actual \<rparr> rs of
                        None \<Rightarrow> (Inl (Balances_Error TooManyReserves), s1)
                      | Some rs' \<Rightarrow> (Inr actual, put_reserves beneficiary rs' s1))))"

definition repatriate_reserved_named ::
    "'e bal_config \<Rightarrow> nat \<Rightarrow> account \<Rightarrow> account \<Rightarrow> balance \<Rightarrow> balance_status \<Rightarrow> ('e, balance) bal" where
  "repatriate_reserved_named cfg ident slashed beneficiary value status s =
     (if value = 0 then (Inr 0, s)
      else if slashed = beneficiary
      then (case status of
              Status_Free \<Rightarrow> let (left, s') = unreserve_named cfg ident slashed value s in (Inr left, s')
            | Status_Reserved \<Rightarrow> (Inr (sat_sub value (reserved_balance_named s ident slashed)), s))
      else let rs = Reserves s slashed
           in case binary_search_by_id ident rs of
                Missing i \<Rightarrow> (Inr value, s)
              | Found i \<Rightarrow>
                  let to_change = min (amount_of (rs ! i)) value
                  in and_then
                       (if status = Status_Reserved then repatriate_into_named cfg ident slashed beneficiary to_change
                        else and_then (repatriate_reserved cfg slashed beneficiary to_change status)
                               (\<lambda>remain. ret (sat_sub to_change remain)))
                       (\<lambda>actual s'.
                          (Inr (value - actual),
                           put_reserves slashed (set_amount i (amount_of (rs ! i) - actual) rs) s')) s)"

section \<open>Locks\<close>

definition max_amount :: "balance list \<Rightarrow> balance" where
  "max_amount xs = foldl max 0 xs"

definition frozen_by :: "balance_lock list \<Rightarrow> id_amount list \<Rightarrow> balance" where
  "frozen_by locks freezes = foldl max (foldl max 0 (map lock_amount locks)) (map amount_of freezes)"

text \<open>The closure of \<open>update_locks\<close> and \<open>update_freezes\<close>, which hands out the frozen amount before
  and after. Its result is known whether the mutation goes through or not.\<close>

definition frozen_closure :: "balance_lock list \<Rightarrow> id_amount list \<Rightarrow> account_data \<Rightarrow> (balance \<times> balance) \<times> account_data" where
  "frozen_closure locks freezes a =
     ((frozen a, frozen_by locks freezes), a\<lparr> frozen := frozen_by locks freezes \<rparr>)"

definition put_locks :: "account \<Rightarrow> balance_lock list \<Rightarrow> 'e bal_state \<Rightarrow> 'e bal_state" where
  "put_locks who ls s = s\<lparr> Locks := (Locks s)(who := ls) \<rparr>"

definition frozen_event ::
    "(account \<Rightarrow> balance \<Rightarrow> bal_event) \<Rightarrow> (account \<Rightarrow> balance \<Rightarrow> bal_event) \<Rightarrow> account \<Rightarrow> balance \<Rightarrow> balance
      \<Rightarrow> 'e bal_state \<Rightarrow> 'e bal_state" where
  "frozen_event down up who prev after s =
     (if after < prev then deposit_event (down who (sat_sub prev after)) s
      else if prev < after then deposit_event (up who (sat_sub after prev)) s
      else s)"

definition update_locks :: "'e bal_config \<Rightarrow> account \<Rightarrow> balance_lock list \<Rightarrow> 'e bal_state \<Rightarrow> 'e bal_state" where
  "update_locks cfg who locks s =
     (let freezes = Freezes s who;
          prev = frozen (account_of cfg (snd (ensure_upgraded cfg who s)) who);
          after = frozen_by locks freezes;
          s1 = snd (mutate_account cfg who no_drop (frozen_closure locks freezes) s)
      in frozen_event B_Unlocked B_Locked who prev after (put_locks who locks s1))"

fun replace_lock :: "balance_lock option \<Rightarrow> bytes \<Rightarrow> (balance_lock \<Rightarrow> balance_lock \<Rightarrow> balance_lock)
    \<Rightarrow> balance_lock list \<Rightarrow> balance_lock list" where
  "replace_lock new ident join [] = (case new of None \<Rightarrow> [] | Some l \<Rightarrow> [l])"
| "replace_lock new ident join (l # ls) =
     (if lock_id l = ident
      then (case new of None \<Rightarrow> replace_lock None ident join ls
              | Some nl \<Rightarrow> join l nl # replace_lock None ident join ls)
      else l # replace_lock new ident join ls)"

definition remove_lock :: "'e bal_config \<Rightarrow> bytes \<Rightarrow> account \<Rightarrow> 'e bal_state \<Rightarrow> 'e bal_state" where
  "remove_lock cfg ident who s = update_locks cfg who (filter (\<lambda>l. lock_id l \<noteq> ident) (Locks s who)) s"

definition set_lock ::
    "'e bal_config \<Rightarrow> bytes \<Rightarrow> account \<Rightarrow> balance \<Rightarrow> withdraw_reasons \<Rightarrow> 'e bal_state \<Rightarrow> 'e bal_state" where
  "set_lock cfg ident who amount rs s =
     (if rs = 0 \<or> amount = 0 then remove_lock cfg ident who s
      else update_locks cfg who
             (replace_lock (Some \<lparr> lock_id = ident, lock_amount = amount, lock_reasons = reasons_of rs \<rparr>) ident
                (\<lambda>l nl. nl) (Locks s who)) s)"

definition join_locks :: "balance_lock \<Rightarrow> balance_lock \<Rightarrow> balance_lock" where
  "join_locks l nl = \<lparr> lock_id = lock_id l, lock_amount = max (lock_amount l) (lock_amount nl),
     lock_reasons = reasons_or (lock_reasons l) (lock_reasons nl) \<rparr>"

definition extend_lock ::
    "'e bal_config \<Rightarrow> bytes \<Rightarrow> account \<Rightarrow> balance \<Rightarrow> withdraw_reasons \<Rightarrow> 'e bal_state \<Rightarrow> 'e bal_state" where
  "extend_lock cfg ident who amount rs s =
     (if amount = 0 \<or> rs = 0 then s
      else update_locks cfg who
             (replace_lock (Some \<lparr> lock_id = ident, lock_amount = amount, lock_reasons = reasons_of rs \<rparr>) ident
                join_locks (Locks s who)) s)"

definition balance_locked :: "'e bal_state \<Rightarrow> bytes \<Rightarrow> account \<Rightarrow> balance" where
  "balance_locked s ident who =
     foldl (\<lambda>acc l. acc + lock_amount l) 0 (filter (\<lambda>l. lock_id l = ident) (Locks s who))"

section \<open>Freezes\<close>

definition put_freezes :: "account \<Rightarrow> id_amount list \<Rightarrow> 'e bal_state \<Rightarrow> 'e bal_state" where
  "put_freezes who fs s = s\<lparr> Freezes := (Freezes s)(who := fs) \<rparr>"

definition update_freezes :: "'e bal_config \<Rightarrow> account \<Rightarrow> id_amount list \<Rightarrow> ('e, unit) bal" where
  "update_freezes cfg who freezes s =
     (case mutate_account cfg who no_drop (frozen_closure (Locks s who) freezes) s of
        (Inl e, s1) \<Rightarrow> (Inl e, s1)
      | (Inr ((prev, after), maybe_dust), s1) \<Rightarrow>
          (Inr (), frozen_event B_Thawed B_Frozen who prev after (put_freezes who freezes s1)))"

text \<open>The first entry with the identifier, changed, or the entry pushed at the end.\<close>

fun change_first :: "nat \<Rightarrow> (balance \<Rightarrow> balance) \<Rightarrow> id_amount list \<Rightarrow> id_amount list" where
  "change_first ident f [] = []"
| "change_first ident f (x # xs) =
     (if id_of x = ident then x\<lparr> amount_of := f (amount_of x) \<rparr> # xs else x # change_first ident f xs)"

definition has_id :: "nat \<Rightarrow> id_amount list \<Rightarrow> bool" where
  "has_id ident xs = list_ex (\<lambda>x. id_of x = ident) xs"

definition put_or_push ::
    "u32 \<Rightarrow> balances_error \<Rightarrow> nat \<Rightarrow> (balance \<Rightarrow> balance) \<Rightarrow> balance \<Rightarrow> id_amount list \<Rightarrow> dispatch_error + id_amount list" where
  "put_or_push bound err ident f amount xs =
     (if has_id ident xs then Inr (change_first ident f xs)
      else if length xs < unat bound then Inr (xs @ [\<lparr> id_of = ident, amount_of = amount \<rparr>])
      else Inl (Balances_Error err))"

definition thaw :: "'e bal_config \<Rightarrow> nat \<Rightarrow> account \<Rightarrow> ('e, unit) bal" where
  "thaw cfg ident who s = update_freezes cfg who (filter (\<lambda>l. id_of l \<noteq> ident) (Freezes s who)) s"

definition set_freeze :: "'e bal_config \<Rightarrow> nat \<Rightarrow> account \<Rightarrow> balance \<Rightarrow> ('e, unit) bal" where
  "set_freeze cfg ident who amount s =
     (if amount = 0 then thaw cfg ident who s
      else and_then (lift_res (put_or_push (MaxFreezes cfg) TooManyFreezes ident (\<lambda>_. amount) amount (Freezes s who)))
             (update_freezes cfg who) s)"

definition extend_freeze :: "'e bal_config \<Rightarrow> nat \<Rightarrow> account \<Rightarrow> balance \<Rightarrow> ('e, unit) bal" where
  "extend_freeze cfg ident who amount s =
     (if amount = 0 then (Inr (), s)
      else and_then (lift_res (put_or_push (MaxFreezes cfg) TooManyFreezes ident (\<lambda>a. max a amount) amount (Freezes s who)))
             (update_freezes cfg who) s)"

definition amount_under :: "nat \<Rightarrow> id_amount list \<Rightarrow> balance" where
  "amount_under ident xs = (case find (\<lambda>x. id_of x = ident) xs of None \<Rightarrow> 0 | Some x \<Rightarrow> amount_of x)"

definition balance_frozen :: "'e bal_state \<Rightarrow> nat \<Rightarrow> account \<Rightarrow> balance" where
  "balance_frozen s ident who = amount_under ident (Freezes s who)"

definition can_freeze :: "'e bal_config \<Rightarrow> 'e bal_state \<Rightarrow> nat \<Rightarrow> account \<Rightarrow> bool" where
  "can_freeze cfg s ident who = (\<not> unat (MaxFreezes cfg) \<le> length (Freezes s who) \<or> has_id ident (Freezes s who))"

section \<open>Holds\<close>

definition put_holds :: "account \<Rightarrow> id_amount list \<Rightarrow> 'e bal_state \<Rightarrow> 'e bal_state" where
  "put_holds who hs s = s\<lparr> Holds := (Holds s)(who := hs) \<rparr>"

definition balance_on_hold :: "'e bal_state \<Rightarrow> nat \<Rightarrow> account \<Rightarrow> balance" where
  "balance_on_hold s reason who = amount_under reason (Holds s who)"

definition hold_available :: "'e bal_config \<Rightarrow> 'e bal_state \<Rightarrow> nat \<Rightarrow> account \<Rightarrow> bool" where
  "hold_available cfg s reason who =
     (if sys_providers (sy cfg) (sys s) who = 0 then False
      else if unat (MaxHolds cfg) \<le> length (Holds s who) \<and> \<not> has_id reason (Holds s who) then False
      else True)"

text \<open>The new list, whether the hold grows and by how much the reserve changes.\<close>

definition change_hold ::
    "'e bal_config \<Rightarrow> nat \<Rightarrow> balance \<Rightarrow> id_amount list \<Rightarrow> dispatch_error + id_amount list \<times> bool \<times> balance" where
  "change_hold cfg reason amount holds =
     (if has_id reason holds
      then let old = amount_under reason holds
           in Inr (filter (\<lambda>x. amount_of x \<noteq> 0) (change_first reason (\<lambda>_. amount) holds),
                   old < amount, max old amount - min old amount)
      else if amount \<noteq> 0
      then (if length holds < unat (MaxHolds cfg)
            then Inr (holds @ [\<lparr> id_of = reason, amount_of = amount \<rparr>], True, amount)
            else Inl (Balances_Error TooManyHolds))
      else Inr (holds, True, amount))"

definition set_balance_on_hold :: "'e bal_config \<Rightarrow> nat \<Rightarrow> account \<Rightarrow> balance \<Rightarrow> ('e, unit) bal" where
  "set_balance_on_hold cfg reason who amount s =
     (let new_account = account_of cfg s who
      in and_then (lift_res (change_hold cfg reason amount (Holds s who))) (\<lambda>(holds, increase, delta).
           and_then (lift_res
             (if increase then (case checked_add (reserved new_account) delta of
                None \<Rightarrow> Inl (Arithmetic Overflow) | Some x \<Rightarrow> Inr x)
              else (case checked_sub (reserved new_account) delta of
                None \<Rightarrow> Inl (Arithmetic Underflow) | Some x \<Rightarrow> Inr x))) (\<lambda>r.
           and_then (try_mutate_account cfg who no_drop
               (\<lambda>a is_new. ret ((), new_account\<lparr> reserved := r \<rparr>))) (\<lambda>(result, maybe_dust).
           and_then (update_st (put_holds who holds)) (\<lambda>_. ret result)))) s)"

section \<open>What can be deposited and withdrawn\<close>

datatype deposit_consequence = Deposit_BelowMinimum | Deposit_CannotCreate | Deposit_UnknownAsset
  | Deposit_Overflow | Deposit_Success | Deposit_Blocked

datatype withdraw_consequence = Withdraw_BalanceLow | Withdraw_WouldDie | Withdraw_UnknownAsset
  | Withdraw_Underflow | Withdraw_Overflow | Withdraw_Frozen | Withdraw_ReducedToZero balance | Withdraw_Success

datatype provenance = Minted | Extant

definition reducible_balance :: "'e bal_config \<Rightarrow> 'e bal_state \<Rightarrow> account \<Rightarrow> preservation \<Rightarrow> fortitude \<Rightarrow> balance" where
  "reducible_balance cfg s who preservation force =
     (let a = account_of cfg s who;
          untouchable0 = (if force = Polite then sat_sub (frozen a) (reserved a) else 0);
          untouchable = (if preservation = Preserve \<or>
                            preservation = Protect \<and> free a \<noteq> 0 \<and> sys_providers (sy cfg) (sys s) who = 1 \<or>
                            preservation = Expendable \<and> free a \<noteq> 0 \<and> \<not> sys_can_dec_provider (sy cfg) (sys s) who
                         then max untouchable0 (ExistentialDeposit cfg) else untouchable0)
      in sat_sub (free a) untouchable)"

definition can_deposit :: "'e bal_config \<Rightarrow> 'e bal_state \<Rightarrow> account \<Rightarrow> balance \<Rightarrow> provenance \<Rightarrow> deposit_consequence" where
  "can_deposit cfg s who amount provenance =
     (if amount = 0 then Deposit_Success
      else if provenance = Minted \<and> checked_add (TotalIssuance s) amount = None then Deposit_Overflow
      else let a = account_of cfg s who
           in case checked_add (free a) amount of
                None \<Rightarrow> Deposit_Overflow
              | Some new_free \<Rightarrow>
                  if new_free < ExistentialDeposit cfg then Deposit_BelowMinimum
                  else (case checked_add (reserved a) new_free of
                          None \<Rightarrow> Deposit_Overflow | Some _ \<Rightarrow> Deposit_Success))"

definition can_withdraw :: "'e bal_config \<Rightarrow> 'e bal_state \<Rightarrow> account \<Rightarrow> balance \<Rightarrow> withdraw_consequence" where
  "can_withdraw cfg s who amount =
     (if amount = 0 then Withdraw_Success
      else if checked_sub (TotalIssuance s) amount = None then Withdraw_Underflow
      else let a = account_of cfg s who
           in case checked_sub (free a) amount of
                None \<Rightarrow> Withdraw_BalanceLow
              | Some new_free_balance \<Rightarrow>
                  if reducible_balance cfg s who Expendable Polite < amount then Withdraw_Frozen
                  else let can_die = sys_can_dec_provider (sy cfg) (sys s) who;
                           would_die = new_free_balance < ExistentialDeposit cfg;
                           success = (if would_die then Withdraw_ReducedToZero new_free_balance else Withdraw_Success);
                           new_total_balance = sat_add new_free_balance (reserved a)
                       in if would_die \<and> \<not> can_die then Withdraw_WouldDie
                          else if new_total_balance < frozen a then Withdraw_Frozen
                          else success)"

definition usable_balance :: "'e bal_config \<Rightarrow> 'e bal_state \<Rightarrow> account \<Rightarrow> balance" where
  "usable_balance cfg s who = reducible_balance cfg s who Expendable Polite"

definition usable_balance_for_fees :: "'e bal_config \<Rightarrow> 'e bal_state \<Rightarrow> account \<Rightarrow> balance" where
  "usable_balance_for_fees cfg s who = reducible_balance cfg s who Protect Polite"

definition write_balance :: "'e bal_config \<Rightarrow> account \<Rightarrow> balance \<Rightarrow> ('e, balance option) bal" where
  "write_balance cfg who amount s =
     (let max_reduction = reducible_balance cfg s who Expendable Force
      in and_then (mutate_account cfg who no_drop
           (\<lambda>a. if sat_sub (free a) amount \<le> max_reduction
                 then (Inr (), a\<lparr> free := amount \<rparr>) else (Inl (Balances_Error InsufficientBalance), a)))
           (\<lambda>(result, maybe_dust). and_then (lift_res result) (\<lambda>_. ret maybe_dust)) s)"

definition set_total_issuance :: "balance \<Rightarrow> 'e bal_state \<Rightarrow> 'e bal_state" where
  "set_total_issuance amount s = s\<lparr> TotalIssuance := amount \<rparr>"

definition deactivate :: "balance \<Rightarrow> 'e bal_state \<Rightarrow> 'e bal_state" where
  "deactivate amount s = s\<lparr> InactiveIssuance := min (sat_add (InactiveIssuance s) amount) (TotalIssuance s) \<rparr>"

definition reactivate :: "balance \<Rightarrow> 'e bal_state \<Rightarrow> 'e bal_state" where
  "reactivate amount s = s\<lparr> InactiveIssuance := sat_sub (InactiveIssuance s) amount \<rparr>"

end
