(* ===== verification/BalancesCurrencyLaw.thy ===== *)
theory BalancesCurrencyLaw
  imports BalancesCurrency
begin

text \<open>
  What the operations of \<open>Currency\<close> and \<open>ReservableCurrency\<close> do: on success exactly the change of
  balance they promise, matched by the total issuance once the returned imbalance is dropped;
  on failure nobody's balance changes.
\<close>

section \<open>A mutation that fails\<close>

text \<open>What the reference updates keep whether they succeed or not: the account's data, its
  provider (until the last one is dropped) and everybody else.\<close>

definition refs_keep :: "'e bal_config \<Rightarrow> account \<Rightarrow> 'e bal_state \<Rightarrow> 'e bal_state \<Rightarrow> bool" where
  "refs_keep cfg who s s' \<longleftrightarrow>
     refs_step cfg who s s' \<and> stored_data (sy cfg) (sys s') who = stored_data (sy cfg) (sys s) who \<and>
     (0 < sys_providers (sy cfg) (sys s) who \<longrightarrow> 0 < sys_providers (sy cfg) (sys s') who)"

lemma refs_keep_refl: "refs_ok (sy cfg) (sys s) \<Longrightarrow> refs_keep cfg who s s"
  by (simp add: refs_keep_def refs_step_def)

lemma refs_keep_trans: "refs_keep cfg who s s' \<Longrightarrow> refs_keep cfg who s' s'' \<Longrightarrow> refs_keep cfg who s s''"
  unfolding refs_keep_def using refs_step_trans by metis

lemma refs_keep_ok: "refs_keep cfg who s s' \<Longrightarrow> refs_ok (sy cfg) (sys s')"
  by (simp add: refs_keep_def refs_step_def)

lemma inc_providers_keep:
  assumes "system_law (sy cfg)" "refs_ok (sy cfg) (sys s)"
  shows "refs_keep cfg who s (on_sys_pure (sys_inc_providers (sy cfg) who) s)"
  using inc_providers_step [OF assms] law_inc_providers [OF assms(1)]
  by (simp add: refs_keep_def on_sys_pure_def)

lemma dec_consumers_keep:
  assumes "system_law (sy cfg)" "refs_ok (sy cfg) (sys s)"
  shows "refs_keep cfg who s (on_sys_pure (sys_dec_consumers (sy cfg) who) s)"
  using dec_consumers_step [OF assms] law_dec_consumers [OF assms(1)]
  by (simp add: refs_keep_def on_sys_pure_def)

lemma inc_consumers_keep:
  assumes law: "system_law (sy cfg)" and ok: "refs_ok (sy cfg) (sys s)"
  shows "refs_keep cfg who s (snd (on_sys (sys_inc_consumers (sy cfg) who) s))"
proof (cases "sys_inc_consumers (sy cfg) who (sys s)")
  case (Inl e)
  then show ?thesis using refs_keep_refl [OF ok] by (simp add: on_sys_def)
next
  case (Inr e')
  note l = law_inc_consumers [OF law disjI1 [OF Inr]]
  have "refs_ok (sy cfg) e'" by (rule refs_ok_only_at [OF ok l(1)]) (use l in auto)
  then show ?thesis using Inr l by (simp add: on_sys_def refs_keep_def refs_step_def)
qed

lemma inc_consumers_if_keep:
  assumes "system_law (sy cfg)" "refs_ok (sy cfg) (sys s)" "inc_consumers_if cfg who b s = (x, s')"
  shows "refs_keep cfg who s s'"
  using inc_consumers_keep [OF assms(1,2), of who] refs_keep_refl [OF assms(2)] assms(3)
  by (cases b) (auto simp: inc_consumers_if_def)

lemma drop_provider_keep:
  assumes law: "system_law (sy cfg)" and ok: "refs_ok (sy cfg) (sys s)"
    and d: "drop_provider cfg who did does s = (Inl e, s')"
  shows "refs_keep cfg who s s'"
  using d inc_consumers_keep [OF law ok, of who] dec_consumers_keep [OF law ok, of who] refs_keep_refl [OF ok]
  by (auto simp: drop_provider_def split: sum.splits if_splits)

lemma update_references_error:
  assumes law: "system_law (sy cfg)" and ok: "refs_ok (sy cfg) (sys s)"
    and u: "update_references cfg who did_provide did_consume a s = (Inl e, s')"
  shows "refs_keep cfg who s s'"
proof -
  let ?y = "sy cfg"
  define s1 where "s1 = (if \<not> did_provide \<and> does_provide cfg a
    then on_sys_pure (sys_inc_providers ?y who) s else s)"
  define s2 where "s2 = (if did_consume \<and> \<not> does_consume a
    then on_sys_pure (sys_dec_consumers ?y who) s1 else s1)"
  have k1: "refs_keep cfg who s s1"
    using inc_providers_keep [OF law ok] refs_keep_refl [OF ok] by (simp add: s1_def)
  have k12: "refs_keep cfg who s1 s2"
    using dec_consumers_keep [OF law refs_keep_ok [OF k1]] refs_keep_refl [OF refs_keep_ok [OF k1]]
    by (simp add: s2_def)
  note k2 = refs_keep_trans [OF k1 k12]
  obtain x s3 where 3: "inc_consumers_if cfg who (\<not> did_consume \<and> does_consume a) s2 = (x, s3)" by force
  note k3 = refs_keep_trans [OF k2 inc_consumers_if_keep [OF law refs_keep_ok [OF k2] 3]]
  obtain x' s4 where 4: "inc_consumers_if cfg who (does_consume a \<and> sys_consumers ?y (sys s3) who = 0) s3 = (x', s4)"
    by force
  note k4 = refs_keep_trans [OF k3 inc_consumers_if_keep [OF law refs_keep_ok [OF k3] 4]]
  have "s' = s3 \<or> s' = s4 \<or> drop_provider cfg who did_consume (does_consume a) s4 = (Inl e, s')"
    using u 3 4 unfolding update_references_def Let_def s1_def [symmetric] s2_def [symmetric]
    by (auto simp: and_then_def split: sum.splits if_splits)
  then show ?thesis
    using k3 k4 refs_keep_trans [OF k4 drop_provider_keep [OF law refs_keep_ok [OF k4]]] by blast
qed

text \<open>Nobody's balance has changed.\<close>

definition same_balances :: "'e bal_config \<Rightarrow> 'e bal_state \<Rightarrow> 'e bal_state \<Rightarrow> bool" where
  "same_balances cfg s s' \<longleftrightarrow> bal_ok cfg s' \<and> store_only s s' \<and>
     (\<forall>b. free (account_of cfg s' b) = free (account_of cfg s b) \<and>
          reserved (account_of cfg s' b) = reserved (account_of cfg s b))"

lemma same_balances_holdings: "same_balances cfg s s' \<Longrightarrow> holdings cfg s' = holdings cfg s"
  by (simp add: same_balances_def holdings_def)

lemma same_balances_issued: "same_balances cfg s s' \<Longrightarrow> issued_ok cfg s' = issued_ok cfg s"
  unfolding issued_ok_def using same_balances_holdings [of cfg s s'] store_only_fields(1) [of s s']
  by (simp add: same_balances_def)

lemma same_balances_trans:
  "same_balances cfg s s' \<Longrightarrow> same_balances cfg s' s'' \<Longrightarrow> same_balances cfg s s''"
  unfolding same_balances_def using store_only_trans by metis

lemma ensure_upgraded_same:
  assumes "system_law (sy cfg)" "bal_ok cfg s" "ExistentialDeposit cfg \<noteq> 0"
  shows "same_balances cfg s (snd (ensure_upgraded cfg who s))"
proof -
  note e = ensure_upgraded_effect [OF assms, of who]
  have "free (account_of cfg (snd (ensure_upgraded cfg who s)) b) = free (account_of cfg s b) \<and>
    reserved (account_of cfg (snd (ensure_upgraded cfg who s)) b) = reserved (account_of cfg s b)" for b
    using e only_atD(1) [of "sy cfg" who "sys s" "sys (snd (ensure_upgraded cfg who s))" b]
    by (cases "b = who") (auto simp: account_of_stored)
  then show ?thesis using e by (simp add: same_balances_def)
qed

lemma keep_same_balances:
  assumes "bal_ok cfg s" "refs_keep cfg who s s'"
  shows "same_balances cfg s s'"
proof -
  have oa: "only_at (sy cfg) who (sys s) (sys s')" and d: "stored_data (sy cfg) (sys s') who = stored_data (sy cfg) (sys s) who"
    using assms(2) by (auto simp: refs_keep_def refs_step_def)
  have "account_of cfg s' b = account_of cfg s b" for b
    using d only_atD(1) [OF oa] by (cases "b = who") (auto simp: account_of_stored)
  moreover have "bal_ok cfg s'"
    by (rule bal_ok_only_at [OF assms(1) oa refs_keep_ok [OF assms(2)]])
       (use assms d in \<open>auto simp: account_of_stored bal_ok_def refs_keep_def\<close>)
  moreover have "store_only s s'" using assms(2) store_only_sys by (auto simp: refs_keep_def refs_step_def)
  ultimately show ?thesis by (simp add: same_balances_def)
qed

text \<open>The account store takes every write (\<open>System\<close>'s \<open>StoredMap\<close> does).\<close>

definition put_total :: "'e system_ops \<Rightarrow> bool" where
  "put_total y \<longleftrightarrow> (\<forall>a m e. \<exists>e'. sys_put y a m e = Inr e')"

lemma try_mutate_error_effect:
  assumes g: "good_balances cfg" and pt: "put_total (sy cfg)" and ok: "bal_ok cfg s" and q: "quiet f"
    and r: "try_mutate_account_handling_dust cfg who on_drop f s = (Inl e, s')"
  shows "\<exists>s2 s0 a x s1. same_balances cfg s s2 \<and> s0 = snd (ensure_upgraded cfg who s) \<and>
    f a (sys_account (sy cfg) (sys s0) who = None) s0 = (x, s1) \<and>
    free a = free (account_of cfg s who) \<and> reserved a = reserved (account_of cfg s who) \<and>
    (case x of Inl e' \<Rightarrow> s' = s2 | Inr (res, a') \<Rightarrow> s' = on_drop res s2)"
proof -
  have law: "system_law (sy cfg)" and ed: "ExistentialDeposit cfg \<noteq> 0"
    using g by (auto simp: good_balances_def)
  let ?y = "sy cfg"
  define s0 where "s0 = snd (ensure_upgraded cfg who s)"
  define a where "a = account_of cfg s0 who"
  define new where "new = (sys_account ?y (sys s0) who = None)"
  define dp where "dp = does_provide cfg a"
  define dc where "dc = (\<not> new \<and> does_consume a)"
  have aq: "data_or_default (sys_account ?y (sys s0) who) = a" by (simp add: a_def account_of_def)
  have b0: "same_balances cfg s s0" unfolding s0_def by (rule ensure_upgraded_same [OF law ok ed])
  then have fa: "free a = free (account_of cfg s who)" "reserved a = reserved (account_of cfg s who)"
    by (auto simp: same_balances_def a_def)
  have t: "try_mutate_account cfg who on_drop f s = (Inl e, s')"
    using r by (auto simp: try_mutate_account_handling_dust_def and_then_Inl)
  obtain x s1 where f: "f a new s0 = (x, s1)" by force
  note ql = quiet_leaves_alone [OF q f]
  have ok0: "bal_ok cfg s0" using b0 unfolding same_balances_def by blast
  have ok1: "bal_ok cfg s1" unfolding bal_ok_sys [OF ql(3)] by (rule ok0)
  have b1: "same_balances cfg s0 s1"
    unfolding same_balances_def account_of_sys [OF ql(3)] using ok1 ql(2) by blast
  show ?thesis
  proof (cases x)
    case (Inl e')
    then have "s' = s1" using t f unfolding try_mutate_account_def Let_def s0_def [symmetric] new_def [symmetric] aq
      by simp
    then show ?thesis
      by (intro exI [of _ s1] exI [of _ s0] exI [of _ a] exI [of _ x] exI [of _ s1])
         (use same_balances_trans [OF b0 b1] f fa Inl in \<open>simp add: new_def s0_def\<close>)
  next
    case (Inr y)
    obtain res a' where y: "y = (res, a')" by (cases y)
    obtain z s2 where u: "update_references cfg who dp dc a' s1 = (z, s2)" by force
    obtain stored d where st: "settle cfg a' = Some (stored, d)" using settle_total [of cfg a'] by auto
    obtain s3 where p3: "sys_put ?y who stored (sys s2) = Inr s3" using pt unfolding put_total_def by blast
    have z: "\<exists>e'. z = Inl e' \<and> s' = on_drop res s2"
    proof (cases z)
      case (Inl e')
      then show ?thesis
        using t f Inr y u unfolding try_mutate_account_def Let_def s0_def [symmetric] new_def [symmetric] aq
          dp_def [symmetric] dc_def [symmetric] by simp
    next
      case (Inr v)
      then show ?thesis
        using t f \<open>x = Inr y\<close> y u st p3 unfolding try_mutate_account_def Let_def s0_def [symmetric]
          new_def [symmetric] aq dp_def [symmetric] dc_def [symmetric] by (simp add: on_sys_def)
    qed
    then obtain e' where "update_references cfg who dp dc a' s1 = (Inl e', s2)" using u by auto
    from update_references_error [OF law _ this] have "refs_keep cfg who s1 s2"
      using ok1 by (simp add: bal_ok_def)
    from keep_same_balances [OF ok1 this] have b2: "same_balances cfg s s2"
      using same_balances_trans [OF same_balances_trans [OF b0 b1]] by blast
    show ?thesis
      by (intro exI [of _ s2] exI [of _ s0] exI [of _ a] exI [of _ x] exI [of _ s1])
         (use b2 z f fa Inr y in \<open>auto simp: new_def s0_def\<close>)
  qed
qed

lemma try_mutate_error_cases:
  assumes "good_balances cfg" "put_total (sy cfg)" "bal_ok cfg s" "quiet f"
    and "try_mutate_account_handling_dust cfg who on_drop f s = (Inl e, s')"
  obtains s2 s0 a x s1 where "same_balances cfg s s2" "s0 = snd (ensure_upgraded cfg who s)"
    "f a (sys_account (sy cfg) (sys s0) who = None) s0 = (x, s1)"
    "free a = free (account_of cfg s who)" "reserved a = reserved (account_of cfg s who)"
    "case x of Inl e' \<Rightarrow> s' = s2 | Inr (res, a') \<Rightarrow> s' = on_drop res s2"
  using try_mutate_error_effect [OF assms] by auto

section \<open>Closures are quiet\<close>

lemma quietI:
  assumes "\<And>a new s x s1. f a new s = (x, s1) \<Longrightarrow> s1 = s \<or> (\<exists>ev. s1 = deposit_event ev s)"
  shows "quiet f"
  unfolding quiet_def
proof (intro allI impI)
  fix a new s x s1
  assume "f a new s = (x, s1)"
  from assms [OF this] show "\<exists>ev. s1 = s\<lparr> bal_events := bal_events s @ ev \<rparr>"
  proof
    assume "s1 = s"
    then have "s1 = s\<lparr> bal_events := bal_events s @ [] \<rparr>" by simp
    then show ?thesis by blast
  next
    assume "\<exists>ev. s1 = deposit_event ev s"
    then show ?thesis by (auto simp: deposit_event_def)
  qed
qed

lemmas closure_splits = if_splits option.splits sum.splits prod.splits balance_status.splits

lemma quiet_closures:
  "quiet (slash_closure cfg who value)" "quiet (deposit_closure cfg who value)"
  "quiet (withdraw_closure cfg who value reasons liveness)" "quiet (set_free_closure cfg who value)"
  "quiet (reserve_closure cfg who value)" "quiet (deposit_existing_closure cfg who value)"
  by (rule quietI, auto simp: slash_closure_def deposit_closure_def withdraw_closure_def
      set_free_closure_def reserve_closure_def
      deposit_existing_closure_def and_then_def ensure_def ensure_can_withdraw_def Let_def
      split: closure_splits)+

section \<open>What the operations do\<close>

lemma mutated_gap:
  assumes m: "mutated cfg who s a s'" and i: "issued_ok cfg s"
    and ed: "does_provide cfg a \<or> unat (free a) \<le> unat (TotalIssuance s)"
  shows "unat (TotalIssuance s') + total_nat a = holdings cfg s' + total_nat (account_of cfg s who)"
  using mutated_holdings [OF m ed] i unfolding issued_ok_def by auto

lemma total_nat_update [simp]:
  "total_nat (a\<lparr> free := x \<rparr>) = unat x + unat (reserved a)"
  "total_nat (a\<lparr> reserved := x \<rparr>) = unat (free a) + unat x"
  by (simp_all add: total_nat_def)

lemma drop_positive_effect:
  "holdings cfg (drop_positive i s) = holdings cfg s"
  "unat (TotalIssuance (drop_positive i s)) = min (unat (TotalIssuance s) + unat (pos_peek i)) (2 ^ 128 - 1)"
  "bal_ok cfg (drop_positive i s) = bal_ok cfg s" "account_of cfg (drop_positive i s) = account_of cfg s"
proof -
  have sy: "sys (drop_positive i s) = sys s" by (simp add: drop_positive_def)
  show a: "account_of cfg (drop_positive i s) = account_of cfg s" by (rule account_of_sys [OF sy])
  show "bal_ok cfg (drop_positive i s) = bal_ok cfg s" by (rule bal_ok_sys [OF sy])
  show "holdings cfg (drop_positive i s) = holdings cfg s" by (simp add: holdings_def a)
  have "unat (TotalIssuance s) \<le> 2 ^ 128 - 1" using unat_le_max [of "TotalIssuance s"] by simp
  then show "unat (TotalIssuance (drop_positive i s)) = min (unat (TotalIssuance s) + unat (pos_peek i)) (2 ^ 128 - 1)"
    by (simp add: drop_positive_def mach_nat)
qed

lemma drop_negative_effect:
  "holdings cfg (drop_negative i s) = holdings cfg s"
  "unat (TotalIssuance (drop_negative i s)) = unat (TotalIssuance s) - unat (neg_peek i)"
  "bal_ok cfg (drop_negative i s) = bal_ok cfg s" "account_of cfg (drop_negative i s) = account_of cfg s"
proof -
  have sy: "sys (drop_negative i s) = sys s" by (simp add: drop_negative_def)
  show a: "account_of cfg (drop_negative i s) = account_of cfg s" by (rule account_of_sys [OF sy])
  show "bal_ok cfg (drop_negative i s) = bal_ok cfg s" by (rule bal_ok_sys [OF sy])
  show "holdings cfg (drop_negative i s) = holdings cfg s" by (simp add: holdings_def a)
  show "unat (TotalIssuance (drop_negative i s)) = unat (TotalIssuance s) - unat (neg_peek i)"
    by (simp add: drop_negative_def mach_nat)
qed

text \<open>The account after an operation, as the balances of the account before it.\<close>

definition old_account :: "'e bal_config \<Rightarrow> 'e bal_state \<Rightarrow> account \<Rightarrow> account_data \<Rightarrow> bool" where
  "old_account cfg s who a \<longleftrightarrow>
     free a = free (account_of cfg s who) \<and> reserved a = reserved (account_of cfg s who)"

lemma deposit_creating_effect:
  assumes g: "good_balances cfg" and ok: "bal_ok cfg s"
    and r: "deposit_creating cfg who value s = (PositiveImbalance v, s')" and v: "v \<noteq> 0"
  shows "\<exists>a x. old_account cfg s who a \<and> v = value \<and> unat x = unat (free a) + unat value \<and>
    mutated cfg who s (a\<lparr> free := x \<rparr>) s'"
proof -
  have nz: "value \<noteq> 0" using r v by (auto simp: deposit_creating_def)
  have t: "try_mutate_account_handling_dust cfg who drop_positive (deposit_closure cfg who value) s
      = (Inr (PositiveImbalance v), s')"
    using r v nz by (auto simp: deposit_creating_def split: prod.splits sum.splits)
  obtain a new a' s0 s1 where e: "deposit_closure cfg who value a new s0 = (Inr (PositiveImbalance v, a'), s1)"
      "free a = free (account_of cfg s who)" "reserved a = reserved (account_of cfg s who)"
      "mutated cfg who s a' s'"
    using try_mutate_handling_dust_effect [OF g ok quiet_closures(2) t] by blast
  obtain x where x: "checked_add (free a) value = Some x" "a' = a\<lparr> free := x \<rparr>" "v = value"
    using e(1) v by (auto simp: deposit_closure_def and_then_Inr split: option.splits)
  show ?thesis
    by (intro exI [of _ a] exI [of _ x]) (use x e(2,3,4) in \<open>simp add: old_account_def checked_add_Some\<close>)
qed

lemma deposit_into_existing_effect:
  assumes g: "good_balances cfg" and ok: "bal_ok cfg s" and nz: "value \<noteq> 0"
    and r: "deposit_into_existing cfg who value s = (Inr i, s')"
  shows "\<exists>a x. old_account cfg s who a \<and> i = PositiveImbalance value \<and>
    unat x = unat (free a) + unat value \<and> mutated cfg who s (a\<lparr> free := x \<rparr>) s'"
proof -
  have t: "try_mutate_account_handling_dust cfg who drop_positive
      (deposit_existing_closure cfg who value) s = (Inr i, s')"
    using r nz by (simp add: deposit_into_existing_def)
  obtain a new a' s0 s1 where e: "deposit_existing_closure cfg who value a new s0 = (Inr (i, a'), s1)"
      "free a = free (account_of cfg s who)" "reserved a = reserved (account_of cfg s who)"
      "mutated cfg who s a' s'"
    using try_mutate_handling_dust_effect [OF g ok quiet_closures(6) t] by blast
  obtain x where x: "checked_add (free a) value = Some x" "a' = a\<lparr> free := x \<rparr>" "i = PositiveImbalance value"
    using e(1) by (auto simp: deposit_existing_closure_def and_then_Inr add_free_def split: option.splits)
  show ?thesis
    by (intro exI [of _ a] exI [of _ x]) (use x e(2,3,4) in \<open>simp add: old_account_def checked_add_Some\<close>)
qed

lemma withdraw_effect:
  assumes g: "good_balances cfg" and ok: "bal_ok cfg s" and nz: "value \<noteq> 0"
    and r: "withdraw cfg who value reasons liveness s = (Inr i, s')"
  shows "\<exists>a x. old_account cfg s who a \<and> i = NegativeImbalance value \<and>
    unat value \<le> unat (free a) \<and> unat x = unat (free a) - unat value \<and>
    (liveness = KeepAlive \<longrightarrow> does_provide cfg a \<longrightarrow> does_provide cfg (a\<lparr> free := x \<rparr>)) \<and>
    mutated cfg who s (a\<lparr> free := x \<rparr>) s'"
proof -
  have t: "try_mutate_account_handling_dust cfg who drop_negative
      (withdraw_closure cfg who value reasons liveness) s = (Inr i, s')"
    using r nz by (simp add: withdraw_def)
  obtain a new a' s0 s1 where e: "withdraw_closure cfg who value reasons liveness a new s0 = (Inr (i, a'), s1)"
      "free a = free (account_of cfg s who)" "reserved a = reserved (account_of cfg s who)"
      "mutated cfg who s a' s'"
    using try_mutate_handling_dust_effect [OF g ok quiet_closures(3) t] by blast
  obtain x where x: "checked_sub (free a) value = Some x" "a' = a\<lparr> free := x \<rparr>" "i = NegativeImbalance value"
      "liveness = AllowDeath \<or> \<not> (x < ExistentialDeposit cfg \<and> ExistentialDeposit cfg \<le> free a)"
    using e(1) by (auto simp: withdraw_closure_def Let_def and_then_Inr ensure_Inr split: option.splits)
  then have "unat value \<le> unat (free a) \<and> unat x = unat (free a) - unat value"
    by (simp add: checked_sub_Some)
  moreover have "liveness = KeepAlive \<longrightarrow> does_provide cfg a \<longrightarrow> does_provide cfg (a\<lparr> free := x \<rparr>)"
    using x(4) by (auto simp: does_provide_def)
  ultimately show ?thesis using e x unfolding old_account_def by blast
qed

lemma slash_effect:
  assumes g: "good_balances cfg" and ok: "bal_ok cfg s"
    and r: "slash cfg who value s = ((NegativeImbalance v, rest), s')" and v: "v \<noteq> 0"
  shows "\<exists>a x. old_account cfg s who a \<and> unat v \<le> unat (free a) \<and> unat v + unat rest = unat value \<and>
    unat x + unat v = unat (free a) \<and> mutated cfg who s (a\<lparr> free := x \<rparr>) s'"
proof -
  have nz: "value \<noteq> 0" "total_balance cfg s who \<noteq> 0" using r v by (auto simp: slash_def split: if_splits)
  obtain s3 where t: "try_mutate_account_handling_dust cfg who (drop_negative \<circ> fst) (slash_closure cfg who value) s
      = (Inr (NegativeImbalance v, rest), s3)" and s': "s' = deposit_event (B_Slashed who (sat_sub value rest)) s3"
    using r v nz by (auto simp: slash_def split: prod.splits sum.splits)
  obtain a new a' s0 s1 where e: "slash_closure cfg who value a new s0 = (Inr ((NegativeImbalance v, rest), a'), s1)"
      "free a = free (account_of cfg s who)" "reserved a = reserved (account_of cfg s who)"
      "mutated cfg who s a' s3"
    using try_mutate_handling_dust_effect [OF g ok quiet_closures(1) t] by blast
  have x: "a' = a\<lparr> free := sat_sub (free a) v \<rparr>" "rest = sat_sub value v" "unat v \<le> unat (free a)" "unat v \<le> unat value"
    using e(1) by (auto simp: slash_closure_def Let_def mach_nat split: if_splits)
  show ?thesis
    by (intro exI [of _ a] exI [of _ "sat_sub (free a) v"])
       (use x e(2,3) mutated_event [OF e(4)] in \<open>simp add: s' old_account_def mach_nat\<close>)
qed

lemma make_free_balance_be_effect:
  assumes g: "good_balances cfg" and ok: "bal_ok cfg s"
    and r: "make_free_balance_be cfg who value s = (i, s')" and i: "i \<noteq> Signed_Positive (PositiveImbalance 0)"
  shows "\<exists>a. old_account cfg s who a \<and> mutated cfg who s (a\<lparr> free := value \<rparr>) s' \<and>
    (if free a \<le> value then i = Signed_Positive (PositiveImbalance (value - free a))
     else i = Signed_Negative (NegativeImbalance (free a - value)))"
proof -
  have t: "try_mutate_account_handling_dust cfg who drop_signed (set_free_closure cfg who value) s = (Inr i, s')"
    using r i by (auto simp: make_free_balance_be_def split: prod.splits sum.splits)
  obtain a new a' s0 s1 where e: "set_free_closure cfg who value a new s0 = (Inr (i, a'), s1)"
      "free a = free (account_of cfg s who)" "reserved a = reserved (account_of cfg s who)"
      "mutated cfg who s a' s'"
    using try_mutate_handling_dust_effect [OF g ok quiet_closures(4) t] by blast
  have "a' = a\<lparr> free := value \<rparr> \<and>
    (if free a \<le> value then i = Signed_Positive (PositiveImbalance (value - free a))
     else i = Signed_Negative (NegativeImbalance (free a - value)))"
    using e(1) by (auto simp: set_free_closure_def and_then_Inr Let_def split: if_splits)
  then show ?thesis
    by (intro exI [of _ a]) (use e(2-4) in \<open>simp add: old_account_def\<close>)
qed

lemma reserve_effect:
  assumes g: "good_balances cfg" and ok: "bal_ok cfg s" and nz: "value \<noteq> 0"
    and r: "reserve cfg who value s = (Inr u, s')"
  shows "\<exists>a x y. old_account cfg s who a \<and> unat x + unat value = unat (free a) \<and>
    unat y = unat (reserved a) + unat value \<and> frozen a \<le> x \<and>
    mutated cfg who s (a\<lparr> free := x, reserved := y \<rparr>) s'"
proof -
  obtain s3 where t: "try_mutate_account_handling_dust cfg who no_drop (reserve_closure cfg who value) s = (Inr (), s3)"
    and s': "s' = deposit_event (B_Reserved who value) s3"
    using r nz by (auto simp: reserve_def and_then_Inr)
  obtain a new a' s0 s1 where e: "reserve_closure cfg who value a new s0 = (Inr ((), a'), s1)"
      "free a = free (account_of cfg s who)" "reserved a = reserved (account_of cfg s who)"
      "a = account_of cfg s0 who" "mutated cfg who s a' s3"
    using try_mutate_handling_dust_effect [OF g ok quiet_closures(5) t] by blast
  obtain x y where x: "checked_sub (free a) value = Some x" "checked_add (reserved a) value = Some y"
      "a' = a\<lparr> free := x, reserved := y \<rparr>" "frozen a \<le> x"
    using e(1) nz by (auto simp: reserve_closure_def and_then_Inr ensure_can_withdraw_def ensure_Inr e(4) [symmetric]
        split: option.splits)
  show ?thesis
    by (intro exI [of _ a] exI [of _ x] exI [of _ y])
       (use x e(2,3) mutated_event [OF e(5)] in \<open>simp add: s' old_account_def checked_sub_Some checked_add_Some\<close>)
qed

lemma unreserve_effect:
  assumes g: "good_balances cfg" and ok: "bal_ok cfg s" and nz: "value \<noteq> 0"
    and r: "unreserve cfg who value s = (left, s')" and l: "left \<noteq> value"
  shows "\<exists>a x y. old_account cfg s who a \<and> left = value - min (reserved a) value \<and>
    y = reserved a - min (reserved a) value \<and> x = sat_add (free a) (min (reserved a) value) \<and>
    mutated cfg who s (a\<lparr> reserved := y, free := x \<rparr>) s'"
proof -
  have tb: "total_balance cfg s who \<noteq> 0" using r l nz by (auto simp: unreserve_def)
  obtain actual s3 where t: "mutate_account_handling_dust cfg who no_drop (unreserve_closure value) s = (Inr actual, s3)"
    and s': "s' = deposit_event (B_Unreserved who actual) s3" "left = value - actual"
    using r nz tb l by (auto simp: unreserve_def split: prod.splits sum.splits)
  obtain a a' where e: "unreserve_closure value a = (actual, a')"
      "free a = free (account_of cfg s who)" "reserved a = reserved (account_of cfg s who)"
      "mutated cfg who s a' s3"
    using mutate_handling_dust_effect [OF g ok t] by blast
  have x: "actual = min (reserved a) value"
     "a' = a\<lparr> reserved := reserved a - actual, free := sat_add (free a) actual \<rparr>"
    using e(1) by (auto simp: unreserve_closure_def Let_def)
  show ?thesis
    by (rule exI [of _ a]) (use x e(2,3) mutated_event [OF e(4)] in \<open>simp add: s' old_account_def\<close>)
qed

lemma slash_reserved_effect:
  assumes g: "good_balances cfg" and ok: "bal_ok cfg s"
    and r: "slash_reserved cfg who value s = ((NegativeImbalance v, rest), s')" and v: "v \<noteq> 0"
  shows "\<exists>a x. old_account cfg s who a \<and> v = min value (reserved a) \<and> unat v + unat rest = unat value \<and>
    unat x + unat v = unat (reserved a) \<and> mutated cfg who s (a\<lparr> reserved := x \<rparr>) s'"
proof -
  have nz: "value \<noteq> 0" "total_balance cfg s who \<noteq> 0" using r v by (auto simp: slash_reserved_def split: if_splits)
  obtain s3 where t: "mutate_account_handling_dust cfg who (drop_negative \<circ> fst) (slash_reserved_closure value) s
      = (Inr (NegativeImbalance v, rest), s3)" and s': "s' = deposit_event (B_Slashed who (sat_sub value rest)) s3"
    using r v nz by (auto simp: slash_reserved_def split: prod.splits sum.splits)
  obtain a a' where e: "slash_reserved_closure value a = ((NegativeImbalance v, rest), a')"
      "free a = free (account_of cfg s who)" "reserved a = reserved (account_of cfg s who)"
      "mutated cfg who s a' s3"
    using mutate_handling_dust_effect [OF g ok t] by blast
  have x: "a' = a\<lparr> reserved := sat_sub (reserved a) v \<rparr>" "rest = sat_sub value v" "v = min value (reserved a)"
    using e(1) by (auto simp: slash_reserved_closure_def Let_def)
  show ?thesis
    by (intro exI [of _ a] exI [of _ "sat_sub (reserved a) v"])
       (use x e(2,3) mutated_event [OF e(4)] in \<open>simp add: s' old_account_def mach_nat\<close>)
qed

end
