(* ===== verification/RefSystem.thy ===== *)
theory RefSystem
  imports BalancesCurrencyLaw
begin

text \<open>
  A concrete account store for the witnesses: \<open>frame_system\<close>'s accounts with their provider and
  consumer counters, which satisfies \<open>system_law\<close>, and states with two funded accounts.
\<close>

section \<open>A concrete account store\<close>

text \<open>\<open>frame_system\<close>'s accounts as it documents them, without the runtime around them: an account
  is kept while it has a provider, its last provider does not go while it has consumers, and
  data equal to the default counts as none. It shows that \<open>system_law\<close> can hold.\<close>

record ref_account =
  ref_providers :: u32
  ref_consumers :: u32
  ref_data :: account_data

type_synonym ref_store = "account \<Rightarrow> ref_account"

definition no_account :: ref_account where
  "no_account = \<lparr> ref_providers = 0, ref_consumers = 0, ref_data = default_account \<rparr>"

definition ref_inc_consumers :: "account \<Rightarrow> ref_store \<Rightarrow> dispatch_error + ref_store" where
  "ref_inc_consumers a e =
     (if ref_providers (e a) = 0 then Inl NoProviders
      else case checked_add (ref_consumers (e a)) 1 of
          None \<Rightarrow> Inl TooManyConsumers
        | Some c \<Rightarrow> Inr (e(a := (e a)\<lparr> ref_consumers := c \<rparr>)))"

definition ref_dec_providers :: "account \<Rightarrow> ref_store \<Rightarrow> dispatch_error + ref_store" where
  "ref_dec_providers a e =
     (if 1 < ref_providers (e a) then Inr (e(a := (e a)\<lparr> ref_providers := ref_providers (e a) - 1 \<rparr>))
      else if ref_consumers (e a) = 0 then Inr (e(a := no_account))
      else Inl ConsumerRemaining)"

definition ref_system :: "ref_store system_ops" where
  "ref_system = \<lparr>
     sys_account = \<lambda>e a. if ref_data (e a) = default_account then None else Some (ref_data (e a)),
     sys_put = \<lambda>a m e. Inr (e(a := if ref_providers (e a) = 0 then no_account
                                     else (e a)\<lparr> ref_data := data_or_default m \<rparr>)),
     sys_providers = \<lambda>e a. ref_providers (e a),
     sys_consumers = \<lambda>e a. ref_consumers (e a),
     sys_can_dec_provider = \<lambda>e a. ref_consumers (e a) = 0 \<or> 1 < ref_providers (e a),
     sys_inc_providers = \<lambda>a e. e(a := (e a)\<lparr> ref_providers := sat_add (ref_providers (e a)) 1 \<rparr>),
     sys_dec_providers = ref_dec_providers,
     sys_inc_consumers = ref_inc_consumers,
     sys_inc_consumers_without_limit = ref_inc_consumers,
     sys_dec_consumers = \<lambda>a e. e(a := (e a)\<lparr> ref_consumers := sat_sub (ref_consumers (e a)) 1 \<rparr>),
     sys_account_nonce = \<lambda>e a. 0 \<rparr>"

lemma ref_stored [simp]: "stored_data ref_system e a = ref_data (e a)"
  by (simp add: stored_data_def ref_system_def)

lemma ref_put_law:
  assumes "sys_put ref_system a m e = Inr e'"
  shows "only_at ref_system a e e' \<and> sys_providers ref_system e' a = sys_providers ref_system e a \<and>
    sys_consumers ref_system e' a \<le> sys_consumers ref_system e a \<and>
    (0 < sys_providers ref_system e a \<longrightarrow> sys_consumers ref_system e' a = sys_consumers ref_system e a) \<and>
    (stored_data ref_system e' a = data_or_default m \<or>
      sys_providers ref_system e a = 0 \<and> stored_data ref_system e' a = default_account)"
  using assms by (auto simp: ref_system_def only_at_def no_account_def stored_data_def split: if_splits)

lemma ref_inc_providers_law:
  "only_at ref_system a e (sys_inc_providers ref_system a e) \<and>
   stored_data ref_system (sys_inc_providers ref_system a e) a = stored_data ref_system e a \<and>
   0 < sys_providers ref_system (sys_inc_providers ref_system a e) a \<and>
   sys_consumers ref_system (sys_inc_providers ref_system a e) a = sys_consumers ref_system e a"
proof -
  have "0 < sat_add x (1::u32)" for x
    by (simp add: word_less_nat_alt mach_nat)
  then show ?thesis by (simp add: ref_system_def only_at_def stored_data_def)
qed

lemma ref_dec_providers_law:
  assumes "sys_dec_providers ref_system a e = Inr e'"
  shows "only_at ref_system a e e' \<and> sys_consumers ref_system e' a \<le> sys_consumers ref_system e a \<and>
    (0 < sys_consumers ref_system e a \<longrightarrow>
      0 < sys_providers ref_system e' a \<and> sys_consumers ref_system e' a = sys_consumers ref_system e a) \<and>
    (0 < sys_providers ref_system e' a \<longrightarrow> stored_data ref_system e' a = stored_data ref_system e a)"
proof -
  have "0 < x - 1" if "1 < x" for x :: u32
    using that by (metis eq_iff_diff_eq_0 less_irrefl word_neq_0_conv)
  then show ?thesis
    using assms by (auto simp: ref_system_def ref_dec_providers_def only_at_def stored_data_def no_account_def
        split: if_splits)
qed

lemma ref_inc_consumers_law:
  assumes "ref_inc_consumers a e = Inr e'"
  shows "only_at ref_system a e e' \<and> stored_data ref_system e' a = stored_data ref_system e a \<and>
    sys_providers ref_system e' a = sys_providers ref_system e a \<and> 0 < sys_providers ref_system e a \<and>
    0 < sys_consumers ref_system e' a"
proof -
  have "0 < c" if "checked_add x 1 = Some c" for x c :: u32
    using that by (simp add: checked_add_Some word_less_nat_alt)
  then show ?thesis
    using assms by (auto simp: ref_system_def ref_inc_consumers_def only_at_def stored_data_def word_neq_0_conv
        split: if_splits option.splits)
qed

lemma ref_dec_consumers_law:
  "only_at ref_system a e (sys_dec_consumers ref_system a e) \<and>
   stored_data ref_system (sys_dec_consumers ref_system a e) a = stored_data ref_system e a \<and>
   sys_providers ref_system (sys_dec_consumers ref_system a e) a = sys_providers ref_system e a \<and>
   sys_consumers ref_system (sys_dec_consumers ref_system a e) a \<le> sys_consumers ref_system e a"
  by (simp add: ref_system_def only_at_def stored_data_def sat_sub_le)

lemma ref_system_consumers: "sys_inc_consumers ref_system = ref_inc_consumers"
  "sys_inc_consumers_without_limit ref_system = ref_inc_consumers"
  by (simp_all add: ref_system_def)

lemma ref_account_law: "sys_account ref_system e a \<noteq> Some default_account"
  by (simp add: ref_system_def)

lemma ref_system_law: "system_law ref_system"
  unfolding system_law_def ref_system_consumers
  using ref_put_law ref_inc_providers_law ref_dec_providers_law ref_inc_consumers_law ref_dec_consumers_law
    ref_account_law
  by blast

lemma ref_put_total: "put_total ref_system"
  by (simp add: put_total_def ref_system_def)

definition ref_dust :: "balance \<Rightarrow> 'e bal_state \<Rightarrow> 'e bal_state" where
  "ref_dust d s = (if d = 0 then s else deposit_event (B_Rescinded d) (s\<lparr> TotalIssuance := sat_sub (TotalIssuance s) d \<rparr>))"

definition ref_config :: "balance \<Rightarrow> ref_store bal_config" where
  "ref_config ed = \<lparr> ExistentialDeposit = ed, MaxLocks = 50, MaxReserves = 50, MaxFreezes = 50, MaxHolds = 50,
     DustRemoval = ref_dust, sy = ref_system \<rparr>"

lemma ref_config_sel [simp]: "ExistentialDeposit (ref_config ed) = ed" "sy (ref_config ed) = ref_system"
  "DustRemoval (ref_config ed) = ref_dust"
  by (simp_all add: ref_config_def)

lemma ref_good: "ed \<noteq> 0 \<Longrightarrow> good_balances (ref_config ed)"
  unfolding good_balances_def dust_law_def
proof (intro conjI allI)
  fix d :: balance and s :: "ref_store bal_state"
  show "\<exists>ev. DustRemoval (ref_config ed) d s =
        s\<lparr> TotalIssuance := sat_sub (TotalIssuance s) d, bal_events := bal_events s @ ev \<rparr>"
  proof (cases "d = 0")
    case True
    then show ?thesis by (intro exI [of _ "[]"]) (simp add: ref_dust_def)
  next
    case False
    then show ?thesis by (intro exI [of _ "[B_Rescinded d]"]) (simp add: ref_dust_def deposit_event_def)
  qed
qed (simp_all add: ref_system_law)

text \<open>A state with two funded accounts: the free and reserved balances of account 1 and the free
  balance of account 2, and the consumer references of account 1.\<close>

definition funded :: "balance \<Rightarrow> balance \<Rightarrow> u32 \<Rightarrow> ref_account" where
  "funded f r c = \<lparr> ref_providers = 1, ref_consumers = c,
     ref_data = \<lparr> free = f, reserved = r, frozen = 0, flags = IS_NEW_LOGIC \<rparr> \<rparr>"

definition two_accounts :: "ref_account \<Rightarrow> ref_account \<Rightarrow> ref_store bal_state" where
  "two_accounts x y = \<lparr>
     TotalIssuance = free (ref_data x) + reserved (ref_data x) + free (ref_data y) + reserved (ref_data y),
     InactiveIssuance = 0, Locks = \<lambda>_. [], Reserves = \<lambda>_. [], Holds = \<lambda>_. [], Freezes = \<lambda>_. [],
     TransferProof = \<lambda>_. None, sys = (\<lambda>_. no_account)(1 := x, 2 := y), bal_events = [] \<rparr>"

lemma ref_account_of [simp]: "account_of (ref_config ed) s a = ref_data (sys s a)"
  by (simp add: account_of_stored)

lemma holdings_two:
  "sys s = (\<lambda>_. no_account)(1 := x, 2 := y) \<Longrightarrow>
   holdings (ref_config ed) s = total_nat (ref_data x) + total_nat (ref_data y)"
proof -
  assume s: "sys s = (\<lambda>_. no_account)(1 := x, 2 := y)"
  let ?z = "\<lambda>_ :: account. 0 :: nat"
  have "holdings (ref_config ed) s = sum ((?z(1 := total_nat (ref_data x)))(2 := total_nat (ref_data y))) UNIV"
    unfolding holdings_def by (rule sum.cong) (simp_all add: s total_nat_def no_account_def)
  then show ?thesis
    using sum_fun_upd [of "?z(1 := total_nat (ref_data x))" 2 "total_nat (ref_data y)"]
      sum_fun_upd [of ?z 1 "total_nat (ref_data x)"]
    by simp
qed

lemma two_accounts_issued:
  "total_nat (ref_data x) + total_nat (ref_data y) < 2 ^ 128 \<Longrightarrow> issued_ok (ref_config ed) (two_accounts x y)"
proof -
  assume h: "total_nat (ref_data x) + total_nat (ref_data y) < 2 ^ 128"
  have "sys (two_accounts x y) = (\<lambda>_. no_account)(1 := x, 2 := y)" by (simp add: two_accounts_def)
  from holdings_two [OF this, of ed] h show ?thesis
    by (simp add: issued_ok_def total_nat_def two_accounts_def unat_word_ariths)
qed

lemma two_accounts_ok:
  assumes "ed \<noteq> 0"
    and x: "no_dust (ref_config ed) (ref_data x)" "ref_providers x \<noteq> 0"
    and y: "no_dust (ref_config ed) (ref_data y)" "ref_providers y \<noteq> 0"
  shows "bal_ok (ref_config ed) (two_accounts x y)"
proof -
  have d: "no_dust (ref_config ed) (ref_data no_account)" "\<not> does_provide (ref_config ed) (ref_data no_account)"
    using default_no_provide [of "ref_config ed"] assms(1) by (simp_all add: no_account_def no_dust_def)
  show ?thesis
    unfolding bal_ok_def refs_ok_def
    using assms d
    by (auto simp: two_accounts_def ref_system_def word_neq_0_conv no_account_def)
qed

end
