(* ===== verification/CurrencyProps.thy ===== *)
theory CurrencyProps
  imports RefSystem
begin

text \<open>
  The properties of \<open>Currency\<close> and \<open>ReservableCurrency\<close>: every operation changes exactly the
  balance it names, and the total issuance stays the sum of all balances, with the one exception
  of a swallowed error.
\<close>

section \<open>Issuance and balances\<close>

lemma mutated_settles_dust:
  assumes "mutated cfg who s a s'" "issued_ok cfg s" "does_provide cfg a \<or> unat (free a) \<le> unat (TotalIssuance s)"
    and "old_account cfg s who a0"
  shows "unat (TotalIssuance s') + total_nat a = holdings cfg s' + total_nat a0"
  using mutated_gap [OF assms(1-3)] assms(4) by (simp add: old_account_def total_nat_def)

lemma mutated_settles:
  assumes "mutated cfg who s a s'" "issued_ok cfg s" "ExistentialDeposit cfg \<le> TotalIssuance s"
    and "old_account cfg s who a0"
  shows "unat (TotalIssuance s') + total_nat a = holdings cfg s' + total_nat a0"
  by (rule mutated_settles_dust [OF assms(1,2) dust_is_issued [OF assms(3)] assms(4)])

text \<open>The state is consistent and the issuance is exactly what the accounts hold.\<close>

definition sound_balances :: "'e bal_config \<Rightarrow> 'e bal_state \<Rightarrow> bool" where
  "sound_balances cfg s \<longleftrightarrow> bal_ok cfg s \<and> issued_ok cfg s"

text \<open>The account of \<open>who\<close> has become \<open>x\<close> free and \<open>y\<close> reserved, unless that is below the
  existential deposit with nothing reserved, when the account is gone with the rest as dust.\<close>

definition holds_now :: "'e bal_config \<Rightarrow> account \<Rightarrow> 'e bal_state \<Rightarrow> nat \<Rightarrow> nat \<Rightarrow> bool" where
  "holds_now cfg who s' x y \<longleftrightarrow>
     (if x < unat (ExistentialDeposit cfg) \<and> y = 0
      then account_of cfg s' who = default_account
      else unat (free (account_of cfg s' who)) = x \<and> unat (reserved (account_of cfg s' who)) = y)"

definition others_keep :: "'e bal_config \<Rightarrow> account \<Rightarrow> 'e bal_state \<Rightarrow> 'e bal_state \<Rightarrow> bool" where
  "others_keep cfg who s s' \<longleftrightarrow> (\<forall>b. b \<noteq> who \<longrightarrow> account_of cfg s' b = account_of cfg s b)"

lemma mutated_holds_now:
  "mutated cfg who s a s' \<Longrightarrow> holds_now cfg who s' (unat (free a)) (unat (reserved a)) \<and> others_keep cfg who s s'"
  by (auto simp: mutated_def holds_now_def others_keep_def does_provide_def word_le_nat_alt unat_eq_zero
      split: if_splits)

lemma deposit_correct_aux:
  assumes m: "mutated cfg who s (a\<lparr> free := x \<rparr>) s'" and o: "old_account cfg s who a"
    and x: "unat x = unat (free a) + unat v" and i: "issued_ok cfg s"
    and ed: "ExistentialDeposit cfg \<le> TotalIssuance s" and over: "unat (TotalIssuance s) + unat v < 2 ^ 128"
  shows "sound_balances cfg (drop_positive (PositiveImbalance v) s')"
proof -
  have "unat (TotalIssuance s') + (unat x + unat (reserved a)) = holdings cfg s' + total_nat a"
    using mutated_settles [OF m i ed o] by simp
  then have h: "unat (TotalIssuance s') + unat v = holdings cfg s'" using x by (simp add: total_nat_def)
  have "unat (TotalIssuance s') \<le> unat (TotalIssuance s)"
    using m by (auto simp: mutated_def mach_nat split: if_splits)
  then have "min (unat (TotalIssuance s') + unat v) (2 ^ 128 - 1) = unat (TotalIssuance s') + unat v"
    using over by simp
  then show ?thesis
    unfolding sound_balances_def issued_ok_def drop_positive_effect using h m
    by (simp add: mutated_def)
qed

lemma withdraw_correct_aux:
  assumes m: "mutated cfg who s a' s'" and o: "old_account cfg s who a"
    and x: "total_nat a' + unat v = total_nat a" and i: "issued_ok cfg s"
    and ed: "ExistentialDeposit cfg \<le> TotalIssuance s"
  shows "sound_balances cfg (drop_negative (NegativeImbalance v) s')"
proof -
  have "unat (TotalIssuance s') + total_nat a' = holdings cfg s' + total_nat a"
    by (rule mutated_settles [OF m i ed o])
  then have "unat (TotalIssuance s') - unat v = holdings cfg s'" using x by simp
  then show ?thesis
    unfolding sound_balances_def issued_ok_def drop_negative_effect using m by (simp add: mutated_def)
qed

lemmas ref_eval =
  try_mutate_account_handling_dust_def try_mutate_account_def ensure_upgraded_def update_references_def
  inc_consumers_if_def drop_provider_def settle_def does_provide_def does_consume_def account_events_def
  on_sys_def on_sys_pure_def Let_def and_then_def ensure_def handle_raw_dust_def is_new_logic_def
  ref_config_def ref_system_def two_accounts_def funded_def account_of_def default_account_def
  data_or_default_def IS_NEW_LOGIC_def deposit_event_def

lemma two_funded_sound:
  assumes "ed \<noteq> 0" "ed \<le> f" "ed \<le> f'" "unat f + unat r + (unat f' + unat r') < 2 ^ 128"
  shows "sound_balances (ref_config ed) (two_accounts (funded f r c) (funded f' r' c'))"
proof -
  have "bal_ok (ref_config ed) (two_accounts (funded f r c) (funded f' r' c'))"
    by (rule two_accounts_ok) (use assms in \<open>simp_all add: funded_def no_dust_def does_provide_def\<close>)
  moreover have "issued_ok (ref_config ed) (two_accounts (funded f r c) (funded f' r' c'))"
    by (rule two_accounts_issued) (use assms in \<open>simp add: funded_def total_nat_def\<close>)
  ultimately show ?thesis by (simp add: sound_balances_def)
qed

text \<open>C16: \<open>deposit_creating\<close> that returns a non-zero imbalance has added exactly the value to the
  account (unless it ends below the existential deposit with nothing reserved), touched nobody
  else, and once the imbalance is dropped the issuance again equals the sum of all balances.\<close>

theorem deposit_creating_correct:
  assumes "good_balances cfg" "sound_balances cfg s" "ExistentialDeposit cfg \<le> TotalIssuance s"
    and "unat (TotalIssuance s) + unat value < 2 ^ 128"
    and "deposit_creating cfg who value s = (PositiveImbalance v, s')" "v \<noteq> 0"
  shows "v = value \<and>
    holds_now cfg who s' (unat (free_balance cfg s who) + unat value) (unat (reserved_balance cfg s who)) \<and>
    others_keep cfg who s s' \<and> sound_balances cfg (drop_positive (PositiveImbalance v) s')"
proof -
  have ok: "bal_ok cfg s" and i: "issued_ok cfg s" using assms(2) by (auto simp: sound_balances_def)
  obtain a x where e: "old_account cfg s who a" "v = value" "unat x = unat (free a) + unat value"
      "mutated cfg who s (a\<lparr> free := x \<rparr>) s'"
    using deposit_creating_effect [OF assms(1) ok assms(5,6)] by blast
  show ?thesis
    using deposit_correct_aux [OF e(4,1,3) i assms(3,4)] mutated_holds_now [OF e(4)] e(1,2,3)
    by (simp add: old_account_def free_balance_def reserved_balance_def)
qed

lemma deposit_creating_correct_witness:
  "sound_balances (ref_config 10) (drop_positive (PositiveImbalance 5)
     (snd (deposit_creating (ref_config 10) 1 5 (two_accounts (funded 100 20 1) (funded 50 0 0)))))"
proof -
  let ?s = "two_accounts (funded 100 20 1) (funded 50 0 0)"
  have f: "fst (deposit_creating (ref_config 10) 1 5 ?s) = PositiveImbalance 5"
    by (simp add: deposit_creating_def deposit_closure_def checked_add_def ref_eval)
  then have r: "deposit_creating (ref_config 10) 1 5 ?s = (PositiveImbalance 5, snd (deposit_creating (ref_config 10) 1 5 ?s))"
    by (simp add: prod_eq_iff)
  show ?thesis
    using deposit_creating_correct [OF ref_good two_funded_sound _ _ r] by (simp add: two_accounts_def funded_def)
qed

text \<open>A successful \<open>withdraw\<close> takes exactly the value from the free balance, never more than
  there is, never below the existential deposit under \<open>KeepAlive\<close>, touches nobody else, and once
  the imbalance is dropped the issuance equals the sum of all balances.\<close>

theorem withdraw_correct:
  assumes "good_balances cfg" "sound_balances cfg s" "ExistentialDeposit cfg \<le> TotalIssuance s"
    and "value \<noteq> 0" "withdraw cfg who value reasons liveness s = (Inr i, s')"
  shows "i = NegativeImbalance value \<and> unat value \<le> unat (free_balance cfg s who) \<and>
    holds_now cfg who s' (unat (free_balance cfg s who) - unat value) (unat (reserved_balance cfg s who)) \<and>
    (liveness = KeepAlive \<and> ExistentialDeposit cfg \<le> free_balance cfg s who \<longrightarrow>
       ExistentialDeposit cfg \<le> free_balance cfg s' who) \<and>
    others_keep cfg who s s' \<and> sound_balances cfg (drop_negative i s')"
proof -
  have ok: "bal_ok cfg s" and i: "issued_ok cfg s" using assms(2) by (auto simp: sound_balances_def)
  obtain a x where e: "old_account cfg s who a" "i = NegativeImbalance value" "unat value \<le> unat (free a)"
      "unat x = unat (free a) - unat value"
      "liveness = KeepAlive \<longrightarrow> does_provide cfg a \<longrightarrow> does_provide cfg (a\<lparr> free := x \<rparr>)"
      "mutated cfg who s (a\<lparr> free := x \<rparr>) s'"
    using withdraw_effect [OF assms(1) ok assms(4,5)] by blast
  have "total_nat (a\<lparr> free := x \<rparr>) + unat value = total_nat a" using e(3,4) by (simp add: total_nat_def)
  note w = withdraw_correct_aux [OF e(6,1) this i assms(3)]
  have k: "liveness = KeepAlive \<and> ExistentialDeposit cfg \<le> free_balance cfg s who \<Longrightarrow>
       ExistentialDeposit cfg \<le> free_balance cfg s' who"
    using e(1,5,6) by (simp add: free_balance_def old_account_def does_provide_def mutated_def split: if_splits)
  show ?thesis
    using w mutated_holds_now [OF e(6)] e(1-4) k
    by (simp add: old_account_def free_balance_def reserved_balance_def)
qed

lemma withdraw_correct_witness:
  "sound_balances (ref_config 10) (drop_negative (NegativeImbalance 95)
     (snd (withdraw (ref_config 10) 1 95 0 AllowDeath (two_accounts (funded 100 0 0) (funded 50 0 0)))))"
proof -
  let ?s = "two_accounts (funded 100 0 0) (funded 50 0 0)"
  have f: "fst (withdraw (ref_config 10) 1 95 0 AllowDeath ?s) = Inr (NegativeImbalance 95)"
    by (simp add: withdraw_def withdraw_closure_def ensure_can_withdraw_def checked_sub_def ref_eval
        ref_dec_providers_def ref_dust_def)
  then have r: "withdraw (ref_config 10) 1 95 0 AllowDeath ?s =
      (Inr (NegativeImbalance 95), snd (withdraw (ref_config 10) 1 95 0 AllowDeath ?s))"
    by (simp add: prod_eq_iff)
  show ?thesis
    using withdraw_correct [OF ref_good two_funded_sound _ _ r] by (simp add: two_accounts_def funded_def)
qed

text \<open>\<open>slash\<close> and \<open>slash_reserved\<close> that take something take at most the value and at most what
  is there, account for the rest, touch nobody else, and once the imbalance is dropped the issuance
  equals the sum of all balances.\<close>

theorem slash_correct:
  assumes "good_balances cfg" "sound_balances cfg s" "ExistentialDeposit cfg \<le> TotalIssuance s" "v \<noteq> 0"
    and "slash cfg who value s = ((NegativeImbalance v, rest), s') \<and> on_free \<or>
         slash_reserved cfg who value s = ((NegativeImbalance v, rest), s') \<and> \<not> on_free"
  shows "unat v + unat rest = unat value \<and>
    (if on_free then unat v \<le> unat (free_balance cfg s who) \<and>
        holds_now cfg who s' (unat (free_balance cfg s who) - unat v) (unat (reserved_balance cfg s who))
     else v = min value (reserved_balance cfg s who) \<and>
        holds_now cfg who s' (unat (free_balance cfg s who)) (unat (reserved_balance cfg s who) - unat v)) \<and>
    others_keep cfg who s s' \<and> sound_balances cfg (drop_negative (NegativeImbalance v) s')"
proof -
  have ok: "bal_ok cfg s" and i: "issued_ok cfg s" using assms(2) by (auto simp: sound_balances_def)
  show ?thesis
  proof (cases on_free)
    case True
    then have "slash cfg who value s = ((NegativeImbalance v, rest), s')" using assms(5) by simp
    from slash_effect [OF assms(1) ok this assms(4)] obtain a x where
      e: "old_account cfg s who a" "unat v \<le> unat (free a)" "unat v + unat rest = unat value"
        "unat x + unat v = unat (free a)" "mutated cfg who s (a\<lparr> free := x \<rparr>) s'" by blast
    have "total_nat (a\<lparr> free := x \<rparr>) + unat v = total_nat a" using e(4) by (simp add: total_nat_def)
    note w = withdraw_correct_aux [OF e(5,1) this i assms(3)]
    have "unat x = unat (free a) - unat v" using e(4) by simp
    then show ?thesis using True w mutated_holds_now [OF e(5)] e(1-3)
      by (simp add: old_account_def free_balance_def reserved_balance_def)
  next
    case False
    then have "slash_reserved cfg who value s = ((NegativeImbalance v, rest), s')" using assms(5) by simp
    from slash_reserved_effect [OF assms(1) ok this assms(4)] obtain a x where
      e: "old_account cfg s who a" "v = min value (reserved a)" "unat v + unat rest = unat value"
        "unat x + unat v = unat (reserved a)" "mutated cfg who s (a\<lparr> reserved := x \<rparr>) s'" by blast
    have "total_nat (a\<lparr> reserved := x \<rparr>) + unat v = total_nat a" using e(4) by (simp add: total_nat_def)
    note w = withdraw_correct_aux [OF e(5,1) this i assms(3)]
    have "unat x = unat (reserved a) - unat v" using e(4) by simp
    then show ?thesis using False w mutated_holds_now [OF e(5)] e(1,2,3)
      by (simp add: old_account_def free_balance_def reserved_balance_def)
  qed
qed

lemma slash_correct_witness:
  "sound_balances (ref_config 10) (drop_negative (NegativeImbalance 20)
     (snd (slash_reserved (ref_config 10) 1 30 (two_accounts (funded 100 20 1) (funded 50 0 0)))))"
proof -
  let ?s = "two_accounts (funded 100 20 1) (funded 50 0 0)"
  have f: "fst (slash_reserved (ref_config 10) 1 30 ?s) = (NegativeImbalance 20, 10)"
    by (simp add: slash_reserved_def slash_reserved_closure_def total_balance_def account_total_def
        mutate_account_handling_dust_def mutate_account_def sat_add_def sat_sub_def ref_eval)
  then have r: "slash_reserved (ref_config 10) 1 30 ?s =
      ((NegativeImbalance 20, 10), snd (slash_reserved (ref_config 10) 1 30 ?s))"
    by (simp add: prod_eq_iff)
  show ?thesis
    using slash_correct [OF ref_good two_funded_sound, of 10 100 50 20 0 1 0 20 1 30 10 _ False] r
    by (simp add: two_accounts_def funded_def)
qed

text \<open>C40: When lowering a free balance through \<open>make_free_balance_be\<close> fails after its closure has
  run (the last provider cannot go while the account has consumers), the error is swallowed and
  nobody's balance changes, but the imbalance the closure had made is dropped on the way out: the
  total issuance falls by the difference and no longer equals what the accounts hold.\<close>

theorem make_free_balance_be_loses_issuance:
  assumes "good_balances cfg" "put_total (sy cfg)" "sound_balances cfg s" "value < free_balance cfg s who"
    and "make_free_balance_be cfg who value s = (Signed_Positive (PositiveImbalance 0), s')"
  shows "(\<forall>b. free_balance cfg s' b = free_balance cfg s b \<and> reserved_balance cfg s' b = reserved_balance cfg s b) \<and>
    unat (TotalIssuance s') + (unat (free_balance cfg s who) - unat value) = unat (TotalIssuance s) \<and>
    \<not> issued_ok cfg s'"
proof -
  have ok: "bal_ok cfg s" and i: "issued_ok cfg s" using assms(3) by (auto simp: sound_balances_def)
  let ?m = "try_mutate_account_handling_dust cfg who drop_signed (set_free_closure cfg who value) s"
  have fne: "Inr (Signed_Positive (PositiveImbalance 0)) \<noteq> fst ?m"
  proof
    assume f: "Inr (Signed_Positive (PositiveImbalance 0)) = fst ?m"
    then have "?m = (Inr (Signed_Positive (PositiveImbalance 0)), snd ?m)" by (simp add: prod_eq_iff)
    from try_mutate_handling_dust_effect [OF assms(1) ok quiet_closures(4) this]
    show False using assms(4)
      by (auto simp: set_free_closure_def and_then_Inr Let_def free_balance_def not_le split: if_splits)
  qed
  obtain e where m: "?m = (Inl e, s')"
    using assms(5) fne by (auto simp: make_free_balance_be_def split: prod.splits sum.splits)
  obtain s2 s0 a x s1 where e: "same_balances cfg s s2" "s0 = snd (ensure_upgraded cfg who s)"
    "set_free_closure cfg who value a (sys_account (sy cfg) (sys s0) who = None) s0 = (x, s1)"
    "free a = free (account_of cfg s who)" "reserved a = reserved (account_of cfg s who)"
    "case x of Inl e' \<Rightarrow> s' = s2 | Inr (res, a') \<Rightarrow> s' = drop_signed res s2"
    by (rule try_mutate_error_cases [OF assms(1,2) ok quiet_closures(4) m])
  have nn: "sys_account (sy cfg) (sys s0) who \<noteq> None"
  proof
    assume n: "sys_account (sy cfg) (sys s0) who = None"
    have "same_balances cfg s s0"
      unfolding e(2) using assms(1) by (intro ensure_upgraded_same ok) (auto simp: good_balances_def)
    then have "free (account_of cfg s who) = free (account_of cfg s0 who)" by (simp add: same_balances_def)
    then show False using n assms(4) by (simp add: account_of_def free_balance_def)
  qed
  have lt: "\<not> free a \<le> value" using assms(4) e(4) by (simp add: free_balance_def)
  have "x = Inr (Signed_Negative (NegativeImbalance (free a - value)), a\<lparr> free := value \<rparr>)"
    using e(3) nn lt by (auto simp: set_free_closure_def and_then_def ensure_def Let_def)
  then have s': "s' = drop_negative (NegativeImbalance (free a - value)) s2"
    using e(6) by (simp add: drop_signed_def)
  have le: "unat (free a - value) = unat (free a) - unat value" "unat value < unat (free a)"
    using lt by (simp_all add: mach_nat word_less_nat_alt word_le_nat_alt)
  have "unat (free a) \<le> unat (TotalIssuance s)"
    using total_le_holdings [of cfg s who] i e(4) by (simp add: issued_ok_def total_nat_def)
  moreover have "TotalIssuance s2 = TotalIssuance s"
    using e(1) store_only_fields(1) by (auto simp: same_balances_def)
  ultimately have ti: "unat (TotalIssuance s') + (unat (free a) - unat value) = unat (TotalIssuance s)"
    unfolding s' drop_negative_effect by (simp add: le)
  have h: "holdings cfg s' = holdings cfg s"
    unfolding s' drop_negative_effect by (rule same_balances_holdings [OF e(1)])
  have "\<not> issued_ok cfg s'"
    using ti le i h unfolding issued_ok_def by simp
  moreover have "free_balance cfg s' b = free_balance cfg s b \<and> reserved_balance cfg s' b = reserved_balance cfg s b" for b
    unfolding s' free_balance_def reserved_balance_def drop_negative_effect using e(1) by (simp add: same_balances_def)
  ultimately show ?thesis using ti e(4) by (simp add: free_balance_def)
qed

lemma make_free_balance_be_loses_issuance_witness:
  "\<not> issued_ok (ref_config 10) (snd (make_free_balance_be (ref_config 10) 1 0 (two_accounts (funded 100 0 1) (funded 50 0 0))))"
proof -
  let ?s = "two_accounts (funded 100 0 1) (funded 50 0 0)"
  have f: "fst (make_free_balance_be (ref_config 10) 1 0 ?s) = Signed_Positive (PositiveImbalance 0)"
    by (simp add: make_free_balance_be_def set_free_closure_def ref_eval ref_dec_providers_def ref_dust_def)
  then have r: "make_free_balance_be (ref_config 10) 1 0 ?s =
      (Signed_Positive (PositiveImbalance 0), snd (make_free_balance_be (ref_config 10) 1 0 ?s))"
    by (simp add: prod_eq_iff)
  show ?thesis
    using make_free_balance_be_loses_issuance [OF ref_good _ two_funded_sound _ r] ref_put_total
    by (simp add: two_accounts_def funded_def free_balance_def)
qed

text \<open>\<open>reserve\<close> either moves exactly the value from the free to the reserved balance of the
  account, leaving at least the frozen amount free, or fails and changes nobody's balance; either
  way the issuance stays equal to the sum of all balances.\<close>

theorem reserve_correct:
  assumes "good_balances cfg" "put_total (sy cfg)" "sound_balances cfg s"
    and "ExistentialDeposit cfg \<le> TotalIssuance s" "reserve cfg who value s = (r, s')"
  shows "sound_balances cfg s' \<and>
    (case r of
       Inr _ \<Rightarrow> unat value \<le> unat (free_balance cfg s who) \<and> others_keep cfg who s s' \<and>
         (value \<noteq> 0 \<longrightarrow> holds_now cfg who s' (unat (free_balance cfg s who) - unat value)
            (unat (reserved_balance cfg s who) + unat value))
     | Inl _ \<Rightarrow> (\<forall>b. free_balance cfg s' b = free_balance cfg s b \<and> reserved_balance cfg s' b = reserved_balance cfg s b))"
proof -
  have ok: "bal_ok cfg s" and i: "issued_ok cfg s" using assms(3) by (auto simp: sound_balances_def)
  consider (zero) "value = 0" | (fails) e where "value \<noteq> 0" "r = Inl e" | (works) "value \<noteq> 0" "r = Inr ()"
    by (cases r) auto
  then show ?thesis
  proof cases
    case zero
    then show ?thesis using assms(3,5) by (auto simp: reserve_def others_keep_def)
  next
    case fails
    then have m: "try_mutate_account_handling_dust cfg who no_drop (reserve_closure cfg who value) s = (Inl e, s')"
      using assms(5) by (auto simp: reserve_def and_then_Inl)

    have sb: "same_balances cfg s s'"
      by (rule try_mutate_error_cases [OF assms(1,2) ok quiet_closures(5) m])
         (auto simp: no_drop_def split: sum.splits)
    then have "sound_balances cfg s'"
      using i same_balances_issued [OF sb] by (simp add: sound_balances_def same_balances_def)
    then show ?thesis using fails sb by (simp add: same_balances_def free_balance_def reserved_balance_def)
  next
    case works
    from reserve_effect [OF assms(1) ok works(1)] assms(5) works(2) obtain a x y where
      e: "old_account cfg s who a" "unat x + unat value = unat (free a)"
        "unat y = unat (reserved a) + unat value" "mutated cfg who s (a\<lparr> free := x, reserved := y \<rparr>) s'" by blast
    have "total_nat (a\<lparr> free := x, reserved := y \<rparr>) = total_nat a" using e(2,3) by (simp add: total_nat_def)
    then have "issued_ok cfg s'" using mutated_settles [OF e(4) i assms(4) e(1)] by (simp add: issued_ok_def)
    moreover have "bal_ok cfg s'" using e(4) by (simp add: mutated_def)
    moreover have "unat x = unat (free a) - unat value" using e(2) by simp
    ultimately show ?thesis using works mutated_holds_now [OF e(4)] e(1-3)
      by (simp add: sound_balances_def old_account_def free_balance_def reserved_balance_def)
  qed
qed

lemma reserve_correct_witness:
  "sound_balances (ref_config 10) (snd (reserve (ref_config 10) 1 30 (two_accounts (funded 100 20 1) (funded 50 0 0))))"
proof -
  have r: "reserve (ref_config 10) 1 30 (two_accounts (funded 100 20 1) (funded 50 0 0)) =
      (fst (reserve (ref_config 10) 1 30 (two_accounts (funded 100 20 1) (funded 50 0 0))),
       snd (reserve (ref_config 10) 1 30 (two_accounts (funded 100 20 1) (funded 50 0 0))))" by simp
  show ?thesis
    using reserve_correct [OF ref_good _ two_funded_sound _ r] ref_put_total
    by (simp add: two_accounts_def funded_def)
qed

section \<open>Moving a reserve\<close>

definition lives :: "'e bal_config \<Rightarrow> account_data \<Rightarrow> bool" where
  "lives cfg a \<longleftrightarrow> does_provide cfg a \<or> reserved a \<noteq> 0"

definition dust_of :: "'e bal_config \<Rightarrow> account_data \<Rightarrow> balance" where
  "dust_of cfg a = (if lives cfg a then 0 else free a)"

definition kept :: "'e bal_config \<Rightarrow> account_data \<Rightarrow> account_data" where
  "kept cfg a = (if lives cfg a then a else default_account)"

lemma kept_total: "total_nat (kept cfg a) + unat (dust_of cfg a) = total_nat a"
  by (simp add: kept_def dust_of_def lives_def total_nat_def)

lemma try_mutate_account_cases:
  assumes g: "good_balances cfg" and ok: "bal_ok cfg s"
    and r: "try_mutate_account cfg who on_drop f s = (Inr (res, dust), s')"
    and f: "\<And>a new s0 x a' s1. f a new s0 = (Inr (x, a'), s1) \<Longrightarrow> bal_ok cfg s0 \<Longrightarrow>
      a = account_of cfg s0 who \<Longrightarrow> leaves_alone cfg who s0 s1"
  obtains s0 a new a' s1 where "f a new s0 = (Inr (res, a'), s1)" "bal_ok cfg s0" "same_balances cfg s s0"
    "others_keep cfg who s s0" "a = account_of cfg s0 who" "old_account cfg s who a"
    "bal_ok cfg s'" "store_only s1 s'" "others_keep cfg who s1 s'"
    "account_of cfg s' who = kept cfg a'"
    "dust = (if dust_of cfg a' = 0 then None else Some (dust_of cfg a'))"
    "only_at (sy cfg) who (sys s) (sys s0)" "only_at (sy cfg) who (sys s1) (sys s')"
proof -
  have law: "system_law (sy cfg)" and ed: "ExistentialDeposit cfg \<noteq> 0"
    using g by (auto simp: good_balances_def)
  obtain s0 a new a' s1 stored s2 where e: "s0 = snd (ensure_upgraded cfg who s)" "a = account_of cfg s0 who"
      "bal_ok cfg s0" "only_at (sy cfg) who (sys s) (sys s0)" "free a = free (account_of cfg s who)"
      "reserved a = reserved (account_of cfg s who)" "f a new s0 = (Inr (res, a'), s1)"
      "settle cfg a' = Some (stored, dust)" "sys_only s1 s2"
      "s' = account_events who (if new then Some (free a') else None) dust s2"
      "only_at (sy cfg) who (sys s1) (sys s')" "bal_ok cfg s'" "account_of cfg s' who = data_or_default stored"
    by (rule exE [OF try_mutate_account_effect [OF law ok ed r f]], assumption, assumption, assumption)
       (elim exE conjE, rule that, assumption+)
  have st: "store_only s1 s'"
    unfolding e(10) by (rule store_only_trans [OF store_only_sys [OF e(9)]]) simp
  have ok1: "others_keep cfg who s s0" "others_keep cfg who s1 s'"
    using only_atD(1) [OF e(4)] only_atD(1) [OF e(11)] by (simp_all add: others_keep_def account_of_stored)
  have sb: "same_balances cfg s s0" unfolding e(1) by (rule ensure_upgraded_same [OF law ok ed])
  have k: "account_of cfg s' who = kept cfg a'" "dust = (if dust_of cfg a' = 0 then None else Some (dust_of cfg a'))"
    using e(8,13) ed by (auto simp: settle_def kept_def dust_of_def lives_def does_provide_def not_le split: if_splits)
  show ?thesis
    by (rule that [OF e(7,3) sb ok1(1) e(2) _ e(12) st ok1(2) k e(4,11)]) (simp add: old_account_def e(5,6))
qed

text \<open>What the two accounts become when the reserve moves from \<open>f\<close> to \<open>t\<close>.\<close>

definition reserve_moved :: "balance \<Rightarrow> balance_status \<Rightarrow> account_data \<Rightarrow> account_data \<Rightarrow> account_data \<Rightarrow> account_data \<Rightarrow> bool" where
  "reserve_moved actual status f t f' t' \<longleftrightarrow>
     unat (free f') = unat (free f) \<and> unat (reserved f') = unat (reserved f) - unat actual \<and>
     (case status of
        Status_Free \<Rightarrow> unat (free t') = unat (free t) + unat actual \<and> reserved t' = reserved t
      | Status_Reserved \<Rightarrow> free t' = free t \<and> unat (reserved t') = unat (reserved t) + unat actual)"

lemma move_reserved_inner_result:
  assumes "move_reserved_inner actual status t f new s = (Inr (t', f'), s')"
  shows "reserve_moved actual status f t f' t'" "s' = s"
  using assms by (auto simp: move_reserved_inner_def reserve_moved_def checked_add_Some mach_nat
      split: balance_status.splits option.splits)

lemma move_reserved_inner_quiet: "quiet (move_reserved_inner actual status t)"
  by (rule quietI) (auto simp: move_reserved_inner_def split: closure_splits)

lemma move_reserved_outer_cases:
  assumes g: "good_balances cfg" and ok: "bal_ok cfg s"
    and r: "move_reserved_outer cfg slashed actual status t new s = (Inr (d, t'), s')"
  obtains f f' where "old_account cfg s slashed f" "reserve_moved actual status f t f' t'"
    "account_of cfg s' slashed = kept cfg f'" "others_keep cfg slashed s s'" "bal_ok cfg s'" "store_only s s'"
    "only_at (sy cfg) slashed (sys s) (sys s')"
    "d = (if dust_of cfg f' = 0 then None else Some (dust_of cfg f'))"
proof -
  have m: "try_mutate_account cfg slashed no_drop (move_reserved_inner actual status t) s = (Inr (t', d), s')"
    using r by (auto simp: move_reserved_outer_def and_then_Inr ensure_Inr)
  show ?thesis
  proof (rule try_mutate_account_cases [OF g ok m quiet_leaves_alone(1) [OF move_reserved_inner_quiet]], assumption)
    fix s0 a new a' s1
    assume h: "move_reserved_inner actual status t a new s0 = (Inr (t', a'), s1)"
      "same_balances cfg s s0" "others_keep cfg slashed s s0" "old_account cfg s slashed a" "bal_ok cfg s'"
      "store_only s1 s'" "others_keep cfg slashed s1 s'" "account_of cfg s' slashed = kept cfg a'"
      "d = (if dust_of cfg a' = 0 then None else Some (dust_of cfg a'))"
      "only_at (sy cfg) slashed (sys s) (sys s0)" "only_at (sy cfg) slashed (sys s1) (sys s')"
    note i = move_reserved_inner_result [OF h(1)]
    have "others_keep cfg slashed s s'" using h(3,7) i(2) by (simp add: others_keep_def)
    moreover have "store_only s s'"
      using h(2,6) i(2) by (auto intro: store_only_trans simp: same_balances_def)
    moreover have "only_at (sy cfg) slashed (sys s) (sys s')"
      using only_at_trans [OF h(10)] h(11) i(2) by simp
    ultimately show ?thesis using that h i by blast
  qed
qed

lemma outer_leaves_alone:
  assumes g: "good_balances cfg" and ne: "slashed \<noteq> beneficiary"
    and r: "move_reserved_outer cfg slashed actual status t new s = (Inr (d, t'), s')" and ok: "bal_ok cfg s"
  shows "leaves_alone cfg beneficiary s s'"
proof (rule move_reserved_outer_cases [OF g ok r])
  assume "bal_ok cfg s'" and o: "only_at (sy cfg) slashed (sys s) (sys s')"
  then show ?thesis using only_atD [OF o ne [symmetric]] by (simp add: leaves_alone_def)
qed

lemma handle_raw_dust_effect:
  assumes "good_balances cfg"
  shows "account_of cfg (handle_raw_dust cfg (if d = 0 then None else Some d) s) = account_of cfg s"
    "bal_ok cfg (handle_raw_dust cfg (if d = 0 then None else Some d) s) = bal_ok cfg s"
    "TotalIssuance (handle_raw_dust cfg (if d = 0 then None else Some d) s) = sat_sub (TotalIssuance s) d"
proof -
  have dl: "dust_law cfg" using assms by (simp add: good_balances_def)
  obtain ev where e: "handle_raw_dust cfg (Some d) s =
      s\<lparr> TotalIssuance := sat_sub (TotalIssuance s) d, bal_events := bal_events s @ ev \<rparr>"
    by (rule handle_raw_dust_Some [OF dl])
  then have sy: "sys (handle_raw_dust cfg (if d = 0 then None else Some d) s) = sys s" by simp
  show "account_of cfg (handle_raw_dust cfg (if d = 0 then None else Some d) s) = account_of cfg s"
    by (rule account_of_sys [OF sy])
  show "bal_ok cfg (handle_raw_dust cfg (if d = 0 then None else Some d) s) = bal_ok cfg s"
    by (rule bal_ok_sys [OF sy])
  show "TotalIssuance (handle_raw_dust cfg (if d = 0 then None else Some d) s) = sat_sub (TotalIssuance s) d"
    using e by simp
qed

lemma do_transfer_reserved_success:
  assumes r: "do_transfer_reserved cfg slashed beneficiary value precision fortitude status s = (Inr actual, s')"
    and nz: "value \<noteq> 0" and ne: "slashed \<noteq> beneficiary"
  obtains d1 d2 s1 where "actual = (case precision of BestEffort \<Rightarrow> min value
        (reducible_total_balance_on_hold cfg s slashed fortitude) | Exact \<Rightarrow> value)"
    "actual \<le> reducible_total_balance_on_hold cfg s slashed fortitude"
    "try_mutate_account cfg beneficiary no_drop (move_reserved_outer cfg slashed actual status) s = (Inr (d1, d2), s1)"
    "s' = deposit_event (B_ReserveRepatriated slashed beneficiary actual status)
            (handle_raw_dust cfg d2 (handle_raw_dust cfg d1 s1))"
  using r nz ne unfolding do_transfer_reserved_def Let_def
  by (auto split: prod.splits sum.splits if_splits precision.splits)

lemma reducible_bounds:
  "unat (reducible_total_balance_on_hold cfg s who force) \<le> unat (reserved_balance cfg s who)"
  "force = Polite \<Longrightarrow> unat (reducible_total_balance_on_hold cfg s who force) =
     unat (reserved_balance cfg s who) - (unat (frozen (account_of cfg s who)) - unat (free_balance cfg s who))"
  by (simp_all add: reducible_total_balance_on_hold_def Let_def reserved_balance_def free_balance_def mach_nat)

lemma transfer_reserved_effect:
  assumes g: "good_balances cfg" and ok: "bal_ok cfg s" and ne: "slashed \<noteq> beneficiary"
    and le: "unat actual \<le> unat (reserved_balance cfg s slashed)"
    and m: "try_mutate_account cfg beneficiary no_drop (move_reserved_outer cfg slashed actual status) s
      = (Inr (d1, d2), s1)"
    and s': "s' = handle_raw_dust cfg d2 (handle_raw_dust cfg d1 s1)"
  shows "\<exists>f t f' t'. old_account cfg s slashed f \<and> old_account cfg s beneficiary t \<and>
    reserve_moved actual status f t f' t' \<and> bal_ok cfg s' \<and>
    account_of cfg s' slashed = kept cfg f' \<and> account_of cfg s' beneficiary = kept cfg t' \<and>
    (\<forall>b. b \<noteq> slashed \<longrightarrow> b \<noteq> beneficiary \<longrightarrow> account_of cfg s' b = account_of cfg s b) \<and>
    (unat (TotalIssuance s) = holdings cfg s \<longrightarrow> unat (TotalIssuance s') = holdings cfg s')"
proof (rule try_mutate_account_cases [OF g ok m outer_leaves_alone [OF g ne]], assumption, assumption)
  fix s0 t new t' s2
  assume h: "move_reserved_outer cfg slashed actual status t new s0 = (Inr (d1, t'), s2)" "bal_ok cfg s0"
    "same_balances cfg s s0" "others_keep cfg beneficiary s s0" "t = account_of cfg s0 beneficiary"
    "old_account cfg s beneficiary t" "bal_ok cfg s1" "store_only s2 s1" "others_keep cfg beneficiary s2 s1"
    "account_of cfg s1 beneficiary = kept cfg t'"
    "d2 = (if dust_of cfg t' = 0 then None else Some (dust_of cfg t'))"
  show ?thesis
  proof (rule move_reserved_outer_cases [OF g h(2,1)])
    fix f f'
    assume k: "old_account cfg s0 slashed f" "reserve_moved actual status f t f' t'"
      "account_of cfg s2 slashed = kept cfg f'" "others_keep cfg slashed s0 s2" "store_only s0 s2"
      "d1 = (if dust_of cfg f' = 0 then None else Some (dust_of cfg f'))"
    have f: "old_account cfg s slashed f"
      using k(1) h(3) by (simp add: old_account_def same_balances_def)
    have le': "unat actual \<le> unat (reserved f)" using f le by (simp add: old_account_def reserved_balance_def)
    have acc: "account_of cfg s' = account_of cfg s1" unfolding s' h(11) k(6) handle_raw_dust_effect [OF g] ..
    have bok: "bal_ok cfg s'" unfolding s' h(11) k(6) handle_raw_dust_effect [OF g] by (rule h(7))
    have ti: "TotalIssuance s1 = TotalIssuance s"
      using store_only_fields(1) [OF h(8)] store_only_fields(1) [OF k(5)] h(3) store_only_fields(1) [of s s0]
      by (simp add: same_balances_def)
    have ti': "unat (TotalIssuance s') = unat (TotalIssuance s) - unat (dust_of cfg f') - unat (dust_of cfg t')"
      unfolding s' h(11) k(6) handle_raw_dust_effect [OF g] ti by (simp add: mach_nat)
    have sl: "account_of cfg s1 slashed = kept cfg f'" using h(9) k(3) ne by (simp add: others_keep_def)
    have bn: "account_of cfg s2 beneficiary = t" using k(4) h(5) ne by (simp add: others_keep_def)
    have oth: "account_of cfg s1 b = account_of cfg s b" if "b \<noteq> slashed" "b \<noteq> beneficiary" for b
      using that h(4,9) k(4) by (simp add: others_keep_def)
    have H1: "holdings cfg s2 + total_nat f = holdings cfg s0 + total_nat (kept cfg f')"
      using holdings_changed [of slashed cfg s2 s0] k(1,3,4) by (simp add: others_keep_def old_account_def total_nat_def)
    have H2: "holdings cfg s1 + total_nat t = holdings cfg s2 + total_nat (kept cfg t')"
      using holdings_changed [of beneficiary cfg s1 s2] h(9,10) bn by (simp add: others_keep_def)
    have H0: "holdings cfg s0 = holdings cfg s" by (rule same_balances_holdings [OF h(3)])
    have H': "holdings cfg s' = holdings cfg s1" by (simp add: holdings_def acc)
    have F: "total_nat f' + unat actual = total_nat f" using k(2) le' by (simp add: reserve_moved_def total_nat_def)
    have T: "total_nat t' = total_nat t + unat actual"
      using k(2) by (auto simp: reserve_moved_def total_nat_def split: balance_status.splits)
    have "holdings cfg s' + unat (dust_of cfg f') + unat (dust_of cfg t') = holdings cfg s"
      using H0 H1 H2 H' F T kept_total [of cfg f'] kept_total [of cfg t'] by linarith
    then have "unat (TotalIssuance s) = holdings cfg s \<Longrightarrow> unat (TotalIssuance s') = holdings cfg s'"
      using ti' by linarith
    then show ?thesis
      using f h(6,10) k(2) bok sl oth unfolding acc by blast
  qed
qed

lemma kept_holds_now:
  "account_of cfg s' who = kept cfg a \<Longrightarrow> holds_now cfg who s' (unat (free a)) (unat (reserved a))"
  by (auto simp: kept_def lives_def holds_now_def does_provide_def word_le_nat_alt unat_eq_zero)

text \<open>C23: A successful \<open>do_transfer_reserved\<close> between two accounts (the core of
  \<open>repatriate_reserved\<close> and of transfers on hold) moves one amount, the value itself under
  \<open>Exact\<close>, never more than the reserve, from the reserve of the one to the free or reserved balance
  of the other; nobody else is touched and the issuance stays the sum of all balances.\<close>

theorem do_transfer_reserved_correct:
  assumes "good_balances cfg" "sound_balances cfg s" "value \<noteq> 0" "slashed \<noteq> beneficiary"
    and "do_transfer_reserved cfg slashed beneficiary value precision fortitude status s = (Inr actual, s')"
  shows "(precision = Exact \<longrightarrow> actual = value) \<and> actual \<le> value \<and>
    unat actual \<le> unat (reserved_balance cfg s slashed) \<and>
    holds_now cfg slashed s' (unat (free_balance cfg s slashed)) (unat (reserved_balance cfg s slashed) - unat actual) \<and>
    (case status of
       Status_Free \<Rightarrow> holds_now cfg beneficiary s' (unat (free_balance cfg s beneficiary) + unat actual)
         (unat (reserved_balance cfg s beneficiary))
     | Status_Reserved \<Rightarrow> holds_now cfg beneficiary s' (unat (free_balance cfg s beneficiary))
         (unat (reserved_balance cfg s beneficiary) + unat actual)) \<and>
    (\<forall>b. b \<noteq> slashed \<longrightarrow> b \<noteq> beneficiary \<longrightarrow> account_of cfg s' b = account_of cfg s b) \<and>
    sound_balances cfg s'"
proof (rule do_transfer_reserved_success [OF assms(5,3,4)])
  fix d1 d2 s1
  let ?s2 = "handle_raw_dust cfg d2 (handle_raw_dust cfg d1 s1)"
  assume a: "actual = (case precision of BestEffort \<Rightarrow> min value
      (reducible_total_balance_on_hold cfg s slashed fortitude) | Exact \<Rightarrow> value)"
    and le: "actual \<le> reducible_total_balance_on_hold cfg s slashed fortitude"
    and m: "try_mutate_account cfg beneficiary no_drop (move_reserved_outer cfg slashed actual status) s = (Inr (d1, d2), s1)"
    and s': "s' = deposit_event (B_ReserveRepatriated slashed beneficiary actual status) ?s2"
  have ok: "bal_ok cfg s" and i: "unat (TotalIssuance s) = holdings cfg s"
    using assms(2) by (auto simp: sound_balances_def issued_ok_def)
  have le': "unat actual \<le> unat (reserved_balance cfg s slashed)"
    using le reducible_bounds(1) [of cfg s slashed fortitude] by (simp add: word_le_nat_alt)
  obtain f t f' t' where e: "old_account cfg s slashed f" "old_account cfg s beneficiary t"
    "reserve_moved actual status f t f' t'" "bal_ok cfg ?s2"
    "account_of cfg ?s2 slashed = kept cfg f'" "account_of cfg ?s2 beneficiary = kept cfg t'"
    "\<And>b. b \<noteq> slashed \<Longrightarrow> b \<noteq> beneficiary \<Longrightarrow> account_of cfg ?s2 b = account_of cfg s b"
    "unat (TotalIssuance ?s2) = holdings cfg ?s2"
    using transfer_reserved_effect [OF assms(1) ok assms(4) le' m refl] i by metis
  have acc: "account_of cfg s' = account_of cfg ?s2" unfolding s' by simp
  have snd: "sound_balances cfg s'"
    unfolding sound_balances_def issued_ok_def holdings_def acc using e(4,8) by (simp add: s' holdings_def)
  have hs: "holds_now cfg slashed s' (unat (free f')) (unat (reserved f'))"
    "holds_now cfg beneficiary s' (unat (free t')) (unat (reserved t'))"
    using e(5,6) by (auto intro: kept_holds_now simp: acc)
  have av: "(precision = Exact \<longrightarrow> actual = value) \<and> actual \<le> value"
    using a by (cases precision) auto
  show ?thesis
    using av le' hs snd e(1,2,3,7) unfolding acc
    by (cases status) (simp_all add: reserve_moved_def old_account_def free_balance_def reserved_balance_def)
qed

lemma do_transfer_reserved_correct_witness:
  "sound_balances (ref_config 10) (snd (do_transfer_reserved (ref_config 10) 1 2 20 Exact Polite Status_Free
     (two_accounts (funded 100 20 1) (funded 50 0 0))))"
proof -
  let ?r = "do_transfer_reserved (ref_config 10) 1 2 20 Exact Polite Status_Free
     (two_accounts (funded 100 20 1) (funded 50 0 0))"
  have "fst ?r = Inr 20"
    by (simp add: do_transfer_reserved_def move_reserved_outer_def move_reserved_inner_def
        reducible_total_balance_on_hold_def checked_add_def sat_sub_def ref_eval)
  then have r: "?r = (Inr 20, snd ?r)" by (simp add: prod_eq_iff)
  show ?thesis
    using do_transfer_reserved_correct [OF ref_good two_funded_sound _ _ r] by simp
qed

end
