(* ===== verification/BalancesHoldsLaw.thy ===== *)
theory BalancesHoldsLaw
  imports BalancesHolds CurrencyProps
begin

text \<open>
  The properties of the named reserves, the locks, the freezes and the holds of the balances
  pallet: the lists they keep stay sorted or distinct and bounded, and agree with the account's
  reserved and frozen balance.
\<close>

section \<open>Named reserves\<close>

definition ids_sorted :: "id_amount list \<Rightarrow> bool" where
  "ids_sorted xs \<longleftrightarrow> sorted_wrt (<) (map id_of xs)"

lemma ids_sorted_less: "ids_sorted xs \<Longrightarrow> i < j \<Longrightarrow> j < length xs \<Longrightarrow> id_of (xs ! i) < id_of (xs ! j)"
  by (simp add: ids_sorted_def sorted_wrt_iff_nth_less)

lemma search_between_correct:
  assumes "ids_sorted xs" "lo \<le> hi" "hi \<le> length xs"
    and "\<And>i. i < lo \<Longrightarrow> id_of (xs ! i) < ident" "\<And>i. hi \<le> i \<Longrightarrow> i < length xs \<Longrightarrow> ident < id_of (xs ! i)"
  shows "case search_between ident xs lo hi of
      Found i \<Rightarrow> i < length xs \<and> id_of (xs ! i) = ident
    | Missing i \<Rightarrow> i \<le> length xs \<and> (\<forall>j < i. id_of (xs ! j) < ident) \<and>
        (\<forall>j. i \<le> j \<longrightarrow> j < length xs \<longrightarrow> ident < id_of (xs ! j))"
  using assms
proof (induction ident xs lo hi rule: search_between.induct)
  case (1 ident xs lo hi)
  show ?case
  proof (cases "lo < hi")
    case False
    then show ?thesis using 1(4-) by (subst search_between.simps) auto
  next
    case True
    let ?mid = "lo + (hi - lo) div 2"
    have m: "lo \<le> ?mid" "?mid < hi" using True by auto
    consider "id_of (xs ! ?mid) < ident" | "ident < id_of (xs ! ?mid)" | "id_of (xs ! ?mid) = ident" by linarith
    then show ?thesis
    proof cases
      case 1
      have "id_of (xs ! i) < ident" if "i < ?mid + 1" for i
      proof (cases "i = ?mid")
        case False
        then have "id_of (xs ! i) < id_of (xs ! ?mid)"
          using that m "1.prems"(3) by (auto intro: ids_sorted_less [OF "1.prems"(1)])
        then show ?thesis using 1 by linarith
      qed (use 1 in simp)
      then have "case search_between ident xs (?mid + 1) hi of
          Found i \<Rightarrow> i < length xs \<and> id_of (xs ! i) = ident
        | Missing i \<Rightarrow> i \<le> length xs \<and> (\<forall>j < i. id_of (xs ! j) < ident) \<and>
            (\<forall>j. i \<le> j \<longrightarrow> j < length xs \<longrightarrow> ident < id_of (xs ! j))"
        using 1 m "1.prems" by (intro "1.IH"(1) [OF True refl]) auto
      then show ?thesis using True 1 by (subst search_between.simps) (simp add: Let_def)
    next
      case 2
      have "ident < id_of (xs ! i)" if "?mid \<le> i" "i < length xs" for i
      proof (cases "i = ?mid")
        case False
        then show ?thesis using that ids_sorted_less [OF "1.prems"(1), of ?mid i] 2 by force
      qed (use 2 in simp)
      moreover have nl: "\<not> id_of (xs ! ?mid) < ident" using 2 by simp
      ultimately have "case search_between ident xs lo ?mid of
          Found i \<Rightarrow> i < length xs \<and> id_of (xs ! i) = ident
        | Missing i \<Rightarrow> i \<le> length xs \<and> (\<forall>j < i. id_of (xs ! j) < ident) \<and>
            (\<forall>j. i \<le> j \<longrightarrow> j < length xs \<longrightarrow> ident < id_of (xs ! j))"
        using m "1.prems" by (intro "1.IH"(2) [OF True refl nl 2]) auto
      then show ?thesis using True 2 by (subst search_between.simps) (simp add: Let_def)
    next
      case 3
      then show ?thesis using True m "1.prems"(3) by (subst search_between.simps) (simp add: Let_def)
    qed
  qed
qed

lemma binary_search_correct:
  assumes "ids_sorted xs"
  shows "binary_search_by_id ident xs = Found i \<Longrightarrow> i < length xs \<and> id_of (xs ! i) = ident"
    "binary_search_by_id ident xs = Missing i \<Longrightarrow> i \<le> length xs \<and> (\<forall>j < i. id_of (xs ! j) < ident) \<and>
        (\<forall>j. i \<le> j \<longrightarrow> j < length xs \<longrightarrow> ident < id_of (xs ! j))"
  using search_between_correct [OF assms, of 0 "length xs" ident]
  by (simp_all add: binary_search_by_id_def)

text \<open>The amount under an identifier, and the sum of all.\<close>

definition amounts_sum :: "id_amount list \<Rightarrow> nat" where
  "amounts_sum xs = sum_list (map (\<lambda>x. unat (amount_of x)) xs)"

definition named :: "id_amount list \<Rightarrow> nat \<Rightarrow> nat" where
  "named xs ident = amounts_sum (filter (\<lambda>x. id_of x = ident) xs)"

lemma named_append [simp]: "named (xs @ ys) ident = named xs ident + named ys ident"
  by (simp add: named_def amounts_sum_def)

lemma named_Cons [simp]: "named (x # xs) ident = (if id_of x = ident then unat (amount_of x) else 0) + named xs ident"
  by (simp add: named_def amounts_sum_def)

lemma named_Nil [simp]: "named [] ident = 0"
  by (simp add: named_def amounts_sum_def)

lemma amounts_sum_simps [simp]: "amounts_sum [] = 0" "amounts_sum (x # xs) = unat (amount_of x) + amounts_sum xs"
  "amounts_sum (xs @ ys) = amounts_sum xs + amounts_sum ys"
  by (simp_all add: amounts_sum_def)

lemma named_none: "(\<And>x. x \<in> set xs \<Longrightarrow> id_of x \<noteq> ident) \<Longrightarrow> named xs ident = 0"
  by (induction xs) auto

lemma split_at: "i < length xs \<Longrightarrow> xs = take i xs @ xs ! i # drop (Suc i) xs"
  by (rule id_take_nth_drop)

lemma sorted_split:
  assumes s: "ids_sorted xs" and i: "i < length xs"
  shows "x \<in> set (take i xs) \<Longrightarrow> id_of x \<noteq> id_of (xs ! i)" "x \<in> set (drop (Suc i) xs) \<Longrightarrow> id_of x \<noteq> id_of (xs ! i)"
proof -
  have ne: "id_of (xs ! j) \<noteq> id_of (xs ! i)" if "j \<noteq> i" "j < length xs" for j
    using ids_sorted_less [OF s, of j i] ids_sorted_less [OF s, of i j] that i by (cases "j < i") auto
  show "id_of x \<noteq> id_of (xs ! i)" if "x \<in> set (take i xs)"
    using that ne i by (auto simp: in_set_conv_nth)
  show "id_of x \<noteq> id_of (xs ! i)" if "x \<in> set (drop (Suc i) xs)"
    using that ne by (auto simp: in_set_conv_nth)
qed

lemma set_amount_split:
  assumes "i < length xs"
  shows "set_amount i v xs = take i xs @ (xs ! i)\<lparr> amount_of := v \<rparr> # drop (Suc i) xs"
  using assms by (simp add: set_amount_def upd_conv_take_nth_drop)

lemma set_amount_props:
  assumes s: "ids_sorted xs" and i: "i < length xs"
  shows "ids_sorted (set_amount i v xs)" "length (set_amount i v xs) = length xs"
    "named (set_amount i v xs) j = (if j = id_of (xs ! i) then unat v else named xs j)"
    "amounts_sum (set_amount i v xs) + unat (amount_of (xs ! i)) = amounts_sum xs + unat v"
proof -
  have x: "xs = take i xs @ xs ! i # drop (Suc i) xs" by (rule split_at [OF i])
  have m: "map id_of (set_amount i v xs) = map id_of xs"
    using i by (simp add: set_amount_def map_update list_update_same_conv)
  then show "ids_sorted (set_amount i v xs)" using s by (simp add: ids_sorted_def)
  show "length (set_amount i v xs) = length xs" by (simp add: set_amount_def)
  have a: "amounts_sum xs = amounts_sum (take i xs) + unat (amount_of (xs ! i)) + amounts_sum (drop (Suc i) xs)"
    by (subst x) simp
  then show "amounts_sum (set_amount i v xs) + unat (amount_of (xs ! i)) = amounts_sum xs + unat v"
    by (simp add: set_amount_split [OF i])
  have n: "named xs j = named (take i xs) j + (if id_of (xs ! i) = j then unat (amount_of (xs ! i)) else 0)
      + named (drop (Suc i) xs) j"
    by (subst x) simp
  have z: "named (take i xs) (id_of (xs ! i)) = 0" "named (drop (Suc i) xs) (id_of (xs ! i)) = 0"
    using sorted_split [OF s i] by (auto intro: named_none)
  show "named (set_amount i v xs) j = (if j = id_of (xs ! i) then unat v else named xs j)"
    using n z by (auto simp: set_amount_split [OF i])
qed

lemma list_remove_props:
  assumes s: "ids_sorted xs" and i: "i < length xs" and z: "amount_of (xs ! i) = v"
  shows "ids_sorted (list_remove_at i xs)" "length (list_remove_at i xs) < length xs"
    "named (list_remove_at i xs) j = (if j = id_of (xs ! i) then 0 else named xs j)"
    "amounts_sum (list_remove_at i xs) + unat v = amounts_sum xs"
proof -
  have x: "xs = take i xs @ xs ! i # drop (Suc i) xs" by (rule split_at [OF i])
  have "sorted_wrt (<) (map id_of (take i xs @ xs ! i # drop (Suc i) xs))"
    using s unfolding ids_sorted_def by (subst (asm) x) simp
  then show "ids_sorted (list_remove_at i xs)"
    by (simp add: ids_sorted_def list_remove_at_def sorted_wrt_append)
  show "length (list_remove_at i xs) < length xs" using i by (simp add: list_remove_at_def)
  show "amounts_sum (list_remove_at i xs) + unat v = amounts_sum xs"
    using z by (subst (2) x) (simp add: list_remove_at_def)
  have n: "named xs j = named (take i xs) j + (if id_of (xs ! i) = j then unat (amount_of (xs ! i)) else 0)
      + named (drop (Suc i) xs) j"
    by (subst x) simp
  have "named (take i xs) (id_of (xs ! i)) = 0" "named (drop (Suc i) xs) (id_of (xs ! i)) = 0"
    using sorted_split [OF s i] by (auto intro: named_none)
  then show "named (list_remove_at i xs) j = (if j = id_of (xs ! i) then 0 else named xs j)"
    using n by (auto simp: list_remove_at_def)
qed

lemma list_insert_props:
  assumes s: "ids_sorted xs" and i: "i \<le> length xs"
    and lo: "\<forall>j < i. id_of (xs ! j) < id_of x" and hi: "\<forall>j. i \<le> j \<longrightarrow> j < length xs \<longrightarrow> id_of x < id_of (xs ! j)"
  shows "ids_sorted (list_insert_at i x xs)" "length (list_insert_at i x xs) = Suc (length xs)"
    "named (list_insert_at i x xs) j = (if j = id_of x then unat (amount_of x) else named xs j)"
    "amounts_sum (list_insert_at i x xs) = amounts_sum xs + unat (amount_of x)" "named xs (id_of x) = 0"
proof -
  have sp: "xs = take i xs @ drop i xs" by simp
  have l: "id_of y < id_of x" if "y \<in> set (take i xs)" for y
    using that lo by (auto simp: in_set_conv_nth)
  have h: "id_of x < id_of y" if "y \<in> set (drop i xs)" for y
    using that hi i by (fastforce simp: in_set_conv_nth)
  have so: "sorted_wrt (<) (map id_of (take i xs)) \<and> sorted_wrt (<) (map id_of (drop i xs)) \<and>
     (\<forall>a \<in> set (take i xs). \<forall>b \<in> set (drop i xs). id_of a < id_of b)"
    using s unfolding ids_sorted_def by (subst (asm) sp) (simp only: map_append sorted_wrt_append, auto)
  then show "ids_sorted (list_insert_at i x xs)"
    using l h by (simp add: ids_sorted_def list_insert_at_def sorted_wrt_append)
  show "length (list_insert_at i x xs) = Suc (length xs)" using i by (simp add: list_insert_at_def)
  have a: "amounts_sum xs = amounts_sum (take i xs) + amounts_sum (drop i xs)" by (subst sp) (simp only: amounts_sum_simps)
  then show "amounts_sum (list_insert_at i x xs) = amounts_sum xs + unat (amount_of x)"
    by (simp add: list_insert_at_def)
  have n: "named xs k = named (take i xs) k + named (drop i xs) k" for k by (subst sp) (simp only: named_append)
  have z: "named (take i xs) (id_of x) = 0" "named (drop i xs) (id_of x) = 0"
    using l h by (auto intro!: named_none) (metis less_irrefl)+
  show "named xs (id_of x) = 0" using n z by simp
  show "named (list_insert_at i x xs) j = (if j = id_of x then unat (amount_of x) else named xs j)"
    using n z by (auto simp: list_insert_at_def)
qed

lemma reserve_lists:
  assumes "good_balances cfg" "put_total (sy cfg)" "bal_ok cfg s" "reserve cfg who value s = (r, s')"
  shows "Reserves s' = Reserves s"
proof (cases "value = 0")
  case True
  then show ?thesis using assms(4) by (simp add: reserve_def)
next
  case nz: False
  show ?thesis
  proof (cases r)
    case (Inr u)
    then show ?thesis
      using reserve_effect [OF assms(1,3) nz, of who u s'] assms(4) by (auto simp: mutated_def)
  next
    case (Inl e)
    then have m: "try_mutate_account_handling_dust cfg who no_drop (reserve_closure cfg who value) s = (Inl e, s')"
      using assms(4) nz by (auto simp: reserve_def and_then_Inl)
    show ?thesis
      by (rule try_mutate_error_cases [OF assms(1-3) quiet_closures(5) m])
         (auto simp: no_drop_def same_balances_def store_only_fields split: sum.splits)
  qed
qed

lemma sound_no_overflow:
  assumes "sound_balances cfg s"
  shows "unat (free_balance cfg s who) + unat (reserved_balance cfg s who) \<le> unat (TotalIssuance s)"
  using total_le_holdings [of cfg s who] assms
  by (simp add: sound_balances_def issued_ok_def total_nat_def free_balance_def reserved_balance_def)

lemma holds_now_reserved: "holds_now cfg who s' x y \<Longrightarrow> unat (reserved_balance cfg s' who) = y"
  by (auto simp: holds_now_def reserved_balance_def split: if_splits)

text \<open>\<open>unreserve\<close> in full: some amount up to what is reserved moves back, possibly none.\<close>

lemma unreserve_moves:
  assumes g: "good_balances cfg" and pt: "put_total (sy cfg)" and so: "sound_balances cfg s"
    and r: "unreserve cfg who value s = (left, s')"
  shows "\<exists>actual. (actual = 0 \<or> actual = min (reserved_balance cfg s who) value) \<and> left = value - actual \<and>
    unat (reserved_balance cfg s' who) = unat (reserved_balance cfg s who) - unat actual \<and>
    (actual \<noteq> 0 \<longrightarrow> holds_now cfg who s' (unat (free_balance cfg s who) + unat actual)
       (unat (reserved_balance cfg s who) - unat actual)) \<and>
    (\<forall>b. b \<noteq> who \<longrightarrow> free_balance cfg s' b = free_balance cfg s b \<and> reserved_balance cfg s' b = reserved_balance cfg s b) \<and>
    sound_balances cfg s' \<and> Reserves s' = Reserves s \<and> Holds s' = Holds s"
proof -
  have ok: "bal_ok cfg s" and i: "issued_ok cfg s" using so by (auto simp: sound_balances_def)
  have none: ?thesis if sb: "same_balances cfg s s'" and l: "left = value"
  proof -
    have "sound_balances cfg s'"
      using i same_balances_issued [OF sb] sb by (simp add: sound_balances_def same_balances_def)
    moreover have "Reserves s' = Reserves s" "Holds s' = Holds s"
      using sb store_only_fields [of s s'] by (simp_all add: same_balances_def)
    ultimately show ?thesis using sb l
      by (intro exI [of _ 0]) (simp add: same_balances_def free_balance_def reserved_balance_def)
  qed
  have refl: "same_balances cfg s s" using ok by (simp add: same_balances_def)
  consider "value = 0 \<or> total_balance cfg s who = 0" | "value \<noteq> 0" "total_balance cfg s who \<noteq> 0" by blast
  then show ?thesis
  proof cases
    case 1
    then have "s' = s" "left = value" using r by (auto simp: unreserve_def split: if_splits)
    then show ?thesis using none refl by simp
  next
    case 2
    let ?m = "mutate_account_handling_dust cfg who no_drop (unreserve_closure value) s"
    obtain x s3 where m: "?m = (x, s3)" by force
    show ?thesis
    proof (cases x)
      case (Inl e)
      then have eq: "s' = s3" "left = value" using r m 2 by (auto simp: unreserve_def)
      have "try_mutate_account_handling_dust cfg who no_drop (\<lambda>a _. ret (unreserve_closure value a)) s = (Inl e, s3)"
        using m Inl by (simp add: mutate_account_handling_dust_def mutate_account_def try_mutate_account_handling_dust_def)
      then have "same_balances cfg s s3"
        by (rule try_mutate_error_cases [OF g pt ok quiet_ret]) (auto simp: no_drop_def split: sum.splits)
      then show ?thesis using none eq by simp
    next
      case (Inr actual)
      then have eq: "s' = deposit_event (B_Unreserved who actual) s3" "left = value - actual"
        using r m 2 by (auto simp: unreserve_def)
      have m': "?m = (Inr actual, s3)" using m Inr by simp
      obtain a a' where e: "unreserve_closure value a = (actual, a')"
          "free a = free (account_of cfg s who)" "reserved a = reserved (account_of cfg s who)"
          "mutated cfg who s a' s3"
        using mutate_handling_dust_effect [OF g ok m'] by blast
      have x: "actual = min (reserved a) value"
        "a' = a\<lparr> reserved := reserved a - actual, free := sat_add (free a) actual \<rparr>"
        using e(1) by (auto simp: unreserve_closure_def Let_def)
      have o: "old_account cfg s who a" using e(2,3) by (simp add: old_account_def)
      have le: "unat actual \<le> unat (reserved a)" by (simp add: x(1) mach_nat)
      have lea: "actual \<le> reserved a" using le by (simp add: word_le_nat_alt)
      have "unat (free a) + unat actual \<le> unat (TotalIssuance s)"
        using sound_no_overflow [OF so, of who] le e(2,3) by (simp add: free_balance_def reserved_balance_def)
      then have f: "unat (free a') = unat (free a) + unat actual"
          and ed: "does_provide cfg a' \<or> unat (free a') \<le> unat (TotalIssuance s)"
        using unat_lt_max [of "TotalIssuance s"] by (simp_all add: x(2) mach_nat)
      have rs: "unat (reserved a') = unat (reserved a) - unat actual"
        by (simp add: x(2) unat_minus_le [OF lea])
      have "total_nat a' = total_nat a" using f rs le by (simp add: total_nat_def)
      then have "sound_balances cfg s3"
        using mutated_settles_dust [OF e(4) i ed o] e(4) by (simp add: sound_balances_def issued_ok_def mutated_def)
      then have snd: "sound_balances cfg s'"
        unfolding eq(1) by (simp add: sound_balances_def issued_ok_def holdings_def)
      note h = mutated_holds_now [OF mutated_event [OF e(4)], of "B_Unreserved who actual"]
      have h1: "holds_now cfg who s' (unat (free a) + unat actual) (unat (reserved a) - unat actual)"
        using h f rs by (simp add: eq(1))
      have R: "Reserves s' = Reserves s" "Holds s' = Holds s" using e(4) by (simp_all add: eq(1) mutated_def)
      have oth: "free_balance cfg s' b = free_balance cfg s b \<and> reserved_balance cfg s' b = reserved_balance cfg s b"
        if "b \<noteq> who" for b
        using h that by (simp add: others_keep_def eq(1) free_balance_def reserved_balance_def)
      show ?thesis
        using h1 holds_now_reserved [OF h1] oth snd R x(1) eq(2) e(2,3)
        by (intro exI [of _ actual]) (simp add: free_balance_def reserved_balance_def)
    qed
  qed
qed

text \<open>The named reserves of an account: sorted by identifier, at most \<open>MaxReserves\<close> of them, and
  together no more than its reserved balance.\<close>

definition named_ok :: "'e bal_config \<Rightarrow> 'e bal_state \<Rightarrow> account \<Rightarrow> bool" where
  "named_ok cfg s who \<longleftrightarrow> ids_sorted (Reserves s who) \<and> length (Reserves s who) \<le> unat (MaxReserves cfg) \<and>
     amounts_sum (Reserves s who) \<le> unat (reserved_balance cfg s who)"

lemma reserved_balance_named_is:
  assumes "ids_sorted (Reserves s who)"
  shows "unat (reserved_balance_named s ident who) = named (Reserves s who) ident"
proof (cases "binary_search_by_id ident (Reserves s who)")
  case (Found i)
  note f = binary_search_correct(1) [OF assms Found]
  have "set_amount i (amount_of (Reserves s who ! i)) (Reserves s who) = Reserves s who"
    by (simp add: set_amount_def)
  then have "named (Reserves s who) ident = unat (amount_of (Reserves s who ! i))"
    using set_amount_props(3) [OF assms, of i "amount_of (Reserves s who ! i)" ident] f by simp
  then show ?thesis using Found by (simp add: reserved_balance_named_def)
next
  case (Missing i)
  note f = binary_search_correct(2) [OF assms Missing]
  have "named (Reserves s who) ident = 0"
    using list_insert_props(5) [OF assms, of i "\<lparr> id_of = ident, amount_of = 0 \<rparr>"] f by simp
  then show ?thesis using Missing by (simp add: reserved_balance_named_def)
qed

lemma add_named_props:
  assumes s: "ids_sorted xs" and l: "length xs \<le> unat (MaxReserves cfg)" and a: "add_named cfg ident value xs = Inr ys"
  shows "ids_sorted ys" "length ys \<le> unat (MaxReserves cfg)" "amounts_sum ys = amounts_sum xs + unat value"
    "named ys j = named xs j + (if j = ident then unat value else 0)"
proof -
  have "ids_sorted ys \<and> length ys \<le> unat (MaxReserves cfg) \<and> amounts_sum ys = amounts_sum xs + unat value \<and>
    named ys j = named xs j + (if j = ident then unat value else 0)"
  proof (cases "binary_search_by_id ident xs")
    case (Found i)
    note f = binary_search_correct(1) [OF s Found]
    obtain x where x: "unat x = unat (amount_of (xs ! i)) + unat value" "ys = set_amount i x xs"
      using a Found by (auto simp: add_named_def checked_add_Some split: option.splits)
    have i: "i < length xs" using f by simp
    have "set_amount i (amount_of (xs ! i)) xs = xs" by (simp add: set_amount_def)
    then have n: "named xs ident = unat (amount_of (xs ! i))"
      using set_amount_props(3) [OF s i, of "amount_of (xs ! i)" ident] f by simp
    show ?thesis
      using set_amount_props [OF s i, of x] x l f n by auto
  next
    case (Missing i)
    note f = binary_search_correct(2) [OF s Missing]
    have y: "ys = list_insert_at i \<lparr> id_of = ident, amount_of = value \<rparr> xs" "length xs < unat (MaxReserves cfg)"
      using a Missing by (auto simp: add_named_def try_insert_def split: option.splits if_splits)
    show ?thesis
      using list_insert_props [OF s, of i "\<lparr> id_of = ident, amount_of = value \<rparr>"] f y by auto
  qed
  then show "ids_sorted ys" "length ys \<le> unat (MaxReserves cfg)" "amounts_sum ys = amounts_sum xs + unat value"
    "named ys j = named xs j + (if j = ident then unat value else 0)" by auto
qed

lemma put_reserves_simps [simp]:
  "sys (put_reserves who rs s) = sys s" "TotalIssuance (put_reserves who rs s) = TotalIssuance s"
  "Reserves (put_reserves who rs s) = (Reserves s)(who := rs)" "account_of cfg (put_reserves who rs s) = account_of cfg s"
  "sound_balances cfg (put_reserves who rs s) = sound_balances cfg s"
  "reserved_balance cfg (put_reserves who rs s) b = reserved_balance cfg s b"
  "free_balance cfg (put_reserves who rs s) b = free_balance cfg s b"
proof -
  show sy: "sys (put_reserves who rs s) = sys s" by (simp add: put_reserves_def)
  show "account_of cfg (put_reserves who rs s) = account_of cfg s" by (rule account_of_sys [OF sy])
  then show "sound_balances cfg (put_reserves who rs s) = sound_balances cfg s"
    "reserved_balance cfg (put_reserves who rs s) b = reserved_balance cfg s b"
    "free_balance cfg (put_reserves who rs s) b = free_balance cfg s b"
    unfolding sound_balances_def issued_ok_def holdings_def reserved_balance_def free_balance_def bal_ok_sys [OF sy]
    by (simp_all add: put_reserves_def)
qed (simp_all add: put_reserves_def)

text \<open>\<open>reserve_named\<close> either adds exactly the value to the named reserve and to the account's
  reserved balance, leaving every other named reserve alone and the list sorted, bounded and covered
  by the reserved balance, or fails and changes no balance and no list.\<close>

theorem reserve_named_correct:
  assumes "good_balances cfg" "put_total (sy cfg)" "sound_balances cfg s" "ExistentialDeposit cfg \<le> TotalIssuance s"
    and "named_ok cfg s who" "value \<noteq> 0" "reserve_named cfg ident who value s = (r, s')"
  shows "sound_balances cfg s' \<and>
    (case r of
       Inr _ \<Rightarrow> named_ok cfg s' who \<and>
         unat (reserved_balance_named s' ident who) = unat (reserved_balance_named s ident who) + unat value \<and>
         (\<forall>j. j \<noteq> ident \<longrightarrow> reserved_balance_named s' j who = reserved_balance_named s j who) \<and>
         unat (reserved_balance cfg s' who) = unat (reserved_balance cfg s who) + unat value
     | Inl _ \<Rightarrow> Reserves s' = Reserves s \<and>
         (\<forall>b. free_balance cfg s' b = free_balance cfg s b \<and> reserved_balance cfg s' b = reserved_balance cfg s b))"
proof -
  have ok: "bal_ok cfg s" using assms(3) by (simp add: sound_balances_def)
  have so: "ids_sorted (Reserves s who)" and ln: "length (Reserves s who) \<le> unat (MaxReserves cfg)"
    and cov: "amounts_sum (Reserves s who) \<le> unat (reserved_balance cfg s who)"
    using assms(5) by (auto simp: named_ok_def)
  show ?thesis
  proof (cases "add_named cfg ident value (Reserves s who)")
    case (Inl e)
    then show ?thesis using assms(3,6,7) by (auto simp: reserve_named_def and_then_def)
  next
    case (Inr rs)
    obtain x s1 where rv: "reserve cfg who value s = (x, s1)" by force
    note c = reserve_correct [OF assms(1-4) rv] and L = reserve_lists [OF assms(1,2) ok rv]
    show ?thesis
    proof (cases x)
      case (Inl e)
      then have "r = Inl e" "s' = s1" using assms(6,7) Inr rv \<open>add_named cfg ident value (Reserves s who) = Inr rs\<close>
        by (auto simp: reserve_named_def and_then_def)
      then show ?thesis using c L Inl by simp
    next
      case (Inr u)
      then have e: "r = Inr ()" "s' = put_reserves who rs s1"
        using assms(6,7) rv \<open>add_named cfg ident value (Reserves s who) = Inr rs\<close>
        by (auto simp: reserve_named_def and_then_def)
      note p = add_named_props [OF so ln \<open>add_named cfg ident value (Reserves s who) = Inr rs\<close>]
      have R': "Reserves s' who = rs" by (simp add: e(2))
      have rb: "unat (reserved_balance cfg s' who) = unat (reserved_balance cfg s who) + unat value"
        using c Inr assms(6) holds_now_reserved by (auto simp: e(2))
      have n: "unat (reserved_balance_named s' j who) = unat (reserved_balance_named s j who) + (if j = ident then unat value else 0)" for j
        using reserved_balance_named_is [OF so, of j] reserved_balance_named_is [of s' who j] p(1,4) R' by simp
      have "named_ok cfg s' who" using p(1-3) R' cov rb by (simp add: named_ok_def)
      then show ?thesis using c Inr n [of ident] n rb by (simp add: e word_eq_unat)
    qed
  qed
qed

lemma reserve_named_correct_witness:
  "sound_balances (ref_config 10) (snd (reserve_named (ref_config 10) 7 1 30 (two_accounts (funded 100 20 1) (funded 50 0 0))))"
proof -
  let ?s = "two_accounts (funded 100 20 1) (funded 50 0 0)"
  have n: "named_ok (ref_config 10) ?s 1" by (simp add: named_ok_def ids_sorted_def two_accounts_def)
  have r: "reserve_named (ref_config 10) 7 1 30 ?s =
      (fst (reserve_named (ref_config 10) 7 1 30 ?s), snd (reserve_named (ref_config 10) 7 1 30 ?s))" by simp
  show ?thesis
    using reserve_named_correct [OF ref_good _ two_funded_sound _ n _ r] ref_put_total
    by (simp add: two_accounts_def funded_def)
qed

text \<open>\<open>unreserve_named\<close> gives back either the whole of what it may (the smaller of the value
  and the named reserve) or nothing, reports the rest, lowers the named reserve and the reserved
  balance by the same amount, and keeps the list sorted, bounded and covered.\<close>

theorem unreserve_named_correct:
  assumes "good_balances cfg" "put_total (sy cfg)" "sound_balances cfg s" "ExistentialDeposit cfg \<le> TotalIssuance s"
    and "named_ok cfg s who" "unreserve_named cfg ident who value s = (left, s')"
  shows "\<exists>actual. (actual = 0 \<or> actual = min (reserved_balance_named s ident who) value) \<and> left = value - actual \<and>
    unat (reserved_balance_named s' ident who) = unat (reserved_balance_named s ident who) - unat actual \<and>
    (\<forall>j. j \<noteq> ident \<longrightarrow> reserved_balance_named s' j who = reserved_balance_named s j who) \<and>
    unat (reserved_balance cfg s' who) = unat (reserved_balance cfg s who) - unat actual \<and>
    named_ok cfg s' who \<and> sound_balances cfg s'"
proof -
  let ?rs = "Reserves s who"
  have so: "ids_sorted ?rs" and ln: "length ?rs \<le> unat (MaxReserves cfg)"
    and cov: "amounts_sum ?rs \<le> unat (reserved_balance cfg s who)"
    using assms(5) by (auto simp: named_ok_def)
  have none: ?thesis if "s' = s" "left = value"
    using that assms(3,5) by (intro exI [of _ 0]) simp
  show ?thesis
  proof (cases "value = 0")
    case True
    then show ?thesis using none assms(6) by (simp add: unreserve_named_def)
  next
    case nz: False
    show ?thesis
    proof (cases "binary_search_by_id ident ?rs")
      case (Missing i)
      then show ?thesis using none assms(6) nz by (simp add: unreserve_named_def)
    next
      case (Found i)
      note f = binary_search_correct(1) [OF so Found]
      then have i: "i < length ?rs" by simp
      define amt where "amt = amount_of (?rs ! i)"
      define tc where "tc = min amt value"
      obtain remain s1 where u: "unreserve cfg who tc s = (remain, s1)" by force
      obtain actual where a: "actual = 0 \<or> actual = min (reserved_balance cfg s who) tc" "remain = tc - actual"
        "unat (reserved_balance cfg s1 who) = unat (reserved_balance cfg s who) - unat actual"
        "sound_balances cfg s1" "Reserves s1 = Reserves s"
        using unreserve_moves [OF assms(1-3) u] by blast
      have sa: "set_amount i amt ?rs = ?rs" by (simp add: set_amount_def amt_def)
      have nm: "named ?rs ident = unat amt"
        using set_amount_props(3) [OF so i, of amt ident] f sa by simp
      have "unat amt \<le> amounts_sum ?rs"
        using set_amount_props(4) [OF so i, of 0] by (simp add: amt_def)
      then have "amt \<le> reserved_balance cfg s who" using cov by (simp add: word_le_nat_alt)
      then have "min (reserved_balance cfg s who) tc = tc"
        unfolding tc_def by (intro min_absorb2) (rule order_trans [OF min.cobounded1])
      then have a': "actual = 0 \<or> actual = tc" using a(1) by simp
      then have act: "sat_sub tc remain = actual" using a(2) by (auto simp: sat_sub_def)
      have le: "actual \<le> amt" using a' by (auto simp: tc_def)
      have ul: "unat (amt - actual) = unat amt - unat actual" by (rule unat_minus_le [OF le])
      define rs' where "rs' = (if amt - actual = 0 then list_remove_at i ?rs else set_amount i (amt - actual) ?rs)"
      have s': "s' = put_reserves who rs' s1" "left = value - actual"
        using assms(6) nz Found u act
        by (auto simp: unreserve_named_def amt_def [symmetric] tc_def [symmetric] rs'_def Let_def)
      have p: "ids_sorted rs'" "length rs' \<le> unat (MaxReserves cfg)"
        "named rs' j = (if j = ident then unat amt - unat actual else named ?rs j)"
        "amounts_sum rs' + unat actual = amounts_sum ?rs" for j
      proof -
        have "ids_sorted rs' \<and> length rs' \<le> unat (MaxReserves cfg) \<and>
          named rs' j = (if j = ident then unat amt - unat actual else named ?rs j) \<and>
          amounts_sum rs' + unat actual = amounts_sum ?rs"
        proof (cases "amt - actual = 0")
          case True
          then have "actual = amt" by simp
          then show ?thesis using list_remove_props [OF so i amt_def [symmetric]] True f ln by (simp add: rs'_def)
        next
          case False
          have "unat actual \<le> unat amt" using le by (simp add: word_le_nat_alt)
          then show ?thesis
            using set_amount_props [OF so i, of "amt - actual"] False f ln ul by (simp add: rs'_def amt_def [symmetric])
        qed
        then show "ids_sorted rs'" "length rs' \<le> unat (MaxReserves cfg)"
          "named rs' j = (if j = ident then unat amt - unat actual else named ?rs j)"
          "amounts_sum rs' + unat actual = amounts_sum ?rs" by auto
      qed
      have R': "Reserves s' who = rs'" by (simp add: s')
      have n: "unat (reserved_balance_named s' j who) =
          (if j = ident then unat (reserved_balance_named s j who) - unat actual else unat (reserved_balance_named s j who))" for j
        using reserved_balance_named_is [OF so, of j] reserved_balance_named_is [of s' who j] p(1,3) R' nm by auto
      have rb: "unat (reserved_balance cfg s' who) = unat (reserved_balance cfg s who) - unat actual"
        using a(3) by (simp add: s')
      have "named_ok cfg s' who" using p(1,2,4) R' cov rb by (simp add: named_ok_def)
      moreover have "reserved_balance_named s ident who = amt"
        using reserved_balance_named_is [OF so, of ident] nm by (simp add: word_eq_unat)
      moreover have "reserved_balance_named s' j who = reserved_balance_named s j who" if "j \<noteq> ident" for j
        using n [of j] that by (simp add: word_eq_unat)
      ultimately show ?thesis
        using a' n [of ident] rb a(4) s'(2) by (intro exI [of _ actual]) (simp add: s'(1) tc_def)
    qed
  qed
qed

lemma unreserve_named_correct_witness:
  "sound_balances (ref_config 10) (snd (unreserve_named (ref_config 10) 7 1 12
     (put_reserves 1 [\<lparr> id_of = 7, amount_of = 15 \<rparr>] (two_accounts (funded 100 20 1) (funded 50 0 0)))))"
proof -
  let ?s = "put_reserves 1 [\<lparr> id_of = 7, amount_of = 15 \<rparr>] (two_accounts (funded 100 20 1) (funded 50 0 0))"
  have n: "named_ok (ref_config 10) ?s 1"
    by (simp add: named_ok_def ids_sorted_def ref_config_def reserved_balance_def)
      (simp add: account_of_stored two_accounts_def funded_def)
  have so: "sound_balances (ref_config 10) ?s" by (simp add: two_funded_sound)
  have r: "unreserve_named (ref_config 10) 7 1 12 ?s =
      (fst (unreserve_named (ref_config 10) 7 1 12 ?s), snd (unreserve_named (ref_config 10) 7 1 12 ?s))" by simp
  have "ExistentialDeposit (ref_config 10) \<le> TotalIssuance ?s" by (simp add: two_accounts_def funded_def)
  then show ?thesis
    using unreserve_named_correct [OF ref_good _ so _ n r] ref_put_total by auto
qed

section \<open>Mutations that must succeed\<close>

text \<open>The account is under the new logic and may get one more consumer reference (which needs a
  provider and room below the limit on consumers).\<close>

definition consumer_room :: "'e bal_config \<Rightarrow> 'e bal_state \<Rightarrow> account \<Rightarrow> bool" where
  "consumer_room cfg s who \<longleftrightarrow> is_new_logic (flags (account_of cfg s who)) \<and>
     (\<exists>e'. sys_inc_consumers (sy cfg) who (sys s) = Inr e')"

lemma update_references_ok:
  assumes law: "system_law (sy cfg)" and room: "sys_inc_consumers (sy cfg) who (sys s) = Inr e"
    and same: "did_provide = does_provide cfg a"
  shows "\<exists>s'. update_references cfg who did_provide did_consume a s = (Inr (), s')"
proof -
  let ?y = "sy cfg"
  note l = law_inc_consumers [OF law disjI1 [OF room]]
  have nz: "sys_consumers ?y e who \<noteq> 0" using l(5) by simp
  consider "did_consume" "does_consume a" "sys_consumers ?y (sys s) who = 0"
    | "did_consume" "does_consume a" "sys_consumers ?y (sys s) who \<noteq> 0"
    | "\<not> did_consume" "does_consume a" | "\<not> does_consume a" by blast
  then show ?thesis
    by cases (simp_all add: update_references_def and_then_def inc_consumers_if_def on_sys_def room same nz)
qed

text \<open>A pure mutation that keeps the free balance goes through.\<close>

lemma mutate_account_ok:
  assumes g: "good_balances cfg" and pt: "put_total (sy cfg)" and room: "consumer_room cfg s who"
    and same: "\<And>a. free (snd (f a)) = free a"
  shows "\<exists>r d s'. mutate_account cfg who on_drop f s = (Inr (r, d), s')"
proof -
  have law: "system_law (sy cfg)" using g by (auto simp: good_balances_def)
  let ?y = "sy cfg"
  have s0: "snd (ensure_upgraded cfg who s) = s" using room by (simp add: ensure_upgraded_def consumer_room_def)
  define a where "a = account_of cfg s who"
  define new where "new = (sys_account ?y (sys s) who = None)"
  define dp where "dp = does_provide cfg a"
  define dc where "dc = (\<not> new \<and> does_consume a)"
  have aq: "data_or_default (sys_account ?y (sys s) who) = a" by (simp add: a_def account_of_def)
  obtain r a' where f: "f a = (r, a')" by force
  obtain e where e: "sys_inc_consumers ?y who (sys s) = Inr e" using room by (auto simp: consumer_room_def)
  have "dp = does_provide cfg a'" using same [of a] f by (simp add: dp_def does_provide_def)
  from update_references_ok [OF law e this, of dc]
  obtain s2 where u: "update_references cfg who dp dc a' s = (Inr (), s2)" by blast
  obtain stored d where st: "settle cfg a' = Some (stored, d)" using settle_total [of cfg a'] by auto
  obtain e3 where p3: "sys_put ?y who stored (sys s2) = Inr e3" using pt unfolding put_total_def by blast
  show ?thesis
    unfolding mutate_account_def try_mutate_account_def Let_def s0 new_def [symmetric] aq
      dp_def [symmetric] dc_def [symmetric]
    by (simp add: f u st p3 on_sys_def)
qed

lemma mutate_account_cases:
  assumes g: "good_balances cfg" and ok: "bal_ok cfg s"
    and r: "mutate_account cfg who on_drop f s = (Inr (res, dust), s')"
  obtains s0 a a' where "f a = (res, a')" "same_balances cfg s s0" "s0 = snd (ensure_upgraded cfg who s)"
    "a = account_of cfg s0 who" "old_account cfg s who a" "bal_ok cfg s'" "store_only s s'" "others_keep cfg who s s'"
    "account_of cfg s' who = kept cfg a'" "dust = (if dust_of cfg a' = 0 then None else Some (dust_of cfg a'))"
proof -
  have law: "system_law (sy cfg)" and ed: "ExistentialDeposit cfg \<noteq> 0"
    using g by (auto simp: good_balances_def)
  have r': "try_mutate_account cfg who on_drop (\<lambda>a _. ret (f a)) s = (Inr (res, dust), s')"
    using r by (simp add: mutate_account_def)
  obtain s0 a new a' s1 stored s2 where e: "s0 = snd (ensure_upgraded cfg who s)" "a = account_of cfg s0 who"
      "bal_ok cfg s0" "only_at (sy cfg) who (sys s) (sys s0)" "free a = free (account_of cfg s who)"
      "reserved a = reserved (account_of cfg s who)" "(ret (f a) s0 :: (dispatch_error + _) \<times> _) = (Inr (res, a'), s1)"
      "settle cfg a' = Some (stored, dust)" "sys_only s1 s2"
      "s' = account_events who (if new then Some (free a') else None) dust s2"
      "only_at (sy cfg) who (sys s1) (sys s')" "bal_ok cfg s'" "account_of cfg s' who = data_or_default stored"
    by (rule exE [OF try_mutate_account_effect [OF law ok ed r' quiet_leaves_alone(1) [OF quiet_ret]]], assumption)
       (elim exE conjE, rule that, assumption+)
  have f: "f a = (res, a')" "s1 = s0" using e(7) by auto
  have sb: "same_balances cfg s s0" unfolding e(1) by (rule ensure_upgraded_same [OF law ok ed])
  have st: "store_only s s'"
    unfolding e(10) using store_only_sys [OF e(9)] sb f(2)
    by (auto intro: store_only_trans simp: same_balances_def)
  have oth: "others_keep cfg who s s'"
    using only_atD(1) [OF e(4)] only_atD(1) [OF e(11)] f(2) by (simp add: others_keep_def account_of_stored)
  have k: "account_of cfg s' who = kept cfg a'" "dust = (if dust_of cfg a' = 0 then None else Some (dust_of cfg a'))"
    using e(8,13) ed by (auto simp: settle_def kept_def dust_of_def lives_def does_provide_def not_le split: if_splits)
  show ?thesis
    by (rule that [OF f(1) sb e(1,2) _ e(12) st oth k]) (simp add: old_account_def e(5,6))
qed

section \<open>Locks and freezes\<close>

lemma foldl_max_ge: "x \<in> set xs \<Longrightarrow> x \<le> foldl max b xs" "b \<le> foldl max b xs" for b :: "'a::linorder"
proof (induction xs arbitrary: b)
  case (Cons y ys)
  { case 1
    then show ?case using Cons.IH(1) [of "max b y"] Cons.IH(2) [of "max b y"] by auto
  next
    case 2
    show ?case using Cons.IH(2) [of "max b y"] by simp }
qed auto

lemma frozen_by_ge:
  "l \<in> set locks \<Longrightarrow> lock_amount l \<le> frozen_by locks freezes" "x \<in> set freezes \<Longrightarrow> amount_of x \<le> frozen_by locks freezes"
proof -
  show "lock_amount l \<le> frozen_by locks freezes" if "l \<in> set locks"
  proof -
    have "lock_amount l \<le> foldl max 0 (map lock_amount locks)" using that by (intro foldl_max_ge(1)) simp
    also have "\<dots> \<le> frozen_by locks freezes" unfolding frozen_by_def by (rule foldl_max_ge(2))
    finally show ?thesis .
  qed
  show "amount_of x \<le> frozen_by locks freezes" if "x \<in> set freezes"
    using that unfolding frozen_by_def by (intro foldl_max_ge(1)) simp
qed

text \<open>The accounts' balances and the issuance are as before.\<close>

definition balances_kept :: "'e bal_config \<Rightarrow> 'e bal_state \<Rightarrow> 'e bal_state \<Rightarrow> bool" where
  "balances_kept cfg s s' \<longleftrightarrow> bal_ok cfg s' \<and> TotalIssuance s' = TotalIssuance s \<and>
     (\<forall>b. free_balance cfg s' b = free_balance cfg s b \<and> reserved_balance cfg s' b = reserved_balance cfg s b)"

lemma balances_kept_sound: "balances_kept cfg s s' \<Longrightarrow> sound_balances cfg s \<Longrightarrow> sound_balances cfg s'"
  by (simp add: balances_kept_def sound_balances_def issued_ok_def holdings_def free_balance_def reserved_balance_def)

text \<open>Mutating only the frozen balance: no dust, nothing else.\<close>

lemma frozen_mutation:
  assumes g: "good_balances cfg" and ok: "bal_ok cfg s"
    and r: "mutate_account cfg who no_drop (frozen_closure locks freezes) s = (Inr (pa, d), s1)"
  shows "balances_kept cfg s s1" "store_only s s1" "d = None" "snd pa = frozen_by locks freezes"
    "lives cfg (account_of cfg s who) \<Longrightarrow> frozen (account_of cfg s1 who) = frozen_by locks freezes"
proof -
  obtain s0 a a' where e: "frozen_closure locks freezes a = (pa, a')" "same_balances cfg s s0"
    "a = account_of cfg s0 who" "old_account cfg s who a" "bal_ok cfg s1" "store_only s s1" "others_keep cfg who s s1"
    "account_of cfg s1 who = kept cfg a'" "d = (if dust_of cfg a' = 0 then None else Some (dust_of cfg a'))"
    by (rule mutate_account_cases [OF g ok r])
  have a': "a' = a\<lparr> frozen := frozen_by locks freezes \<rparr>" "snd pa = frozen_by locks freezes"
    using e(1) by (auto simp: frozen_closure_def)
  have nd: "no_dust cfg (account_of cfg s who)" using ok by (simp add: bal_ok_def)
  then have nd': "lives cfg a' \<or> free a' = 0 \<and> reserved a' = 0"
    using e(4) by (auto simp: no_dust_def lives_def a' does_provide_def old_account_def)
  then show "d = None" by (auto simp: e(9) dust_of_def)
  have w: "free (account_of cfg s1 who) = free (account_of cfg s who) \<and>
      reserved (account_of cfg s1 who) = reserved (account_of cfg s who)"
    using nd' e(4,8) by (auto simp: kept_def a' old_account_def)
  have "free_balance cfg s1 b = free_balance cfg s b \<and> reserved_balance cfg s1 b = reserved_balance cfg s b" for b
    using w e(7) by (cases "b = who") (auto simp: others_keep_def free_balance_def reserved_balance_def)
  then show "balances_kept cfg s s1" using e(5) store_only_fields(1) [OF e(6)] by (simp add: balances_kept_def)
  show "store_only s s1" by (rule e(6))
  show "snd pa = frozen_by locks freezes" by (rule a'(2))
  show "frozen (account_of cfg s1 who) = frozen_by locks freezes" if "lives cfg (account_of cfg s who)"
  proof -
    have "lives cfg a'" using that e(4) by (simp add: lives_def a' does_provide_def old_account_def)
    then show ?thesis using e(8) a' by (simp add: kept_def)
  qed
qed

lemma frozen_event_simps [simp]:
  "account_of cfg (frozen_event dn up who p a s) = account_of cfg s" "bal_ok cfg (frozen_event dn up who p a s) = bal_ok cfg s"
  "TotalIssuance (frozen_event dn up who p a s) = TotalIssuance s" "Locks (frozen_event dn up who p a s) = Locks s"
  "Freezes (frozen_event dn up who p a s) = Freezes s"
  by (simp_all add: frozen_event_def)

lemma put_locks_simps [simp]:
  "account_of cfg (put_locks who ls s) = account_of cfg s" "bal_ok cfg (put_locks who ls s) = bal_ok cfg s"
  "TotalIssuance (put_locks who ls s) = TotalIssuance s" "Locks (put_locks who ls s) = (Locks s)(who := ls)"
  "Freezes (put_locks who ls s) = Freezes s"
proof -
  have sy: "sys (put_locks who ls s) = sys s" by (simp add: put_locks_def)
  show "account_of cfg (put_locks who ls s) = account_of cfg s" by (rule account_of_sys [OF sy])
  show "bal_ok cfg (put_locks who ls s) = bal_ok cfg s" by (rule bal_ok_sys [OF sy])
qed (simp_all add: put_locks_def)

lemma put_freezes_simps [simp]:
  "account_of cfg (put_freezes who ls s) = account_of cfg s" "bal_ok cfg (put_freezes who ls s) = bal_ok cfg s"
  "TotalIssuance (put_freezes who ls s) = TotalIssuance s" "Freezes (put_freezes who ls s) = (Freezes s)(who := ls)"
  "Locks (put_freezes who ls s) = Locks s"
proof -
  have sy: "sys (put_freezes who ls s) = sys s" by (simp add: put_freezes_def)
  show "account_of cfg (put_freezes who ls s) = account_of cfg s" by (rule account_of_sys [OF sy])
  show "bal_ok cfg (put_freezes who ls s) = bal_ok cfg s" by (rule bal_ok_sys [OF sy])
qed (simp_all add: put_freezes_def)

lemma mutate_account_error_keeps:
  assumes g: "good_balances cfg" and pt: "put_total (sy cfg)" and ok: "bal_ok cfg s"
    and m: "mutate_account cfg who no_drop f s = (Inl e, s1)"
  shows "same_balances cfg s s1"
proof -
  have "try_mutate_account_handling_dust cfg who no_drop (\<lambda>a _. ret (f a)) s = (Inl e, s1)"
    using m by (simp add: mutate_account_def try_mutate_account_handling_dust_def and_then_def)
  then show ?thesis
    by (rule try_mutate_error_cases [OF g pt ok quiet_ret]) (auto simp: no_drop_def split: sum.splits)
qed

lemma same_balances_kept: "same_balances cfg s s' \<Longrightarrow> balances_kept cfg s s'"
  using store_only_fields(1) [of s s']
  by (simp add: same_balances_def balances_kept_def free_balance_def reserved_balance_def)

lemma update_locks_effect:
  assumes g: "good_balances cfg" and pt: "put_total (sy cfg)" and ok: "bal_ok cfg s"
  shows "balances_kept cfg s (update_locks cfg who locks s)" "Locks (update_locks cfg who locks s) = (Locks s)(who := locks)"
    "Freezes (update_locks cfg who locks s) = Freezes s"
    "consumer_room cfg s who \<Longrightarrow> lives cfg (account_of cfg s who) \<Longrightarrow>
       frozen (account_of cfg (update_locks cfg who locks s) who) = frozen_by locks (Freezes s who)"
proof -
  let ?m = "mutate_account cfg who no_drop (frozen_closure locks (Freezes s who)) s"
  obtain x s1 where m: "?m = (x, s1)" by force
  have st: "balances_kept cfg s s1 \<and> store_only s s1"
  proof (cases x)
    case (Inl e)
    from mutate_account_error_keeps [OF g pt ok m [unfolded Inl]] show ?thesis
      using same_balances_kept by (auto simp: same_balances_def)
  next
    case (Inr y)
    obtain pa d where "y = (pa, d)" by (rule prod.exhaust [of y])
    then show ?thesis using frozen_mutation [OF g ok, of who locks "Freezes s who" pa d s1] m Inr by simp
  qed
  show "balances_kept cfg s (update_locks cfg who locks s)"
    using st m by (simp add: update_locks_def Let_def balances_kept_def free_balance_def reserved_balance_def)
  show "Locks (update_locks cfg who locks s) = (Locks s)(who := locks)"
    "Freezes (update_locks cfg who locks s) = Freezes s"
    using st m store_only_fields [of s s1] by (simp_all add: update_locks_def Let_def)
  show "frozen (account_of cfg (update_locks cfg who locks s) who) = frozen_by locks (Freezes s who)"
    if ca: "consumer_room cfg s who" and lv: "lives cfg (account_of cfg s who)"
  proof -
    have ff: "free (snd (frozen_closure locks (Freezes s who) a)) = free a" for a by (simp add: frozen_closure_def)
    obtain r d s2 where "?m = (Inr (r, d), s2)"
      using mutate_account_ok [OF g pt ca ff] by blast
    then show ?thesis
      using frozen_mutation(5) [OF g ok _ lv] by (simp add: update_locks_def Let_def)
  qed
qed

lemma update_freezes_effect:
  assumes g: "good_balances cfg" and pt: "put_total (sy cfg)" and ok: "bal_ok cfg s"
    and r: "update_freezes cfg who freezes s = (r, s')"
  shows "balances_kept cfg s s'" "Locks s' = Locks s"
    "case r of Inl e \<Rightarrow> Freezes s' = Freezes s | Inr _ \<Rightarrow> Freezes s' = (Freezes s)(who := freezes)"
    "r = Inr u \<Longrightarrow> lives cfg (account_of cfg s who) \<Longrightarrow> frozen (account_of cfg s' who) = frozen_by (Locks s who) freezes"
proof -
  let ?m = "mutate_account cfg who no_drop (frozen_closure (Locks s who) freezes) s"
  obtain x s1 where m: "?m = (x, s1)" by force
  have all: "balances_kept cfg s s' \<and> Locks s' = Locks s \<and>
    (case r of Inl e \<Rightarrow> Freezes s' = Freezes s | Inr _ \<Rightarrow> Freezes s' = (Freezes s)(who := freezes)) \<and>
    (r = Inr u \<longrightarrow> lives cfg (account_of cfg s who) \<longrightarrow> frozen (account_of cfg s' who) = frozen_by (Locks s who) freezes)"
  proof (cases x)
    case (Inl e)
    have "same_balances cfg s s1" by (rule mutate_account_error_keeps [OF g pt ok m [unfolded Inl]])
    moreover have "r = Inl e" "s' = s1" using r m Inl by (auto simp: update_freezes_def)
    ultimately show ?thesis using same_balances_kept store_only_fields [of s s1] by (auto simp: same_balances_def)
  next
    case (Inr y)
    obtain p a d where y: "y = ((p, a), d)" by (metis surj_pair)
    note f = frozen_mutation [OF g ok, of who "Locks s who" freezes "(p, a)" d s1]
    have m': "?m = (Inr ((p, a), d), s1)" using m Inr y by simp
    have "r = Inr ()" "s' = frozen_event B_Thawed B_Frozen who p a (put_freezes who freezes s1)"
      using r m' by (auto simp: update_freezes_def)
    then show ?thesis
      using f [OF m'] store_only_fields [of s s1]
      by (simp add: balances_kept_def free_balance_def reserved_balance_def)
  qed
  then show "balances_kept cfg s s'" "Locks s' = Locks s"
    "case r of Inl e \<Rightarrow> Freezes s' = Freezes s | Inr _ \<Rightarrow> Freezes s' = (Freezes s)(who := freezes)"
    "r = Inr u \<Longrightarrow> lives cfg (account_of cfg s who) \<Longrightarrow> frozen (account_of cfg s' who) = frozen_by (Locks s who) freezes"
    by auto
qed

text \<open>Replacing a lock: one lock with the identifier afterwards, the others as they were.\<close>

lemma replace_lock_others:
  assumes "\<And>l nl. lock_id l = ident \<Longrightarrow> lock_id (join l nl) = ident" "\<And>nl. new = Some nl \<Longrightarrow> lock_id nl = ident"
  shows "filter (\<lambda>l. lock_id l \<noteq> ident) (replace_lock new ident join ls) = filter (\<lambda>l. lock_id l \<noteq> ident) ls"
  using assms by (induction new ident join ls rule: replace_lock.induct) (auto split: option.splits)

lemma replace_lock_None:
  "filter (\<lambda>l. lock_id l = ident) (replace_lock None ident join ls) = []"
  by (induction "None :: balance_lock option" ident join ls rule: replace_lock.induct) auto

lemma replace_lock_own:
  assumes "\<And>l. lock_id l = ident \<Longrightarrow> lock_id (join l nl) = ident" "lock_id nl = ident"
  shows "filter (\<lambda>l. lock_id l = ident) (replace_lock (Some nl) ident join ls) =
    (case filter (\<lambda>l. lock_id l = ident) ls of [] \<Rightarrow> [nl] | l # _ \<Rightarrow> [join l nl])"
  using assms by (induction ls) (auto simp: replace_lock_None)

text \<open>\<open>set_lock\<close> and \<open>extend_lock\<close> on an account that is alive leave one lock with the identifier
  (set: the given one; ext: the maximum with the old amount and the combined reasons), every
  other lock as it was, the frozen balance equal to the largest of all locks and freezes, and every
  balance and the issuance unchanged.\<close>

theorem lock_operations_correct:
  assumes "good_balances cfg" "put_total (sy cfg)" "consumer_room cfg s who" "sound_balances cfg s"
    and "lives cfg (account_of cfg s who)" "rs \<noteq> 0" "amount \<noteq> 0"
    and "new = \<lparr> lock_id = ident, lock_amount = amount, lock_reasons = reasons_of rs \<rparr>"
    and "ext \<and> s' = extend_lock cfg ident who amount rs s \<or> \<not> ext \<and> s' = set_lock cfg ident who amount rs s"
  shows "filter (\<lambda>l. lock_id l = ident) (Locks s' who) =
      (case filter (\<lambda>l. lock_id l = ident) (Locks s who) of
         [] \<Rightarrow> [new] | l # _ \<Rightarrow> [if ext then join_locks l new else new]) \<and>
    filter (\<lambda>l. lock_id l \<noteq> ident) (Locks s' who) = filter (\<lambda>l. lock_id l \<noteq> ident) (Locks s who) \<and>
    (\<forall>b. b \<noteq> who \<longrightarrow> Locks s' b = Locks s b) \<and>
    frozen (account_of cfg s' who) = frozen_by (Locks s' who) (Freezes s' who) \<and>
    amount \<le> frozen (account_of cfg s' who) \<and> balances_kept cfg s s' \<and> sound_balances cfg s'"
proof -
  have ok: "bal_ok cfg s" using assms(4) by (simp add: sound_balances_def)
  define join where "join = (if ext then join_locks else (\<lambda>l nl. nl))"
  define ls where "ls = replace_lock (Some new) ident join (Locks s who)"
  have s': "s' = update_locks cfg who ls s"
    using assms(6-9) by (auto simp: ls_def join_def set_lock_def extend_lock_def)
  note u = update_locks_effect [OF assms(1,2) ok, of who ls]
  have jid: "lock_id l = ident \<Longrightarrow> lock_id (join l nl) = ident" if "nl = new" for l nl
    using that by (simp add: join_def join_locks_def assms(8))
  have own: "filter (\<lambda>l. lock_id l = ident) ls = (case filter (\<lambda>l. lock_id l = ident) (Locks s who) of
      [] \<Rightarrow> [new] | l # _ \<Rightarrow> [join l new])"
    unfolding ls_def by (rule replace_lock_own) (simp_all add: jid assms(8))
  have oth: "filter (\<lambda>l. lock_id l \<noteq> ident) ls = filter (\<lambda>l. lock_id l \<noteq> ident) (Locks s who)"
  proof -
    have "filter (\<lambda>l. lock_id l \<noteq> ident) (replace_lock (Some new) ident join xs) = filter (\<lambda>l. lock_id l \<noteq> ident) xs" for xs
    proof (induction xs)
      case (Cons l ls)
      have "filter (\<lambda>l. lock_id l \<noteq> ident) (replace_lock None ident join ls) = filter (\<lambda>l. lock_id l \<noteq> ident) ls" for ls
        by (induction ls) auto
      then show ?case using Cons jid [of new l] by auto
    qed (simp add: assms(8))
    then show ?thesis by (simp add: ls_def)
  qed
  have fr: "frozen (account_of cfg s' who) = frozen_by ls (Freezes s who)" using u(4) assms(3,5) s' by simp
  obtain l where l: "l \<in> set ls" "amount \<le> lock_amount l"
  proof (cases "filter (\<lambda>l. lock_id l = ident) (Locks s who)")
    case Nil
    then have "new \<in> set (filter (\<lambda>l. lock_id l = ident) ls)" using own by simp
    then show ?thesis using that [of new] by (simp add: assms(8))
  next
    case (Cons l' rest)
    then have "join l' new \<in> set (filter (\<lambda>l. lock_id l = ident) ls)" using own by simp
    then show ?thesis using that [of "join l' new"] by (auto simp: join_def join_locks_def assms(8))
  qed
  have "amount \<le> frozen (account_of cfg s' who)"
    unfolding fr using l(2) frozen_by_ge(1) [OF l(1)] by (rule order_trans)
  then show ?thesis
    using own oth u(1-3) fr balances_kept_sound [OF u(1) assms(4)] unfolding s'
    by (simp add: join_def split: list.splits)
qed

lemma lock_operations_correct_witness:
  "95 \<le> frozen (account_of (ref_config 10) (set_lock (ref_config 10) [1] 1 95 2
     (two_accounts (funded 100 20 1) (funded 50 0 0))) 1)"
proof -
  let ?s = "two_accounts (funded 100 20 1) (funded 50 0 0)"
  have l: "lives (ref_config 10) (account_of (ref_config 10) ?s 1)" "consumer_room (ref_config 10) ?s 1"
    by (simp_all add: lives_def consumer_room_def ref_inc_consumers_def checked_add_def ref_eval)
  have so: "sound_balances (ref_config 10) ?s" by (rule two_funded_sound) simp_all
  show ?thesis
    using lock_operations_correct [OF ref_good _ l(2) so l(1) _ _ refl, of 2 95 False "set_lock (ref_config 10) [1] 1 95 2 ?s" "[1]"]
      ref_put_total by auto
qed

text \<open>On an account without a provider (an empty one) \<open>set_lock\<close> records the lock but the
  mutation of the account fails unnoticed: the frozen balance stays what it was, so the lock does
  not bind what the account receives later.\<close>

theorem set_lock_without_provider:
  assumes "good_balances cfg" "sound_balances cfg s" "sys_providers (sy cfg) (sys s) who = 0"
    and "is_new_logic (flags (account_of cfg s who))" "\<not> does_consume (account_of cfg s who)"
    and "rs \<noteq> 0" "amount \<noteq> 0" "s' = set_lock cfg ident who amount rs s"
  shows "(\<exists>l \<in> set (Locks s' who). lock_id l = ident \<and> lock_amount l = amount) \<and>
    account_of cfg s' = account_of cfg s"
proof -
  let ?y = "sy cfg"
  have law: "system_law ?y" using assms(1) by (simp add: good_balances_def)
  have ok: "bal_ok cfg s" using assms(2) by (simp add: sound_balances_def)
  define new where "new = \<lparr> lock_id = ident, lock_amount = amount, lock_reasons = reasons_of rs \<rparr>"
  define ls where "ls = replace_lock (Some new) ident (\<lambda>l nl. nl) (Locks s who)"
  define a where "a = account_of cfg s who"
  have s': "s' = update_locks cfg who ls s" using assms(6-8) by (simp add: set_lock_def ls_def new_def)
  have "filter (\<lambda>l. lock_id l = ident) ls = [new]"
    unfolding ls_def by (subst replace_lock_own) (auto simp: new_def split: list.splits)
  then have "new \<in> set (filter (\<lambda>l. lock_id l = ident) ls)" by simp
  then have mem: "new \<in> set ls" by simp
  have np: "\<not> does_provide cfg a" using ok assms(3) by (auto simp: bal_ok_def a_def)
  have nc: "\<not> does_consume a" using assms(5) by (simp add: a_def)
  define a' where "a' = a\<lparr> frozen := frozen_by ls (Freezes s who) \<rparr>"
  have "amount \<le> frozen a'" using frozen_by_ge(1) [OF mem, of "Freezes s who"] by (simp add: a'_def new_def)
  then have c: "does_consume a'" using assms(7) by (auto simp: does_consume_def word_le_0_iff)
  have np': "\<not> does_provide cfg a'" using np by (simp add: a'_def does_provide_def)
  obtain e where e: "sys_inc_consumers ?y who (sys s) = Inl e"
    using law_inc_consumers(4) [OF law, of who "sys s"] assms(3)
    by (cases "sys_inc_consumers ?y who (sys s)") auto
  have s0: "snd (ensure_upgraded cfg who s) = s" using assms(4) by (simp add: ensure_upgraded_def)
  have aq: "data_or_default (sys_account ?y (sys s) who) = a" by (simp add: a_def account_of_def)
  have "mutate_account cfg who no_drop (frozen_closure ls (Freezes s who)) s = (Inl e, s)"
    unfolding mutate_account_def try_mutate_account_def Let_def s0 aq
    by (simp add: frozen_closure_def a'_def [symmetric] update_references_def Let_def and_then_def inc_consumers_if_def
        on_sys_def e np np' nc c no_drop_def)
  then have "s' = frozen_event B_Unlocked B_Locked who (frozen a) (frozen_by ls (Freezes s who)) (put_locks who ls s)"
    unfolding s' update_locks_def Let_def s0 by (simp add: a_def)
  then show ?thesis using mem by (auto simp: new_def intro: bexI [of _ new])
qed

lemma set_lock_without_provider_witness:
  "account_of (ref_config 10) (set_lock (ref_config 10) [1] 3 95 2 (two_accounts (funded 100 20 1) (funded 50 0 0)))
     = account_of (ref_config 10) (two_accounts (funded 100 20 1) (funded 50 0 0))"
proof -
  let ?s = "two_accounts (funded 100 20 1) (funded 50 0 0)"
  have l: "sys_providers (sy (ref_config 10)) (sys ?s) 3 = 0" "is_new_logic (flags (account_of (ref_config 10) ?s 3))"
    "\<not> does_consume (account_of (ref_config 10) ?s 3)"
    by (simp_all add: ref_eval no_account_def)
  have so: "sound_balances (ref_config 10) ?s" by (rule two_funded_sound) simp_all
  show ?thesis
    using set_lock_without_provider [OF ref_good so l, of 2 95 "set_lock (ref_config 10) [1] 3 95 2 ?s" "[1]"]
    by auto
qed

lemma change_first_props:
  assumes "has_id ident xs"
  shows "amount_under ident (change_first ident f xs) = f (amount_under ident xs)"
    "j \<noteq> ident \<Longrightarrow> amount_under j (change_first ident f xs) = amount_under j xs"
    "map id_of (change_first ident f xs) = map id_of xs"
    "amounts_sum (change_first ident f xs) + unat (amount_under ident xs) = amounts_sum xs + unat (f (amount_under ident xs))"
  using assms by (induction xs) (auto simp: amount_under_def has_id_def)

lemma amount_under_push:
  "\<not> has_id ident xs \<Longrightarrow> amount_under ident (xs @ [\<lparr> id_of = ident, amount_of = v \<rparr>]) = v"
  "j \<noteq> ident \<Longrightarrow> amount_under j (xs @ [\<lparr> id_of = ident, amount_of = v \<rparr>]) = amount_under j xs"
  by (induction xs) (auto simp: amount_under_def has_id_def)

lemma not_has_id: "\<not> has_id ident xs \<Longrightarrow> amount_under ident xs = 0"
  by (induction xs) (auto simp: amount_under_def has_id_def)

lemma has_id_iff: "has_id ident xs \<longleftrightarrow> ident \<in> set (map id_of xs)"
  by (auto simp: has_id_def list_ex_iff)

text \<open>Entries with distinct identifiers within a bound.\<close>

definition entries_ok :: "u32 \<Rightarrow> id_amount list \<Rightarrow> bool" where
  "entries_ok bound xs \<longleftrightarrow> distinct (map id_of xs) \<and> length xs \<le> unat bound"

lemma put_or_push_props:
  assumes "put_or_push bound err ident f v xs = Inr ys" "entries_ok bound xs"
  shows "entries_ok bound ys" "amount_under ident ys = (if has_id ident xs then f (amount_under ident xs) else v)"
    "j \<noteq> ident \<Longrightarrow> amount_under j ys = amount_under j xs"
proof -
  show "amount_under ident ys = (if has_id ident xs then f (amount_under ident xs) else v)"
    "j \<noteq> ident \<Longrightarrow> amount_under j ys = amount_under j xs"
    using assms by (auto simp: put_or_push_def change_first_props amount_under_push split: if_splits)
  show "entries_ok bound ys"
  proof (cases "has_id ident xs")
    case True
    then have y: "ys = change_first ident f xs" using assms(1) by (simp add: put_or_push_def)
    have m: "map id_of ys = map id_of xs" unfolding y by (rule change_first_props(3) [OF True])
    then have "length ys = length xs" by (metis length_map)
    then show ?thesis using assms(2) m by (simp add: entries_ok_def)
  next
    case False
    then show ?thesis using assms by (auto simp: put_or_push_def entries_ok_def has_id_iff split: if_splits)
  qed
qed

lemma filter_id_props:
  assumes "entries_ok bound xs"
  shows "entries_ok bound (filter (\<lambda>l. id_of l \<noteq> ident) xs)" "amount_under ident (filter (\<lambda>l. id_of l \<noteq> ident) xs) = 0"
    "j \<noteq> ident \<Longrightarrow> amount_under j (filter (\<lambda>l. id_of l \<noteq> ident) xs) = amount_under j xs"
proof -
  show "entries_ok bound (filter (\<lambda>l. id_of l \<noteq> ident) xs)"
    using assms le_trans [OF length_filter_le [of "\<lambda>l. id_of l \<noteq> ident" xs]] unfolding entries_ok_def
    by (auto simp: distinct_map intro: inj_on_subset)
  show "amount_under ident (filter (\<lambda>l. id_of l \<noteq> ident) xs) = 0"
    "j \<noteq> ident \<Longrightarrow> amount_under j (filter (\<lambda>l. id_of l \<noteq> ident) xs) = amount_under j xs"
    by (induction xs) (auto simp: amount_under_def)
qed

text \<open>The three operations on freezes.\<close>

datatype freeze_op = Set_Freeze balance | Extend_Freeze balance | Thaw_Freeze

definition run_freeze :: "'e bal_config \<Rightarrow> nat \<Rightarrow> account \<Rightarrow> freeze_op \<Rightarrow> ('e, unit) bal" where
  "run_freeze cfg ident who oper =
     (case oper of Set_Freeze v \<Rightarrow> set_freeze cfg ident who v
        | Extend_Freeze v \<Rightarrow> extend_freeze cfg ident who v | Thaw_Freeze \<Rightarrow> thaw cfg ident who)"

text \<open>\<open>set_freeze\<close>, \<open>extend_freeze\<close> and \<open>thaw\<close> either leave exactly the asked freeze under the
  identifier (the amount, the larger of the two amounts, nothing), every other freeze alone, the
  list distinct and bounded and, for an account that is alive, the frozen balance equal to the
  largest of all locks and freezes; or change no freeze. No balance changes either way.\<close>

theorem freeze_operations_correct:
  assumes "good_balances cfg" "put_total (sy cfg)" "sound_balances cfg s"
    and "entries_ok (MaxFreezes cfg) (Freezes s who)" "run_freeze cfg ident who oper s = (r, s')"
  shows "balances_kept cfg s s' \<and> sound_balances cfg s' \<and>
    (case r of
       Inl _ \<Rightarrow> Freezes s' = Freezes s
     | Inr _ \<Rightarrow> balance_frozen s' ident who =
           (case oper of Set_Freeze v \<Rightarrow> v | Extend_Freeze v \<Rightarrow> max (balance_frozen s ident who) v | Thaw_Freeze \<Rightarrow> 0) \<and>
         (\<forall>j. j \<noteq> ident \<longrightarrow> balance_frozen s' j who = balance_frozen s j who) \<and>
         entries_ok (MaxFreezes cfg) (Freezes s' who) \<and>
         (lives cfg (account_of cfg s who) \<and> oper \<noteq> Extend_Freeze 0 \<longrightarrow>
            frozen (account_of cfg s' who) = frozen_by (Locks s' who) (Freezes s' who)))"
proof -
  have ok: "bal_ok cfg s" using assms(3) by (simp add: sound_balances_def)
  have step: ?thesis if u: "update_freezes cfg who fs s = (r, s')" and "entries_ok (MaxFreezes cfg) fs"
      and "amount_under ident fs = (case oper of Set_Freeze v \<Rightarrow> v
        | Extend_Freeze v \<Rightarrow> max (balance_frozen s ident who) v | Thaw_Freeze \<Rightarrow> 0)"
      and "\<And>j. j \<noteq> ident \<Longrightarrow> amount_under j fs = amount_under j (Freezes s who)" for fs
    using update_freezes_effect [OF assms(1,2) ok u] that(2-) balances_kept_sound [of cfg s s'] assms(3)
    by (cases r) (simp_all add: balance_frozen_def)
  have none: ?thesis if "s' = s" "\<exists>e. r = Inl e"
    using that ok assms(3) by (auto simp: balances_kept_def)
  have via: ?thesis if p: "put_or_push (MaxFreezes cfg) TooManyFreezes ident f v (Freezes s who) = x"
      and run: "and_then (lift_res x) (update_freezes cfg who) s = (r, s')"
      and v: "oper = Set_Freeze v \<and> f = (\<lambda>_. v) \<or> oper = Extend_Freeze v \<and> f = (\<lambda>a. max a v)" for x f v
  proof (cases x)
    case (Inl e)
    then show ?thesis using none run by (auto simp: and_then_def)
  next
    case (Inr fs)
    note pp = put_or_push_props [OF p [unfolded Inr] assms(4)]
    have "amount_under ident fs = (case oper of Set_Freeze v \<Rightarrow> v
        | Extend_Freeze v \<Rightarrow> max (balance_frozen s ident who) v | Thaw_Freeze \<Rightarrow> 0)"
      using pp(2) v not_has_id [of ident "Freezes s who"] by (auto simp: balance_frozen_def)
    then show ?thesis using step [of fs] run pp(1,3) Inr by (simp add: and_then_def)
  qed
  have th: ?thesis if t: "thaw cfg ident who s = (r, s')" and o: "oper = Thaw_Freeze \<or> oper = Set_Freeze 0"
  proof (rule step [OF t [unfolded thaw_def]])
    show "amount_under ident (filter (\<lambda>l. id_of l \<noteq> ident) (Freezes s who)) = (case oper of Set_Freeze v \<Rightarrow> v
        | Extend_Freeze v \<Rightarrow> max (balance_frozen s ident who) v | Thaw_Freeze \<Rightarrow> 0)"
      using o filter_id_props(2) [OF assms(4)] by auto
  qed (simp_all add: filter_id_props [OF assms(4)])
  show ?thesis
  proof (cases oper)
    case (Set_Freeze v)
    then show ?thesis using th via [OF refl, of "\<lambda>_. v" v] assms(5)
      by (cases "v = 0") (auto simp: run_freeze_def set_freeze_def)
  next
    case (Extend_Freeze v)
    show ?thesis
    proof (cases "v = 0")
      case True
      then have "r = Inr ()" "s' = s" using assms(5) Extend_Freeze by (auto simp: run_freeze_def extend_freeze_def)
      then show ?thesis using assms(3,4) ok Extend_Freeze True
        by (simp add: balances_kept_def max_def word_le_0_iff)
    next
      case False
      then show ?thesis using via [OF refl, of "\<lambda>a. max a v" v] assms(5) Extend_Freeze
        by (auto simp: run_freeze_def extend_freeze_def)
    qed
  next
    case Thaw_Freeze
    then show ?thesis using th assms(5) by (simp add: run_freeze_def)
  qed
qed

lemma freeze_operations_correct_witness:
  "sound_balances (ref_config 10) (snd (run_freeze (ref_config 10) 7 1 (Set_Freeze 60)
     (two_accounts (funded 100 20 1) (funded 50 0 0))))"
proof -
  let ?s = "two_accounts (funded 100 20 1) (funded 50 0 0)"
  have so: "sound_balances (ref_config 10) ?s" by (rule two_funded_sound) simp_all
  have e: "entries_ok (MaxFreezes (ref_config 10)) (Freezes ?s 1)" by (simp add: entries_ok_def two_accounts_def)
  have r: "run_freeze (ref_config 10) 7 1 (Set_Freeze 60) ?s = (fst (run_freeze (ref_config 10) 7 1 (Set_Freeze 60) ?s),
      snd (run_freeze (ref_config 10) 7 1 (Set_Freeze 60) ?s))" by simp
  show ?thesis using freeze_operations_correct [OF ref_good _ so e r] ref_put_total by auto
qed

section \<open>Holds\<close>

definition nonzero_entries :: "id_amount list \<Rightarrow> bool" where
  "nonzero_entries xs \<longleftrightarrow> (\<forall>x \<in> set xs. amount_of x \<noteq> 0)"

lemma filter_zero_props:
  assumes "distinct (map id_of xs)"
  shows "amount_under j (filter (\<lambda>x. amount_of x \<noteq> 0) xs) = amount_under j xs"
    "amounts_sum (filter (\<lambda>x. amount_of x \<noteq> 0) xs) = amounts_sum xs"
proof -
  show "amounts_sum (filter (\<lambda>x. amount_of x \<noteq> 0) xs) = amounts_sum xs"
    by (induction xs) auto
  have none: "amount_under j (filter (\<lambda>x. amount_of x \<noteq> 0) ys) = 0" if "j \<notin> set (map id_of ys)" for ys
    using that by (induction ys) (auto simp: amount_under_def)
  show "amount_under j (filter (\<lambda>x. amount_of x \<noteq> 0) xs) = amount_under j xs"
    using assms
  proof (induction xs)
    case (Cons x xs)
    show ?case
    proof (cases "id_of x = j")
      case True
      then show ?thesis using Cons.prems none [of xs] by (auto simp: amount_under_def)
    next
      case False
      then show ?thesis using Cons by (auto simp: amount_under_def)
    qed
  qed simp
qed

lemma change_hold_props:
  assumes e: "entries_ok (MaxHolds cfg) xs" "nonzero_entries xs"
    and c: "change_hold cfg reason amount xs = Inr (ys, up, delta)"
  shows "entries_ok (MaxHolds cfg) ys" "nonzero_entries ys" "amount_under reason ys = amount"
    "j \<noteq> reason \<Longrightarrow> amount_under j ys = amount_under j xs"
    "if up then amounts_sum ys = amounts_sum xs + unat delta else amounts_sum ys + unat delta = amounts_sum xs"
proof -
  have "entries_ok (MaxHolds cfg) ys \<and> nonzero_entries ys \<and> amount_under reason ys = amount \<and>
    (j \<noteq> reason \<longrightarrow> amount_under j ys = amount_under j xs) \<and>
    (if up then amounts_sum ys = amounts_sum xs + unat delta else amounts_sum ys + unat delta = amounts_sum xs)"
  proof (cases "has_id reason xs")
    case True
    define old where "old = amount_under reason xs"
    define zs where "zs = change_first reason (\<lambda>_. amount) xs"
    note cf = change_first_props [OF True, where f = "\<lambda>_. amount", folded zs_def old_def]
    have y: "ys = filter (\<lambda>x. amount_of x \<noteq> 0) zs" "up = (old < amount)" "delta = max old amount - min old amount"
      using c True by (auto simp: change_hold_def Let_def zs_def old_def)
    have d: "distinct (map id_of zs)" "length zs \<le> unat (MaxHolds cfg)"
      using e(1) cf(3) by (simp_all add: entries_ok_def) (metis length_map)
    note fz = filter_zero_props [OF d(1), folded y(1)]
    have "entries_ok (MaxHolds cfg) ys"
      using d le_trans [OF length_filter_le [of "\<lambda>x. amount_of x \<noteq> 0" zs]] unfolding entries_ok_def y(1)
      by (auto simp: distinct_map intro: inj_on_subset)
    moreover have "nonzero_entries ys" by (simp add: y(1) nonzero_entries_def)
    moreover have "if up then amounts_sum ys = amounts_sum xs + unat delta else amounts_sum ys + unat delta = amounts_sum xs"
    proof -
      have mm: "min old amount \<le> max old amount" by (rule order_trans [OF min.cobounded1 max.cobounded1])
      have "unat delta = max (unat old) (unat amount) - min (unat old) (unat amount)"
        unfolding y(3) unat_minus_le [OF mm] by (simp add: mach_nat)
      then show ?thesis using cf(4) fz(2) by (auto simp: y(2) word_less_nat_alt)
    qed
    ultimately show ?thesis using cf(1,2) fz(1) by simp
  next
    case False
    then show ?thesis
      using c e not_has_id [OF False] amount_under_push(1) [OF False, of amount] amount_under_push(2) [of j reason xs amount]
      by (auto simp: change_hold_def entries_ok_def nonzero_entries_def has_id_iff split: if_splits)
  qed
  then show "entries_ok (MaxHolds cfg) ys" "nonzero_entries ys" "amount_under reason ys = amount"
    "j \<noteq> reason \<Longrightarrow> amount_under j ys = amount_under j xs"
    "if up then amounts_sum ys = amounts_sum xs + unat delta else amounts_sum ys + unat delta = amounts_sum xs" by auto
qed

lemma put_holds_simps [simp]:
  "account_of cfg (put_holds who hs s) = account_of cfg s" "bal_ok cfg (put_holds who hs s) = bal_ok cfg s"
  "TotalIssuance (put_holds who hs s) = TotalIssuance s" "Holds (put_holds who hs s) = (Holds s)(who := hs)"
proof -
  have sy: "sys (put_holds who hs s) = sys s" by (simp add: put_holds_def)
  show "account_of cfg (put_holds who hs s) = account_of cfg s" by (rule account_of_sys [OF sy])
  show "bal_ok cfg (put_holds who hs s) = bal_ok cfg s" by (rule bal_ok_sys [OF sy])
qed (simp_all add: put_holds_def)

lemma set_balance_on_hold_effect:
  assumes g: "good_balances cfg" "bal_ok cfg s"
    and e: "entries_ok (MaxHolds cfg) (Holds s who)" "nonzero_entries (Holds s who)"
    and r: "set_balance_on_hold cfg reason who amount s = (Inr u, s')"
  obtains holds x where "Holds s' = (Holds s)(who := holds)" "entries_ok (MaxHolds cfg) holds" "nonzero_entries holds"
    "amount_under reason holds = amount" "\<forall>j. j \<noteq> reason \<longrightarrow> amount_under j holds = amount_under j (Holds s who)"
    "unat x + amounts_sum (Holds s who) = unat (reserved (account_of cfg s who)) + amounts_sum holds"
    "account_of cfg s' who = kept cfg ((account_of cfg s who)\<lparr> reserved := x \<rparr>)" "others_keep cfg who s s'"
    "bal_ok cfg s'" "TotalIssuance s' = TotalIssuance s"
proof -
  let ?a = "account_of cfg s who"
  obtain holds up delta where h: "change_hold cfg reason amount (Holds s who) = Inr (holds, up, delta)"
    using r by (auto simp: set_balance_on_hold_def Let_def and_then_Inr)
  note ch = change_hold_props [OF e h]
  obtain x where x: "if up then unat x = unat (reserved ?a) + unat delta
      else unat delta \<le> unat (reserved ?a) \<and> unat x = unat (reserved ?a) - unat delta"
    and m: "\<exists>d s1. try_mutate_account cfg who no_drop (\<lambda>a is_new. ret ((), ?a\<lparr> reserved := x \<rparr>)) s = (Inr ((), d), s1) \<and>
      s' = put_holds who holds s1"
    using r h
    by (auto simp: set_balance_on_hold_def Let_def and_then_Inr checked_add_Some checked_sub_Some
        split: if_splits option.splits)
  obtain d s1 where m': "mutate_account cfg who no_drop (\<lambda>_. ((), ?a\<lparr> reserved := x \<rparr>)) s = (Inr ((), d), s1)"
    and s': "s' = put_holds who holds s1"
    using m unfolding mutate_account_def by auto
  obtain a' where m2: "a' = ?a\<lparr> reserved := x \<rparr>" "bal_ok cfg s1" "store_only s s1" "others_keep cfg who s s1"
    "account_of cfg s1 who = kept cfg a'"
    by (rule mutate_account_cases [OF g m']) auto
  have rs: "unat x + amounts_sum (Holds s who) = unat (reserved ?a) + amounts_sum holds"
    using x ch(5) by (auto split: if_splits)
  show ?thesis
    by (rule that [OF _ ch(1-3) _ rs]) (use ch(4) m2 s' store_only_fields [OF m2(3)] in \<open>simp_all add: others_keep_def\<close>)
qed

text \<open>\<open>set_balance_on_hold\<close> that succeeds on an account with its existential deposit free leaves
  the amount on hold under the reason, every other hold alone, the list distinct, without zeros and
  bounded; the reserved balance changes by exactly what the holds change in sum, the free balances
  and the other accounts do not change, and so the issuance, which a hold does not touch, moves
  against the sum of the balances by exactly that difference.\<close>

theorem set_balance_on_hold_correct:
  assumes "good_balances cfg" "bal_ok cfg s" "ExistentialDeposit cfg \<le> free_balance cfg s who"
    and "entries_ok (MaxHolds cfg) (Holds s who)" "nonzero_entries (Holds s who)"
    and "set_balance_on_hold cfg reason who amount s = (Inr u, s')"
  shows "balance_on_hold s' reason who = amount \<and>
    (\<forall>j. j \<noteq> reason \<longrightarrow> balance_on_hold s' j who = balance_on_hold s j who) \<and>
    entries_ok (MaxHolds cfg) (Holds s' who) \<and> nonzero_entries (Holds s' who) \<and>
    unat (reserved_balance cfg s' who) + amounts_sum (Holds s who) =
      unat (reserved_balance cfg s who) + amounts_sum (Holds s' who) \<and>
    free_balance cfg s' who = free_balance cfg s who \<and> others_keep cfg who s s' \<and>
    TotalIssuance s' = TotalIssuance s \<and> bal_ok cfg s' \<and>
    holdings cfg s' + amounts_sum (Holds s who) = holdings cfg s + amounts_sum (Holds s' who)"
proof -
  obtain holds x where h: "Holds s' = (Holds s)(who := holds)" "entries_ok (MaxHolds cfg) holds" "nonzero_entries holds"
    "amount_under reason holds = amount" "\<forall>j. j \<noteq> reason \<longrightarrow> amount_under j holds = amount_under j (Holds s who)"
    and rs: "unat x + amounts_sum (Holds s who) = unat (reserved (account_of cfg s who)) + amounts_sum holds"
    and acc0: "account_of cfg s' who = kept cfg ((account_of cfg s who)\<lparr> reserved := x \<rparr>)"
    and oth: "others_keep cfg who s s'" and ok: "bal_ok cfg s'" "TotalIssuance s' = TotalIssuance s"
    by (rule set_balance_on_hold_effect [OF assms(1,2,4-6)])
  have "lives cfg ((account_of cfg s who)\<lparr> reserved := x \<rparr>)"
    using assms(3) by (simp add: lives_def does_provide_def free_balance_def)
  then have acc: "account_of cfg s' who = (account_of cfg s who)\<lparr> reserved := x \<rparr>" using acc0 by (simp add: kept_def)
  have "holdings cfg s' + total_nat (account_of cfg s who) = holdings cfg s + total_nat (account_of cfg s' who)"
    using holdings_changed [of who cfg s' s] oth by (simp add: others_keep_def)
  then have "holdings cfg s' + amounts_sum (Holds s who) = holdings cfg s + amounts_sum holds"
    using rs by (simp add: total_nat_def acc)
  then show ?thesis
    using h rs oth acc ok by (simp add: balance_on_hold_def reserved_balance_def free_balance_def)
qed

text \<open>When the last hold of an account below the existential deposit ends, the account goes with the
  rest of its free balance as dust, and that dust is neither handled nor taken from the issuance: the
  code takes it for granted that a hold does not change the free balance.\<close>

lemma hold_end_loses_dust:
  assumes "good_balances cfg" "bal_ok cfg s" "entries_ok (MaxHolds cfg) (Holds s who)" "nonzero_entries (Holds s who)"
    and "set_balance_on_hold cfg reason who 0 s = (Inr u, s')"
    and "free_balance cfg s who < ExistentialDeposit cfg" and "reserved_balance cfg s who = balance_on_hold s reason who"
    and "Holds s who = [\<lparr> id_of = reason, amount_of = v \<rparr>]"
  shows "free_balance cfg s' who = 0 \<and> reserved_balance cfg s' who = 0 \<and> TotalIssuance s' = TotalIssuance s"
proof -
  obtain holds x where h: "nonzero_entries holds" "amount_under reason holds = 0"
    "\<forall>j. j \<noteq> reason \<longrightarrow> amount_under j holds = amount_under j (Holds s who)"
    and rs: "unat x + amounts_sum (Holds s who) = unat (reserved (account_of cfg s who)) + amounts_sum holds"
    and acc: "account_of cfg s' who = kept cfg ((account_of cfg s who)\<lparr> reserved := x \<rparr>)" "TotalIssuance s' = TotalIssuance s"
    by (rule set_balance_on_hold_effect [OF assms(1-5)])
  have none: "amount_under j holds = 0" for j using h(2,3) assms(8) by (cases "j = reason") (simp_all add: amount_under_def)
  have "holds = []"
  proof (cases holds)
    case (Cons y ys)
    then show ?thesis using h(1) none [of "id_of y"] by (simp add: nonzero_entries_def amount_under_def)
  qed
  then have "x = 0" using rs assms(7,8) by (simp add: reserved_balance_def balance_on_hold_def amount_under_def unat_eq_zero)
  then have "\<not> lives cfg ((account_of cfg s who)\<lparr> reserved := x \<rparr>)"
    using assms(6) by (simp add: lives_def does_provide_def free_balance_def)
  then show ?thesis using acc by (simp add: kept_def free_balance_def reserved_balance_def default_account_def)
qed

lemma set_balance_on_hold_correct_witness:
  "balance_on_hold (snd (set_balance_on_hold (ref_config 10) 4 1 30 (two_accounts (funded 100 20 1) (funded 50 0 0)))) 4 1 = 30"
proof -
  let ?s = "two_accounts (funded 100 20 1) (funded 50 0 0)"
  let ?r = "set_balance_on_hold (ref_config 10) 4 1 30 ?s"
  have "fst ?r = Inr ()"
    by (simp add: set_balance_on_hold_def change_hold_def has_id_def checked_add_def ref_eval)
  then have r: "?r = (Inr (), snd ?r)" by (simp add: prod_eq_iff)
  have ok: "bal_ok (ref_config 10) ?s" using two_funded_sound [of 10 100 50 20 0 1 0] by (simp add: sound_balances_def)
  have e: "entries_ok (MaxHolds (ref_config 10)) (Holds ?s 1)" "nonzero_entries (Holds ?s 1)"
    "ExistentialDeposit (ref_config 10) \<le> free_balance (ref_config 10) ?s 1"
    by (simp_all add: entries_ok_def nonzero_entries_def two_accounts_def free_balance_def funded_def)
  show ?thesis using set_balance_on_hold_correct [OF ref_good ok e(3,1,2) r] by auto
qed

section \<open>What can be withdrawn and deposited\<close>

text \<open>\<open>can_withdraw\<close> that answers \<open>Success\<close> or \<open>ReducedToZero\<close> tells the truth: the amount is
  free and within the reducible balance, what remains of the whole account covers the frozen
  amount, the issuance can bear it, and with \<open>ReducedToZero\<close> the remainder is below the existential
  deposit and the provider reference can go; \<open>Success\<close> leaves the account its existential deposit.\<close>

theorem can_withdraw_sound:
  assumes "can_withdraw cfg s who amount = c" "amount \<noteq> 0" "c = Withdraw_Success \<or> c = Withdraw_ReducedToZero rest"
  shows "unat amount \<le> unat (TotalIssuance s) \<and> unat amount \<le> unat (free_balance cfg s who) \<and>
    amount \<le> usable_balance cfg s who \<and>
    unat (frozen (account_of cfg s who)) \<le>
      unat (free_balance cfg s who) - unat amount + unat (reserved_balance cfg s who) \<and>
    (c = Withdraw_Success \<longrightarrow> unat (ExistentialDeposit cfg) \<le> unat (free_balance cfg s who) - unat amount) \<and>
    (c = Withdraw_ReducedToZero rest \<longrightarrow> unat rest = unat (free_balance cfg s who) - unat amount \<and>
       rest < ExistentialDeposit cfg \<and> sys_can_dec_provider (sy cfg) (sys s) who)"
proof -
  let ?a = "account_of cfg s who"
  obtain x where x: "checked_sub (free ?a) amount = Some x" "\<not> reducible_balance cfg s who Expendable Polite < amount"
    "checked_sub (TotalIssuance s) amount \<noteq> None"
    using assms by (auto simp: can_withdraw_def Let_def split: if_splits option.splits)
  have c: "\<not> sat_add x (reserved ?a) < frozen ?a"
    "c = (if x < ExistentialDeposit cfg then Withdraw_ReducedToZero x else Withdraw_Success)"
    "x < ExistentialDeposit cfg \<longrightarrow> sys_can_dec_provider (sy cfg) (sys s) who"
    using assms x by (auto simp: can_withdraw_def Let_def split: if_splits)
  have xs: "unat amount \<le> unat (free ?a)" "unat x = unat (free ?a) - unat amount"
    using x(1) by (auto simp: checked_sub_Some)
  have "unat amount \<le> unat (TotalIssuance s)" using x(3) by (auto simp: checked_sub_None)
  moreover have "unat (frozen ?a) \<le> unat x + unat (reserved ?a)"
    using c(1) by (simp add: word_less_nat_alt mach_nat)
  ultimately show ?thesis
    using x(2) c(2,3) xs assms(3)
    by (auto simp: usable_balance_def free_balance_def reserved_balance_def not_less word_le_nat_alt split: if_splits)
qed

lemma can_withdraw_sound_witness:
  "90 \<le> usable_balance (ref_config 10) (two_accounts (funded 100 20 1) (funded 50 0 0)) 1"
proof -
  let ?s = "two_accounts (funded 100 20 1) (funded 50 0 0)"
  have "can_withdraw (ref_config 10) ?s 1 90 = Withdraw_Success"
    by (simp add: can_withdraw_def reducible_balance_def checked_sub_def sat_sub_def sat_add_def ref_eval)
  from can_withdraw_sound [OF this] show ?thesis by simp
qed

end
