(* ===== verification/BalancesCalls.thy ===== *)
theory BalancesCalls
  imports BalancesHoldsLaw
begin

text \<open>
  The dispatchables of the balances pallet, its genesis and its migrations (\<open>lib.rs\<close>,
  \<open>migration.rs\<close>). \<open>fungible::Mutate\<close>'s default methods \<open>transfer\<close> and \<open>burn_from\<close> and the
  address lookup are code of the framework and parameters; a dispatchable runs inside the
  storage layer of the framework (\<open>transactional\<close>).
\<close>

section \<open>Dispatchables\<close>

record ('e, 'l) bal_runtime =
  fungible_transfer :: "account \<Rightarrow> account \<Rightarrow> balance \<Rightarrow> preservation \<Rightarrow> ('e, balance) bal"
  fungible_burn_from :: "account \<Rightarrow> balance \<Rightarrow> preservation \<Rightarrow> precision \<Rightarrow> fortitude \<Rightarrow> ('e, balance) bal"
  lookup :: "'l \<Rightarrow> dispatch_error + account"

definition store_transfer_proof ::
    "'e bal_config \<Rightarrow> account \<Rightarrow> account \<Rightarrow> balance \<Rightarrow> 'e bal_state \<Rightarrow> 'e bal_state" where
  "store_transfer_proof cfg src dest value s =
     (if src \<noteq> dest
      then s\<lparr> TransferProof := (TransferProof s)
                ((sys_account_nonce (sy cfg) (sys s) src, src, dest, value) \<mapsto> True) \<rparr>
      else s)"

definition transfer_and_prove ::
    "'e bal_config \<Rightarrow> ('e, 'l) bal_runtime \<Rightarrow> account \<Rightarrow> account \<Rightarrow> balance \<Rightarrow> preservation \<Rightarrow> ('e, unit) bal" where
  "transfer_and_prove cfg rt src dest value preservation =
     and_then (fungible_transfer rt src dest value preservation)
       (\<lambda>_. update_st (store_transfer_proof cfg src dest value))"

definition transfer_allow_death ::
    "'e bal_config \<Rightarrow> ('e, 'l) bal_runtime \<Rightarrow> origin \<Rightarrow> 'l \<Rightarrow> balance \<Rightarrow> ('e, unit) bal" where
  "transfer_allow_death cfg rt origin dest value =
     transactional
       (and_then (lift_res (ensure_signed origin)) (\<lambda>source.
        and_then (lift_res (lookup rt dest)) (\<lambda>dest.
        transfer_and_prove cfg rt source dest value Expendable)))"

definition force_transfer ::
    "'e bal_config \<Rightarrow> ('e, 'l) bal_runtime \<Rightarrow> origin \<Rightarrow> 'l \<Rightarrow> 'l \<Rightarrow> balance \<Rightarrow> ('e, unit) bal" where
  "force_transfer cfg rt origin source dest value =
     transactional
       (and_then (lift_res (ensure_root origin)) (\<lambda>_.
        and_then (lift_res (lookup rt source)) (\<lambda>source.
        and_then (lift_res (lookup rt dest)) (\<lambda>dest.
        transfer_and_prove cfg rt source dest value Expendable))))"

definition transfer_keep_alive ::
    "'e bal_config \<Rightarrow> ('e, 'l) bal_runtime \<Rightarrow> origin \<Rightarrow> 'l \<Rightarrow> balance \<Rightarrow> ('e, unit) bal" where
  "transfer_keep_alive cfg rt origin dest value =
     transactional
       (and_then (lift_res (ensure_signed origin)) (\<lambda>source.
        and_then (lift_res (lookup rt dest)) (\<lambda>dest.
        transfer_and_prove cfg rt source dest value Preserve)))"

definition transfer_all ::
    "'e bal_config \<Rightarrow> ('e, 'l) bal_runtime \<Rightarrow> origin \<Rightarrow> 'l \<Rightarrow> bool \<Rightarrow> ('e, unit) bal" where
  "transfer_all cfg rt origin dest keep_alive =
     transactional
       (and_then (lift_res (ensure_signed origin)) (\<lambda>transactor.
          let keep = (if keep_alive then Preserve else Expendable)
          in and_then (read_st (\<lambda>s. reducible_balance cfg s transactor keep Polite)) (\<lambda>reducible.
             and_then (lift_res (lookup rt dest)) (\<lambda>dest.
             transfer_and_prove cfg rt transactor dest reducible keep))))"

definition force_unreserve ::
    "'e bal_config \<Rightarrow> ('e, 'l) bal_runtime \<Rightarrow> origin \<Rightarrow> 'l \<Rightarrow> balance \<Rightarrow> ('e, unit) bal" where
  "force_unreserve cfg rt origin who amount =
     transactional
       (and_then (lift_res (ensure_root origin)) (\<lambda>_.
        and_then (lift_res (lookup rt who)) (\<lambda>who.
        update_st (\<lambda>s. snd (unreserve cfg who amount s)))))"

datatype pays = Pays_Yes | Pays_No

definition perbill_from_rational :: "nat \<Rightarrow> nat \<Rightarrow> nat" where
  "perbill_from_rational p q = min p (max q 1) * 10 ^ 9 div max q 1"

fun upgrade_each :: "'e bal_config \<Rightarrow> account list \<Rightarrow> u32 \<Rightarrow> 'e bal_state \<Rightarrow> u32 \<times> 'e bal_state" where
  "upgrade_each cfg [] count s = (count, s)"
| "upgrade_each cfg (i # is) count s =
     (let (upgraded, s') = ensure_upgraded cfg i s
      in upgrade_each cfg is (if upgraded then sat_add count 1 else count) s')"

definition upgrade_accounts :: "'e bal_config \<Rightarrow> origin \<Rightarrow> account list \<Rightarrow> ('e, pays) bal" where
  "upgrade_accounts cfg origin who =
     transactional
       (and_then (lift_res (ensure_signed origin)) (\<lambda>_.
          if who = [] then ret Pays_Yes
          else (\<lambda>s. let (upgrade_count, s') = upgrade_each cfg who 0 s;
                         proportion = perbill_from_rational (unat upgrade_count) (length who)
                     in (Inr (if 900000000 \<le> proportion then Pays_No else Pays_Yes), s'))))"

definition force_set_balance ::
    "'e bal_config \<Rightarrow> ('e, 'l) bal_runtime \<Rightarrow> origin \<Rightarrow> 'l \<Rightarrow> balance \<Rightarrow> ('e, unit) bal" where
  "force_set_balance cfg rt origin who new_free =
     transactional
       (and_then (lift_res (ensure_root origin)) (\<lambda>_.
        and_then (lift_res (lookup rt who)) (\<lambda>who.
          let wipeout = new_free < ExistentialDeposit cfg;
              new_free = (if wipeout then 0 else new_free)
          in and_then (mutate_account_handling_dust cfg who no_drop (\<lambda>a. (free a, a\<lparr> free := new_free \<rparr>))) (\<lambda>old_free.
             and_then (update_st
               (if old_free < new_free then drop_positive (PositiveImbalance (new_free - old_free))
                else if new_free < old_free then drop_negative (NegativeImbalance (old_free - new_free))
                else (\<lambda>s. s))) (\<lambda>_.
             update_st (deposit_event (B_BalanceSet who new_free)))))))"

definition force_adjust_total_issuance ::
    "'e bal_config \<Rightarrow> origin \<Rightarrow> adjustment_direction \<Rightarrow> balance \<Rightarrow> ('e, unit) bal" where
  "force_adjust_total_issuance cfg origin direction delta =
     transactional
       (and_then (lift_res (ensure_root origin)) (\<lambda>_.
        and_then (ensure (0 < delta) (Balances_Error DeltaZero)) (\<lambda>_ s.
          let old = TotalIssuance s;
              new = (case direction of Increase \<Rightarrow> sat_add old delta | Decrease \<Rightarrow> sat_sub old delta)
          in and_then (ensure (InactiveIssuance s \<le> new) (Balances_Error IssuanceDeactivated))
               (\<lambda>_. update_st (\<lambda>s. deposit_event (B_TotalIssuanceForced old new) (s\<lparr> TotalIssuance := new \<rparr>))) s)))"

definition burn ::
    "'e bal_config \<Rightarrow> ('e, 'l) bal_runtime \<Rightarrow> origin \<Rightarrow> balance \<Rightarrow> bool \<Rightarrow> ('e, unit) bal" where
  "burn cfg rt origin value keep_alive =
     transactional
       (and_then (lift_res (ensure_signed origin)) (\<lambda>source.
        and_then (fungible_burn_from rt source value (if keep_alive then Preserve else Expendable) Exact Polite)
          (\<lambda>_. ret ())))"

section \<open>Genesis\<close>

fun put_genesis :: "'e bal_config \<Rightarrow> (account \<times> balance) list \<Rightarrow> ('e, unit) bal" where
  "put_genesis cfg [] s = (Inr (), s)"
| "put_genesis cfg ((who, v) # rest) s =
     (case on_sys (sys_put (sy cfg) who (Some (default_account\<lparr> free := v \<rparr>)))
             (on_sys_pure (sys_inc_providers (sy cfg) who) s) of
        (Inl _, s') \<Rightarrow> (Inl Panicked, s')
      | (Inr _, s') \<Rightarrow> put_genesis cfg rest s')"

definition balances_genesis_build :: "'e bal_config \<Rightarrow> (account \<times> balance) list \<Rightarrow> ('e, unit) bal" where
  "balances_genesis_build cfg balances s =
     (let s1 = s\<lparr> TotalIssuance := foldl (\<lambda>acc (_, n). acc + n) 0 balances \<rparr>
      in if \<not> list_all (\<lambda>(_, b). ExistentialDeposit cfg \<le> b) balances then (Inl Panicked, s1)
         else if \<not> card (set (map fst balances)) = length balances then (Inl Panicked, s1)
         else put_genesis cfg balances s1)"

section \<open>Migrations\<close>

text \<open>The pallet's storage version lives beside its state.\<close>

definition migrate_v0_to_v1 ::
    "'e bal_config \<Rightarrow> account list \<Rightarrow> u16 \<times> 'e bal_state \<Rightarrow> u16 \<times> 'e bal_state" where
  "migrate_v0_to_v1 cfg accounts = (\<lambda>(version, s).
     if version = 0
     then (1, deactivate (foldl sat_add 0 (map (total_balance cfg s) accounts)) s)
     else (version, s))"

definition reset_inactive :: "u16 \<times> 'e bal_state \<Rightarrow> u16 \<times> 'e bal_state" where
  "reset_inactive = (\<lambda>(version, s). if version = 1 then (0, s\<lparr> InactiveIssuance := 0 \<rparr>) else (version, s))"

section \<open>Properties\<close>

text \<open>\<open>force_set_balance\<close> is for the root origin; on success the account has the new balance, or
  nothing when that is below the existential deposit, its reserve is untouched, nobody else is
  touched and the issuance has followed; on failure nothing has changed.\<close>

theorem force_set_balance_correct:
  assumes "good_balances cfg" "sound_balances cfg s"
    and "unat (TotalIssuance s) + unat new_free < 2 ^ 128"
    and "force_set_balance cfg rt origin l new_free s = (r, s')"
  shows "case r of
      Inl _ \<Rightarrow> s' = s
    | Inr _ \<Rightarrow> \<exists>who. origin = Root \<and> lookup rt l = Inr who \<and>
        holds_now cfg who s' (if new_free < ExistentialDeposit cfg then 0 else unat new_free)
          (unat (reserved_balance cfg s who)) \<and>
        others_keep cfg who s s' \<and> sound_balances cfg s'"
proof (cases r)
  case (Inl e)
  then show ?thesis using assms(4) by (auto simp: force_set_balance_def transactional_Inl)
next
  case (Inr u)
  define nf where "nf = (if new_free < ExistentialDeposit cfg then 0 else new_free)"
  have ok: "bal_ok cfg s" and i: "issued_ok cfg s" using assms(2) by (auto simp: sound_balances_def)
  obtain who old s1 where w: "origin = Root" "lookup rt l = Inr who"
    and m: "mutate_account_handling_dust cfg who no_drop (\<lambda>a. (free a, a\<lparr> free := nf \<rparr>)) s = (Inr old, s1)"
    and s': "s' = deposit_event (B_BalanceSet who nf)
        ((if old < nf then drop_positive (PositiveImbalance (nf - old))
          else if nf < old then drop_negative (NegativeImbalance (old - nf)) else (\<lambda>s. s)) s1)"
    using assms(4) Inr
    by (auto simp: force_set_balance_def transactional_Inr and_then_Inr Let_def nf_def)
  obtain a where a: "old = free a" "old_account cfg s who a" "mutated cfg who s (a\<lparr> free := nf \<rparr>) s1"
    using mutate_handling_dust_effect [OF assms(1) ok m] by (auto simp: old_account_def)
  have no_dust: "TotalIssuance s1 = TotalIssuance s"
    using a(3) by (auto simp: mutated_def does_provide_def nf_def not_less split: if_splits)
  have dust: "does_provide cfg (a\<lparr> free := nf \<rparr>) \<or> unat (free (a\<lparr> free := nf \<rparr>)) \<le> unat (TotalIssuance s)"
    by (auto simp: does_provide_def nf_def)
  have "unat (TotalIssuance s) + (unat nf + unat (reserved a)) = holdings cfg s1 + (unat (free a) + unat (reserved a))"
    using mutated_settles_dust [OF a(3) i dust a(2)] no_dust by (simp add: total_nat_def)
  then have h: "unat (TotalIssuance s) + unat nf = holdings cfg s1 + unat (free a)" by simp
  have nfle: "unat nf \<le> unat new_free" by (simp add: nf_def)
  define s2 where "s2 = (if old < nf then drop_positive (PositiveImbalance (nf - old))
          else if nf < old then drop_negative (NegativeImbalance (old - nf)) else (\<lambda>s. s)) s1"
  have sy: "account_of cfg s2 = account_of cfg s1" "bal_ok cfg s2 = bal_ok cfg s1" "holdings cfg s2 = holdings cfg s1"
    by (simp_all add: s2_def drop_positive_effect drop_negative_effect)
  have "unat (TotalIssuance s2) = holdings cfg s2"
  proof (cases "old < nf")
    case True
    then have d: "unat (nf - old) = unat nf - unat old" "unat old < unat nf"
      using unat_minus_le [OF less_imp_le [OF True]] by (simp_all add: word_less_nat_alt)
    have "unat (TotalIssuance s2) = min (unat (TotalIssuance s) + (unat nf - unat old)) (2 ^ 128 - 1)"
      unfolding s2_def using True by (simp add: drop_positive_effect no_dust d)
    also have "\<dots> = unat (TotalIssuance s) + (unat nf - unat old)" using assms(3) nfle by simp
    finally show ?thesis using h a(1) d sy by simp
  next
    case False
    show ?thesis
    proof (cases "nf < old")
      case True
      then have d: "unat (old - nf) = unat old - unat nf" "unat nf < unat old"
        using unat_minus_le [OF less_imp_le [OF True]] by (simp_all add: word_less_nat_alt)
      have "unat (TotalIssuance s2) = unat (TotalIssuance s) - (unat old - unat nf)"
        unfolding s2_def using True False by (simp add: drop_negative_effect no_dust d)
      then show ?thesis using h a(1) d sy by simp
    next
      case f: False
      then have "old = nf" "s2 = s1" using False by (simp_all add: s2_def)
      then show ?thesis using h a(1) no_dust by simp
    qed
  qed
  then have snd: "sound_balances cfg s'"
    using a(3) sy by (simp add: sound_balances_def issued_ok_def s' s2_def [symmetric] mutated_def holdings_def)
  have "holds_now cfg who s1 (unat nf) (unat (reserved a))" "others_keep cfg who s s1"
    using mutated_holds_now [OF a(3)] by simp_all
  then have "holds_now cfg who s' (unat nf) (unat (reserved a))" "others_keep cfg who s s'"
    using sy by (simp_all add: holds_now_def others_keep_def s' s2_def [symmetric])
  then show ?thesis using Inr w snd a(2) by (simp add: nf_def old_account_def reserved_balance_def if_distrib cong: if_cong)
qed

text \<open>A runtime for the witnesses, whose transfer withdraws and deposits.\<close>

definition ref_transfer :: "account \<Rightarrow> account \<Rightarrow> balance \<Rightarrow> preservation \<Rightarrow> (ref_store, balance) bal" where
  "ref_transfer a b v p =
     and_then (withdraw (ref_config 10) a v 0 AllowDeath)
       (\<lambda>_ s. (Inr v, snd (deposit_creating (ref_config 10) b v s)))"

definition ref_runtime :: "(ref_store, account) bal_runtime" where
  "ref_runtime = \<lparr> fungible_transfer = ref_transfer, fungible_burn_from = \<lambda>a v p q f. fail (Other []),
     lookup = Inr \<rparr>"

lemma force_set_balance_correct_witness:
  "sound_balances (ref_config 10) (snd (force_set_balance (ref_config 10) ref_runtime Root 1 30
     (two_accounts (funded 100 20 1) (funded 50 0 0))))"
proof -
  let ?s = "two_accounts (funded 100 20 1) (funded 50 0 0)"
  let ?r = "force_set_balance (ref_config 10) ref_runtime Root 1 30 ?s"
  have so: "sound_balances (ref_config 10) ?s" by (rule two_funded_sound) simp_all
  have r: "?r = (fst ?r, snd ?r)" by simp
  have "unat (TotalIssuance ?s) + unat (30 :: balance) < 2 ^ 128"
    by (simp add: two_accounts_def funded_def)
  from force_set_balance_correct [OF ref_good so this r] so show ?thesis by (auto split: sum.splits)
qed

text \<open>The four transfer dispatchables.\<close>

datatype 'l transfer_call = Allow_Death 'l balance | Forced 'l 'l balance | Keeping_Alive 'l balance | Everything 'l bool

definition run_transfer ::
    "'e bal_config \<Rightarrow> ('e, 'l) bal_runtime \<Rightarrow> origin \<Rightarrow> 'l transfer_call \<Rightarrow> ('e, unit) bal" where
  "run_transfer cfg rt origin c =
     (case c of Allow_Death d v \<Rightarrow> transfer_allow_death cfg rt origin d v
      | Forced l d v \<Rightarrow> force_transfer cfg rt origin l d v
      | Keeping_Alive d v \<Rightarrow> transfer_keep_alive cfg rt origin d v
      | Everything d k \<Rightarrow> transfer_all cfg rt origin d k)"

definition transfer_terms ::
    "'e bal_config \<Rightarrow> ('e, 'l) bal_runtime \<Rightarrow> 'e bal_state \<Rightarrow> origin \<Rightarrow> 'l transfer_call
      \<Rightarrow> account \<Rightarrow> account \<Rightarrow> balance \<Rightarrow> preservation \<Rightarrow> bool" where
  "transfer_terms cfg rt s origin c src dest value p =
     (case c of
        Allow_Death d v \<Rightarrow> origin = Signed src \<and> lookup rt d = Inr dest \<and> value = v \<and> p = Expendable
      | Forced l d v \<Rightarrow> origin = Root \<and> lookup rt l = Inr src \<and> lookup rt d = Inr dest \<and> value = v \<and> p = Expendable
      | Keeping_Alive d v \<Rightarrow> origin = Signed src \<and> lookup rt d = Inr dest \<and> value = v \<and> p = Preserve
      | Everything d k \<Rightarrow> origin = Signed src \<and> lookup rt d = Inr dest \<and>
          p = (if k then Preserve else Expendable) \<and> value = reducible_balance cfg s src p Polite)"

text \<open>Each transfer dispatchable either fails and changes nothing, or has made exactly the transfer
  of the framework that its origin may order (the signer's own funds; any account's for root), with
  the preservation its name promises, and has recorded a transfer proof under the sender's nonce, the
  two accounts and the value, exactly when the accounts differ.\<close>

theorem transfer_calls_prove:
  assumes "run_transfer cfg rt origin c s = (r, s')"
  shows "case r of
      Inl _ \<Rightarrow> s' = s
    | Inr _ \<Rightarrow> \<exists>src dest value p x s1. transfer_terms cfg rt s origin c src dest value p \<and>
        fungible_transfer rt src dest value p s = (Inr x, s1) \<and>
        s' = (if src = dest then s1 else s1\<lparr> TransferProof := (TransferProof s1)
                ((sys_account_nonce (sy cfg) (sys s1) src, src, dest, value) \<mapsto> True) \<rparr>)"
proof (cases r)
  case (Inl e)
  then show ?thesis using assms
    by (auto simp: run_transfer_def transfer_allow_death_def force_transfer_def transfer_keep_alive_def
        transfer_all_def transactional_Inl split: transfer_call.splits)
next
  case (Inr u)
  have "\<exists>src dest value p x s1. transfer_terms cfg rt s origin c src dest value p \<and>
        fungible_transfer rt src dest value p s = (Inr x, s1) \<and> s' = store_transfer_proof cfg src dest value s1"
    using assms Inr
    by (cases c) (fastforce simp: run_transfer_def transfer_allow_death_def force_transfer_def
        transfer_keep_alive_def transfer_all_def transactional_Inr and_then_Inr transfer_and_prove_def transfer_terms_def
        Let_def)+
  then show ?thesis unfolding Inr by (simp add: store_transfer_proof_def) metis
qed

lemma transfer_calls_prove_witness:
  "TransferProof (snd (run_transfer (ref_config 10) ref_runtime (Signed 1) (Allow_Death 2 5)
     (two_accounts (funded 100 20 1) (funded 50 0 0)))) (0, 1, 2, 5) = Some True"
proof -
  let ?s = "two_accounts (funded 100 20 1) (funded 50 0 0)"
  let ?r = "run_transfer (ref_config 10) ref_runtime (Signed 1) (Allow_Death 2 5) ?s"
  have "fst (ref_transfer 1 2 5 Expendable ?s) = Inr 5"
    by (simp add: ref_transfer_def withdraw_def withdraw_closure_def ensure_can_withdraw_def checked_sub_def ref_eval)
  then have "fst ?r = Inr ()"
    by (auto simp: run_transfer_def transfer_allow_death_def transfer_and_prove_def ref_runtime_def and_then_def
        transactional_def ensure_signed_def split: prod.splits sum.splits)
  then have "?r = (Inr (), snd ?r)" by (simp add: prod_eq_iff)
  from transfer_calls_prove [OF this] obtain src dest val p s1 where
    t: "transfer_terms (ref_config 10) ref_runtime ?s (Signed 1) (Allow_Death 2 5) src dest val p"
    and s': "snd ?r = (if src = dest then s1 else s1\<lparr> TransferProof := (TransferProof s1)
        ((sys_account_nonce (sy (ref_config 10)) (sys s1) src, src, dest, val) \<mapsto> True) \<rparr>)" by auto
  have "src = 1" "dest = 2" "val = 5" using t by (simp_all add: transfer_terms_def ref_runtime_def)
  then show ?thesis unfolding s' by (simp add: ref_system_def)
qed

section \<open>Genesis and migration\<close>

definition put_fresh :: "'e bal_config \<Rightarrow> account \<Rightarrow> balance \<Rightarrow> 'e bal_state \<Rightarrow> 'e bal_state \<Rightarrow> bool" where
  "put_fresh cfg who v s s' \<longleftrightarrow> bal_ok cfg s' \<and> others_keep cfg who s s' \<and>
     account_of cfg s' who = default_account\<lparr> free := v \<rparr> \<and> TotalIssuance s' = TotalIssuance s"

lemma genesis_step:
  assumes g: "good_balances cfg" and pt: "put_total (sy cfg)" and ok: "bal_ok cfg s"
    and ed: "ExistentialDeposit cfg \<le> v"
  obtains s' where "on_sys (sys_put (sy cfg) who (Some (default_account\<lparr> free := v \<rparr>)))
      (on_sys_pure (sys_inc_providers (sy cfg) who) s) = (Inr (), s')" "put_fresh cfg who v s s'"
proof -
  have law: "system_law (sy cfg)" using g by (simp add: good_balances_def)
  let ?y = "sy cfg"
  define e1 where "e1 = sys_inc_providers ?y who (sys s)"
  obtain e2 where e2: "sys_put ?y who (Some (default_account\<lparr> free := v \<rparr>)) e1 = Inr e2"
    using pt unfolding put_total_def by blast
  note l1 = law_inc_providers [OF law, of who "sys s", folded e1_def]
  note l2 = law_put [OF law e2]
  let ?s' = "s\<lparr> sys := e2 \<rparr>"
  have oa: "only_at ?y who (sys s) (sys ?s')" using only_at_trans [OF l1(1) l2(1)] by simp
  have st: "account_of cfg ?s' who = default_account\<lparr> free := v \<rparr>"
    using l2(4) l1(3) by (auto simp: account_of_stored)
  have ro: "refs_ok ?y e2"
  proof (rule refs_ok_put [OF law _ e2])
    show "refs_ok ?y e1"
      by (rule refs_ok_only_at [OF _ l1(1)]) (use ok l1(3) in \<open>auto simp: bal_ok_def\<close>)
  qed
  have "bal_ok cfg ?s'"
    by (rule bal_ok_only_at [OF ok oa])
       (use ro st ed l1(3) l2(2) in \<open>simp_all add: no_dust_def does_provide_def\<close>)
  moreover have "others_keep cfg who s ?s'"
    using only_atD(1) [OF oa] by (simp add: others_keep_def account_of_stored)
  ultimately have "put_fresh cfg who v s ?s'" using st by (simp add: put_fresh_def)
  then show ?thesis using that [of ?s'] e2 by (simp add: on_sys_def on_sys_pure_def e1_def)
qed

lemma put_genesis_correct:
  assumes g: "good_balances cfg" and pt: "put_total (sy cfg)" and ok: "bal_ok cfg s"
    and "\<forall>(w, v) \<in> set bs. ExistentialDeposit cfg \<le> v \<and> account_of cfg s w = default_account"
    and "distinct (map fst bs)"
  shows "\<exists>s'. put_genesis cfg bs s = (Inr (), s') \<and> bal_ok cfg s' \<and> TotalIssuance s' = TotalIssuance s \<and>
    (\<forall>(w, v) \<in> set bs. account_of cfg s' w = default_account\<lparr> free := v \<rparr>) \<and>
    (\<forall>b. b \<notin> fst ` set bs \<longrightarrow> account_of cfg s' b = account_of cfg s b) \<and>
    holdings cfg s' = holdings cfg s + sum_list (map (unat \<circ> snd) bs)"
  using ok assms(4,5)
proof (induction bs arbitrary: s)
  case Nil
  then show ?case by simp
next
  case (Cons x bs)
  obtain w v where x: "x = (w, v)" by force
  have ed: "ExistentialDeposit cfg \<le> v" and fresh: "account_of cfg s w = default_account"
    using Cons.prems(2) x by auto
  obtain s1 where s1: "on_sys (sys_put (sy cfg) w (Some (default_account\<lparr> free := v \<rparr>)))
      (on_sys_pure (sys_inc_providers (sy cfg) w) s) = (Inr (), s1)" "put_fresh cfg w v s s1"
    by (rule genesis_step [OF g pt Cons.prems(1) ed])
  have ok1: "bal_ok cfg s1" using s1(2) by (simp add: put_fresh_def)
  have keep: "account_of cfg s1 b = account_of cfg s b" if "b \<noteq> w" for b
    using s1(2) that by (simp add: put_fresh_def others_keep_def)
  have "\<forall>(w', v') \<in> set bs. ExistentialDeposit cfg \<le> v' \<and> account_of cfg s1 w' = default_account"
    using Cons.prems(2,3) keep x by (force simp: image_iff)
  moreover have "distinct (map fst bs)" using Cons.prems(3) by simp
  ultimately obtain s' where s': "put_genesis cfg bs s1 = (Inr (), s')" "bal_ok cfg s'"
    "TotalIssuance s' = TotalIssuance s1" "\<forall>(w, v) \<in> set bs. account_of cfg s' w = default_account\<lparr> free := v \<rparr>"
    "\<forall>b. b \<notin> fst ` set bs \<longrightarrow> account_of cfg s' b = account_of cfg s1 b"
    "holdings cfg s' = holdings cfg s1 + sum_list (map (unat \<circ> snd) bs)"
    using Cons.IH [OF ok1] by blast
  have "holdings cfg s1 = holdings cfg s + unat v"
    using holdings_changed [of w cfg s1 s] keep fresh s1(2) by (simp add: put_fresh_def total_nat_def)
  moreover have "account_of cfg s' w = default_account\<lparr> free := v \<rparr>"
    using s'(5) s1(2) Cons.prems(3) x by (simp add: put_fresh_def)
  ultimately show ?case
    using s' s1 keep x by (intro exI [of _ s']) (simp add: put_fresh_def comp_def)
qed

lemma foldl_plus: "foldl (\<lambda>acc (_, n). acc + n) a bs = a + sum_list (map snd bs)" for bs :: "('b \<times> 'a::monoid_add) list"
  by (induction bs arbitrary: a) (auto simp: add.assoc)

lemma unat_sum_list:
  fixes xs :: "'a::len word list"
  assumes "sum_list (map unat xs) < 2 ^ LENGTH('a)"
  shows "unat (sum_list xs) = sum_list (map unat xs)"
  using assms
proof (induction xs)
  case (Cons x xs)
  then show ?case by (simp add: unat_word_ariths)
qed simp

text \<open>Building the genesis on an empty chain fails exactly when an endowment is below the
  existential deposit or an account is endowed twice; otherwise (with a sum that fits the balance
  type) every account has its endowment, nobody else has anything, and the issuance is the sum of
  all balances.\<close>

theorem genesis_build_correct:
  assumes "good_balances cfg" "put_total (sy cfg)" "bal_ok cfg s" "\<forall>a. account_of cfg s a = default_account"
    and "sum_list (map (unat \<circ> snd) bs) < 2 ^ 128" "balances_genesis_build cfg bs s = (r, s')"
  shows "(r = Inr () \<longleftrightarrow> (\<forall>(w, v) \<in> set bs. ExistentialDeposit cfg \<le> v) \<and> distinct (map fst bs)) \<and>
    (r = Inr () \<longrightarrow> sound_balances cfg s' \<and> unat (TotalIssuance s') = sum_list (map (unat \<circ> snd) bs) \<and>
       (\<forall>(w, v) \<in> set bs. account_of cfg s' w = default_account\<lparr> free := v \<rparr>) \<and>
       (\<forall>b. b \<notin> fst ` set bs \<longrightarrow> account_of cfg s' b = default_account))"
proof -
  let ?s1 = "s\<lparr> TotalIssuance := foldl (\<lambda>acc (_, n). acc + n) 0 bs \<rparr>"
  have sy: "sys ?s1 = sys s" by simp
  have ok1: "bal_ok cfg ?s1" unfolding bal_ok_sys [OF sy] by (rule assms(3))
  have acc1: "account_of cfg ?s1 = account_of cfg s" by (rule account_of_sys [OF sy])
  have la: "list_all (\<lambda>(_, b). ExistentialDeposit cfg \<le> b) bs \<longleftrightarrow> (\<forall>(w, v) \<in> set bs. ExistentialDeposit cfg \<le> v)"
    by (auto simp: list_all_iff)
  have cd: "card (set (map fst bs)) = length bs \<longleftrightarrow> distinct (map fst bs)"
    using distinct_card [of "map fst bs"] card_distinct [of "map fst bs"] by auto
  show ?thesis
  proof (cases "(\<forall>(w, v) \<in> set bs. ExistentialDeposit cfg \<le> v) \<and> distinct (map fst bs)")
    case False
    then have "r = Inl Panicked" using assms(6) unfolding balances_genesis_build_def Let_def la cd by (auto split: if_splits)
    then show ?thesis using False by simp
  next
    case True
    have gen: "balances_genesis_build cfg bs s = put_genesis cfg bs ?s1"
      using True unfolding balances_genesis_build_def Let_def la cd by simp
    have "\<forall>(w, v) \<in> set bs. ExistentialDeposit cfg \<le> v \<and> account_of cfg ?s1 w = default_account"
      using True assms(4) acc1 by auto
    from put_genesis_correct [OF assms(1,2) ok1 this] True obtain s2 where
      s2: "put_genesis cfg bs ?s1 = (Inr (), s2)" "bal_ok cfg s2" "TotalIssuance s2 = TotalIssuance ?s1"
      "\<forall>(w, v) \<in> set bs. account_of cfg s2 w = default_account\<lparr> free := v \<rparr>"
      "\<forall>b. b \<notin> fst ` set bs \<longrightarrow> account_of cfg s2 b = account_of cfg ?s1 b"
      "holdings cfg s2 = holdings cfg ?s1 + sum_list (map (unat \<circ> snd) bs)" by blast
    have z: "holdings cfg ?s1 = 0" unfolding holdings_def acc1 using assms(4) by simp
    have rs: "r = Inr ()" "s' = s2" using assms(6) gen s2(1) by auto
    have ti: "unat (TotalIssuance s2) = sum_list (map (unat \<circ> snd) bs)"
      using unat_sum_list [of "map snd bs"] assms(5) s2(3) by (simp add: foldl_plus comp_def)
    then have "sound_balances cfg s2" using s2(2,6) z by (simp add: sound_balances_def issued_ok_def)
    then show ?thesis using rs True s2(4,5) assms(4) acc1 ti by auto
  qed
qed

definition empty_chain :: "ref_store bal_state" where
  "empty_chain = \<lparr> TotalIssuance = 0, InactiveIssuance = 0, Locks = \<lambda>_. [], Reserves = \<lambda>_. [], Holds = \<lambda>_. [],
     Freezes = \<lambda>_. [], TransferProof = \<lambda>_. None, sys = (\<lambda>_. no_account), bal_events = [] \<rparr>"

lemma genesis_build_correct_witness:
  "sound_balances (ref_config 10) (snd (balances_genesis_build (ref_config 10) [(1, 100), (2, 50)] empty_chain))"
proof -
  let ?r = "balances_genesis_build (ref_config 10) [(1, 100), (2, 50)] empty_chain"
  have d: "\<forall>a. account_of (ref_config 10) empty_chain a = default_account"
    by (simp add: empty_chain_def no_account_def)
  have ok: "bal_ok (ref_config 10) empty_chain"
    by (simp add: bal_ok_def refs_ok_def empty_chain_def ref_system_def no_account_def no_dust_def does_provide_def)
  have "?r = (fst ?r, snd ?r)" by simp
  from genesis_build_correct [OF ref_good _ ok d _ this] show ?thesis by (simp add: ref_put_total)
qed

end
