(* ===== verification/BalancesRun.thy ===== *)
theory BalancesRun
  imports BalancesCalls
begin

text \<open>
  The dispatchables of the balances pallet as a state machine (the \<open>Call\<close> that \<open>pallet::call\<close> makes of them):
  whatever is called by whom, the accounts stay consistent and the issuance stays what they hold.
\<close>

section \<open>Calls\<close>

datatype 'l bal_call =
  Transfer_Allow_Death 'l balance
| Force_Transfer 'l 'l balance
| Transfer_Keep_Alive 'l balance
| Transfer_All 'l bool
| Force_Unreserve 'l balance
| Upgrade_Accounts "account list"
| Force_Set_Balance 'l balance
| Force_Adjust_Total_Issuance adjustment_direction balance
| Burn_Call balance bool

definition dispatch_call ::
    "'e bal_config \<Rightarrow> ('e, 'l) bal_runtime \<Rightarrow> origin \<Rightarrow> 'l bal_call \<Rightarrow> 'e bal_state \<Rightarrow> 'e bal_state" where
  "dispatch_call cfg rt origin call s =
     (case call of
        Transfer_Allow_Death dest v \<Rightarrow> snd (transfer_allow_death cfg rt origin dest v s)
      | Force_Transfer source dest v \<Rightarrow> snd (force_transfer cfg rt origin source dest v s)
      | Transfer_Keep_Alive dest v \<Rightarrow> snd (transfer_keep_alive cfg rt origin dest v s)
      | Transfer_All dest keep_alive \<Rightarrow> snd (transfer_all cfg rt origin dest keep_alive s)
      | Force_Unreserve who v \<Rightarrow> snd (force_unreserve cfg rt origin who v s)
      | Upgrade_Accounts who \<Rightarrow> snd (upgrade_accounts cfg origin who s)
      | Force_Set_Balance who v \<Rightarrow> snd (force_set_balance cfg rt origin who v s)
      | Force_Adjust_Total_Issuance direction delta \<Rightarrow> snd (force_adjust_total_issuance cfg origin direction delta s)
      | Burn_Call v keep_alive \<Rightarrow> snd (burn cfg rt origin v keep_alive s))"

text \<open>What \<open>fungible::Mutate\<close> documents of its \<open>transfer\<close> and \<open>burn_from\<close>: what they take out of circulation
  (the dust of a transfer, the burnt amount) leaves the issuance too, and they never add to it.\<close>

definition takes_only :: "'e bal_config \<Rightarrow> 'e bal_state \<Rightarrow> 'e bal_state \<Rightarrow> bool" where
  "takes_only cfg s s' \<longleftrightarrow> sound_balances cfg s' \<and> TotalIssuance s' \<le> TotalIssuance s"

definition fungible_law :: "'e bal_config \<Rightarrow> ('e, 'l) bal_runtime \<Rightarrow> bool" where
  "fungible_law cfg rt \<longleftrightarrow>
     (\<forall>a b v p s r s'. sound_balances cfg s \<longrightarrow> fungible_transfer rt a b v p s = (Inr r, s') \<longrightarrow> takes_only cfg s s') \<and>
     (\<forall>a v p q f s r s'. sound_balances cfg s \<longrightarrow> fungible_burn_from rt a v p q f s = (Inr r, s') \<longrightarrow> takes_only cfg s s')"

text \<open>Calls that keep issuance and balances in step: not the one that sets the issuance, and no balance is set
  beyond what the type can count.\<close>

fun in_step :: "'l bal_call \<Rightarrow> 'e bal_state \<Rightarrow> bool" where
  "in_step (Force_Adjust_Total_Issuance _ _) s = False"
| "in_step (Force_Set_Balance _ v) s = (unat (TotalIssuance s) + unat v < 2 ^ 128)"
| "in_step _ s = True"

inductive balances_run :: "'e bal_config \<Rightarrow> ('e, 'l) bal_runtime \<Rightarrow> 'e bal_state \<Rightarrow> bool" for cfg rt where
  built: "bal_ok cfg s0 \<Longrightarrow> \<forall>a. account_of cfg s0 a = default_account \<Longrightarrow>
    sum_list (map (unat \<circ> snd) bs) < 2 ^ 128 \<Longrightarrow> balances_genesis_build cfg bs s0 = (Inr (), s) \<Longrightarrow> balances_run cfg rt s"
| called: "balances_run cfg rt s \<Longrightarrow> in_step call s \<Longrightarrow> balances_run cfg rt (dispatch_call cfg rt origin call s)"

section \<open>Every call keeps the balance\<close>

lemma takes_only_refl: "sound_balances cfg s \<Longrightarrow> takes_only cfg s s"
  by (simp add: takes_only_def)

lemma sound_sys:
  assumes "sys s = sys t" "TotalIssuance s = TotalIssuance t"
  shows "sound_balances cfg s = sound_balances cfg t"
  using assms(2) account_of_sys [OF assms(1), of cfg] bal_ok_sys [OF assms(1), of cfg]
  by (simp add: sound_balances_def issued_ok_def holdings_def)

lemma transactional_keeps:
  assumes "P s" and "\<And>x s'. m s = (Inr x, s') \<Longrightarrow> P s'"
  shows "P (snd (transactional m s))"
  using assms by (cases "fst (m s)") (auto simp: transactional_def split: prod.splits)

lemma transfer_and_prove_takes:
  assumes "fungible_law cfg rt" "sound_balances cfg s" "transfer_and_prove cfg rt a b v p s = (Inr u, s')"
  shows "takes_only cfg s s'"
proof -
  obtain r s1 where t: "fungible_transfer rt a b v p s = (Inr r, s1)" "s' = store_transfer_proof cfg a b v s1"
    using assms(3) by (auto simp: transfer_and_prove_def and_then_Inr)
  have sys: "sys s' = sys s1" "TotalIssuance s' = TotalIssuance s1" by (simp_all add: t(2) store_transfer_proof_def)
  have "takes_only cfg s s1" using assms(1,2) t(1) unfolding fungible_law_def by blast
  then show ?thesis using sound_sys [OF sys, of cfg] sys(2) by (simp add: takes_only_def)
qed

lemma upgrade_each_same:
  "good_balances cfg \<Longrightarrow> bal_ok cfg s \<Longrightarrow> same_balances cfg s (snd (upgrade_each cfg who n s))"
proof (induction cfg who n s rule: upgrade_each.induct)
  case (1 cfg count s)
  then show ?case by (simp add: same_balances_def)
next
  case (2 cfg i rest count s)
  obtain u s1 where e: "ensure_upgraded cfg i s = (u, s1)" by force
  then have s: "same_balances cfg s s1"
    using ensure_upgraded_same [of cfg s i] 2(2,3) by (simp add: good_balances_def)
  then have "bal_ok cfg s1" by (simp add: same_balances_def)
  from same_balances_trans [OF s 2(1) [OF e [symmetric] refl 2(2) this]] show ?case by (simp add: e)
qed

lemma same_balances_takes: "same_balances cfg s s' \<Longrightarrow> sound_balances cfg s \<Longrightarrow> takes_only cfg s s'"
  using same_balances_issued [of cfg s s'] store_only_fields [of s s']
  by (simp add: takes_only_def same_balances_def sound_balances_def)

text \<open>A call of a signed account takes only.\<close>

lemma signed_call_takes:
  assumes g: "good_balances cfg" and law: "fungible_law cfg rt" and so: "sound_balances cfg s"
  shows "takes_only cfg s (dispatch_call cfg rt (Signed who) call s)"
proof -
  have ok: "bal_ok cfg s" using so by (simp add: sound_balances_def)
  note keeps = transactional_keeps [where P = "takes_only cfg s" and s = s]
  note tp = transfer_and_prove_takes [OF law so] and self = takes_only_refl [OF so]
  have burnt: "fungible_burn_from rt a v p q f s = (Inr r, s') \<Longrightarrow> takes_only cfg s s'" for a v p q f r s'
    using law so unfolding fungible_law_def by blast
  have upgraded: "takes_only cfg s (snd (upgrade_each cfg l 0 s))" for l
    by (rule same_balances_takes [OF upgrade_each_same [OF g ok] so])
  show ?thesis
  proof (cases call)
    case (Transfer_Allow_Death dest v)
    show ?thesis unfolding dispatch_call_def Transfer_Allow_Death bal_call.case transfer_allow_death_def
      by (rule keeps) (use self tp in \<open>auto simp: and_then_Inr\<close>)
  next
    case (Force_Transfer source dest v)
    show ?thesis unfolding dispatch_call_def Force_Transfer bal_call.case force_transfer_def
      by (rule keeps) (use self in \<open>auto simp: and_then_Inr\<close>)
  next
    case (Transfer_Keep_Alive dest v)
    show ?thesis unfolding dispatch_call_def Transfer_Keep_Alive bal_call.case transfer_keep_alive_def
      by (rule keeps) (use self tp in \<open>auto simp: and_then_Inr\<close>)
  next
    case (Transfer_All dest keep)
    show ?thesis unfolding dispatch_call_def Transfer_All bal_call.case transfer_all_def
      by (rule keeps) (use self tp in \<open>auto simp: and_then_Inr Let_def\<close>)
  next
    case (Force_Unreserve target v)
    show ?thesis unfolding dispatch_call_def Force_Unreserve bal_call.case force_unreserve_def
      by (rule keeps) (use self in \<open>auto simp: and_then_Inr\<close>)
  next
    case (Upgrade_Accounts l)
    show ?thesis unfolding dispatch_call_def Upgrade_Accounts bal_call.case upgrade_accounts_def
      by (rule keeps) (use self upgraded [of l] in \<open>auto simp: and_then_Inr Let_def split: prod.splits if_splits\<close>)
  next
    case (Force_Set_Balance target v)
    show ?thesis unfolding dispatch_call_def Force_Set_Balance bal_call.case force_set_balance_def
      by (rule keeps) (use self in \<open>auto simp: and_then_Inr\<close>)
  next
    case (Force_Adjust_Total_Issuance direction delta)
    show ?thesis unfolding dispatch_call_def Force_Adjust_Total_Issuance bal_call.case force_adjust_total_issuance_def
      by (rule keeps) (use self in \<open>auto simp: and_then_Inr\<close>)
  next
    case (Burn_Call v keep)
    show ?thesis unfolding dispatch_call_def Burn_Call bal_call.case burn_def
      by (rule keeps) (use self burnt in \<open>auto simp: and_then_Inr\<close>)
  qed
qed

text \<open>The calls of the root origin that move or set balances.\<close>

lemma root_call_sound:
  assumes g: "good_balances cfg" and pt: "put_total (sy cfg)" and law: "fungible_law cfg rt"
    and so: "sound_balances cfg s" and "in_step call s"
  shows "sound_balances cfg (dispatch_call cfg rt Root call s)"
proof -
  note keeps = transactional_keeps [where P = "sound_balances cfg" and s = s]
  have tp: "sound_balances cfg s'" if "transfer_and_prove cfg rt a b v p s = (Inr u, s')" for a b v p u s'
    using transfer_and_prove_takes [OF law so that] by (simp add: takes_only_def)
  show ?thesis
  proof (cases call)
    case (Force_Transfer source dest v)
    show ?thesis unfolding dispatch_call_def Force_Transfer bal_call.case force_transfer_def
      by (rule keeps) (use so tp in \<open>auto simp: and_then_Inr\<close>)
  next
    case (Force_Unreserve target v)
    have "sound_balances cfg (snd (unreserve cfg who v s))" for who
      using unreserve_moves [OF g pt so, of who v] by (metis prod.collapse)
    then show ?thesis unfolding dispatch_call_def Force_Unreserve bal_call.case force_unreserve_def
      by (intro keeps so) (auto simp: and_then_Inr)
  next
    case (Force_Set_Balance target v)
    obtain r s' where f: "force_set_balance cfg rt Root target v s = (r, s')" by force
    have "unat (TotalIssuance s) + unat v < 2 ^ 128" using assms(5) Force_Set_Balance by simp
    from force_set_balance_correct [OF g so this f] so show ?thesis
      using f Force_Set_Balance by (auto simp: dispatch_call_def split: sum.splits)
  qed (use so assms(5) in \<open>simp_all add: dispatch_call_def transfer_allow_death_def transfer_keep_alive_def transfer_all_def
      upgrade_accounts_def burn_def ensure_signed_def transactional_def and_then_def lift_res_def\<close>)
qed

lemma unsigned_call_fails: "dispatch_call cfg rt Unsigned call s = s"
  by (cases call) (simp_all add: dispatch_call_def transfer_allow_death_def transfer_keep_alive_def transfer_all_def
      upgrade_accounts_def burn_def force_transfer_def force_unreserve_def force_set_balance_def
      force_adjust_total_issuance_def ensure_signed_def ensure_root_def transactional_def and_then_def lift_res_def)

lemma call_sound:
  assumes "good_balances cfg" "put_total (sy cfg)" "fungible_law cfg rt" "sound_balances cfg s" "in_step call s"
  shows "sound_balances cfg (dispatch_call cfg rt origin call s)"
proof (cases origin)
  case Root
  then show ?thesis using root_call_sound [OF assms] by simp
next
  case (Signed who)
  then show ?thesis using signed_call_takes [OF assms(1,3,4)] by (simp add: takes_only_def)
next
  case Unsigned
  then show ?thesis using assms(4) by (simp only: unsigned_call_fails)
qed

lemma run_sound:
  assumes "good_balances cfg" "put_total (sy cfg)" "fungible_law cfg rt" "balances_run cfg rt s"
  shows "sound_balances cfg s"
  using assms(4)
proof induction
  case (built s0 bs s)
  then show ?case using genesis_build_correct [OF assms(1,2) built] by blast
next
  case (called s call origin)
  then show ?case using call_sound [OF assms(1-3)] by blast
qed

section \<open>Property\<close>


text \<open>A runtime whose burn withdraws and whose transfer withdraws and deposits, and the state after a genesis and
  two calls.\<close>

definition plain_burn :: "'e bal_config \<Rightarrow> account \<Rightarrow> balance \<Rightarrow> ('e, balance) bal" where
  "plain_burn cfg a v s =
     (case withdraw cfg a v 0 AllowDeath s of
        (Inr i, s') \<Rightarrow> (if v = 0 then (Inr 0, s) else (Inr v, drop_negative i s'))
      | (Inl e, s') \<Rightarrow> (Inl e, s))"

definition plain_transfer :: "'e bal_config \<Rightarrow> account \<Rightarrow> account \<Rightarrow> balance \<Rightarrow> ('e, balance) bal" where
  "plain_transfer cfg a b v s =
     (case plain_burn cfg a v s of
        (Inr w, s') \<Rightarrow> (case deposit_creating cfg b v s' of
            (PositiveImbalance w, s'') \<Rightarrow>
              if w = 0 \<or> v < ExistentialDeposit cfg then (Inl (Other []), s) else (Inr v, drop_positive (PositiveImbalance w) s''))
      | (Inl e, s') \<Rightarrow> (Inl e, s))"

definition plain_runtime :: "balance \<Rightarrow> (ref_store, account) bal_runtime" where
  "plain_runtime ed = \<lparr> fungible_transfer = (\<lambda>a b v p. plain_transfer (ref_config ed) a b v),
     fungible_burn_from = (\<lambda>a v p q f. plain_burn (ref_config ed) a v), lookup = Inr \<rparr>"

lemma plain_burn_takes:
  assumes g: "good_balances cfg" and so: "sound_balances cfg s" and r: "plain_burn cfg a v s = (Inr w, s')"
  shows "takes_only cfg s s' \<and> unat (TotalIssuance s') + unat v \<le> unat (TotalIssuance s)"
proof (cases "v = 0")
  case True
  then have "s' = s" using r by (auto simp: plain_burn_def split: prod.splits sum.splits)
  then show ?thesis using so True by (simp add: takes_only_def)
next
  case False
  have ok: "bal_ok cfg s" and i: "issued_ok cfg s" using so by (simp_all add: sound_balances_def)
  obtain n t where t: "withdraw cfg a v 0 AllowDeath s = (Inr n, t)" "s' = drop_negative n t"
    using r False by (auto simp: plain_burn_def split: prod.splits sum.splits)
  obtain d x where e: "old_account cfg s a d" "n = NegativeImbalance v" "unat v \<le> unat (free d)"
      "unat x = unat (free d) - unat v" "mutated cfg a s (d\<lparr> free := x \<rparr>) t"
    using withdraw_effect [OF g ok False t(1)] by blast
  have le: "unat (free d) \<le> unat (TotalIssuance s)"
    using sound_no_overflow [OF so, of a] e(1) by (simp add: old_account_def free_balance_def)
  then have "does_provide cfg (d\<lparr> free := x \<rparr>) \<or> unat (free (d\<lparr> free := x \<rparr>)) \<le> unat (TotalIssuance s)"
    using e(4) le by (intro disjI2) simp
  from mutated_settles_dust [OF e(5) i this e(1)]
  have h: "unat (TotalIssuance t) = holdings cfg t + unat v" using e(3,4) by (simp add: total_nat_def)
  have "unat (TotalIssuance t) \<le> unat (TotalIssuance s)"
    using e(5) by (auto simp: mutated_def mach_nat split: if_splits)
  then show ?thesis
    using h e(5) by (simp add: t(2) e(2) takes_only_def sound_balances_def issued_ok_def drop_negative_effect
        mutated_def word_le_nat_alt)
qed

lemma plain_transfer_takes:
  assumes g: "good_balances cfg" and so: "sound_balances cfg s" and r: "plain_transfer cfg a b v s = (Inr w, s')"
  shows "takes_only cfg s s'"
proof -
  obtain u t n s2 where t: "plain_burn cfg a v s = (Inr u, t)" "deposit_creating cfg b v t = (PositiveImbalance n, s2)"
      "n \<noteq> 0" "ExistentialDeposit cfg \<le> v" "s' = drop_positive (PositiveImbalance n) s2"
    using r by (auto simp: plain_transfer_def split: prod.splits sum.splits positive_imbalance.splits if_splits simp: not_less)
  have b: "takes_only cfg s t" "unat (TotalIssuance t) + unat v \<le> unat (TotalIssuance s)"
    using plain_burn_takes [OF g so t(1)] by simp_all
  then have so1: "sound_balances cfg t" by (simp add: takes_only_def)
  have ok: "bal_ok cfg t" and i: "issued_ok cfg t" using so1 by (simp_all add: sound_balances_def)
  obtain d x where e: "old_account cfg t b d" "n = v" "unat x = unat (free d) + unat v"
      "mutated cfg b t (d\<lparr> free := x \<rparr>) s2"
    using deposit_creating_effect [OF g ok t(2,3)] by blast
  have "does_provide cfg (d\<lparr> free := x \<rparr>)" using t(4) e(3) by (simp add: does_provide_def word_le_nat_alt)
  then have "unat (TotalIssuance s2) + unat v = holdings cfg s2"
    using mutated_settles_dust [OF e(4) i _ e(1)] e(3) by (simp add: total_nat_def)
  moreover have "unat (TotalIssuance s2) \<le> unat (TotalIssuance t)"
    using e(4) by (auto simp: mutated_def mach_nat split: if_splits)
  ultimately show ?thesis
    using b(2) e(4) unat_le_max [of "TotalIssuance s"]
    by (simp add: t(5) e(2) takes_only_def sound_balances_def issued_ok_def drop_positive_effect mutated_def word_le_nat_alt)
qed

lemma plain_laws: "ed \<noteq> 0 \<Longrightarrow> fungible_law (ref_config ed) (plain_runtime ed)"
  using plain_burn_takes [OF ref_good, of ed] plain_transfer_takes [OF ref_good, of ed]
  by (simp add: fungible_law_def plain_runtime_def)


end
