(* ===== verification/Reversible.thy ===== *)
theory Reversible
  imports Frame
begin

text \<open>
  The reversible transfers pallet (\<open>pallets/reversible-transfers/src/lib.rs\<close>): accounts that opt
  into a delay, the pending transfers with their count of identical ones, and the dispatchables that
  schedule, execute and cancel them. The holds of the balances pallet, the scheduler, the preimages
  and the dispatch of a call are the parameters of \<open>rev_ops\<close>, computations on a state \<open>'x\<close> the
  pallet does not look into; hashing is a parameter too. A dispatchable runs in a storage layer, so
  an error takes back its writes, also those to \<open>'x\<close>.
\<close>

section \<open>Types and storage\<close>

datatype delay_policy = Explicit | Intercept

record reversible_account_data =
  explicit_reverser :: "account option"
  delay :: block_number
  policy :: delay_policy

definition default_account_data :: reversible_account_data where
  "default_account_data = \<lparr> explicit_reverser = None, delay = 0, policy = Explicit \<rparr>"

text \<open>The two calls the pallet builds: \<open>pallet_balances::Call::transfer_keep_alive\<close>, whose
  destination is an address \<open>'l\<close> to look up, and its own \<open>execute_transfer\<close>.\<close>

datatype 'l runtime_call = Transfer_Keep_Alive 'l balance | Execute_Transfer hash256

record 'b pending_transfer =
  pt_who :: account
  pt_call :: 'b
  pt_amount :: balance
  pt_count :: u32

datatype rev_event =
  ReversibilitySet account reversible_account_data
| TransactionScheduled account hash256 block_number
| TransactionCancelled account hash256
| TransactionExecuted hash256 "dispatch_error + unit"

record ('x, 'b) rev_state =
  ReversibleAccounts :: "account \<Rightarrow> reversible_account_data option"
  PendingTransfers :: "hash256 \<Rightarrow> 'b pending_transfer option"
  AccountPendingIndex :: "account \<Rightarrow> u32"
  rev_env :: 'x
  rev_events :: "rev_event list"

datatype restriction = Restrict_Free | Restrict_OnHold

type_synonym ('x, 'a) env_comp = "('x, dispatch_error, 'a) comp"

record ('x, 'l, 'b) rev_ops =
  MaxPendingPerAccount :: u32
  DefaultDelay :: block_number
  MinDelayPeriod :: block_number
  pallet_account :: account
  op_hold :: "account \<Rightarrow> balance \<Rightarrow> ('x, unit) env_comp"
  op_release :: "account \<Rightarrow> balance \<Rightarrow> precision \<Rightarrow> ('x, balance) env_comp"
  op_transfer_on_hold ::
    "account \<Rightarrow> account \<Rightarrow> balance \<Rightarrow> precision \<Rightarrow> restriction \<Rightarrow> fortitude \<Rightarrow> ('x, balance) env_comp"
  op_dispatch :: "'l runtime_call \<Rightarrow> account \<Rightarrow> ('x, unit) env_comp"
  op_schedule_named :: "hash256 \<Rightarrow> block_number \<Rightarrow> account \<Rightarrow> 'b \<Rightarrow> ('x, unit) env_comp"
  op_cancel_named :: "hash256 \<Rightarrow> ('x, unit) env_comp"
  op_bound :: "'l runtime_call \<Rightarrow> ('x, 'b) env_comp"
  op_realize :: "'b \<Rightarrow> ('x, 'l runtime_call) env_comp"
  current_block_number :: "'x \<Rightarrow> block_number"
  tx_hash :: "account \<Rightarrow> 'l runtime_call \<Rightarrow> hash256"
  schedule_hash :: "hash256 \<Rightarrow> u32 \<Rightarrow> hash256 option"

type_synonym ('x, 'b, 'a) rev = "(('x, 'b) rev_state, dispatch_error, 'a) comp"

definition rev_event :: "rev_event \<Rightarrow> ('x, 'b) rev_state \<Rightarrow> ('x, 'b) rev_state" where
  "rev_event ev s = s\<lparr> rev_events := rev_events s @ [ev] \<rparr>"

text \<open>A computation of the environment inside the pallet, and one whose error is replaced.\<close>

definition on_env :: "('x, 'a) env_comp \<Rightarrow> ('x, 'b, 'a) rev" where
  "on_env m s = (case m (rev_env s) of (r, x) \<Rightarrow> (r, s\<lparr> rev_env := x \<rparr>))"

definition or_error :: "dispatch_error \<Rightarrow> ('s, dispatch_error, 'a) comp \<Rightarrow> ('s, dispatch_error, 'a) comp" where
  "or_error e m s = (case m s of (Inl _, s') \<Rightarrow> (Inl e, s') | (Inr x, s') \<Rightarrow> (Inr x, s'))"

definition ok_or :: "dispatch_error \<Rightarrow> 'a option \<Rightarrow> dispatch_error + 'a" where
  "ok_or e x = (case x of None \<Rightarrow> Inl e | Some y \<Rightarrow> Inr y)"

section \<open>Operations\<close>

definition is_reversible :: "('x, 'b) rev_state \<Rightarrow> account \<Rightarrow> reversible_account_data option" where
  "is_reversible s who = ReversibleAccounts s who"

definition set_reversibility ::
    "('x, 'l, 'b) rev_ops \<Rightarrow> origin \<Rightarrow> block_number option \<Rightarrow> delay_policy \<Rightarrow> account option \<Rightarrow> ('x, 'b, unit) rev" where
  "set_reversibility ops origin maybe_delay pol reverser =
     transactional
       (and_then (lift_res (ensure_signed origin)) (\<lambda>who s.
          and_then (ensure (ReversibleAccounts s who = None) (Reversible_Error AccountAlreadyReversible)) (\<lambda>_.
          and_then (ensure (reverser \<noteq> Some who) (Reversible_Error ExplicitReverserCanNotBeSelf)) (\<lambda>_.
            let d = (case maybe_delay of Some d \<Rightarrow> d | None \<Rightarrow> DefaultDelay ops);
                data = \<lparr> explicit_reverser = reverser, delay = d, policy = pol \<rparr>
            in and_then (ensure (MinDelayPeriod ops \<le> d) (Reversible_Error DelayTooShort)) (\<lambda>_.
               and_then (update_st (\<lambda>s. s\<lparr> ReversibleAccounts := (ReversibleAccounts s)(who \<mapsto> data) \<rparr>)) (\<lambda>_.
               update_st (rev_event (ReversibilitySet who data)))))) s))"

definition make_schedule_id :: "('x, 'l, 'b) rev_ops \<Rightarrow> hash256 \<Rightarrow> u32 \<Rightarrow> dispatch_error + hash256" where
  "make_schedule_id ops tx_id nonce = ok_or (Reversible_Error InvalidCall) (schedule_hash ops tx_id nonce)"

text \<open>One identical transfer less.\<close>

definition drop_one_pending ::
    "hash256 \<Rightarrow> 'b pending_transfer \<Rightarrow> ('x, 'b) rev_state \<Rightarrow> ('x, 'b) rev_state" where
  "drop_one_pending tx_id p s =
     s\<lparr> PendingTransfers := (PendingTransfers s)(tx_id :=
          if 1 < pt_count p then Some (p\<lparr> pt_count := sat_sub (pt_count p) 1 \<rparr>) else None) \<rparr>"

definition decrement_index :: "account \<Rightarrow> ('x, 'b) rev_state \<Rightarrow> ('x, 'b) rev_state" where
  "decrement_index who s =
     s\<lparr> AccountPendingIndex := (AccountPendingIndex s)(who := sat_sub (AccountPendingIndex s who) 1) \<rparr>"

text \<open>The result of the dispatched call is returned at the end: an error there makes the whole
  dispatchable fail.\<close>

definition do_execute_transfer :: "('x, 'l, 'b) rev_ops \<Rightarrow> hash256 \<Rightarrow> ('x, 'b, unit) rev" where
  "do_execute_transfer ops tx_id s =
     and_then (lift_res (ok_or (Reversible_Error PendingTxNotFound) (PendingTransfers s tx_id))) (\<lambda>pending.
     and_then (or_error (Reversible_Error CallDecodingFailed) (on_env (op_realize ops (pt_call pending)))) (\<lambda>call.
     and_then (on_env (op_release ops (pt_who pending) (pt_amount pending) Exact)) (\<lambda>_ s1.
       case on_env (op_dispatch ops call (pt_who pending)) s1 of
         (post_info, s2) \<Rightarrow>
           (post_info,
            rev_event (TransactionExecuted tx_id post_info)
              (drop_one_pending tx_id pending (decrement_index (pt_who pending) s2)))))) s"

definition execute_transfer :: "('x, 'l, 'b) rev_ops \<Rightarrow> origin \<Rightarrow> hash256 \<Rightarrow> ('x, 'b, unit) rev" where
  "execute_transfer ops origin tx_id =
     transactional
       (and_then (lift_res (ensure_signed origin)) (\<lambda>who.
        and_then (ensure (who = pallet_account ops) (Reversible_Error InvalidSchedulerOrigin)) (\<lambda>_.
        do_execute_transfer ops tx_id)))"

definition increment_index :: "('x, 'l, 'b) rev_ops \<Rightarrow> account \<Rightarrow> ('x, 'b, unit) rev" where
  "increment_index ops who s =
     and_then (ensure (AccountPendingIndex s who < MaxPendingPerAccount ops) (Reversible_Error TooManyPendingTransactions))
       (\<lambda>_. update_st (\<lambda>s. s\<lparr> AccountPendingIndex :=
              (AccountPendingIndex s)(who := sat_add (AccountPendingIndex s who) 1) \<rparr>)) s"

definition new_pending ::
    "('x, 'b) rev_state \<Rightarrow> hash256 \<Rightarrow> account \<Rightarrow> 'b \<Rightarrow> balance \<Rightarrow> 'b pending_transfer" where
  "new_pending s tx_id who call amount =
     (case PendingTransfers s tx_id of
        Some pending \<Rightarrow> \<lparr> pt_who = who, pt_call = call, pt_amount = amount, pt_count = sat_add (pt_count pending) 1 \<rparr>
      | None \<Rightarrow> \<lparr> pt_who = who, pt_call = call, pt_amount = amount, pt_count = 1 \<rparr>)"

definition do_schedule_transfer ::
    "('x, 'l, 'b) rev_ops \<Rightarrow> origin \<Rightarrow> 'l \<Rightarrow> balance \<Rightarrow> ('x, 'b, unit) rev" where
  "do_schedule_transfer ops origin dest amount =
     and_then (lift_res (ensure_signed origin)) (\<lambda>who s.
       and_then (lift_res (ok_or (Reversible_Error AccountNotReversible) (ReversibleAccounts s who))) (\<lambda>data.
       and_then (ensure (explicit_reverser data \<noteq> Some who) (Reversible_Error InvalidReverser)) (\<lambda>_.
         let transfer_call = Transfer_Keep_Alive dest amount;
             tx_id = tx_hash ops who transfer_call
         in and_then (increment_index ops who) (\<lambda>_.
            and_then (read_st (\<lambda>s. sat_add (current_block_number ops (rev_env s)) (delay data))) (\<lambda>dispatch_time.
            and_then (on_env (op_bound ops transfer_call)) (\<lambda>call.
            and_then (read_st (\<lambda>s. new_pending s tx_id who call amount)) (\<lambda>pending.
            and_then (lift_res (make_schedule_id ops tx_id (pt_count pending))) (\<lambda>schedule_id.
            and_then (update_st (\<lambda>s. s\<lparr> PendingTransfers := (PendingTransfers s)(tx_id \<mapsto> pending) \<rparr>)) (\<lambda>_.
            and_then (on_env (op_bound ops (Execute_Transfer tx_id))) (\<lambda>bounded_call.
            and_then (or_error (Reversible_Error SchedulingFailed)
                (on_env (op_schedule_named ops schedule_id dispatch_time (pallet_account ops) bounded_call))) (\<lambda>_.
            and_then (on_env (op_hold ops who amount)) (\<lambda>_.
            update_st (rev_event (TransactionScheduled who tx_id dispatch_time))))))))))))) s)"

definition schedule_transfer :: "('x, 'l, 'b) rev_ops \<Rightarrow> origin \<Rightarrow> 'l \<Rightarrow> balance \<Rightarrow> ('x, 'b, unit) rev" where
  "schedule_transfer ops origin dest amount = transactional (do_schedule_transfer ops origin dest amount)"

definition cancel_transfer :: "('x, 'l, 'b) rev_ops \<Rightarrow> account \<Rightarrow> hash256 \<Rightarrow> ('x, 'b, unit) rev" where
  "cancel_transfer ops who tx_id s =
     and_then (lift_res (ok_or (Reversible_Error PendingTxNotFound) (PendingTransfers s tx_id))) (\<lambda>pending.
     and_then (lift_res (ok_or (Reversible_Error AccountNotReversible) (ReversibleAccounts s (pt_who pending)))) (\<lambda>data.
     and_then (case explicit_reverser data of
         Some reverser \<Rightarrow> ensure (who = reverser) (Reversible_Error InvalidReverser)
       | None \<Rightarrow> ensure (pt_who pending = who) (Reversible_Error NotOwner)) (\<lambda>_.
     and_then (update_st (drop_one_pending tx_id pending)) (\<lambda>_.
     and_then (update_st (decrement_index (pt_who pending))) (\<lambda>_.
     and_then (lift_res (make_schedule_id ops tx_id (pt_count pending))) (\<lambda>schedule_id.
     and_then (or_error (Reversible_Error CancellationFailed) (on_env (op_cancel_named ops schedule_id))) (\<lambda>_.
     and_then (case explicit_reverser data of
         Some reverser \<Rightarrow> on_env (op_transfer_on_hold ops (pt_who pending) reverser (pt_amount pending) Exact
                             Restrict_Free Polite)
       | None \<Rightarrow> on_env (op_release ops (pt_who pending) (pt_amount pending) Exact)) (\<lambda>_.
     update_st (rev_event (TransactionCancelled who tx_id)))))))))) s"

definition cancel :: "('x, 'l, 'b) rev_ops \<Rightarrow> origin \<Rightarrow> hash256 \<Rightarrow> ('x, 'b, unit) rev" where
  "cancel ops origin tx_id =
     transactional (and_then (lift_res (ensure_signed origin)) (\<lambda>who. cancel_transfer ops who tx_id))"

definition integrity_test :: "('x, 'l, 'b) rev_ops \<Rightarrow> bool" where
  "integrity_test ops \<longleftrightarrow> 0 < MinDelayPeriod ops \<and> MinDelayPeriod ops \<le> DefaultDelay ops"

text \<open>An initial account below the minimum delay is left out.\<close>

fun reversible_genesis ::
    "('x, 'l, 'b) rev_ops \<Rightarrow> (account \<times> block_number) list \<Rightarrow> ('x, 'b) rev_state \<Rightarrow> ('x, 'b) rev_state" where
  "reversible_genesis ops [] s = s"
| "reversible_genesis ops ((who, d) # rest) s =
     reversible_genesis ops rest
       (if MinDelayPeriod ops \<le> d
        then s\<lparr> ReversibleAccounts := (ReversibleAccounts s)(who \<mapsto>
                  \<lparr> explicit_reverser = None, delay = d, policy = Explicit \<rparr>) \<rparr>
        else s)"

text \<open>The dispatchables as one step of the pallet.\<close>

datatype 'l rev_call =
  Call_Set_Reversibility "block_number option" delay_policy "account option"
| Call_Cancel hash256
| Call_Execute hash256
| Call_Schedule 'l balance

fun run_rev_call :: "('x, 'l, 'b) rev_ops \<Rightarrow> origin \<Rightarrow> 'l rev_call \<Rightarrow> ('x, 'b, unit) rev" where
  "run_rev_call ops origin (Call_Set_Reversibility d pol reverser) = set_reversibility ops origin d pol reverser"
| "run_rev_call ops origin (Call_Cancel tx_id) = cancel ops origin tx_id"
| "run_rev_call ops origin (Call_Execute tx_id) = execute_transfer ops origin tx_id"
| "run_rev_call ops origin (Call_Schedule dest amount) = schedule_transfer ops origin dest amount"

lemma run_rev_call_error:
  "run_rev_call ops origin c s = (Inl e, s') \<Longrightarrow> s' = s"
  by (cases c) (auto simp: set_reversibility_def cancel_def execute_transfer_def schedule_transfer_def transactional_Inl)

end
