(* ===== verification/ReversibleLaw.thy ===== *)
theory ReversibleLaw
  imports Reversible
begin

text \<open>
  The properties of the reversible transfers: what is documented of the parameters (\<open>escrow_law\<close>),
  the invariant that the funds on hold and the pending index are exactly the pending transfers, the
  permanence of a reversibility setting, the authority to cancel, and the two ways in which a pending
  transfer is lost.
\<close>

section \<open>The environment\<close>

text \<open>What is seen of the environment: the amount an account has on hold for scheduled transfers,
  the tasks of the scheduler by their name, the call a bounded call stands for, and whether the
  environment is consistent.\<close>

record ('x, 'l, 'b) rev_view =
  held :: "'x \<Rightarrow> account \<Rightarrow> nat"
  task :: "'x \<Rightarrow> hash256 \<Rightarrow> bool"
  call_of :: "'b \<Rightarrow> 'l runtime_call"
  env_ok :: "'x \<Rightarrow> bool"

definition same_view :: "('x, 'l, 'b) rev_view \<Rightarrow> 'x \<Rightarrow> 'x \<Rightarrow> bool" where
  "same_view v x x' \<longleftrightarrow> held v x' = held v x \<and> task v x' = task v x \<and> env_ok v x'"

text \<open>The environment keeps its holds and its tasks, as long as it is consistent, and stays so.\<close>

definition holds_law :: "('x, 'l, 'b) rev_ops \<Rightarrow> ('x, 'l, 'b) rev_view \<Rightarrow> bool" where
  "holds_law ops v \<longleftrightarrow>
     (\<forall>who a x u x'. env_ok v x \<longrightarrow> op_hold ops who a x = (Inr u, x') \<longrightarrow>
        held v x' = (held v x)(who := held v x who + unat a) \<and> task v x' = task v x \<and> env_ok v x') \<and>
     (\<forall>who a x u x'. env_ok v x \<longrightarrow> op_release ops who a Exact x = (Inr u, x') \<longrightarrow>
        unat a \<le> held v x who \<and> held v x' = (held v x)(who := held v x who - unat a) \<and> task v x' = task v x \<and> env_ok v x') \<and>
     (\<forall>who dest a x u x'. env_ok v x \<longrightarrow> op_transfer_on_hold ops who dest a Exact Restrict_Free Polite x = (Inr u, x') \<longrightarrow>
        unat a \<le> held v x who \<and> held v x' = (held v x)(who := held v x who - unat a) \<and> task v x' = task v x \<and> env_ok v x') \<and>
     (\<forall>l a who x u x'. env_ok v x \<longrightarrow> op_dispatch ops (Transfer_Keep_Alive l a) who x = (Inr u, x') \<longrightarrow> same_view v x x')"

definition scheduler_law :: "('x, 'l, 'b) rev_ops \<Rightarrow> ('x, 'l, 'b) rev_view \<Rightarrow> bool" where
  "scheduler_law ops v \<longleftrightarrow>
     (\<forall>k t acc c x u x'. env_ok v x \<longrightarrow> op_schedule_named ops k t acc c x = (Inr u, x') \<longrightarrow>
        \<not> task v x k \<and> task v x' = (task v x)(k := True) \<and> held v x' = held v x \<and> env_ok v x') \<and>
     (\<forall>k x u x'. env_ok v x \<longrightarrow> op_cancel_named ops k x = (Inr u, x') \<longrightarrow>
        task v x k \<and> task v x' = (task v x)(k := False) \<and> held v x' = held v x \<and> env_ok v x') \<and>
     (\<forall>c x b x'. env_ok v x \<longrightarrow> op_bound ops c x = (Inr b, x') \<longrightarrow> call_of v b = c \<and> same_view v x x') \<and>
     (\<forall>b x c x'. env_ok v x \<longrightarrow> op_realize ops b x = (Inr c, x') \<longrightarrow> c = call_of v b \<and> same_view v x x')"

definition escrow_law :: "('x, 'l, 'b) rev_ops \<Rightarrow> ('x, 'l, 'b) rev_view \<Rightarrow> bool" where
  "escrow_law ops v \<longleftrightarrow> holds_law ops v \<and> scheduler_law ops v"

lemma escrowD:
  assumes "escrow_law ops v" "env_ok v x"
  shows "op_hold ops who a x = (Inr u, x') \<Longrightarrow>
      held v x' = (held v x)(who := held v x who + unat a) \<and> task v x' = task v x \<and> env_ok v x'"
    "op_release ops who a Exact x = (Inr w, x') \<Longrightarrow>
      unat a \<le> held v x who \<and> held v x' = (held v x)(who := held v x who - unat a) \<and> task v x' = task v x \<and> env_ok v x'"
    "op_transfer_on_hold ops who dest a Exact Restrict_Free Polite x = (Inr w, x') \<Longrightarrow>
      unat a \<le> held v x who \<and> held v x' = (held v x)(who := held v x who - unat a) \<and> task v x' = task v x \<and> env_ok v x'"
    "op_dispatch ops (Transfer_Keep_Alive l a) who x = (Inr u, x') \<Longrightarrow> same_view v x x'"
    "op_schedule_named ops k t acc b x = (Inr u, x') \<Longrightarrow>
      \<not> task v x k \<and> task v x' = (task v x)(k := True) \<and> held v x' = held v x \<and> env_ok v x'"
    "op_cancel_named ops k x = (Inr u, x') \<Longrightarrow>
      task v x k \<and> task v x' = (task v x)(k := False) \<and> held v x' = held v x \<and> env_ok v x'"
    "op_bound ops c x = (Inr b, x') \<Longrightarrow> call_of v b = c \<and> same_view v x x'"
    "op_realize ops b x = (Inr c, x') \<Longrightarrow> c = call_of v b \<and> same_view v x x'"
  using assms unfolding escrow_law_def holds_law_def scheduler_law_def by metis+

section \<open>Sums over the pending transfers\<close>

definition of_pending :: "('b pending_transfer \<Rightarrow> nat) \<Rightarrow> 'b pending_transfer option \<Rightarrow> nat" where
  "of_pending f m = (case m of None \<Rightarrow> 0 | Some p \<Rightarrow> f p)"

definition pending_sum :: "('b pending_transfer \<Rightarrow> nat) \<Rightarrow> (hash256 \<Rightarrow> 'b pending_transfer option) \<Rightarrow> nat" where
  "pending_sum f pend = (\<Sum>tx\<in>UNIV. of_pending f (pend tx))"

lemma of_pending_simps [simp]: "of_pending f None = 0" "of_pending f (Some p) = f p"
  by (simp_all add: of_pending_def)

lemma pending_sum_upd:
  "pending_sum f (pend(tx := m)) + of_pending f (pend tx) = pending_sum f pend + of_pending f m"
proof -
  have e: "(\<lambda>t. of_pending f ((pend(tx := m)) t)) = (\<lambda>t. of_pending f (pend t))(tx := of_pending f m)" by auto
  show ?thesis
    unfolding pending_sum_def e by (rule sum_fun_upd)
qed

lemma pending_sum_ge: "of_pending f (pend tx) \<le> pending_sum f pend"
  unfolding pending_sum_def by (rule member_le_sum) auto

definition owed :: "account \<Rightarrow> 'b pending_transfer \<Rightarrow> nat" where
  "owed a p = (if pt_who p = a then unat (pt_count p) * unat (pt_amount p) else 0)"

definition counted :: "account \<Rightarrow> 'b pending_transfer \<Rightarrow> nat" where
  "counted a p = (if pt_who p = a then unat (pt_count p) else 0)"

section \<open>The invariant\<close>

text \<open>\<open>used\<close> is the set of transfers that are ever scheduled, among which the hash is collision
  free.\<close>

definition pending_wf ::
    "('x, 'l, 'b) rev_ops \<Rightarrow> ('x, 'l, 'b) rev_view \<Rightarrow> (account \<times> 'l runtime_call) set \<Rightarrow> hash256
      \<Rightarrow> 'b pending_transfer \<Rightarrow> bool" where
  "pending_wf ops v used tx p \<longleftrightarrow> 0 < pt_count p \<and> tx = tx_hash ops (pt_who p) (call_of v (pt_call p)) \<and>
     (pt_who p, call_of v (pt_call p)) \<in> used \<and> (\<exists>l. call_of v (pt_call p) = Transfer_Keep_Alive l (pt_amount p))"

definition rev_inv ::
    "('x, 'l, 'b) rev_ops \<Rightarrow> ('x, 'l, 'b) rev_view \<Rightarrow> (account \<times> 'l runtime_call) set \<Rightarrow> ('x, 'b) rev_state \<Rightarrow> bool" where
  "rev_inv ops v used s \<longleftrightarrow>
     (\<forall>tx p. PendingTransfers s tx = Some p \<longrightarrow> pending_wf ops v used tx p) \<and>
     env_ok v (rev_env s) \<and>
     (\<forall>a. held v (rev_env s) a = pending_sum (owed a) (PendingTransfers s)) \<and>
     (\<forall>a. unat (AccountPendingIndex s a) = pending_sum (counted a) (PendingTransfers s)) \<and>
     (\<forall>a. AccountPendingIndex s a \<le> MaxPendingPerAccount ops)"

definition hash_ok :: "('x, 'l, 'b) rev_ops \<Rightarrow> (account \<times> 'l runtime_call) set \<Rightarrow> bool" where
  "hash_ok ops used \<longleftrightarrow> inj_on (\<lambda>(w, c). tx_hash ops w c) used"

lemma on_env_Inr: "on_env m s = (Inr y, s') \<longleftrightarrow> (\<exists>x. m (rev_env s) = (Inr y, x) \<and> s' = s\<lparr> rev_env := x \<rparr>)"
  by (auto simp: on_env_def split: prod.splits)

lemma or_error_Inr: "or_error e m s = (Inr y, s') \<longleftrightarrow> m s = (Inr y, s')"
  by (auto simp: or_error_def split: prod.splits sum.splits)

lemma or_error_Inl: "or_error e m s = (Inl e', s') \<longleftrightarrow> e' = e \<and> (\<exists>d. m s = (Inl d, s'))"
  by (auto simp: or_error_def split: prod.splits sum.splits)

lemma ok_or_simps [simp]: "ok_or e m = Inr y \<longleftrightarrow> m = Some y" "ok_or e m = Inl e' \<longleftrightarrow> m = None \<and> e' = e"
  by (auto simp: ok_or_def split: option.splits)

lemmas rev_results = comp_results on_env_Inr or_error_Inr

subsection \<open>Taking one pending transfer away\<close>

text \<open>The state after a cancellation or an execution, apart from \<open>held\<close> and the events.\<close>

definition one_less :: "hash256 \<Rightarrow> 'b pending_transfer \<Rightarrow> ('x, 'b) rev_state \<Rightarrow> ('x, 'b) rev_state \<Rightarrow> bool" where
  "one_less tx p s s' \<longleftrightarrow>
     PendingTransfers s' = (PendingTransfers s)(tx :=
       if 1 < pt_count p then Some (p\<lparr> pt_count := pt_count p - 1 \<rparr>) else None) \<and>
     AccountPendingIndex s' = (AccountPendingIndex s)(pt_who p := sat_sub (AccountPendingIndex s (pt_who p)) 1) \<and>
     ReversibleAccounts s' = ReversibleAccounts s"

lemma u32_pred: "1 < c \<Longrightarrow> sat_sub c 1 = c - 1 \<and> unat (c - 1) = unat c - 1 \<and> 0 < c - 1" for c :: u32
proof -
  assume c: "1 < c"
  have le: "1 \<le> c" using c by simp
  have "unat (c - 1) = unat c - 1" by (simp add: unat_minus_le [OF le])
  moreover have "1 < unat c" using c by (simp add: word_less_nat_alt)
  ultimately show ?thesis using le by (simp add: sat_sub_def word_less_nat_alt)
qed

lemma one_less_sums:
  assumes p: "PendingTransfers s tx = Some p" "0 < pt_count p" and o: "one_less tx p s s'"
  shows "pending_sum (counted a) (PendingTransfers s') + (if a = pt_who p then 1 else 0) =
      pending_sum (counted a) (PendingTransfers s)"
    "pending_sum (owed a) (PendingTransfers s') + (if a = pt_who p then unat (pt_amount p) else 0) =
      pending_sum (owed a) (PendingTransfers s)"
proof -
  let ?m = "if 1 < pt_count p then Some (p\<lparr> pt_count := pt_count p - 1 \<rparr>) else None"
  have pend: "PendingTransfers s' = (PendingTransfers s)(tx := ?m)" using o by (simp add: one_less_def)
  have c: "of_pending (counted a) ?m + (if a = pt_who p then 1 else 0) = counted a p \<and>
      of_pending (owed a) ?m + (if a = pt_who p then unat (pt_amount p) else 0) = owed a p"
  proof (cases "1 < pt_count p")
    case True
    have "unat (pt_count p) = Suc (unat (pt_count p - 1))"
      using u32_pred [OF True] True by (simp add: word_less_nat_alt)
    then show ?thesis using True by (simp add: counted_def owed_def)
  next
    case False
    then have "unat (pt_count p) = 1" using p(2) by (simp add: word_less_nat_alt)
    then show ?thesis using False by (simp add: counted_def owed_def)
  qed
  show "pending_sum (counted a) (PendingTransfers s') + (if a = pt_who p then 1 else 0) =
      pending_sum (counted a) (PendingTransfers s)"
    using pending_sum_upd [of "counted a" "PendingTransfers s" tx ?m] c p(1) unfolding pend by simp
  show "pending_sum (owed a) (PendingTransfers s') + (if a = pt_who p then unat (pt_amount p) else 0) =
      pending_sum (owed a) (PendingTransfers s)"
    using pending_sum_upd [of "owed a" "PendingTransfers s" tx ?m] c p(1) unfolding pend by simp
qed

lemma one_less_inv:
  assumes i: "rev_inv ops v used s" and p: "PendingTransfers s tx = Some p" and o: "one_less tx p s s'"
    and h: "held v (rev_env s') = (held v (rev_env s))(pt_who p := held v (rev_env s) (pt_who p) - unat (pt_amount p))"
    and ok: "env_ok v (rev_env s')"
  shows "rev_inv ops v used s'"
proof -
  have wf: "pending_wf ops v used tx p" using i p by (simp add: rev_inv_def)
  then have c0: "0 < pt_count p" by (simp add: pending_wf_def)
  note sums = one_less_sums [OF p c0 o]
  have idx: "unat (AccountPendingIndex s a) = pending_sum (counted a) (PendingTransfers s)"
    and hld: "held v (rev_env s) a = pending_sum (owed a) (PendingTransfers s)"
    and mx: "AccountPendingIndex s a \<le> MaxPendingPerAccount ops" for a
    using i by (simp_all add: rev_inv_def)
  have idx': "unat (AccountPendingIndex s' a) = pending_sum (counted a) (PendingTransfers s')" for a
    using o sums(1) [of a] idx [of a] by (auto simp: one_less_def mach_nat split: if_splits)
  have "held v (rev_env s') a = pending_sum (owed a) (PendingTransfers s')" for a
    using h sums(2) [of a] hld [of a] by (auto split: if_splits)
  moreover have "AccountPendingIndex s' a \<le> MaxPendingPerAccount ops" for a
  proof -
    have "AccountPendingIndex s' a \<le> AccountPendingIndex s a" using o by (auto simp: one_less_def sat_sub_le)
    then show ?thesis using mx [of a] by (rule order_trans)
  qed
  moreover have "pending_wf ops v used t q" if "PendingTransfers s' t = Some q" for t q
  proof (cases "t = tx")
    case True
    then have "q = p\<lparr> pt_count := pt_count p - 1 \<rparr>" "1 < pt_count p"
      using that o by (auto simp: one_less_def split: if_splits)
    then show ?thesis using wf u32_pred True by (simp add: pending_wf_def)
  next
    case False
    then show ?thesis using that o i by (simp add: one_less_def rev_inv_def)
  qed
  ultimately show ?thesis using idx' ok by (simp add: rev_inv_def)
qed

section \<open>The dispatchables\<close>

lemma new_pending_more [simp]:
  "new_pending (s\<lparr> AccountPendingIndex := ix \<rparr>) = new_pending s" "new_pending (s\<lparr> rev_env := x \<rparr>) = new_pending s"
  by (intro ext, simp add: new_pending_def)+

lemma after_result: "(case x of (r, s2) \<Rightarrow> (r, f r s2)) = (Inr y, s') \<longleftrightarrow> (\<exists>s2. x = (Inr y, s2) \<and> s' = f (Inr y) s2)"
  by (auto split: prod.splits)

lemma rev_invD: "rev_inv ops v used s \<Longrightarrow> PendingTransfers s tx = Some p \<Longrightarrow> pending_wf ops v used tx p"
  by (simp add: rev_inv_def)

lemma rev_inv_ok: "rev_inv ops v used s \<Longrightarrow> env_ok v (rev_env s)"
  by (simp add: rev_inv_def)

lemma schedule_effect:
  assumes law: "escrow_law ops v" and ok: "env_ok v (rev_env s)" and r: "schedule_transfer ops origin dest amount s = (Inr u, s')"
  obtains who data tx p k x where "origin = Signed who" "ReversibleAccounts s who = Some data"
    "explicit_reverser data \<noteq> Some who" "tx = tx_hash ops who (Transfer_Keep_Alive dest amount)"
    "AccountPendingIndex s who < MaxPendingPerAccount ops"
    "pt_who p = who" "call_of v (pt_call p) = Transfer_Keep_Alive dest amount" "pt_amount p = amount"
    "pt_count p = (case PendingTransfers s tx of None \<Rightarrow> 1 | Some q \<Rightarrow> sat_add (pt_count q) 1)"
    "schedule_hash ops tx (pt_count p) = Some k" "\<not> task v (rev_env s) k"
    "PendingTransfers s' = (PendingTransfers s)(tx \<mapsto> p)"
    "AccountPendingIndex s' = (AccountPendingIndex s)(who := sat_add (AccountPendingIndex s who) 1)"
    "ReversibleAccounts s' = ReversibleAccounts s"
    "held v (rev_env s') = (held v (rev_env s))(who := held v (rev_env s) who + unat amount)"
    "task v (rev_env s') = (task v (rev_env s))(k := True)" "env_ok v (rev_env s')"
proof -
  obtain who data b x1 b2 x2 k x3 where w: "origin = Signed who" "ReversibleAccounts s who = Some data"
      "explicit_reverser data \<noteq> Some who" "AccountPendingIndex s who < MaxPendingPerAccount ops"
    and e: "op_bound ops (Transfer_Keep_Alive dest amount) (rev_env s) = (Inr b, x1)"
      "make_schedule_id ops (tx_hash ops who (Transfer_Keep_Alive dest amount))
        (pt_count (new_pending s (tx_hash ops who (Transfer_Keep_Alive dest amount)) who b amount)) = Inr k"
      "op_bound ops (Execute_Transfer (tx_hash ops who (Transfer_Keep_Alive dest amount))) x1 = (Inr b2, x2)"
      "op_schedule_named ops k (sat_add (current_block_number ops (rev_env s)) (delay data)) (pallet_account ops) b2 x2 = (Inr (), x3)"
      "op_hold ops who amount x3 = (Inr (), rev_env s')"
      "PendingTransfers s' = (PendingTransfers s)(tx_hash ops who (Transfer_Keep_Alive dest amount) \<mapsto>
        new_pending s (tx_hash ops who (Transfer_Keep_Alive dest amount)) who b amount)"
      "AccountPendingIndex s' = (AccountPendingIndex s)(who := sat_add (AccountPendingIndex s who) 1)"
      "ReversibleAccounts s' = ReversibleAccounts s"
    using r unfolding schedule_transfer_def do_schedule_transfer_def transactional_Inr Let_def increment_index_def
    by (clarsimp simp: rev_results rev_event_def)
  note l1 = escrowD(7) [OF law ok e(1)]
  then have ok1: "env_ok v x1" by (simp add: same_view_def)
  note l2 = escrowD(7) [OF law ok1 e(3)]
  then have ok2: "env_ok v x2" by (simp add: same_view_def)
  note l3 = escrowD(5) [OF law ok2 e(4)]
  then have ok3: "env_ok v x3" by simp
  note l4 = escrowD(1) [OF law ok3 e(5)]
  have h: "held v (rev_env s') = (held v (rev_env s))(who := held v (rev_env s) who + unat amount)"
    "task v (rev_env s') = (task v (rev_env s))(k := True)" "\<not> task v (rev_env s) k" "env_ok v (rev_env s')"
    using l1 l2 l3 l4 by (simp_all add: same_view_def)
  let ?tx = "tx_hash ops who (Transfer_Keep_Alive dest amount)"
  let ?p = "new_pending s ?tx who b amount"
  have p: "pt_who ?p = who" "call_of v (pt_call ?p) = Transfer_Keep_Alive dest amount" "pt_amount ?p = amount"
    "pt_count ?p = (case PendingTransfers s ?tx of None \<Rightarrow> 1 | Some q \<Rightarrow> sat_add (pt_count q) 1)"
    using l1 by (simp_all add: new_pending_def split: option.split)
  have k: "schedule_hash ops ?tx (pt_count ?p) = Some k" using e(2) by (simp add: make_schedule_id_def)
  show ?thesis by (rule that [OF w(1-3) refl w(4) p k h(3) e(6-8) h(1,2,4)])
qed

lemma cancel_effect:
  assumes law: "escrow_law ops v" and ok: "env_ok v (rev_env s)" and r: "cancel ops origin tx s = (Inr u, s')"
  obtains who p data k where "origin = Signed who" "PendingTransfers s tx = Some p"
    "ReversibleAccounts s (pt_who p) = Some data"
    "who = (case explicit_reverser data of Some rv \<Rightarrow> rv | None \<Rightarrow> pt_who p)"
    "schedule_hash ops tx (pt_count p) = Some k" "task v (rev_env s) k" "one_less tx p s s'"
    "unat (pt_amount p) \<le> held v (rev_env s) (pt_who p)"
    "held v (rev_env s') = (held v (rev_env s))(pt_who p := held v (rev_env s) (pt_who p) - unat (pt_amount p))"
    "task v (rev_env s') = (task v (rev_env s))(k := False)" "env_ok v (rev_env s')"
proof -
  obtain who p data k x1 where w: "origin = Signed who" "PendingTransfers s tx = Some p"
    "ReversibleAccounts s (pt_who p) = Some data"
    "who = (case explicit_reverser data of Some rv \<Rightarrow> rv | None \<Rightarrow> pt_who p)"
    "schedule_hash ops tx (pt_count p) = Some k" "op_cancel_named ops k (rev_env s) = (Inr (), x1)"
    and m: "\<exists>amt. (case explicit_reverser data of
         Some rv \<Rightarrow> op_transfer_on_hold ops (pt_who p) rv (pt_amount p) Exact Restrict_Free Polite
       | None \<Rightarrow> op_release ops (pt_who p) (pt_amount p) Exact) x1 = (Inr amt, rev_env s')"
    and o: "PendingTransfers s' = (PendingTransfers s)(tx :=
       if 1 < pt_count p then Some (p\<lparr> pt_count := sat_sub (pt_count p) 1 \<rparr>) else None)"
     "AccountPendingIndex s' = (AccountPendingIndex s)(pt_who p := sat_sub (AccountPendingIndex s (pt_who p)) 1)"
     "ReversibleAccounts s' = ReversibleAccounts s"
    using r unfolding cancel_def cancel_transfer_def transactional_Inr
    apply (clarsimp simp: rev_results rev_event_def drop_one_pending_def decrement_index_def make_schedule_id_def
        split: option.splits)
     apply (rule that, (assumption | rule refl | force)+)
    done
  obtain amt where m': "(case explicit_reverser data of
         Some rv \<Rightarrow> op_transfer_on_hold ops (pt_who p) rv (pt_amount p) Exact Restrict_Free Polite
       | None \<Rightarrow> op_release ops (pt_who p) (pt_amount p) Exact) x1 = (Inr amt, rev_env s')" using m by blast
  note l1 = escrowD(6) [OF law ok w(6)]
  then have ok1: "env_ok v x1" by simp
  have l2: "unat (pt_amount p) \<le> held v x1 (pt_who p) \<and>
      held v (rev_env s') = (held v x1)(pt_who p := held v x1 (pt_who p) - unat (pt_amount p)) \<and>
      task v (rev_env s') = task v x1 \<and> env_ok v (rev_env s')"
    using m' escrowD(2,3) [OF law ok1] by (cases "explicit_reverser data") auto
  have "one_less tx p s s'" using o u32_pred [of "pt_count p"] by (auto simp: one_less_def)
  then show ?thesis using that [OF w(1-5)] l1 l2 by simp
qed

lemma execute_cases:
  assumes r: "execute_transfer ops origin tx s = (Inr u, s')"
  obtains p c x0 x1 amt where "origin = Signed (pallet_account ops)" "PendingTransfers s tx = Some p"
    "op_realize ops (pt_call p) (rev_env s) = (Inr c, x0)"
    "op_release ops (pt_who p) (pt_amount p) Exact x0 = (Inr amt, x1)"
    "op_dispatch ops c (pt_who p) x1 = (Inr (), rev_env s')"
    "PendingTransfers s' = (PendingTransfers s)(tx :=
       if 1 < pt_count p then Some (p\<lparr> pt_count := sat_sub (pt_count p) 1 \<rparr>) else None)"
    "AccountPendingIndex s' = (AccountPendingIndex s)(pt_who p := sat_sub (AccountPendingIndex s (pt_who p)) 1)"
    "ReversibleAccounts s' = ReversibleAccounts s"
  using r unfolding execute_transfer_def do_execute_transfer_def transactional_Inr
  by (clarsimp simp: rev_results after_result rev_event_def drop_one_pending_def decrement_index_def)

lemma execute_effect:
  assumes law: "escrow_law ops v" and i: "rev_inv ops v used s"
    and r: "execute_transfer ops origin tx s = (Inr u, s')"
  obtains p x1 x2 where "origin = Signed (pallet_account ops)" "PendingTransfers s tx = Some p" "one_less tx p s s'"
    "op_dispatch ops (call_of v (pt_call p)) (pt_who p) x1 = (Inr (), rev_env s')"
    "unat (pt_amount p) \<le> held v (rev_env s) (pt_who p)"
    "held v (rev_env s') = (held v (rev_env s))(pt_who p := held v (rev_env s) (pt_who p) - unat (pt_amount p))"
    "task v (rev_env s') = task v (rev_env s)" "env_ok v (rev_env s')"
proof -
  obtain p c x0 x1 amt where w: "origin = Signed (pallet_account ops)" "PendingTransfers s tx = Some p"
    "op_realize ops (pt_call p) (rev_env s) = (Inr c, x0)"
    "op_release ops (pt_who p) (pt_amount p) Exact x0 = (Inr amt, x1)"
    "op_dispatch ops c (pt_who p) x1 = (Inr (), rev_env s')"
    and o: "PendingTransfers s' = (PendingTransfers s)(tx :=
       if 1 < pt_count p then Some (p\<lparr> pt_count := sat_sub (pt_count p) 1 \<rparr>) else None)"
     "AccountPendingIndex s' = (AccountPendingIndex s)(pt_who p := sat_sub (AccountPendingIndex s (pt_who p)) 1)"
     "ReversibleAccounts s' = ReversibleAccounts s"
    by (rule execute_cases [OF r])
  have ok: "env_ok v (rev_env s)" using i by (simp add: rev_inv_def)
  note l1 = escrowD(8) [OF law ok w(3)]
  then have ok0: "env_ok v x0" by (simp add: same_view_def)
  note l2 = escrowD(2) [OF law ok0 w(4)]
  then have ok1: "env_ok v x1" by simp
  obtain l where c: "c = Transfer_Keep_Alive l (pt_amount p)"
    using rev_invD [OF i w(2)] l1 unfolding pending_wf_def by blast
  note l3 = escrowD(4) [OF law ok1 w(5) [unfolded c]]
  have "one_less tx p s s'" using o u32_pred [of "pt_count p"] by (auto simp: one_less_def)
  moreover have "op_dispatch ops (call_of v (pt_call p)) (pt_who p) x1 = (Inr (), rev_env s')" using w(5) l1 by simp
  ultimately show ?thesis using that [OF w(1,2)] l1 l2 l3 by (simp add: same_view_def)
qed

lemma hash_okD:
  "hash_ok ops used \<Longrightarrow> (w, c) \<in> used \<Longrightarrow> (w', c') \<in> used \<Longrightarrow> tx_hash ops w c = tx_hash ops w' c' \<Longrightarrow> w = w' \<and> c = c'"
  by (auto simp: hash_ok_def inj_on_def)

lemma schedule_inv:
  assumes law: "escrow_law ops v" and inj: "hash_ok ops used" and i: "rev_inv ops v used s"
    and r: "schedule_transfer ops (Signed w) dest amount s = (Inr u, s')"
    and us: "(w, Transfer_Keep_Alive dest amount) \<in> used"
  shows "rev_inv ops v used s'"
proof -
  obtain who data tx p k where o: "Signed w = Signed who" "tx = tx_hash ops who (Transfer_Keep_Alive dest amount)"
    "AccountPendingIndex s who < MaxPendingPerAccount ops"
    and p: "pt_who p = who" "call_of v (pt_call p) = Transfer_Keep_Alive dest amount" "pt_amount p = amount"
      "pt_count p = (case PendingTransfers s tx of None \<Rightarrow> 1 | Some q \<Rightarrow> sat_add (pt_count q) 1)"
    and e: "PendingTransfers s' = (PendingTransfers s)(tx \<mapsto> p)"
      "AccountPendingIndex s' = (AccountPendingIndex s)(who := sat_add (AccountPendingIndex s who) 1)"
      "held v (rev_env s') = (held v (rev_env s))(who := held v (rev_env s) who + unat amount)"
    and ok': "env_ok v (rev_env s')"
    by (rule schedule_effect [OF law rev_inv_ok [OF i] r])
  have idx: "unat (AccountPendingIndex s a) = pending_sum (counted a) (PendingTransfers s)"
    and hld: "held v (rev_env s) a = pending_sum (owed a) (PendingTransfers s)"
    and mx: "AccountPendingIndex s a \<le> MaxPendingPerAccount ops" for a
    using i by (simp_all add: rev_inv_def)
  have succ: "unat (sat_add c 1) = Suc (unat c)" if "unat c < unat (MaxPendingPerAccount ops)" for c :: u32
  proof -
    have "unat (MaxPendingPerAccount ops) < 2 ^ 32" by (rule order.strict_trans2 [OF unsigned_less]) simp
    then show ?thesis using that by (simp add: mach_nat)
  qed
  have lt: "unat (AccountPendingIndex s who) < unat (MaxPendingPerAccount ops)"
    using o(3) by (simp add: word_less_nat_alt)
  have old: "of_pending (counted a) (Some p) = of_pending (counted a) (PendingTransfers s tx) + (if a = who then 1 else 0) \<and>
      of_pending (owed a) (Some p) = of_pending (owed a) (PendingTransfers s tx) + (if a = who then unat amount else 0) \<and>
      0 < pt_count p" for a
  proof (cases "PendingTransfers s tx")
    case None
    then show ?thesis using p by (simp add: counted_def owed_def)
  next
    case (Some q)
    have wf: "pending_wf ops v used tx q" using rev_invD [OF i Some] .
    then have "(pt_who q, call_of v (pt_call q)) \<in> used" "tx = tx_hash ops (pt_who q) (call_of v (pt_call q))"
      by (simp_all add: pending_wf_def)
    then have same: "pt_who q = w \<and> call_of v (pt_call q) = Transfer_Keep_Alive dest amount"
      by (intro hash_okD [OF inj _ us]) (use o(1,2) in auto)
    have q: "pt_who q = who" "pt_amount q = amount" using wf same o(1) by (auto simp: pending_wf_def)
    have "unat (pt_count q) \<le> unat (AccountPendingIndex s who)"
      using pending_sum_ge [of "counted who" "PendingTransfers s" tx] q(1) Some by (simp add: idx counted_def)
    then have c: "unat (pt_count p) = Suc (unat (pt_count q))" using succ [of "pt_count q"] lt p(4) Some by simp
    then have "0 < pt_count p" by (simp add: word_less_nat_alt)
    then show ?thesis using c p q Some by (simp add: counted_def owed_def)
  qed
  have "unat (AccountPendingIndex s' a) = pending_sum (counted a) (PendingTransfers s')" for a
    using pending_sum_upd [of "counted a" "PendingTransfers s" tx "Some p"] old [of a] idx [of a] succ [OF lt]
    unfolding e by auto
  moreover have "held v (rev_env s') a = pending_sum (owed a) (PendingTransfers s')" for a
    using pending_sum_upd [of "owed a" "PendingTransfers s" tx "Some p"] old [of a] hld [of a]
    unfolding e by auto
  moreover have "AccountPendingIndex s' a \<le> MaxPendingPerAccount ops" for a
    using mx [of a] succ [OF lt] lt unfolding e by (auto simp: word_le_nat_alt)
  moreover have "pending_wf ops v used t q" if "PendingTransfers s' t = Some q" for t q
  proof (cases "t = tx")
    case True
    then have "q = p" using that e by simp
    then show ?thesis using True old p o us by (simp add: pending_wf_def)
  next
    case False
    then show ?thesis using that e i by (simp add: rev_inv_def)
  qed
  ultimately show ?thesis using ok' by (simp add: rev_inv_def)
qed

lemma set_reversibility_effect:
  assumes "set_reversibility ops origin d pol reverser s = (Inr u, s')"
  obtains who data where "origin = Signed who" "ReversibleAccounts s who = None" "reverser \<noteq> Some who"
    "data = \<lparr> explicit_reverser = reverser, delay = (case d of Some x \<Rightarrow> x | None \<Rightarrow> DefaultDelay ops), policy = pol \<rparr>"
    "MinDelayPeriod ops \<le> delay data"
    "s' = rev_event (ReversibilitySet who data) (s\<lparr> ReversibleAccounts := (ReversibleAccounts s)(who \<mapsto> data) \<rparr>)"
  using assms unfolding set_reversibility_def transactional_Inr Let_def
  by (clarsimp simp: rev_results)

lemma set_reversibility_inv:
  assumes i: "rev_inv ops v used s" and r: "set_reversibility ops origin d pol reverser s = (Inr u, s')"
  shows "rev_inv ops v used s'"
  by (rule set_reversibility_effect [OF r]) (use i in \<open>simp add: rev_inv_def rev_event_def\<close>)

lemma genesis_keeps:
  "PendingTransfers (reversible_genesis ops l s) = PendingTransfers s"
  "AccountPendingIndex (reversible_genesis ops l s) = AccountPendingIndex s"
  "rev_env (reversible_genesis ops l s) = rev_env s"
  by (induction l arbitrary: s) auto

definition empty_rev_state :: "'x \<Rightarrow> ('x, 'b) rev_state" where
  "empty_rev_state x = \<lparr> ReversibleAccounts = (\<lambda>_. None), PendingTransfers = (\<lambda>_. None),
     AccountPendingIndex = (\<lambda>_. 0), rev_env = x, rev_events = [] \<rparr>"

text \<open>A state of the pallet: the genesis, a dispatchable by any origin, or a change of the
  environment that keeps the amounts on hold for scheduled transfers (blocks, other pallets, the
  scheduler taking up a task).\<close>

inductive rev_reachable ::
    "('x, 'l, 'b) rev_ops \<Rightarrow> ('x, 'l, 'b) rev_view \<Rightarrow> (account \<times> 'l runtime_call) set \<Rightarrow> ('x, 'b) rev_state \<Rightarrow> bool"
    for ops v used where
  rev_start: "held v x = (\<lambda>_. 0) \<Longrightarrow> env_ok v x \<Longrightarrow> rev_reachable ops v used (reversible_genesis ops accts (empty_rev_state x))"
| rev_call: "rev_reachable ops v used s \<Longrightarrow> run_rev_call ops origin c s = (r, s') \<Longrightarrow>
    (\<And>who dest amount. origin = Signed who \<Longrightarrow> c = Call_Schedule dest amount \<Longrightarrow>
       (who, Transfer_Keep_Alive dest amount) \<in> used) \<Longrightarrow> rev_reachable ops v used s'"
| rev_other: "rev_reachable ops v used s \<Longrightarrow> held v x = held v (rev_env s) \<Longrightarrow> env_ok v x \<Longrightarrow>
    rev_reachable ops v used (s\<lparr> rev_env := x \<rparr>)"

lemma run_rev_call_inv:
  assumes law: "escrow_law ops v" and inj: "hash_ok ops used" and i: "rev_inv ops v used s"
    and r: "run_rev_call ops origin c s = (res, s')"
    and us: "\<And>who dest amount. origin = Signed who \<Longrightarrow> c = Call_Schedule dest amount \<Longrightarrow>
       (who, Transfer_Keep_Alive dest amount) \<in> used"
  shows "rev_inv ops v used s'"
proof (cases res)
  case (Inl e)
  then show ?thesis using run_rev_call_error r i by metis
next
  case (Inr u)
  show ?thesis
  proof (cases c)
    case (Call_Set_Reversibility d pol rv)
    then show ?thesis using set_reversibility_inv [OF i] r Inr by simp
  next
    case (Call_Cancel tx)
    then have c: "cancel ops origin tx s = (Inr u, s')" using r Inr by simp
    show ?thesis by (rule cancel_effect [OF law rev_inv_ok [OF i] c]) (rule one_less_inv [OF i])
  next
    case (Call_Execute tx)
    then have c: "execute_transfer ops origin tx s = (Inr u, s')" using r Inr by simp
    show ?thesis by (rule execute_effect [OF law i c]) (rule one_less_inv [OF i])
  next
    case (Call_Schedule dest amount)
    then have c: "schedule_transfer ops origin dest amount s = (Inr u, s')" using r Inr by simp
    obtain w where w: "origin = Signed w" by (rule schedule_effect [OF law rev_inv_ok [OF i] c])
    show ?thesis by (rule schedule_inv [OF law inj i c [unfolded w]]) (use us w Call_Schedule in simp)
  qed
qed

lemma rev_reachable_inv:
  assumes law: "escrow_law ops v" and inj: "hash_ok ops used" and r: "rev_reachable ops v used s"
  shows "rev_inv ops v used s"
  using r
proof induction
  case (rev_start x accts)
  then show ?case
    by (simp add: rev_inv_def genesis_keeps empty_rev_state_def pending_sum_def)
next
  case (rev_call s origin c r s')
  then show ?case using run_rev_call_inv [OF law inj] by blast
next
  case (rev_other s x)
  then show ?case by (simp add: rev_inv_def)
qed

lemma schedule_keeps_settings:
  "schedule_transfer ops origin dest amount s = (Inr u, s') \<Longrightarrow> ReversibleAccounts s' = ReversibleAccounts s"
  unfolding schedule_transfer_def do_schedule_transfer_def transactional_Inr Let_def increment_index_def
  by (clarsimp simp: rev_results rev_event_def)

lemma cancel_keeps_settings:
  "cancel ops origin tx s = (Inr u, s') \<Longrightarrow> ReversibleAccounts s' = ReversibleAccounts s"
  unfolding cancel_def cancel_transfer_def transactional_Inr
  by (auto simp: rev_results rev_event_def drop_one_pending_def decrement_index_def split: option.splits)

lemma execute_keeps_settings:
  assumes "execute_transfer ops origin tx s = (Inr u, s')"
  shows "ReversibleAccounts s' = ReversibleAccounts s"
  by (rule execute_cases [OF assms])

lemmas keeps_settings = schedule_keeps_settings cancel_keeps_settings execute_keeps_settings

lemma rev_call_fails:
  assumes "\<And>u s'. run_rev_call ops origin c s = (Inr u, s') \<Longrightarrow> False"
  shows "\<exists>e. run_rev_call ops origin c s = (Inl e, s)"
proof (cases "run_rev_call ops origin c s")
  case (Pair r s')
  then show ?thesis using assms run_rev_call_error [of ops origin c s] by (cases r) auto
qed

lemma cancel_needs_task:
  assumes law: "escrow_law ops v" and ok: "env_ok v (rev_env s)" and "PendingTransfers s tx = Some p" "schedule_hash ops tx (pt_count p) = Some k"
    "\<not> task v (rev_env s) k"
  shows "\<exists>e. cancel ops origin tx s = (Inl e, s)"
proof (rule rev_call_fails [where c = "Call_Cancel tx", simplified])
  fix u s' assume c: "cancel ops origin tx s = (Inr u, s')"
  show False by (rule cancel_effect [OF law ok c]) (use assms(3-5) in simp)
qed

end
