(* ===== verification/ReversibleProps.thy ===== *)
theory ReversibleProps
  imports ReversibleLaw
begin

text \<open>
  The properties of the reversible transfers, with a small ledger on which their witnesses run.
\<close>

section \<open>A ledger for the witnesses\<close>

text \<open>The amounts on hold and the named tasks; a transfer from account 13 is refused.\<close>

type_synonym ledger = "(account \<Rightarrow> nat) \<times> (hash256 \<Rightarrow> bool)"

definition ledger_hold :: "account \<Rightarrow> balance \<Rightarrow> (ledger, unit) env_comp" where
  "ledger_hold who a x = (Inr (), ((fst x)(who := fst x who + unat a), snd x))"

definition ledger_release :: "account \<Rightarrow> balance \<Rightarrow> (ledger, balance) env_comp" where
  "ledger_release who a x =
     (if unat a \<le> fst x who then (Inr a, ((fst x)(who := fst x who - unat a), snd x))
      else (Inl (Token FundsUnavailable), x))"

definition ledger_schedule :: "hash256 \<Rightarrow> (ledger, unit) env_comp" where
  "ledger_schedule k x = (if snd x k then (Inl (External 1), x) else (Inr (), (fst x, (snd x)(k := True))))"

definition ledger_cancel :: "hash256 \<Rightarrow> (ledger, unit) env_comp" where
  "ledger_cancel k x = (if snd x k then (Inr (), (fst x, (snd x)(k := False))) else (Inl (External 2), x))"

definition ledger_dispatch :: "account runtime_call \<Rightarrow> account \<Rightarrow> (ledger, unit) env_comp" where
  "ledger_dispatch c who x = (if who = 13 then (Inl (Token BelowMinimum), x) else (Inr (), x))"

definition ledger_ops :: "(ledger, account, account runtime_call) rev_ops" where
  "ledger_ops = \<lparr> MaxPendingPerAccount = 10, DefaultDelay = 100, MinDelayPeriod = 3, pallet_account = 99,
     op_hold = ledger_hold, op_release = (\<lambda>who a _. ledger_release who a),
     op_transfer_on_hold = (\<lambda>who _ a _ _ _. ledger_release who a), op_dispatch = ledger_dispatch,
     op_schedule_named = (\<lambda>k _ _ _. ledger_schedule k), op_cancel_named = ledger_cancel,
     op_bound = (\<lambda>c x. (Inr c, x)), op_realize = (\<lambda>c x. (Inr c, x)), current_block_number = (\<lambda>_. 5),
     tx_hash = (\<lambda>who _. who), schedule_hash = (\<lambda>tx n. Some (1000 * tx + of_nat (unat n))) \<rparr>"

definition ledger_view :: "(ledger, account, account runtime_call) rev_view" where
  "ledger_view = \<lparr> held = fst, task = snd, call_of = (\<lambda>b. b), env_ok = (\<lambda>_. True) \<rparr>"

lemma ledger_view_ok: "env_ok ledger_view x"
  by (simp add: ledger_view_def)

lemma ledger_law: "escrow_law ledger_ops ledger_view"
  by (auto simp: escrow_law_def holds_law_def scheduler_law_def ledger_ops_def ledger_view_def same_view_def ledger_hold_def ledger_release_def
      ledger_schedule_def ledger_cancel_def ledger_dispatch_def split: if_splits)

definition ledger_start :: "(ledger, account runtime_call) rev_state" where
  "ledger_start = reversible_genesis ledger_ops [(4, 50), (6, 2), (13, 50)] (empty_rev_state (\<lambda>_. 0, \<lambda>_. False))"

text \<open>\<open>who\<close> schedules one transfer of 70.\<close>

definition after_schedule :: "account \<Rightarrow> (ledger, account runtime_call) rev_state" where
  "after_schedule who = snd (schedule_transfer ledger_ops (Signed who) 8 70 ledger_start)"

lemmas ledger_eval = after_schedule_def ledger_start_def empty_rev_state_def schedule_transfer_def do_schedule_transfer_def
  transactional_def and_then_def ensure_def ensure_signed_def ok_or_def increment_index_def new_pending_def
  make_schedule_id_def on_env_def or_error_def ledger_ops_def ledger_hold_def ledger_release_def ledger_schedule_def
  ledger_cancel_def ledger_dispatch_def ledger_view_def rev_event_def Let_def sat_add_def execute_transfer_def
  do_execute_transfer_def drop_one_pending_def decrement_index_def sat_sub_def cancel_def cancel_transfer_def
  set_reversibility_def

lemma after_schedule_Inr:
  "who = 4 \<or> who = 13 \<Longrightarrow> schedule_transfer ledger_ops (Signed who) 8 70 ledger_start = (Inr (), after_schedule who)"
  by (auto simp: ledger_eval)

lemma after_schedule_pending:
  "who = 4 \<or> who = 13 \<Longrightarrow> PendingTransfers (after_schedule who) who =
     Some \<lparr> pt_who = who, pt_call = Transfer_Keep_Alive 8 70, pt_amount = 70, pt_count = 1 \<rparr>"
  by (auto simp: ledger_eval)

lemma after_schedule_reachable:
  assumes "who = 4 \<or> who = 13"
  shows "rev_reachable ledger_ops ledger_view {(who, Transfer_Keep_Alive 8 70)} (after_schedule who)"
proof (rule rev_call [of _ _ _ ledger_start "Signed who" "Call_Schedule 8 70"])
  show "rev_reachable ledger_ops ledger_view {(who, Transfer_Keep_Alive 8 70)} ledger_start"
    unfolding ledger_start_def by (rule rev_start) (simp_all add: ledger_view_def)
qed (use after_schedule_Inr [OF assms] in simp_all)

lemma ledger_hash_ok: "hash_ok ledger_ops {u}"
  by (simp add: hash_ok_def)

section \<open>The properties\<close>

text \<open>In every reachable state the amount an account has on hold for scheduled transfers is the
  sum of the amounts of its pending transfers, identical ones counted, its pending index is their
  number, and it does not exceed the maximum: no operation loses or invents a hold.\<close>

theorem pending_transfers_are_held:
  assumes "escrow_law ops v" "hash_ok ops used" "rev_reachable ops v used s"
  shows "held v (rev_env s) a = pending_sum (owed a) (PendingTransfers s) \<and>
    unat (AccountPendingIndex s a) = pending_sum (counted a) (PendingTransfers s) \<and>
    AccountPendingIndex s a \<le> MaxPendingPerAccount ops"
  using rev_reachable_inv [OF assms] by (simp add: rev_inv_def)

theorem pending_transfers_are_held_witness:
  "held ledger_view (rev_env (after_schedule 4)) 4 = pending_sum (owed 4) (PendingTransfers (after_schedule 4)) \<and>
   held ledger_view (rev_env (after_schedule 4)) 4 = 70"
proof
  show "held ledger_view (rev_env (after_schedule 4)) 4 = pending_sum (owed 4) (PendingTransfers (after_schedule 4))"
    using pending_transfers_are_held [OF ledger_law ledger_hash_ok after_schedule_reachable] by blast
qed (simp add: ledger_eval)





text \<open>A setting is final: no dispatchable of any origin changes or removes the reversibility of an
  account that has one, and a setting made by a dispatchable has at least the minimum delay and never
  names the account itself as reverser.\<close>

theorem reversibility_permanent:
  assumes "run_rev_call ops origin c s = (r, s')"
  shows "case ReversibleAccounts s who of
      Some data \<Rightarrow> ReversibleAccounts s' who = Some data
    | None \<Rightarrow> (case ReversibleAccounts s' who of
        None \<Rightarrow> True
      | Some data \<Rightarrow> origin = Signed who \<and> MinDelayPeriod ops \<le> delay data \<and> explicit_reverser data \<noteq> Some who)"
proof (cases "ReversibleAccounts s' = ReversibleAccounts s")
  case True
  then show ?thesis by (simp split: option.split)
next
  case False
  obtain u where r: "r = Inr u" using assms False run_rev_call_error [of ops origin c s] by (cases r) auto
  note run = assms [unfolded r]
  show ?thesis
  proof (cases c)
    case (Call_Set_Reversibility d pol rv)
    then have e: "set_reversibility ops origin d pol rv s = (Inr u, s')" using run by simp
    show ?thesis by (rule set_reversibility_effect [OF e]) (simp add: rev_event_def split: option.split)
  qed (use run False in \<open>auto dest: keeps_settings\<close>)
qed

theorem reversibility_permanent_witness:
  "ReversibleAccounts (snd (run_rev_call ledger_ops (Signed 4) (Call_Set_Reversibility None Intercept None) ledger_start)) 4
     = ReversibleAccounts ledger_start 4 \<and> ReversibleAccounts ledger_start 4 \<noteq> None"
proof -
  let ?c = "Call_Set_Reversibility None Intercept None"
  have s: "ReversibleAccounts ledger_start 4 \<noteq> None" by (simp add: ledger_eval)
  show ?thesis
    using reversibility_permanent [where ops = ledger_ops and origin = "Signed 4" and c = ?c and s = ledger_start and who = 4,
        OF surjective_pairing] s
    by (auto split: option.splits)
qed



text \<open>C39: Of two identical transfers, once the earlier one has run, the later one can be neither cancelled
  by anyone nor joined by a third: the count is back to one, but its task carries the number two.\<close>

theorem later_identical_transfer_not_cancellable:
  assumes "escrow_law ops v" "hash_ok ops used" "rev_reachable ops v used s"
    and "PendingTransfers s tx = Some p" "pt_count p = 2"
    and "schedule_hash ops tx 1 = Some ka" "\<not> task v (rev_env s) ka"
    and "schedule_hash ops tx 2 = Some kb" "task v (rev_env s) kb"
    and run: "execute_transfer ops (Signed (pallet_account ops)) tx s = (Inr u, s')"
  shows "(\<forall>origin. \<exists>e. cancel ops origin tx s' = (Inl e, s')) \<and>
    (\<forall>dest. tx = tx_hash ops (pt_who p) (Transfer_Keep_Alive dest (pt_amount p)) \<longrightarrow>
      (\<exists>e. schedule_transfer ops (Signed (pt_who p)) dest (pt_amount p) s' = (Inl e, s')))"
proof -
  have i: "rev_inv ops v used s" by (rule rev_reachable_inv [OF assms(1-3)])
  have s': "PendingTransfers s' tx = Some (p\<lparr> pt_count := 1 \<rparr>)" "task v (rev_env s') = task v (rev_env s)"
    "env_ok v (rev_env s')"
    by (rule execute_effect [OF assms(1) i run], use assms(4,5) in \<open>simp add: one_less_def\<close>)+
  have "\<exists>e. schedule_transfer ops (Signed (pt_who p)) dest (pt_amount p) s' = (Inl e, s')"
    if tx: "tx = tx_hash ops (pt_who p) (Transfer_Keep_Alive dest (pt_amount p))" for dest
  proof (rule rev_call_fails [where c = "Call_Schedule dest (pt_amount p)", simplified])
    fix u s'' assume r: "schedule_transfer ops (Signed (pt_who p)) dest (pt_amount p) s' = (Inr u, s'')"
    show False
      by (rule schedule_effect [OF assms(1) s'(3) r]) (use s' assms(8,9) tx in \<open>auto simp: sat_add_def\<close>)
  qed
  moreover have "\<exists>e. cancel ops origin tx s' = (Inl e, s')" for origin
    by (rule cancel_needs_task [OF assms(1) s'(3,1)]) (use assms(6,7) s'(2) in simp_all)
  ultimately show ?thesis by blast
qed

definition two_identical :: "(ledger, account runtime_call) rev_state" where
  "two_identical = snd (schedule_transfer ledger_ops (Signed 4) 8 70 (after_schedule 4))"

theorem later_identical_transfer_not_cancellable_witness:
  "\<exists>s. PendingTransfers s 4 \<noteq> None \<and> snd (rev_env s) 4002 \<and> (\<exists>e. cancel ledger_ops (Signed 4) 4 s = (Inl e, s))"
proof -
  let ?u = "{(4 :: account, Transfer_Keep_Alive (8 :: account) 70)}"
  let ?x = "(fst (rev_env two_identical), (snd (rev_env two_identical))(4001 := False))"
  let ?s = "two_identical\<lparr> rev_env := ?x \<rparr>"
  let ?p = "\<lparr> pt_who = 4, pt_call = Transfer_Keep_Alive (8 :: account) 70, pt_amount = 70, pt_count = 2 \<rparr>"
  have c: "schedule_transfer ledger_ops (Signed 4) 8 70 (after_schedule 4) = (Inr (), two_identical)"
    by (simp add: two_identical_def ledger_eval)
  have r: "rev_reachable ledger_ops ledger_view ?u two_identical"
    by (rule rev_call [OF after_schedule_reachable [of 4], where origin = "Signed 4" and c = "Call_Schedule 8 70"])
      (use c in simp_all)
  have r': "rev_reachable ledger_ops ledger_view ?u ?s"
    by (rule rev_other [OF r]) (simp_all add: ledger_view_def)
  obtain s' where e: "execute_transfer ledger_ops (Signed (pallet_account ledger_ops)) 4 ?s = (Inr (), s')"
    and s': "PendingTransfers s' 4 \<noteq> None" "snd (rev_env s') 4002"
    by (simp add: two_identical_def ledger_eval)
  have "(\<forall>origin. \<exists>e. cancel ledger_ops origin 4 s' = (Inl e, s')) \<and>
    (\<forall>dest. 4 = tx_hash ledger_ops (pt_who ?p) (Transfer_Keep_Alive dest (pt_amount ?p)) \<longrightarrow>
      (\<exists>e. schedule_transfer ledger_ops (Signed (pt_who ?p)) dest (pt_amount ?p) s' = (Inl e, s')))"
    by (rule later_identical_transfer_not_cancellable [where ka = 4001 and kb = 4002, OF ledger_law ledger_hash_ok r' _ _ _ _ _ _ e])
      (simp_all add: two_identical_def ledger_eval)
  then show ?thesis using s' by blast
qed

end
