(* ===== verification/Minting.thy ===== *)
theory Minting
  imports CurrencyProps
begin

text \<open>
  The interface between the pallets that create tokens (wormhole, mining rewards, faucet) and the
  balances pallet: the locale \<open>minting\<close>, and its two interpretations on the balances pallet, by
  \<open>deposit_creating\<close> and by \<open>issue\<close> with \<open>resolve_creating\<close>.
\<close>

section \<open>The interface of minting\<close>

text \<open>What the pallets that create tokens use: \<open>mint who v\<close> credits \<open>who\<close> when that is possible
  and does nothing at all when it is not, and the issuance moves along.\<close>

locale minting =
  fixes mint :: "account \<Rightarrow> balance \<Rightarrow> 's \<Rightarrow> 's"
    and funds :: "'s \<Rightarrow> account \<Rightarrow> nat"
    and issued :: "'s \<Rightarrow> nat"
    and ready :: "'s \<Rightarrow> bool"
    and creditable :: "'s \<Rightarrow> account \<Rightarrow> balance \<Rightarrow> bool"
  assumes mint_ready: "ready s \<Longrightarrow> issued s + unat v < 2 ^ 128 \<Longrightarrow> ready (mint who v s)"
    and mint_funds: "ready s \<Longrightarrow> issued s + unat v < 2 ^ 128 \<Longrightarrow>
      funds (mint who v s) = (if creditable s who v then (funds s)(who := funds s who + unat v) else funds s)"
    and mint_issued: "ready s \<Longrightarrow> issued s + unat v < 2 ^ 128 \<Longrightarrow>
      issued (mint who v s) = (if creditable s who v then issued s + unat v else issued s)"
begin

fun mint_all :: "(account \<times> balance) list \<Rightarrow> 's \<Rightarrow> 's" where
  "mint_all [] s = s"
| "mint_all ((who, v) # l) s = mint_all l (mint who v s)"

lemma mint_conserves:
  assumes "ready s" "issued s + unat v < 2 ^ 128"
  shows "issued (mint who v s) + funds s who = issued s + funds (mint who v s) who"
    "b \<noteq> who \<Longrightarrow> funds (mint who v s) b = funds s b"
    "funds s b \<le> funds (mint who v s) b" "issued (mint who v s) \<le> issued s + unat v"
    "issued s \<le> issued (mint who v s)"
  using mint_funds [OF assms] mint_issued [OF assms] by auto

lemma mint_all_correct:
  assumes "ready s" "issued s + (\<Sum>(w, v)\<leftarrow>l. unat v) < 2 ^ 128"
  shows "ready (mint_all l s) \<and> issued (mint_all l s) \<le> issued s + (\<Sum>(w, v)\<leftarrow>l. unat v) \<and>
    (\<forall>b. funds s b \<le> funds (mint_all l s) b \<and>
       funds (mint_all l s) b \<le> funds s b + (\<Sum>(w, v)\<leftarrow>l. if w = b then unat v else 0))"
  using assms
proof (induction l s rule: mint_all.induct)
  case (1 s)
  then show ?case by simp
next
  case (2 who v l s)
  have le: "issued s + unat v < 2 ^ 128" using "2.prems"(2) by simp
  note c = mint_conserves [OF "2.prems"(1) le]
  have "issued (mint who v s) + (\<Sum>(w, v)\<leftarrow>l. unat v) < 2 ^ 128" using c(4) [of who] "2.prems"(2) by simp
  note ih = "2.IH" [OF mint_ready [OF "2.prems"(1) le] this]
  have one: "funds s b \<le> funds (mint who v s) b"
      "funds (mint who v s) b \<le> funds s b + (if who = b then unat v else 0)" for b
    using mint_funds [OF "2.prems"(1) le, of who] by auto
  have "funds s b \<le> funds (mint_all l (mint who v s)) b \<and>
      funds (mint_all l (mint who v s)) b \<le> funds s b + (\<Sum>(w, v)\<leftarrow>(who, v) # l. if w = b then unat v else 0)" for b
  proof -
    have "funds (mint who v s) b \<le> funds (mint_all l (mint who v s)) b"
      "funds (mint_all l (mint who v s)) b \<le> funds (mint who v s) b + (\<Sum>(w, v)\<leftarrow>l. if w = b then unat v else 0)"
      using ih by blast+
    then show ?thesis using one [of b] by simp
  qed
  moreover have "issued (mint_all l (mint who v s)) \<le> issued s + (\<Sum>(w, v)\<leftarrow>(who, v) # l. unat v)"
    using ih c(4) [of who] by simp
  ultimately show ?case using ih by simp
qed

end

section \<open>A deposit into a well-kept account store\<close>

text \<open>Accounts are under the new logic, hold a consumer reference when they need one, and are not
  stored when they are empty.\<close>

definition well_kept :: "'e bal_config \<Rightarrow> 'e bal_state \<Rightarrow> bool" where
  "well_kept cfg s \<longleftrightarrow> (\<forall>a.
     is_new_logic (flags (account_of cfg s a)) \<and>
     (does_consume (account_of cfg s a) \<longrightarrow> 0 < sys_consumers (sy cfg) (sys s) a) \<and>
     (\<forall>d. sys_account (sy cfg) (sys s) a = Some d \<longrightarrow> free d \<noteq> 0 \<or> reserved d \<noteq> 0))"

definition creditable_to :: "'e bal_config \<Rightarrow> 'e bal_state \<Rightarrow> account \<Rightarrow> balance \<Rightarrow> bool" where
  "creditable_to cfg s who v \<longleftrightarrow>
     ExistentialDeposit cfg \<le> v \<or> free (account_of cfg s who) \<noteq> 0 \<or> reserved (account_of cfg s who) \<noteq> 0"

lemma well_keptD:
  assumes "well_kept cfg s"
  shows "is_new_logic (flags (account_of cfg s a))"
    "does_consume (account_of cfg s a) \<Longrightarrow> 0 < sys_consumers (sy cfg) (sys s) a"
    "sys_account (sy cfg) (sys s) a = Some d \<Longrightarrow> free d \<noteq> 0 \<or> reserved d \<noteq> 0"
  using assms unfolding well_kept_def by blast+

lemma well_kept_not_upgraded: "well_kept cfg s \<Longrightarrow> ensure_upgraded cfg who s = (False, s)"
  using well_keptD(1) [of cfg s who] by (simp add: ensure_upgraded_def Let_def)

lemma well_kept_new:
  assumes "well_kept cfg s"
  shows "sys_account (sy cfg) (sys s) who = None \<longleftrightarrow>
    free (account_of cfg s who) = 0 \<and> reserved (account_of cfg s who) = 0"
  using well_keptD(3) [OF assms, of who] by (cases "sys_account (sy cfg) (sys s) who") (auto simp: account_of_def)

lemma deposit_refused:
  assumes "well_kept cfg s" "\<not> creditable_to cfg s who v" "v \<noteq> 0"
  shows "deposit_creating cfg who v s = (PositiveImbalance 0, s)"
  using assms well_kept_new [OF assms(1), of who]
  by (simp add: deposit_creating_def try_mutate_account_handling_dust_def try_mutate_account_def
      well_kept_not_upgraded Let_def deposit_closure_def creditable_to_def and_then_def ensure_def)

lemma deposit_references:
  assumes wk: "well_kept cfg s" and law: "system_law (sy cfg)"
    and x: "free (account_of cfg s who) \<le> x"
  shows "update_references cfg who (does_provide cfg (account_of cfg s who)) (does_consume (account_of cfg s who))
      ((account_of cfg s who)\<lparr> free := x \<rparr>) s =
    (Inr (), if \<not> does_provide cfg (account_of cfg s who) \<and> ExistentialDeposit cfg \<le> x
             then on_sys_pure (sys_inc_providers (sy cfg) who) s else s)"
proof -
  let ?a = "account_of cfg s who"
  let ?s = "if \<not> does_provide cfg ?a \<and> ExistentialDeposit cfg \<le> x
             then on_sys_pure (sys_inc_providers (sy cfg) who) s else s"
  have c: "does_consume (?a\<lparr> free := x \<rparr>) = does_consume ?a" by (simp add: does_consume_def)
  have "sys_consumers (sy cfg) (sys ?s) who = sys_consumers (sy cfg) (sys s) who"
    using law_inc_providers(4) [OF law] by (simp add: on_sys_pure_def)
  then have n: "does_consume ?a \<Longrightarrow> sys_consumers (sy cfg) (sys ?s) who \<noteq> 0"
    using well_keptD(2) [OF wk, of who] by auto
  have p: "does_provide cfg ?a \<Longrightarrow> ExistentialDeposit cfg \<le> x"
    using x by (simp add: does_provide_def)
  have d: "does_provide cfg (?a\<lparr> free := x \<rparr>) \<longleftrightarrow> ExistentialDeposit cfg \<le> x" by (simp add: does_provide_def)
  show ?thesis
    unfolding update_references_def Let_def c d using n p
    by (auto simp: inc_consumers_if_def and_then_def)
qed

lemma deposit_accepted:
  assumes g: "good_balances cfg" and pt: "put_total (sy cfg)" and wk: "well_kept cfg s"
    and cr: "creditable_to cfg s who v" and v: "v \<noteq> 0"
    and x: "checked_add (free (account_of cfg s who)) v = Some x"
    and nd: "no_dust cfg (account_of cfg s who)"
  obtains s' e where "deposit_creating cfg who v s = (PositiveImbalance v, s')"
    "e = (if \<not> does_provide cfg (account_of cfg s who) \<and> ExistentialDeposit cfg \<le> x
          then sys_inc_providers (sy cfg) who (sys s) else sys s)"
    "sys_put (sy cfg) who (Some ((account_of cfg s who)\<lparr> free := x \<rparr>)) e = Inr (sys s')"
proof -
  let ?a = "account_of cfg s who" and ?new = "sys_account (sy cfg) (sys s) who = None"
  let ?s1 = "deposit_event (B_Deposit who v) s"
  let ?s2 = "if \<not> does_provide cfg ?a \<and> ExistentialDeposit cfg \<le> x
             then on_sys_pure (sys_inc_providers (sy cfg) who) ?s1 else ?s1"
  have law: "system_law (sy cfg)" using g by (simp add: good_balances_def)
  have ge: "free ?a \<le> x" "v \<le> x" using x by (simp_all add: checked_add_Some word_le_nat_alt)
  have wk1: "well_kept cfg ?s1" using wk by (simp add: well_kept_def account_of_def)
  have acc: "data_or_default (sys_account (sy cfg) (sys s) who) = ?a" by (simp add: account_of_def)
  have did: "(\<not> ?new \<and> does_consume ?a) = does_consume ?a"
    using acc by (cases "sys_account (sy cfg) (sys s) who") (auto simp: does_consume_def)
  have cl: "deposit_closure cfg who v ?a ?new s = (Inr (PositiveImbalance v, ?a\<lparr> free := x \<rparr>), ?s1)"
    using cr x well_kept_new [OF wk, of who]
    by (auto simp: deposit_closure_def and_then_def ensure_def creditable_to_def)
  have ur: "update_references cfg who (does_provide cfg ?a) (does_consume ?a) (?a\<lparr> free := x \<rparr>) ?s1 = (Inr (), ?s2)"
    using deposit_references [OF wk1 law, of who x] ge(1) by simp
  obtain e' where e': "sys_put (sy cfg) who (Some (?a\<lparr> free := x \<rparr>)) (sys ?s2) = Inr e'"
    using pt unfolding put_total_def by blast
  have "x \<noteq> 0" using v ge(2) by auto
  moreover have "ExistentialDeposit cfg \<le> x \<or> reserved ?a \<noteq> 0"
    using cr nd ge by (auto simp: creditable_to_def no_dust_def does_provide_def)
  ultimately have st: "settle cfg (?a\<lparr> free := x \<rparr>) = Some (Some (?a\<lparr> free := x \<rparr>), None)"
    by (auto simp: settle_def)
  let ?s' = "account_events who (if ?new then Some x else None) None (?s2\<lparr> sys := e' \<rparr>)"
  have t: "try_mutate_account cfg who drop_positive (deposit_closure cfg who v) s = (Inr (PositiveImbalance v, None), ?s')"
    unfolding try_mutate_account_def well_kept_not_upgraded [OF wk] Let_def snd_conv acc did cl prod.case sum.case
      ur st option.case on_sys_def e'
    by simp
  have "deposit_creating cfg who v s = (PositiveImbalance v, ?s')"
    using v by (simp add: deposit_creating_def try_mutate_account_handling_dust_def and_then_def t)
  then show ?thesis by (rule that [OF _ refl]) (use e' in \<open>auto simp: on_sys_pure_def split: if_splits\<close>)
qed

lemma deposit_well_kept:
  assumes g: "good_balances cfg" and wk: "well_kept cfg s" and ok: "bal_ok cfg s"
    and cr: "creditable_to cfg s who v" and x: "checked_add (free (account_of cfg s who)) v = Some x" "v \<noteq> 0"
    and e: "e = (if \<not> does_provide cfg (account_of cfg s who) \<and> ExistentialDeposit cfg \<le> x
          then sys_inc_providers (sy cfg) who (sys s) else sys s)"
    and put: "sys_put (sy cfg) who (Some ((account_of cfg s who)\<lparr> free := x \<rparr>)) e = Inr (sys s')"
  shows "well_kept cfg s'"
proof -
  let ?a = "account_of cfg s who" and ?y = "sy cfg"
  have law: "system_law ?y" using g by (simp add: good_balances_def)
  note ip = law_inc_providers [OF law, of who "sys s"]
  have ge: "free ?a \<le> x" "v \<le> x" using x by (simp_all add: checked_add_Some word_le_nat_alt)
  have at: "only_at ?y who (sys s) e" and con: "sys_consumers ?y e who = sys_consumers ?y (sys s) who"
    using ip e by auto
  have prov: "0 < sys_providers ?y e who"
  proof (cases "\<not> does_provide cfg ?a \<and> ExistentialDeposit cfg \<le> x")
    case True
    then show ?thesis using e ip(3) by simp
  next
    case False
    then have "does_provide cfg ?a \<or> reserved ?a \<noteq> 0"
      using cr ok ge by (auto simp: creditable_to_def bal_ok_def no_dust_def)
    then show ?thesis using e False ok by (auto simp: bal_ok_def)
  qed
  note p = law_put [OF law put]
  have who: "stored_data ?y (sys s') who = ?a\<lparr> free := x \<rparr>" "sys_consumers ?y (sys s') who = sys_consumers ?y (sys s) who"
    using p(4,5) prov con by auto
  have x0: "x \<noteq> 0" using x(2) ge(2) by auto
  show ?thesis
    unfolding well_kept_def
  proof (intro allI conjI impI)
    fix b d
    show "is_new_logic (flags (account_of cfg s' b))"
      using well_keptD(1) [OF wk, of b] who only_atD(1) [OF p(1), of b] only_atD(1) [OF at, of b]
      by (cases "b = who") (simp_all add: account_of_stored)
    show "0 < sys_consumers ?y (sys s') b" if "does_consume (account_of cfg s' b)"
      using that well_keptD(2) [OF wk, of b] who only_atD [OF p(1), of b] only_atD [OF at, of b]
      by (cases "b = who") (simp_all add: account_of_stored does_consume_def)
    show "free d \<noteq> 0 \<or> reserved d \<noteq> 0" if "sys_account ?y (sys s') b = Some d"
      using that well_keptD(3) [OF wk, of b d] who x0 only_atD(4) [OF p(1), of b] only_atD(4) [OF at, of b]
      by (cases "b = who") (auto simp: stored_data_def)
  qed
qed

lemma deposit_credits:
  assumes g: "good_balances cfg" and pt: "put_total (sy cfg)" and wk: "well_kept cfg s" and ok: "bal_ok cfg s"
    and cr: "creditable_to cfg s who v" and v: "v \<noteq> 0" and lt: "unat (free_balance cfg s who) + unat v < 2 ^ 128"
  obtains s' where "deposit_creating cfg who v s = (PositiveImbalance v, s')"
    "well_kept cfg s'" "bal_ok cfg s'" "TotalIssuance s' = TotalIssuance s"
    "unat (free_balance cfg s' who) = unat (free_balance cfg s who) + unat v"
    "\<And>b. b \<noteq> who \<Longrightarrow> account_of cfg s' b = account_of cfg s b"
    "holdings cfg s' = holdings cfg s + unat v"
proof -
  let ?a = "account_of cfg s who"
  obtain x where x: "checked_add (free ?a) v = Some x"
    using lt by (auto simp: checked_add_def free_balance_def)
  have nd: "no_dust cfg ?a" using ok by (simp add: bal_ok_def)
  obtain s' e where d: "deposit_creating cfg who v s = (PositiveImbalance v, s')"
    and e: "e = (if \<not> does_provide cfg ?a \<and> ExistentialDeposit cfg \<le> x then sys_inc_providers (sy cfg) who (sys s) else sys s)"
    and p: "sys_put (sy cfg) who (Some (?a\<lparr> free := x \<rparr>)) e = Inr (sys s')"
    by (rule deposit_accepted [OF g pt wk cr v x nd])
  have w: "well_kept cfg s'" by (rule deposit_well_kept [OF g wk ok cr x v e p])
  obtain a y where m: "old_account cfg s who a" "unat y = unat (free a) + unat v" "mutated cfg who s (a\<lparr> free := y \<rparr>) s'"
    using deposit_creating_effect [OF g ok d v] by blast
  have "v \<le> y" "free a \<le> y" using m(2) by (simp_all add: word_le_nat_alt)
  then have keep: "does_provide cfg (a\<lparr> free := y \<rparr>) \<or> reserved (a\<lparr> free := y \<rparr>) \<noteq> 0"
    using cr nd m(1) by (auto simp: creditable_to_def no_dust_def does_provide_def old_account_def)
  have s': "bal_ok cfg s'" "TotalIssuance s' = TotalIssuance s" "account_of cfg s' who = a\<lparr> free := y \<rparr>"
    and others: "\<And>b. b \<noteq> who \<Longrightarrow> account_of cfg s' b = account_of cfg s b"
    using m(3) keep by (auto simp: mutated_def)
  have f: "unat (free_balance cfg s' who) = unat (free_balance cfg s who) + unat v"
    using s'(3) m by (simp add: free_balance_def old_account_def)
  have h: "holdings cfg s' = holdings cfg s + unat v"
    using holdings_changed [where who = who, OF others] s'(3) m by (simp add: old_account_def total_nat_def)
  show ?thesis by (rule that [OF d w s'(1,2) f others h])
qed

section \<open>The balances pallet as a provider\<close>

definition ready_to_mint :: "'e bal_config \<Rightarrow> 'e bal_state \<Rightarrow> bool" where
  "ready_to_mint cfg s \<longleftrightarrow> good_balances cfg \<and> put_total (sy cfg) \<and> sound_balances cfg s \<and> well_kept cfg s"

definition funds_of :: "'e bal_config \<Rightarrow> 'e bal_state \<Rightarrow> account \<Rightarrow> nat" where
  "funds_of cfg s who = unat (free_balance cfg s who)"

definition issuance :: "'e bal_state \<Rightarrow> nat" where
  "issuance s = unat (TotalIssuance s)"

text \<open>\<open>deposit_creating\<close> with its imbalance dropped at once.\<close>

definition deposit_mint :: "'e bal_config \<Rightarrow> account \<Rightarrow> balance \<Rightarrow> 'e bal_state \<Rightarrow> 'e bal_state" where
  "deposit_mint cfg who v s = (case deposit_creating cfg who v s of (imbalance, s') \<Rightarrow> drop_positive imbalance s')"

text \<open>\<open>Currency::resolve_creating\<close> is a default method of the framework, documented as crediting the
  account with a deposit and offsetting the imbalance against it; what remains is dropped. It is
  the parameter \<open>resolve\<close> of the pallets that use it, and this is the instance for the balances pallet.\<close>

definition resolve_by_deposit ::
    "'e bal_config \<Rightarrow> account \<Rightarrow> negative_imbalance \<Rightarrow> 'e bal_state \<Rightarrow> 'e bal_state" where
  "resolve_by_deposit cfg who i s =
     (case deposit_creating cfg who (neg_peek i) s of
        (p, s') \<Rightarrow> (case neg_offset i p of
            SO_None \<Rightarrow> s' | SO_Same n \<Rightarrow> drop_negative n s' | SO_Other q \<Rightarrow> drop_positive q s'))"

definition issue_mint ::
    "(account \<Rightarrow> negative_imbalance \<Rightarrow> 'e bal_state \<Rightarrow> 'e bal_state) \<Rightarrow> account \<Rightarrow> balance \<Rightarrow> 'e bal_state \<Rightarrow> 'e bal_state" where
  "issue_mint resolve who v s = (case currency_issue v s of (imbalance, s') \<Rightarrow> resolve who imbalance s')"

lemma well_kept_sys: "sys s' = sys s \<Longrightarrow> well_kept cfg s' = well_kept cfg s"
  by (simp add: well_kept_def account_of_def)

lemma funds_le: "sound_balances cfg s \<Longrightarrow> funds_of cfg s who \<le> issuance s"
  using total_le_holdings [of cfg s who]
  by (simp add: sound_balances_def issued_ok_def funds_of_def issuance_def total_nat_def free_balance_def)

text \<open>What both ways of minting amount to.\<close>

definition minted :: "'e bal_config \<Rightarrow> account \<Rightarrow> balance \<Rightarrow> 'e bal_state \<Rightarrow> 'e bal_state \<Rightarrow> bool" where
  "minted cfg who v s s' \<longleftrightarrow> ready_to_mint cfg s' \<and>
     (if creditable_to cfg s who v
      then funds_of cfg s' = (funds_of cfg s)(who := funds_of cfg s who + unat v) \<and> issuance s' = issuance s + unat v
      else funds_of cfg s' = funds_of cfg s \<and> issuance s' = issuance s)"

lemma mintedI:
  assumes "ready_to_mint cfg s" "creditable_to cfg s who v"
    and "well_kept cfg s'" "bal_ok cfg s'" "unat (free_balance cfg s' who) = unat (free_balance cfg s who) + unat v"
    and "\<And>b. b \<noteq> who \<Longrightarrow> account_of cfg s' b = account_of cfg s b"
    and "holdings cfg s' = holdings cfg s + unat v" "unat (TotalIssuance s') = unat (TotalIssuance s) + unat v"
  shows "minted cfg who v s s'"
  using assms by (auto simp: minted_def ready_to_mint_def sound_balances_def issued_ok_def funds_of_def issuance_def
      free_balance_def)

lemma drop_positive_keeps:
  "sys (drop_positive i s) = sys s" "sys (drop_negative n s) = sys s"
  by (simp_all add: drop_positive_def drop_negative_def)

lemma minted_sys:
  assumes "ready_to_mint cfg s" "sys s' = sys s" "TotalIssuance s' = TotalIssuance s" "v = 0 \<or> \<not> creditable_to cfg s who v"
  shows "minted cfg who v s s'"
proof -
  have "account_of cfg s' = account_of cfg s" using account_of_sys [OF assms(2)] .
  then have "sound_balances cfg s' \<and> funds_of cfg s' = funds_of cfg s \<and> issuance s' = issuance s"
    using assms(1,3) bal_ok_sys [OF assms(2), of cfg]
    by (simp add: ready_to_mint_def sound_balances_def issued_ok_def holdings_def funds_of_def free_balance_def
        issuance_def fun_eq_iff)
  then show ?thesis
    using assms well_kept_sys [OF assms(2), of cfg] by (auto simp: minted_def ready_to_mint_def)
qed

lemma deposit_mint_minted:
  assumes r: "ready_to_mint cfg s" and lt: "issuance s + unat v < 2 ^ 128"
  shows "minted cfg who v s (deposit_mint cfg who v s)"
proof -
  have g: "good_balances cfg" "put_total (sy cfg)" "well_kept cfg s" "bal_ok cfg s" and snd: "sound_balances cfg s"
    using r by (auto simp: ready_to_mint_def sound_balances_def)
  consider (zero) "v = 0" | (no) "v \<noteq> 0" "\<not> creditable_to cfg s who v" | (yes) "v \<noteq> 0" "creditable_to cfg s who v" by blast
  then show ?thesis
  proof cases
    case zero
    then have "deposit_mint cfg who v s = s" by (simp add: deposit_mint_def deposit_creating_def drop_positive_def)
    then show ?thesis using minted_sys [OF r refl refl] zero by simp
  next
    case no
    then have "deposit_mint cfg who v s = s"
      using deposit_refused [OF g(3) no(2,1)] by (simp add: deposit_mint_def drop_positive_def)
    then show ?thesis using minted_sys [OF r refl refl] no by simp
  next
    case yes
    have "unat (free_balance cfg s who) + unat v < 2 ^ 128"
      using funds_le [OF snd, of who] lt by (simp add: funds_of_def)
    then obtain s' where d: "deposit_creating cfg who v s = (PositiveImbalance v, s')"
      and s': "well_kept cfg s'" "bal_ok cfg s'" "TotalIssuance s' = TotalIssuance s"
        "unat (free_balance cfg s' who) = unat (free_balance cfg s who) + unat v"
        "\<And>b. b \<noteq> who \<Longrightarrow> account_of cfg s' b = account_of cfg s b" "holdings cfg s' = holdings cfg s + unat v"
      using deposit_credits [OF g yes(2,1)] by blast
    let ?s = "drop_positive (PositiveImbalance v) s'"
    note k = drop_positive_keeps(1) [of "PositiveImbalance v" s']
    have "unat (TotalIssuance ?s) = unat (TotalIssuance s) + unat v"
      using lt s'(3) by (simp add: drop_positive_effect issuance_def)
    then have "minted cfg who v s ?s"
      by (intro mintedI [OF r yes(2)])
        (use s' well_kept_sys [OF k, of cfg] bal_ok_sys [OF k, of cfg] account_of_sys [OF k, of cfg] in
          \<open>simp_all add: free_balance_def holdings_def\<close>)
    then show ?thesis by (simp add: deposit_mint_def d)
  qed
qed

lemma currency_issue_exact:
  assumes "unat (TotalIssuance s) + unat v < 2 ^ 128"
  shows "\<exists>s1. currency_issue v s = (NegativeImbalance v, s1) \<and> sys s1 = sys s \<and>
    unat (TotalIssuance s1) = unat (TotalIssuance s) + unat v"
proof -
  have "unat (TotalIssuance s + v) = unat (TotalIssuance s) + unat v"
    using assms by (subst unat_plus_if') simp
  then show ?thesis using assms by (simp add: currency_issue_def checked_add_def)
qed

lemma issue_mint_minted:
  assumes r: "ready_to_mint cfg s" and lt: "issuance s + unat v < 2 ^ 128"
  shows "minted cfg who v s (issue_mint (resolve_by_deposit cfg) who v s)"
proof -
  have g: "good_balances cfg" "put_total (sy cfg)" "well_kept cfg s" "bal_ok cfg s" and snd: "sound_balances cfg s"
    using r by (auto simp: ready_to_mint_def sound_balances_def)
  have lt': "unat (TotalIssuance s) + unat v < 2 ^ 128" using lt by (simp add: issuance_def)
  obtain s1 where i: "currency_issue v s = (NegativeImbalance v, s1)"
    and s1: "sys s1 = sys s" "unat (TotalIssuance s1) = unat (TotalIssuance s) + unat v"
    using currency_issue_exact [OF lt'] by blast
  have same: "well_kept cfg s1" "bal_ok cfg s1" "account_of cfg s1 = account_of cfg s"
    using g well_kept_sys [OF s1(1), of cfg] bal_ok_sys [OF s1(1), of cfg] account_of_sys [OF s1(1), of cfg] by simp_all
  have cr1: "creditable_to cfg s1 who v = creditable_to cfg s who v" using same(3) by (simp add: creditable_to_def)
  have m: "issue_mint (resolve_by_deposit cfg) who v s = resolve_by_deposit cfg who (NegativeImbalance v) s1"
    by (simp add: issue_mint_def i)
  consider (zero) "v = 0" | (no) "v \<noteq> 0" "\<not> creditable_to cfg s who v" | (yes) "v \<noteq> 0" "creditable_to cfg s who v" by blast
  then show ?thesis
  proof cases
    case zero
    then have "resolve_by_deposit cfg who (NegativeImbalance v) s1 = s1"
      by (simp add: resolve_by_deposit_def deposit_creating_def neg_offset_def)
    moreover have "TotalIssuance s1 = TotalIssuance s" using s1(2) zero by (simp add: word_unat_eq_iff)
    ultimately show ?thesis using minted_sys [OF r s1(1)] zero m by simp
  next
    case no
    have e: "resolve_by_deposit cfg who (NegativeImbalance v) s1 = drop_negative (NegativeImbalance v) s1"
      using deposit_refused [OF same(1)] cr1 no by (simp add: resolve_by_deposit_def neg_offset_def word_gt_0)
    have "unat (TotalIssuance (drop_negative (NegativeImbalance v) s1)) = unat (TotalIssuance s)"
      by (simp add: drop_negative_effect s1(2))
    then have "TotalIssuance (drop_negative (NegativeImbalance v) s1) = TotalIssuance s" by (simp add: word_unat_eq_iff)
    then show ?thesis using minted_sys [OF r] s1(1) no m e drop_positive_keeps(2) by metis
  next
    case yes
    have "unat (free_balance cfg s1 who) + unat v < 2 ^ 128"
      using funds_le [OF snd, of who] lt same(3) by (simp add: funds_of_def free_balance_def)
    then obtain s' where d: "deposit_creating cfg who v s1 = (PositiveImbalance v, s')"
      and s': "well_kept cfg s'" "bal_ok cfg s'" "TotalIssuance s' = TotalIssuance s1"
        "unat (free_balance cfg s' who) = unat (free_balance cfg s1 who) + unat v"
        "\<And>b. b \<noteq> who \<Longrightarrow> account_of cfg s' b = account_of cfg s1 b" "holdings cfg s' = holdings cfg s1 + unat v"
      using deposit_credits [OF g(1,2) same(1,2) _ yes(1)] yes(2) cr1 by blast
    have "resolve_by_deposit cfg who (NegativeImbalance v) s1 = s'"
      by (simp add: resolve_by_deposit_def d neg_offset_def)
    moreover have "minted cfg who v s s'"
      by (rule mintedI [OF r yes(2)]) (use s' s1 same(3) in \<open>simp_all add: free_balance_def holdings_def\<close>)
    ultimately show ?thesis using m by simp
  qed
qed

interpretation deposit_minting: minting "deposit_mint cfg" "funds_of cfg" issuance "ready_to_mint cfg" "creditable_to cfg"
  for cfg
  using deposit_mint_minted by unfold_locales (fastforce simp: minted_def)+

interpretation issue_minting: minting "issue_mint (resolve_by_deposit cfg)" "funds_of cfg" issuance "ready_to_mint cfg"
  "creditable_to cfg" for cfg
  using issue_mint_minted by unfold_locales (fastforce simp: minted_def)+

lemma two_funded_ready:
  "ready_to_mint (ref_config 10) (two_accounts (funded 100 20 1) (funded 50 0 0))"
proof -
  have "well_kept (ref_config 10) (two_accounts (funded 100 20 1) (funded 50 0 0))"
    by (simp add: well_kept_def two_accounts_def funded_def no_account_def is_new_logic_def
        does_consume_def default_account_def IS_NEW_LOGIC_def ref_system_def)
  then show ?thesis
    using ref_good [of 10] ref_put_total two_funded_sound [of 10 100 50 20 0 1 0]
    by (simp add: ready_to_mint_def)
qed

end
