(* ===== verification/Wormhole.thy ===== *)
theory Wormhole
  imports Minting
begin

text \<open>
  The wormhole pallet (\<open>pallets/wormhole/src/lib.rs\<close>): the public inputs of a proof, read from field
  elements, the nullifiers used so far, and the one dispatchable, which mints the exit amount. The
  proof system (parsing, verification, the canonical value of a field element) and the decoding of
  an account from its bytes are the parameters of \<open>wormhole_ops\<close>.
\<close>

section \<open>Public inputs\<close>

record wormhole_inputs =
  nullifier :: bytes
  exit_account :: account
  exit_amount :: u64
  fee_amount :: u64
  storage_root :: bytes

record ('p, 'f) wormhole_ops =
  parse_proof :: "bytes \<Rightarrow> 'p option"
  public_inputs :: "'p \<Rightarrow> 'f list"
  verify_proof :: "'p \<Rightarrow> bool"
  to_canonical :: "'f \<Rightarrow> u64"
  decode_account :: "bytes \<Rightarrow> account option"

text \<open>\<open>u64::to_le_bytes\<close>.\<close>

definition le_bytes :: "u64 \<Rightarrow> bytes" where
  "le_bytes w = bytes_le 8 (unat w)"

text \<open>The bytes of \<open>n\<close> fields from \<open>from\<close> on, one after the other; indexing past the end panics.\<close>

fun field_bytes :: "('p, 'f) wormhole_ops \<Rightarrow> 'f list \<Rightarrow> nat \<Rightarrow> nat \<Rightarrow> dispatch_error + bytes" where
  "field_bytes ops fs start 0 = Inr []"
| "field_bytes ops fs start (Suc n) =
     (if start < length fs
      then (case field_bytes ops fs (Suc start) n of
          Inl e \<Rightarrow> Inl e
        | Inr bs \<Rightarrow> Inr (le_bytes (to_canonical ops (fs ! start)) @ bs))
      else Inl Panicked)"

definition from_fields :: "('p, 'f) wormhole_ops \<Rightarrow> 'f list \<Rightarrow> dispatch_error + wormhole_inputs" where
  "from_fields ops fs =
     (if length fs < 16 then Inl (Wormhole_Error InvalidPublicInputs)
      else case field_bytes ops fs 0 8 of Inl e \<Rightarrow> Inl e | Inr nul \<Rightarrow>
        (case field_bytes ops fs 8 4 of Inl e \<Rightarrow> Inl e | Inr account_bytes \<Rightarrow>
          (case field_bytes ops fs 14 4 of Inl e \<Rightarrow> Inl e | Inr root \<Rightarrow>
            (case decode_account ops account_bytes of
               None \<Rightarrow> Inl (Wormhole_Error InvalidPublicInputs)
             | Some who \<Rightarrow> Inr \<lparr> nullifier = nul, exit_account = who,
                 exit_amount = to_canonical ops (fs ! 12), fee_amount = to_canonical ops (fs ! 13),
                 storage_root = root \<rparr>))))"

section \<open>Storage and the dispatchable\<close>

datatype wormhole_event = ProofVerified balance

record 'e wormhole_state =
  UsedNullifiers :: "bytes \<Rightarrow> bool option"
  wormhole_balances :: "'e bal_state"
  wormhole_events :: "wormhole_event list"

type_synonym ('e, 'a) wormhole = "('e wormhole_state, dispatch_error, 'a) comp"

text \<open>The conversion of the amount from \<open>u64\<close> to \<open>u128\<close> cannot fail.\<close>

definition exit_balance :: "wormhole_inputs \<Rightarrow> balance" where
  "exit_balance inputs = ucast (exit_amount inputs)"

definition mark_used :: "bytes \<Rightarrow> 'e wormhole_state \<Rightarrow> 'e wormhole_state" where
  "mark_used nul s = s\<lparr> UsedNullifiers := (UsedNullifiers s)(nul \<mapsto> True) \<rparr>"

definition pay_out :: "'e bal_config \<Rightarrow> wormhole_inputs \<Rightarrow> 'e wormhole_state \<Rightarrow> 'e wormhole_state" where
  "pay_out cfg inputs s =
     s\<lparr> wormhole_balances := deposit_mint cfg (exit_account inputs) (exit_balance inputs) (wormhole_balances s),
        wormhole_events := wormhole_events s @ [ProofVerified (exit_balance inputs)] \<rparr>"

definition verify_wormhole_proof ::
    "('p, 'f) wormhole_ops \<Rightarrow> 'e bal_config \<Rightarrow> origin \<Rightarrow> bytes \<Rightarrow> ('e, unit) wormhole" where
  "verify_wormhole_proof ops cfg origin proof_bytes =
     transactional
       (and_then (lift_res (ensure_none origin)) (\<lambda>_.
        and_then (lift_res (case parse_proof ops proof_bytes of
            None \<Rightarrow> Inl (Wormhole_Error ProofDeserializationFailed) | Some p \<Rightarrow> Inr p)) (\<lambda>p.
        and_then (lift_res (from_fields ops (public_inputs ops p))) (\<lambda>inputs s.
          and_then (ensure (UsedNullifiers s (nullifier inputs) = None) (Wormhole_Error NullifierAlreadyUsed)) (\<lambda>_.
          and_then (ensure (verify_proof ops p) (Wormhole_Error VerificationFailed)) (\<lambda>_.
          and_then (update_st (mark_used (nullifier inputs))) (\<lambda>_.
          update_st (pay_out cfg inputs)))) s))))"

text \<open>The public inputs a proof stands for, when it parses.\<close>

definition inputs_of :: "('p, 'f) wormhole_ops \<Rightarrow> bytes \<Rightarrow> wormhole_inputs option" where
  "inputs_of ops proof_bytes =
     (case parse_proof ops proof_bytes of None \<Rightarrow> None
      | Some p \<Rightarrow> (case from_fields ops (public_inputs ops p) of Inl _ \<Rightarrow> None | Inr i \<Rightarrow> Some i))"

text \<open>A sequence of calls; the inputs of the accepted ones, in their order.\<close>

fun run_wormhole ::
    "('p, 'f) wormhole_ops \<Rightarrow> 'e bal_config \<Rightarrow> (origin \<times> bytes) list \<Rightarrow> 'e wormhole_state
      \<Rightarrow> wormhole_inputs list \<times> 'e wormhole_state" where
  "run_wormhole ops cfg [] s = ([], s)"
| "run_wormhole ops cfg ((origin, pb) # rest) s =
     (case verify_wormhole_proof ops cfg origin pb s of
        (Inl _, s') \<Rightarrow> run_wormhole ops cfg rest s'
      | (Inr _, s') \<Rightarrow> (case run_wormhole ops cfg rest s' of
          (accepted, s'') \<Rightarrow> (the (inputs_of ops pb) # accepted, s'')))"

section \<open>Reading the fields\<close>

definition fields_at :: "('p, 'f) wormhole_ops \<Rightarrow> 'f list \<Rightarrow> nat \<Rightarrow> nat \<Rightarrow> bytes" where
  "fields_at ops fs start n = concat (map (\<lambda>i. le_bytes (to_canonical ops (fs ! i))) [start..<start + n])"

lemma field_bytes_eq:
  "field_bytes ops fs start n =
     (if n = 0 \<or> start + n \<le> length fs then Inr (fields_at ops fs start n) else Inl Panicked)"
proof (induction n arbitrary: start)
  case 0
  then show ?case by (simp add: fields_at_def)
next
  case (Suc n)
  have u: "fields_at ops fs start (Suc n) = le_bytes (to_canonical ops (fs ! start)) @ fields_at ops fs (Suc start) n"
    by (simp add: fields_at_def upt_conv_Cons del: upt_Suc)
  show ?case
    unfolding u field_bytes.simps Suc by simp
qed

definition le_word :: "bytes \<Rightarrow> u64" where
  "le_word bs = word_of_nat (value_le bs)"

lemma le_word_bytes [simp]: "le_word (le_bytes w) = w"
  using unat_lt_max [of w] by (simp add: le_word_def le_bytes_def value_le_bytes)

lemma length_le_bytes [simp]: "length (le_bytes w) = 8"
  by (simp add: le_bytes_def)

text \<open>The words a sequence of bytes encodes, eight bytes each.\<close>

function words_of :: "bytes \<Rightarrow> u64 list" where
  "words_of bs = (if bs = [] then [] else le_word (take 8 bs) # words_of (drop 8 bs))"
  by auto
termination by (relation "measure length") auto

declare words_of.simps [simp del]

lemma words_of_concat: "words_of (concat (map (\<lambda>i. le_bytes (f i)) l)) = map f l"
proof (induction l)
  case Nil
  then show ?case by (simp add: words_of.simps)
next
  case (Cons i l)
  have "le_bytes (f i) \<noteq> []" using length_le_bytes [of "f i"] by fastforce
  then show ?case using Cons by (subst words_of.simps) simp
qed

lemma from_fields_eq:
  "from_fields ops fs =
     (if length fs < 16 then Inl (Wormhole_Error InvalidPublicInputs)
      else if length fs < 18 then Inl Panicked
      else case decode_account ops (fields_at ops fs 8 4) of
          None \<Rightarrow> Inl (Wormhole_Error InvalidPublicInputs)
        | Some who \<Rightarrow> Inr \<lparr> nullifier = fields_at ops fs 0 8, exit_account = who,
            exit_amount = to_canonical ops (fs ! 12), fee_amount = to_canonical ops (fs ! 13),
            storage_root = fields_at ops fs 14 4 \<rparr>)"
  by (simp add: from_fields_def field_bytes_eq split: option.split)

lemma words_of_fields_at:
  assumes "start + n \<le> length fs"
  shows "words_of (fields_at ops fs start n) = map (to_canonical ops) (take n (drop start fs))"
proof -
  have "map (\<lambda>i. to_canonical ops (fs ! i)) [start..<start + n] = map (to_canonical ops) (take n (drop start fs))"
    by (rule nth_equalityI) (use assms in auto)
  then show ?thesis by (simp only: fields_at_def words_of_concat)
qed

section \<open>The dispatchable\<close>

lemma verify_wormhole_Inr:
  "verify_wormhole_proof ops cfg origin pb s = (Inr u, s') \<longleftrightarrow>
     (\<exists>p inputs. origin = Unsigned \<and> parse_proof ops pb = Some p \<and> from_fields ops (public_inputs ops p) = Inr inputs \<and>
        UsedNullifiers s (nullifier inputs) = None \<and> verify_proof ops p \<and>
        s' = pay_out cfg inputs (mark_used (nullifier inputs) s))"
  by (auto simp: verify_wormhole_proof_def comp_results split: option.splits)

lemma verify_wormhole_Inl:
  "verify_wormhole_proof ops cfg origin pb s = (Inl e, s') \<Longrightarrow> s' = s"
  by (simp add: verify_wormhole_proof_def transactional_Inl)

lemma paid_out [simp]:
  "UsedNullifiers (pay_out cfg i (mark_used nul s)) = (UsedNullifiers s)(nul \<mapsto> True)"
  "wormhole_balances (pay_out cfg i (mark_used nul s)) =
     deposit_mint cfg (exit_account i) (exit_balance i) (wormhole_balances s)"
  by (simp_all add: pay_out_def mark_used_def)

definition exits :: "wormhole_inputs list \<Rightarrow> (account \<times> balance) list" where
  "exits l = map (\<lambda>i. (exit_account i, exit_balance i)) l"

definition genuine :: "('p, 'f) wormhole_ops \<Rightarrow> wormhole_inputs \<Rightarrow> bool" where
  "genuine ops i \<longleftrightarrow> (\<exists>pb p. parse_proof ops pb = Some p \<and> verify_proof ops p \<and>
     from_fields ops (public_inputs ops p) = Inr i)"

lemma run_wormhole_accepts:
  assumes "run_wormhole ops cfg calls s = (accepted, s')"
  shows "distinct (map nullifier accepted) \<and>
    (\<forall>i\<in>set accepted. genuine ops i \<and> UsedNullifiers s (nullifier i) = None) \<and>
    UsedNullifiers s' = (\<lambda>n. if n \<in> nullifier ` set accepted then Some True else UsedNullifiers s n) \<and>
    wormhole_balances s' = deposit_minting.mint_all cfg (exits accepted) (wormhole_balances s)"
  using assms
proof (induction calls arbitrary: s accepted)
  case Nil
  then show ?case by (auto simp: exits_def)
next
  case (Cons c calls)
  obtain origin pb where c: "c = (origin, pb)" by (cases c)
  show ?case
  proof (cases "verify_wormhole_proof ops cfg origin pb s")
    case (Pair r s1)
    show ?thesis
    proof (cases r)
      case (Inl e)
      then show ?thesis using Cons Pair c verify_wormhole_Inl by fastforce
    next
      case (Inr u)
      obtain p i where p: "parse_proof ops pb = Some p" "from_fields ops (public_inputs ops p) = Inr i"
          "UsedNullifiers s (nullifier i) = None" "verify_proof ops p" "s1 = pay_out cfg i (mark_used (nullifier i) s)"
        using Pair Inr by (auto simp: verify_wormhole_Inr)
      obtain acc where run: "run_wormhole ops cfg calls s1 = (acc, s')" and a: "accepted = i # acc"
        using Cons.prems c Pair Inr p(1,2) by (auto simp: inputs_of_def split: prod.splits)
      note ih = Cons.IH [OF run]
      have fresh: "nullifier i \<notin> nullifier ` set acc" using ih p(5) by auto
      have old: "UsedNullifiers s (nullifier j) = None" if "j \<in> set acc" for j
        using ih that p(5) by (auto split: if_splits)
      have g: "genuine ops i" using p by (auto simp: genuine_def)
      show ?thesis
        unfolding a using ih p(3,5) fresh g old by (auto simp: exits_def fun_eq_iff)
    qed
  qed
qed

section \<open>Data for the witnesses\<close>

text \<open>A proof system in which a proof is its public inputs, as words, and even ones verify.\<close>

definition word_proofs :: "(bytes, u64) wormhole_ops" where
  "word_proofs = \<lparr> parse_proof = (\<lambda>bs. if length bs = 18 then Some bs else None), public_inputs = map (\<lambda>b. ucast b),
     verify_proof = (\<lambda>bs. True), to_canonical = (\<lambda>w. w), decode_account = (\<lambda>bs. Some (ucast (hd bs))) \<rparr>"

definition sample_proof :: "u8 \<Rightarrow> bytes" where
  "sample_proof who = [5, 0, 0, 0, 0, 0, 0, 0, who, 0, 0, 0, 7, 1, 0, 0, 0, 0]"

definition sample_inputs :: "u8 \<Rightarrow> wormhole_inputs" where
  "sample_inputs who = \<lparr> nullifier = fields_at word_proofs (map (\<lambda>b. ucast b) (sample_proof who)) 0 8,
     exit_account = ucast who, exit_amount = 7, fee_amount = 1,
     storage_root = fields_at word_proofs (map (\<lambda>b. ucast b) (sample_proof who)) 14 4 \<rparr>"

lemma sample_account:
  "decode_account word_proofs (fields_at word_proofs (map (\<lambda>b. ucast b) (sample_proof who)) 8 4) = Some (ucast who)"
proof -
  let ?fs = "map (\<lambda>b. ucast b) (sample_proof who) :: u64 list"
  have byte_unat: "unat (ucast who :: u64) = unat who"
    by transfer (simp add: take_bit_eq_mod)
  have "fields_at word_proofs ?fs 8 4 =
      le_bytes (?fs ! 8) @ concat (map (\<lambda>i. le_bytes (to_canonical word_proofs (?fs ! i))) [9..<12])"
    by (simp add: fields_at_def upt_conv_Cons word_proofs_def)
  moreover have "le_bytes (?fs ! 8) = who # map (\<lambda>i. word_of_nat (unat who div 256 ^ i mod 256)) [1..<8]"
    using unat_lt_max [of who] byte_unat by (simp add: le_bytes_def bytes_le_def upt_conv_Cons sample_proof_def)
  ultimately show ?thesis by (simp add: word_proofs_def)
qed

lemma sample_reads: "from_fields word_proofs (public_inputs word_proofs (sample_proof who)) = Inr (sample_inputs who)"
  using sample_account [of who] by (simp add: from_fields_eq sample_inputs_def) (simp add: word_proofs_def sample_proof_def)

lemma sample_verifies:
  "parse_proof word_proofs (sample_proof who) = Some (sample_proof who)" "verify_proof word_proofs p"
  by (simp_all add: word_proofs_def sample_proof_def)

definition wormhole_start :: "ref_store wormhole_state" where
  "wormhole_start = \<lparr> UsedNullifiers = (\<lambda>_. None),
     wormhole_balances = two_accounts (funded 100 20 1) (funded 50 0 0), wormhole_events = [] \<rparr>"

section \<open>The properties\<close>

text \<open>Reading the public inputs loses nothing: the eight-byte words of the nullifier and of the storage
  root are the canonical values of the fields they come from, in order, and so are the amounts and the
  bytes the exit account is decoded from.\<close>

theorem from_fields_roundtrip:
  assumes "from_fields ops fs = Inr i"
  shows "words_of (nullifier i) = map (to_canonical ops) (take 8 fs) \<and>
    exit_amount i = to_canonical ops (fs ! 12) \<and> fee_amount i = to_canonical ops (fs ! 13) \<and>
    words_of (storage_root i) = map (to_canonical ops) (take 4 (drop 14 fs)) \<and>
    (\<exists>bs. decode_account ops bs = Some (exit_account i) \<and>
      words_of bs = map (to_canonical ops) (take 4 (drop 8 fs)))"
  using assms words_of_fields_at [of 0 8 fs ops] words_of_fields_at [of 14 4 fs ops] words_of_fields_at [of 8 4 fs ops]
  by (auto simp: from_fields_eq split: if_splits option.splits)

text \<open>The length check is too weak: from sixteen or seventeen fields the code indexes past the end and
  panics, instead of returning \<open>InvalidPublicInputs\<close>.\<close>

theorem from_fields_panics:
  "from_fields ops fs = Inl Panicked \<longleftrightarrow> length fs = 16 \<or> length fs = 17"
  by (auto simp: from_fields_eq split: option.splits)

text \<open>C7: Over any sequence of calls no nullifier pays twice: the accepted proofs have pairwise different
  nullifiers, none of them used before and all used afterwards, each belongs to a verified proof; nobody
  loses funds, and nobody gains more than the exit amounts of the accepted proofs that name them.\<close>

theorem wormhole_single_use:
  assumes "ready_to_mint cfg (wormhole_balances s)"
    and "run_wormhole ops cfg calls s = (accepted, s')"
    and "issuance (wormhole_balances s) + (\<Sum>(w, v)\<leftarrow>exits accepted. unat v) < 2 ^ 128"
  shows "distinct (map nullifier accepted) \<and>
    (\<forall>i\<in>set accepted. genuine ops i \<and> UsedNullifiers s (nullifier i) = None \<and>
       UsedNullifiers s' (nullifier i) = Some True) \<and>
    issuance (wormhole_balances s') \<le> issuance (wormhole_balances s) + (\<Sum>(w, v)\<leftarrow>exits accepted. unat v) \<and>
    (\<forall>b. funds_of cfg (wormhole_balances s) b \<le> funds_of cfg (wormhole_balances s') b \<and>
       funds_of cfg (wormhole_balances s') b \<le> funds_of cfg (wormhole_balances s) b +
         (\<Sum>(w, v)\<leftarrow>exits accepted. if w = b then unat v else 0))"
  using run_wormhole_accepts [OF assms(2)] deposit_minting.mint_all_correct [OF assms(1,3)] by auto

text \<open>A proof whose exit amount is below the existential deposit and whose exit account does not exist
  is accepted, its nullifier is spent, and nothing is paid: the result of the deposit is ignored.\<close>

theorem small_exit_is_lost:
  assumes "ready_to_mint cfg (wormhole_balances s)"
    and "parse_proof ops pb = Some p" "from_fields ops (public_inputs ops p) = Inr i" "verify_proof ops p"
    and "UsedNullifiers s (nullifier i) = None"
    and "\<not> creditable_to cfg (wormhole_balances s) (exit_account i) (exit_balance i)"
  shows "\<exists>s'. verify_wormhole_proof ops cfg Unsigned pb s = (Inr (), s') \<and>
    UsedNullifiers s' (nullifier i) = Some True \<and> wormhole_balances s' = wormhole_balances s"
proof -
  have wk: "well_kept cfg (wormhole_balances s)" using assms(1) by (simp add: ready_to_mint_def)
  have "deposit_mint cfg (exit_account i) (exit_balance i) (wormhole_balances s) = wormhole_balances s"
    using deposit_refused [OF wk assms(6)]
    by (cases "exit_balance i = 0") (simp_all add: deposit_mint_def drop_positive_def deposit_creating_def)
  then show ?thesis using assms(2-5) by (auto simp: verify_wormhole_Inr)
qed

lemma from_fields_roundtrip_witness:
  "words_of (nullifier (sample_inputs 2)) = [5, 0, 0, 0, 0, 0, 0, 0] \<and> exit_amount (sample_inputs 2) = 7"
  using from_fields_roundtrip [OF sample_reads [of 2]] by (simp add: word_proofs_def sample_proof_def)

lemma wormhole_single_use_witness:
  "\<exists>s'. run_wormhole word_proofs (ref_config 10) [(Unsigned, sample_proof 2), (Unsigned, sample_proof 2)] wormhole_start =
     ([sample_inputs 2], s') \<and> UsedNullifiers s' (nullifier (sample_inputs 2)) = Some True"
proof -
  let ?calls = "[(Unsigned, sample_proof 2), (Unsigned, sample_proof 2)]"
  let ?s1 = "pay_out (ref_config 10) (sample_inputs 2) (mark_used (nullifier (sample_inputs 2)) wormhole_start)"
  have one: "verify_wormhole_proof word_proofs (ref_config 10) Unsigned (sample_proof 2) wormhole_start = (Inr (), ?s1)"
    using sample_reads [of 2] sample_verifies by (auto simp: verify_wormhole_Inr wormhole_start_def)
  have two: "verify_wormhole_proof word_proofs (ref_config 10) Unsigned (sample_proof 2) ?s1 =
      (Inl (Wormhole_Error NullifierAlreadyUsed), ?s1)"
    using sample_reads [of 2] sample_verifies
    by (simp add: verify_wormhole_proof_def transactional_def and_then_def ensure_none_def ensure_def)
  have r: "run_wormhole word_proofs (ref_config 10) ?calls wormhole_start = ([sample_inputs 2], ?s1)"
    using sample_reads [of 2] sample_verifies by (simp add: one two inputs_of_def)
  show ?thesis
    using wormhole_single_use [OF _ r] two_funded_ready r
    by (simp add: wormhole_start_def exits_def issuance_def two_accounts_def funded_def exit_balance_def sample_inputs_def)
qed

lemma small_exit_is_lost_witness:
  "\<exists>s'. verify_wormhole_proof word_proofs (ref_config 10) Unsigned (sample_proof 3) wormhole_start = (Inr (), s') \<and>
     wormhole_balances s' = wormhole_balances wormhole_start \<and> exit_amount (sample_inputs 3) = 7"
proof -
  have "\<not> creditable_to (ref_config 10) (wormhole_balances wormhole_start) (exit_account (sample_inputs 3))
      (exit_balance (sample_inputs 3))"
    by (simp add: creditable_to_def wormhole_start_def two_accounts_def sample_inputs_def exit_balance_def no_account_def
        funded_def)
  from small_exit_is_lost [OF _ sample_verifies(1) sample_reads sample_verifies(2) _ this] two_funded_ready
  show ?thesis by (auto simp: wormhole_start_def sample_inputs_def)
qed

end
