(* ===== verification/MiningRewards.thy ===== *)
theory MiningRewards
  imports Minting
begin

text \<open>
  The mining rewards pallet (\<open>pallets/mining-rewards/src/lib.rs\<close>): transaction fees are collected while
  a block runs, and at its end the miner named in the block's digest is paid the base reward and the
  fees. The engine identifier, the decoding of an account, the block reward, the framework's
  \<open>resolve_creating\<close> and the handler of a dropped fee credit are the parameters of \<open>reward_ops\<close>.
\<close>

section \<open>Storage\<close>

datatype reward_event =
  MinerRewarded block_number account balance
| FeesCollected balance balance

record 'e reward_ops =
  POW_ENGINE_ID :: bytes
  account_decode :: "bytes \<Rightarrow> account option"
  BlockReward :: balance
  resolve_creating :: "account \<Rightarrow> negative_imbalance \<Rightarrow> 'e bal_state \<Rightarrow> 'e bal_state"
  drop_credit :: "balance \<Rightarrow> 'e bal_state \<Rightarrow> 'e bal_state"

record 'e reward_state =
  CollectedFees :: balance
  reward_balances :: "'e bal_state"
  reward_events :: "reward_event list"

definition reward_event :: "reward_event \<Rightarrow> 'e reward_state \<Rightarrow> 'e reward_state" where
  "reward_event ev s = s\<lparr> reward_events := reward_events s @ [ev] \<rparr>"

section \<open>Operations\<close>

text \<open>The first pre-runtime item of the engine whose data decodes.\<close>

fun extract_miner_from_digest :: "'e reward_ops \<Rightarrow> digest_item list \<Rightarrow> account option" where
  "extract_miner_from_digest ops [] = None"
| "extract_miner_from_digest ops (PreRuntime engine_id data # logs) =
     (if engine_id = POW_ENGINE_ID ops
      then (case account_decode ops data of
          Some miner \<Rightarrow> Some miner
        | None \<Rightarrow> extract_miner_from_digest ops logs)
      else extract_miner_from_digest ops logs)"
| "extract_miner_from_digest ops (_ # logs) = extract_miner_from_digest ops logs"

definition collect_transaction_fees :: "balance \<Rightarrow> 'e reward_state \<Rightarrow> 'e reward_state" where
  "collect_transaction_fees fees s =
     (let total = sat_add (CollectedFees s) fees
      in reward_event (FeesCollected fees total) (s\<lparr> CollectedFees := total \<rparr>))"

definition on_nonzero_unbalanced :: "'e reward_ops \<Rightarrow> balance \<Rightarrow> 'e reward_state \<Rightarrow> 'e reward_state" where
  "on_nonzero_unbalanced ops amount s =
     (let s1 = collect_transaction_fees amount s
      in s1\<lparr> reward_balances := drop_credit ops amount (reward_balances s1) \<rparr>)"

definition rewards_on_finalize ::
    "'e reward_ops \<Rightarrow> digest_item list \<Rightarrow> block_number \<Rightarrow> 'e reward_state \<Rightarrow> 'e reward_state" where
  "rewards_on_finalize ops digest block s =
     (case extract_miner_from_digest ops digest of
        Some miner \<Rightarrow>
          let base_reward = BlockReward ops;
              tx_fees = CollectedFees s;
              s1 = s\<lparr> CollectedFees := 0 \<rparr>;
              total_reward = sat_add base_reward tx_fees;
              (reward_imbalance, b1) = currency_issue total_reward (reward_balances s1);
              b2 = resolve_creating ops miner reward_imbalance b1
          in reward_event (MinerRewarded block miner total_reward) (s1\<lparr> reward_balances := b2 \<rparr>)
      | None \<Rightarrow> s)"

section \<open>The properties\<close>

text \<open>A dropped fee credit takes its amount from the issuance, as the framework documents.\<close>

definition drop_credit_law :: "'e reward_ops \<Rightarrow> bool" where
  "drop_credit_law ops \<longleftrightarrow> (\<forall>v b. drop_credit ops v b = b\<lparr> TotalIssuance := sat_sub (TotalIssuance b) v \<rparr>)"

lemma collected_fees:
  assumes "drop_credit_law ops" "unat (CollectedFees s) + (\<Sum>v\<leftarrow>fees. unat v) < 2 ^ 128"
    "(\<Sum>v\<leftarrow>fees. unat v) \<le> issuance (reward_balances s)"
  shows "unat (CollectedFees (fold (on_nonzero_unbalanced ops) fees s)) =
      unat (CollectedFees s) + (\<Sum>v\<leftarrow>fees. unat v) \<and>
    issuance (reward_balances (fold (on_nonzero_unbalanced ops) fees s)) + (\<Sum>v\<leftarrow>fees. unat v) =
      issuance (reward_balances s)"
  using assms(2,3)
proof (induction fees arbitrary: s)
  case (Cons v fees)
  let ?s = "on_nonzero_unbalanced ops v s"
  have f: "unat (CollectedFees ?s) = unat (CollectedFees s) + unat v"
    using Cons.prems(1) by (simp add: on_nonzero_unbalanced_def collect_transaction_fees_def Let_def reward_event_def mach_nat)
  have i: "issuance (reward_balances ?s) + unat v = issuance (reward_balances s)"
    using Cons.prems(2) assms(1)
    by (simp add: on_nonzero_unbalanced_def collect_transaction_fees_def Let_def reward_event_def issuance_def
        drop_credit_law_def mach_nat)
  have "unat (CollectedFees ?s) + (\<Sum>v\<leftarrow>fees. unat v) < 2 ^ 128" "(\<Sum>v\<leftarrow>fees. unat v) \<le> issuance (reward_balances ?s)"
    using Cons.prems f i by simp_all
  from Cons.IH [OF this] show ?case using f i by simp
qed simp

lemma rewards_on_finalize_mints:
  assumes "extract_miner_from_digest ops digest = Some miner" "resolve_creating ops = resolve_by_deposit cfg"
  shows "rewards_on_finalize ops digest block s =
    reward_event (MinerRewarded block miner (sat_add (BlockReward ops) (CollectedFees s)))
      (s\<lparr> CollectedFees := 0,
         reward_balances := issue_mint (resolve_by_deposit cfg) miner (sat_add (BlockReward ops) (CollectedFees s))
           (reward_balances s) \<rparr>)"
  using assms by (simp add: rewards_on_finalize_def issue_mint_def Let_def split: prod.split)

text \<open>C15: At the end of a block with a miner in its digest, the miner's free balance grows by the base
  reward and all fees collected since the last reward, nobody else's balance changes, the issuance, from
  which every fee was taken when it was collected, grows by the same amount, and no collected fees are
  left; so over fees and reward together the issuance grows by the base reward and the older fees only.
  A miner that cannot be credited, because the account is new and the sum below the existential deposit,
  gets nothing and the fees are gone. Without a miner nothing happens and the fees wait for a later block.\<close>

theorem block_reward_correct:
  assumes "drop_credit_law ops" "resolve_creating ops = resolve_by_deposit cfg"
    and "unat (BlockReward ops) + unat (CollectedFees s0) + issuance (reward_balances s0) < 2 ^ 128"
    and "(\<Sum>v\<leftarrow>fees. unat v) \<le> issuance (reward_balances s0)"
    and "s = fold (on_nonzero_unbalanced ops) fees s0" "ready_to_mint cfg (reward_balances s)"
    and "s' = rewards_on_finalize ops digest block s"
  shows "case extract_miner_from_digest ops digest of
      None \<Rightarrow> s' = s
    | Some miner \<Rightarrow> CollectedFees s' = 0 \<and>
        (creditable_to cfg (reward_balances s) miner (sat_add (BlockReward ops) (CollectedFees s)) \<longrightarrow>
          funds_of cfg (reward_balances s') = (funds_of cfg (reward_balances s))(miner :=
            funds_of cfg (reward_balances s) miner + unat (BlockReward ops) + unat (CollectedFees s0) + (\<Sum>v\<leftarrow>fees. unat v)) \<and>
          issuance (reward_balances s') = issuance (reward_balances s0) + unat (BlockReward ops) + unat (CollectedFees s0)) \<and>
        (\<not> creditable_to cfg (reward_balances s) miner (sat_add (BlockReward ops) (CollectedFees s)) \<longrightarrow>
          funds_of cfg (reward_balances s') = funds_of cfg (reward_balances s) \<and>
          issuance (reward_balances s') = issuance (reward_balances s))"
proof (cases "extract_miner_from_digest ops digest")
  case None
  then show ?thesis using assms(7) by (simp add: rewards_on_finalize_def)
next
  case (Some miner)
  have "unat (CollectedFees s0) + (\<Sum>v\<leftarrow>fees. unat v) < 2 ^ 128" using assms(3,4) by simp
  note f = collected_fees [OF assms(1) this assms(4), folded assms(5), THEN conjunct1]
    collected_fees [OF assms(1) this assms(4), folded assms(5), THEN conjunct2]
  let ?v = "sat_add (BlockReward ops) (CollectedFees s)"
  have v: "unat ?v = unat (BlockReward ops) + unat (CollectedFees s0) + (\<Sum>v\<leftarrow>fees. unat v)"
    using f(1) assms(3,4) by (simp add: mach_nat)
  have lt: "issuance (reward_balances s) + unat ?v < 2 ^ 128" using f(2) assms(3,4) v by simp
  have b: "reward_balances s' = issue_mint (resolve_by_deposit cfg) miner ?v (reward_balances s)" "CollectedFees s' = 0"
    unfolding assms(7) rewards_on_finalize_mints [OF Some assms(2)] by (simp_all add: reward_event_def)
  show ?thesis
    using issue_minting.mint_funds [OF assms(6) lt, of miner] issue_minting.mint_issued [OF assms(6) lt, of miner] b v f(2) Some
    by (simp add: add.assoc)
qed

definition sample_rewards :: "ref_store reward_ops" where
  "sample_rewards = \<lparr> POW_ENGINE_ID = [112, 111, 119, 95], account_decode = (\<lambda>bs. if bs = [2] then Some 2 else None),
     BlockReward = 30, resolve_creating = resolve_by_deposit (ref_config 10),
     drop_credit = (\<lambda>v b. b\<lparr> TotalIssuance := sat_sub (TotalIssuance b) v \<rparr>) \<rparr>"

text \<open>Four have left account 2 as a fee that has yet to be collected.\<close>

definition before_fees :: "ref_store reward_state" where
  "before_fees = \<lparr> CollectedFees = 1,
     reward_balances = (two_accounts (funded 100 20 1) (funded 50 0 0))\<lparr> TotalIssuance := 174 \<rparr>, reward_events = [] \<rparr>"

lemma block_reward_correct_witness:
  "funds_of (ref_config 10) (reward_balances (rewards_on_finalize sample_rewards
     [PreRuntime [112, 111, 119, 95] [], PreRuntime [112, 111, 119, 95] [2]] 9
     (fold (on_nonzero_unbalanced sample_rewards) [3, 1] before_fees))) 2 = 85"
proof -
  let ?s = "fold (on_nonzero_unbalanced sample_rewards) [3, 1] before_fees"
  let ?d = "[PreRuntime [112, 111, 119, 95] [], PreRuntime [112, 111, 119, 95] [2]]"
  have s: "reward_balances ?s = two_accounts (funded 100 20 1) (funded 50 0 0)"
    by (simp add: on_nonzero_unbalanced_def collect_transaction_fees_def Let_def reward_event_def before_fees_def
        sample_rewards_def sat_sub_def two_accounts_def funded_def)
  have law: "drop_credit_law sample_rewards" "resolve_creating sample_rewards = resolve_by_deposit (ref_config 10)"
    by (simp_all add: drop_credit_law_def sample_rewards_def)
  have small: "unat (BlockReward sample_rewards) + unat (CollectedFees before_fees) + issuance (reward_balances before_fees) < 2 ^ 128"
    "(\<Sum>v\<leftarrow>[3, 1]. unat (v :: balance)) \<le> issuance (reward_balances before_fees)"
    by (simp_all add: sample_rewards_def before_fees_def issuance_def)
  have ready: "ready_to_mint (ref_config 10) (reward_balances ?s)" unfolding s by (rule two_funded_ready)
  have cr: "creditable_to (ref_config 10) (reward_balances ?s) 2 v" for v
    unfolding s by (simp add: creditable_to_def two_accounts_def funded_def)
  show ?thesis
    using block_reward_correct [OF law small refl ready refl, of ?d 9] cr
    unfolding s by (simp add: sample_rewards_def funds_of_def free_balance_def two_accounts_def funded_def before_fees_def)
qed

end
