(* ===== verification/Faucet.thy ===== *)
theory Faucet
  imports Minting
begin

text \<open>
  The faucet pallet (\<open>pallets/faucet/src/lib.rs\<close>): anybody may have a fixed amount minted to an account
  that has less than a maximum. The address lookup and the framework's \<open>resolve_creating\<close> are
  parameters, with the two constants.
\<close>

datatype faucet_event = TokensMinted account balance

record ('e, 'l) faucet_ops =
  MaxTokenAmount :: balance
  DefaultMintAmount :: balance
  faucet_lookup :: "'l \<Rightarrow> dispatch_error + account"
  faucet_resolve :: "account \<Rightarrow> negative_imbalance \<Rightarrow> 'e bal_state \<Rightarrow> 'e bal_state"

record 'e faucet_state =
  faucet_balances :: "'e bal_state"
  faucet_events :: "faucet_event list"

definition faucet_mint :: "('e, 'l) faucet_ops \<Rightarrow> account \<Rightarrow> 'e faucet_state \<Rightarrow> 'e faucet_state" where
  "faucet_mint ops dest s =
     (let (minted, b1) = currency_issue (DefaultMintAmount ops) (faucet_balances s);
          b2 = faucet_resolve ops dest minted b1
      in s\<lparr> faucet_balances := b2, faucet_events := faucet_events s @ [TokensMinted dest (DefaultMintAmount ops)] \<rparr>)"

text \<open>The origin and the seed are not looked at.\<close>

definition mint_new_tokens ::
    "('e, 'l) faucet_ops \<Rightarrow> 'e bal_config \<Rightarrow> origin \<Rightarrow> 'l \<Rightarrow> u64 \<Rightarrow> ('e faucet_state, dispatch_error, unit) comp" where
  "mint_new_tokens ops cfg origin dest seed =
     transactional
       (and_then (lift_res (faucet_lookup ops dest)) (\<lambda>who s.
          (let balance = free_balance cfg (faucet_balances s) who
           in if balance < MaxTokenAmount ops then (Inr (), faucet_mint ops who s) else (Inr (), s))))"

datatype 'l faucet_call = Mint_New_Tokens 'l u64 | Other_Faucet_Call

record 'l faucet_validity =
  faucet_priority :: u64
  faucet_longevity :: u64
  faucet_propagate :: bool
  faucet_provides :: "'l \<times> u64 \<times> block_number"

definition faucet_validate_unsigned :: "block_number \<Rightarrow> 'l faucet_call \<Rightarrow> 'l faucet_validity option" where
  "faucet_validate_unsigned block call =
     (case call of
        Mint_New_Tokens dest seed \<Rightarrow> Some \<lparr> faucet_priority = 100, faucet_longevity = 64,
          faucet_propagate = True, faucet_provides = (dest, seed, block) \<rparr>
      | Other_Faucet_Call \<Rightarrow> None)"

fun run_faucet ::
    "('e, 'l) faucet_ops \<Rightarrow> 'e bal_config \<Rightarrow> (origin \<times> 'l \<times> u64) list \<Rightarrow> 'e faucet_state \<Rightarrow> 'e faucet_state" where
  "run_faucet ops cfg [] s = s"
| "run_faucet ops cfg ((origin, dest, seed) # rest) s =
     run_faucet ops cfg rest (snd (mint_new_tokens ops cfg origin dest seed s))"

lemma mint_new_tokens_result:
  assumes "mint_new_tokens ops cfg origin dest seed s = (r, s')" "faucet_resolve ops = resolve_by_deposit cfg"
  shows "faucet_balances s' = faucet_balances s \<or>
    (\<exists>who. faucet_lookup ops dest = Inr who \<and> free_balance cfg (faucet_balances s) who < MaxTokenAmount ops \<and>
      faucet_balances s' = issue_mint (resolve_by_deposit cfg) who (DefaultMintAmount ops) (faucet_balances s))"
  using assms
  by (auto simp: mint_new_tokens_def transactional_def and_then_def Let_def faucet_mint_def issue_mint_def
      split: if_splits sum.splits prod.splits)

lemma faucet_step:
  assumes "ready_to_mint cfg (faucet_balances s)" "faucet_resolve ops = resolve_by_deposit cfg"
    and lt: "issuance (faucet_balances s) + unat (DefaultMintAmount ops) < 2 ^ 128"
    and s': "s' = snd (mint_new_tokens ops cfg origin dest seed s)"
  shows "ready_to_mint cfg (faucet_balances s') \<and>
    issuance (faucet_balances s') \<le> issuance (faucet_balances s) + unat (DefaultMintAmount ops) \<and>
    funds_of cfg (faucet_balances s) b \<le> funds_of cfg (faucet_balances s') b \<and>
    funds_of cfg (faucet_balances s') b \<le>
      max (funds_of cfg (faucet_balances s) b) (unat (MaxTokenAmount ops) - 1 + unat (DefaultMintAmount ops))"
proof -
  obtain r where r: "mint_new_tokens ops cfg origin dest seed s = (r, s')" using s' by (cases "mint_new_tokens ops cfg origin dest seed s") simp
  from mint_new_tokens_result [OF r assms(2)] show ?thesis
  proof
    assume "faucet_balances s' = faucet_balances s"
    then show ?thesis using assms(1) by simp
  next
    assume "\<exists>who. faucet_lookup ops dest = Inr who \<and> free_balance cfg (faucet_balances s) who < MaxTokenAmount ops \<and>
      faucet_balances s' = issue_mint (resolve_by_deposit cfg) who (DefaultMintAmount ops) (faucet_balances s)"
    then obtain who where w: "free_balance cfg (faucet_balances s) who < MaxTokenAmount ops"
      "faucet_balances s' = issue_mint (resolve_by_deposit cfg) who (DefaultMintAmount ops) (faucet_balances s)" by blast
    have "unat (free_balance cfg (faucet_balances s) who) < unat (MaxTokenAmount ops)"
      using w(1) by (simp add: word_less_nat_alt)
    then have "funds_of cfg (faucet_balances s) who \<le> unat (MaxTokenAmount ops) - 1" by (simp add: funds_of_def)
    moreover note issue_minting.mint_ready [OF assms(1) lt, of who] issue_minting.mint_conserves(3-5) [OF assms(1) lt]
    ultimately show ?thesis
      using issue_minting.mint_funds [OF assms(1) lt, of who] unfolding w(2) by auto
  qed
qed

section \<open>The property\<close>

text \<open>C30: However often it is called and by whom, the faucet never takes an account beyond its previous
  balance or the maximum less one plus one minted amount, and it never takes anything away.\<close>

theorem faucet_capped:
  assumes "ready_to_mint cfg (faucet_balances s)" "faucet_resolve ops = resolve_by_deposit cfg"
    and "issuance (faucet_balances s) + length calls * unat (DefaultMintAmount ops) < 2 ^ 128"
  shows "funds_of cfg (faucet_balances s) b \<le> funds_of cfg (faucet_balances (run_faucet ops cfg calls s)) b \<and>
    funds_of cfg (faucet_balances (run_faucet ops cfg calls s)) b \<le>
      max (funds_of cfg (faucet_balances s) b) (unat (MaxTokenAmount ops) - 1 + unat (DefaultMintAmount ops))"
  using assms
proof (induction ops cfg calls s rule: run_faucet.induct)
  case (2 ops cfg origin dest seed rest s)
  let ?s = "snd (mint_new_tokens ops cfg origin dest seed s)"
  have lt: "issuance (faucet_balances s) + unat (DefaultMintAmount ops) < 2 ^ 128" using "2.prems"(3) by simp
  note st = faucet_step [OF "2.prems"(1,2) lt refl, where b = b and origin = origin and dest = dest and seed = seed]
  have "issuance (faucet_balances ?s) + length rest * unat (DefaultMintAmount ops) < 2 ^ 128"
    using st "2.prems"(3) by simp
  from "2.IH" [OF conjunct1 [OF st] "2.prems"(2) this] show ?case
    using st unfolding run_faucet.simps by (intro conjI) linarith+
qed simp

definition sample_faucet :: "(ref_store, account) faucet_ops" where
  "sample_faucet = \<lparr> MaxTokenAmount = 60, DefaultMintAmount = 20, faucet_lookup = Inr,
     faucet_resolve = resolve_by_deposit (ref_config 10) \<rparr>"

lemma faucet_capped_witness:
  "funds_of (ref_config 10) (faucet_balances (run_faucet sample_faucet (ref_config 10)
     [(Unsigned, 2, 0), (Root, 2, 1), (Unsigned, 2, 2)]
     \<lparr> faucet_balances = two_accounts (funded 100 20 1) (funded 50 0 0), faucet_events = [] \<rparr>)) 2 \<le> 79"
  (is "funds_of _ (faucet_balances (run_faucet _ _ ?calls ?s)) 2 \<le> _")
proof -
  have "ready_to_mint (ref_config 10) (faucet_balances ?s)" using two_funded_ready by simp
  from faucet_capped [OF this, of sample_faucet ?calls 2] show ?thesis
    by (simp add: sample_faucet_def issuance_def two_accounts_def funded_def funds_of_def free_balance_def)
qed

end
