(* ===== verification/MerkleAirdrop.thy ===== *)
theory MerkleAirdrop
  imports Frame
begin

text \<open>
  The Merkle airdrop pallet (\<open>pallets/merkle-airdrop/src/lib.rs\<close>): airdrops with the Merkle root of
  their claims, the four dispatchables, and the validation of unsigned claims. The currency, the
  vesting schedule, the block number, the hash function and the encoding of a claim are the parameters
  of \<open>airdrop_ops\<close>; the first two work on a state \<open>'x\<close> the pallet does not look into. A hash is 32 bytes,
  kept as the number they spell with the first byte most significant, so that the order of the arrays
  is the order of the numbers.
\<close>

section \<open>Storage\<close>

type_synonym airdrop_id = u32

record airdrop_metadata =
  merkle_root :: hash256
  creator :: account
  airdrop_balance :: balance
  vesting_period :: "block_number option"
  vesting_delay :: "block_number option"

datatype airdrop_event =
  AirdropCreated airdrop_id airdrop_metadata
| AirdropFunded airdrop_id balance
| AirdropClaimed airdrop_id account balance
| AirdropDeleted airdrop_id

record 'x airdrop_ops =
  MaxProofs :: u32
  airdrop_account :: account
  UnsignedClaimPriority :: u64
  airdrop_transfer :: "account \<Rightarrow> account \<Rightarrow> balance \<Rightarrow> existence_requirement \<Rightarrow> ('x, dispatch_error, unit) comp"
  vested_transfer :: "account \<Rightarrow> account \<Rightarrow> balance \<Rightarrow> balance \<Rightarrow> block_number \<Rightarrow> ('x, dispatch_error, unit) comp"
  airdrop_block :: "'x \<Rightarrow> block_number"
  block_number_to_balance :: "block_number \<Rightarrow> balance"
  blake_hash :: "bytes \<Rightarrow> hash256"
  encode_claim :: "account \<Rightarrow> balance \<Rightarrow> bytes"

record 'x airdrop_state =
  AirdropInfo :: "airdrop_id \<Rightarrow> airdrop_metadata option"
  Claimed :: "airdrop_id \<Rightarrow> account \<Rightarrow> unit option"
  NextAirdropId :: airdrop_id
  airdrop_env :: 'x
  airdrop_events :: "airdrop_event list"

type_synonym ('x, 'a) airdrop = "('x airdrop_state, dispatch_error, 'a) comp"

fun to_code :: "airdrop_error \<Rightarrow> u8" where
  "to_code AirdropNotFound = 1"
| "to_code InsufficientAirdropBalance = 2"
| "to_code AlreadyClaimed = 3"
| "to_code Airdrop_InvalidProof = 4"
| "to_code NotAirdropCreator = 5"

section \<open>Merkle proofs\<close>

definition hash_bytes :: "hash256 \<Rightarrow> bytes" where
  "hash_bytes h = rev (bytes_le 32 (unat h))"

definition calculate_leaf_hash :: "'x airdrop_ops \<Rightarrow> account \<Rightarrow> balance \<Rightarrow> hash256" where
  "calculate_leaf_hash ops account amount = blake_hash ops (encode_claim ops account amount)"

text \<open>The bytes of the two children, the smaller first.\<close>

definition combined :: "hash256 \<Rightarrow> hash256 \<Rightarrow> bytes" where
  "combined left right =
     (if left < right then hash_bytes left @ hash_bytes right else hash_bytes right @ hash_bytes left)"

definition calculate_parent_hash :: "'x airdrop_ops \<Rightarrow> hash256 \<Rightarrow> hash256 \<Rightarrow> hash256" where
  "calculate_parent_hash ops left right = blake_hash ops (combined left right)"

fun walk_up :: "'x airdrop_ops \<Rightarrow> hash256 \<Rightarrow> hash256 list \<Rightarrow> hash256" where
  "walk_up ops computed_hash [] = computed_hash"
| "walk_up ops computed_hash (proof_element # rest) =
     walk_up ops
       (if computed_hash < proof_element then calculate_parent_hash ops computed_hash proof_element
        else calculate_parent_hash ops proof_element computed_hash) rest"

definition verify_merkle_proof :: "'x airdrop_ops \<Rightarrow> account \<Rightarrow> balance \<Rightarrow> hash256 \<Rightarrow> hash256 list \<Rightarrow> bool" where
  "verify_merkle_proof ops account amount root merkle_proof \<longleftrightarrow>
     walk_up ops (calculate_leaf_hash ops account amount) merkle_proof = root"

section \<open>Dispatchables\<close>

definition airdrop_event :: "airdrop_event \<Rightarrow> 'x airdrop_state \<Rightarrow> 'x airdrop_state" where
  "airdrop_event ev s = s\<lparr> airdrop_events := airdrop_events s @ [ev] \<rparr>"

definition in_env :: "('x, dispatch_error, 'a) comp \<Rightarrow> ('x, 'a) airdrop" where
  "in_env m s = (case m (airdrop_env s) of (r, x) \<Rightarrow> (r, s\<lparr> airdrop_env := x \<rparr>))"

text \<open>\<open>AirdropInfo::mutate\<close> of the balance, for an airdrop that is there.\<close>

definition mutate_balance :: "airdrop_id \<Rightarrow> (balance \<Rightarrow> balance) \<Rightarrow> 'x airdrop_state \<Rightarrow> 'x airdrop_state" where
  "mutate_balance i f s =
     s\<lparr> AirdropInfo := (AirdropInfo s)(i :=
          map_option (\<lambda>m. m\<lparr> airdrop_balance := f (airdrop_balance m) \<rparr>) (AirdropInfo s i)) \<rparr>"

definition create_airdrop ::
    "origin \<Rightarrow> hash256 \<Rightarrow> block_number option \<Rightarrow> block_number option \<Rightarrow> ('x, unit) airdrop" where
  "create_airdrop origin root period start_delay =
     transactional
       (and_then (lift_res (ensure_signed origin)) (\<lambda>who s.
          (let i = NextAirdropId s;
               m = \<lparr> merkle_root = root, creator = who, airdrop_balance = 0, vesting_period = period,
                     vesting_delay = start_delay \<rparr>
           in update_st (\<lambda>s. airdrop_event (AirdropCreated i m)
                (s\<lparr> AirdropInfo := (AirdropInfo s)(i \<mapsto> m), NextAirdropId := sat_add i 1 \<rparr>)) s)))"

definition fund_airdrop ::
    "'x airdrop_ops \<Rightarrow> origin \<Rightarrow> airdrop_id \<Rightarrow> balance \<Rightarrow> ('x, unit) airdrop" where
  "fund_airdrop ops origin i amount =
     transactional
       (and_then (lift_res (ensure_signed origin)) (\<lambda>who s.
          and_then (ensure (AirdropInfo s i \<noteq> None) (Airdrop_Error AirdropNotFound)) (\<lambda>_.
          and_then (in_env (airdrop_transfer ops who (airdrop_account ops) amount KeepAlive)) (\<lambda>_.
          and_then (update_st (mutate_balance i (\<lambda>b. sat_add b amount))) (\<lambda>_.
          update_st (airdrop_event (AirdropFunded i amount))))) s))"

definition per_block_of :: "'x airdrop_ops \<Rightarrow> airdrop_metadata \<Rightarrow> balance \<Rightarrow> dispatch_error + balance" where
  "per_block_of ops m amount =
     (case vesting_period m of
        Some period \<Rightarrow>
          (if block_number_to_balance ops period = 0 then Inl (Airdrop_Error InsufficientAirdropBalance)
           else Inr (amount div block_number_to_balance ops period))
      | None \<Rightarrow> Inr amount)"

definition vesting_start_of :: "'x airdrop_ops \<Rightarrow> airdrop_metadata \<Rightarrow> 'x airdrop_state \<Rightarrow> block_number" where
  "vesting_start_of ops m s =
     sat_add (airdrop_block ops (airdrop_env s)) (case vesting_delay m of Some d \<Rightarrow> d | None \<Rightarrow> 0)"

text \<open>The proof is a bounded vector: a longer one does not decode, so the call does not happen.\<close>

definition claim ::
    "'x airdrop_ops \<Rightarrow> origin \<Rightarrow> airdrop_id \<Rightarrow> account \<Rightarrow> balance \<Rightarrow> hash256 list \<Rightarrow> ('x, unit) airdrop" where
  "claim ops origin i recipient amount merkle_proof =
     transactional
       (and_then (lift_res (ensure_none origin)) (\<lambda>_ s.
          and_then (ensure (Claimed s i recipient = None) (Airdrop_Error AlreadyClaimed)) (\<lambda>_.
          and_then (lift_res (case AirdropInfo s i of None \<Rightarrow> Inl (Airdrop_Error AirdropNotFound) | Some m \<Rightarrow> Inr m)) (\<lambda>m.
          and_then (ensure (verify_merkle_proof ops recipient amount (merkle_root m) merkle_proof)
            (Airdrop_Error Airdrop_InvalidProof)) (\<lambda>_.
          and_then (ensure (amount \<le> airdrop_balance m) (Airdrop_Error InsufficientAirdropBalance)) (\<lambda>_.
          and_then (update_st (\<lambda>s. s\<lparr> Claimed := (Claimed s)(i := (Claimed s i)(recipient \<mapsto> ())) \<rparr>)) (\<lambda>_.
          and_then (update_st (mutate_balance i (\<lambda>b. sat_sub b amount))) (\<lambda>_.
          and_then (lift_res (per_block_of ops m amount)) (\<lambda>per_block.
          and_then (read_st (vesting_start_of ops m)) (\<lambda>vesting_start.
          and_then (in_env (vested_transfer ops (airdrop_account ops) recipient amount per_block vesting_start)) (\<lambda>_.
          update_st (airdrop_event (AirdropClaimed i recipient amount))))))))))) s))"

definition delete_airdrop :: "'x airdrop_ops \<Rightarrow> origin \<Rightarrow> airdrop_id \<Rightarrow> ('x, unit) airdrop" where
  "delete_airdrop ops origin i =
     transactional
       (and_then (lift_res (ensure_signed origin)) (\<lambda>who s.
          and_then (lift_res (case AirdropInfo s i of None \<Rightarrow> Inl (Airdrop_Error AirdropNotFound) | Some m \<Rightarrow> Inr m)) (\<lambda>m.
          and_then (update_st (\<lambda>s. s\<lparr> AirdropInfo := (AirdropInfo s)(i := None) \<rparr>)) (\<lambda>_.
          and_then (ensure (creator m = who) (Airdrop_Error NotAirdropCreator)) (\<lambda>_.
          and_then (in_env (airdrop_transfer ops (airdrop_account ops) (creator m) (airdrop_balance m) KeepAlive)) (\<lambda>_.
          update_st (airdrop_event (AirdropDeleted i)))))) s))"

section \<open>Unsigned claims\<close>

datatype airdrop_call =
  Create_Airdrop hash256 "block_number option" "block_number option"
| Fund_Airdrop airdrop_id balance
| Claim_Airdrop airdrop_id account balance "hash256 list"
| Delete_Airdrop airdrop_id

datatype invalid_transaction = Invalid_Custom u8 | Invalid_Call

record claim_validity =
  claim_priority :: u64
  claim_provides :: "airdrop_id \<times> account \<times> balance"
  claim_longevity :: u64
  claim_propagate :: bool

definition validate_unsigned ::
    "'x airdrop_ops \<Rightarrow> 'x airdrop_state \<Rightarrow> airdrop_call \<Rightarrow> invalid_transaction + claim_validity" where
  "validate_unsigned ops s call =
     (case call of
        Claim_Airdrop i recipient amount merkle_proof \<Rightarrow>
          (case AirdropInfo s i of
             None \<Rightarrow> Inl (Invalid_Custom (to_code AirdropNotFound))
           | Some m \<Rightarrow>
               if Claimed s i recipient \<noteq> None then Inl (Invalid_Custom (to_code AlreadyClaimed))
               else if \<not> verify_merkle_proof ops recipient amount (merkle_root m) merkle_proof
               then Inl (Invalid_Custom (to_code Airdrop_InvalidProof))
               else Inr \<lparr> claim_priority = UnsignedClaimPriority ops, claim_provides = (i, recipient, amount),
                   claim_longevity = - 1, claim_propagate = True \<rparr>)
      | _ \<Rightarrow> Inl Invalid_Call)"

fun run_airdrop_call :: "'x airdrop_ops \<Rightarrow> origin \<Rightarrow> airdrop_call \<Rightarrow> ('x, unit) airdrop" where
  "run_airdrop_call ops origin (Create_Airdrop root period start_delay) = create_airdrop origin root period start_delay"
| "run_airdrop_call ops origin (Fund_Airdrop i amount) = fund_airdrop ops origin i amount"
| "run_airdrop_call ops origin (Claim_Airdrop i recipient amount pr) = claim ops origin i recipient amount pr"
| "run_airdrop_call ops origin (Delete_Airdrop i) = delete_airdrop ops origin i"

end
