(* ===== verification/MerkleAirdropLaw.thy ===== *)
theory MerkleAirdropLaw
  imports MerkleAirdrop
begin

text \<open>
  The properties of the Merkle airdrops: a proof verifies exactly for the claims of the tree behind
  the root, a claim is paid once and only to those listed, the pallet's account holds what the airdrops
  still owe, and the ways in which an airdrop gets stuck.
\<close>

section \<open>Merkle trees\<close>

text \<open>The specification of a root: the tree of the claims it stands for, with the path to each.\<close>

datatype claim_tree = Claim_Leaf account balance | Claim_Node claim_tree claim_tree

fun tree_root :: "'x airdrop_ops \<Rightarrow> claim_tree \<Rightarrow> hash256" where
  "tree_root ops (Claim_Leaf a v) = calculate_leaf_hash ops a v"
| "tree_root ops (Claim_Node l r) = calculate_parent_hash ops (tree_root ops l) (tree_root ops r)"

fun tree_claims :: "claim_tree \<Rightarrow> (account \<times> balance) set" where
  "tree_claims (Claim_Leaf a v) = {(a, v)}"
| "tree_claims (Claim_Node l r) = tree_claims l \<union> tree_claims r"

fun tree_paths :: "'x airdrop_ops \<Rightarrow> claim_tree \<Rightarrow> ((account \<times> balance) \<times> hash256 list) list" where
  "tree_paths ops (Claim_Leaf a v) = [((a, v), [])]"
| "tree_paths ops (Claim_Node l r) =
     map (\<lambda>(c, p). (c, p @ [tree_root ops r])) (tree_paths ops l) @
     map (\<lambda>(c, p). (c, p @ [tree_root ops l])) (tree_paths ops r)"

text \<open>The strings hashed for a tree, and for a walk.\<close>

fun tree_strings :: "'x airdrop_ops \<Rightarrow> claim_tree \<Rightarrow> bytes set" where
  "tree_strings ops (Claim_Leaf a v) = {encode_claim ops a v}"
| "tree_strings ops (Claim_Node l r) =
     insert (combined (tree_root ops l) (tree_root ops r)) (tree_strings ops l \<union> tree_strings ops r)"

fun walk_strings :: "'x airdrop_ops \<Rightarrow> hash256 \<Rightarrow> hash256 list \<Rightarrow> bytes set" where
  "walk_strings ops h [] = {}"
| "walk_strings ops h (e # p) = insert (combined h e) (walk_strings ops (calculate_parent_hash ops h e) p)"

text \<open>An account and an amount are encoded in full, and never in 64 bytes.\<close>

definition encoding_law :: "'x airdrop_ops \<Rightarrow> bool" where
  "encoding_law ops \<longleftrightarrow>
     (\<forall>a v b w. encode_claim ops a v = encode_claim ops b w \<longrightarrow> a = b \<and> v = w) \<and>
     (\<forall>a v. length (encode_claim ops a v) \<noteq> 64)"

lemma hash_bytes_inject: "hash_bytes h = hash_bytes h' \<longleftrightarrow> h = h'"
proof
  assume "hash_bytes h = hash_bytes h'"
  then have "value_le (bytes_le 32 (unat h)) = value_le (bytes_le 32 (unat h'))" by (simp add: hash_bytes_def)
  then show "h = h'"
    using unat_lt_max [of h] unat_lt_max [of h'] by (simp add: value_le_bytes word_unat_eq_iff)
qed simp

lemma length_hash_bytes [simp]: "length (hash_bytes h) = 32"
  by (simp add: hash_bytes_def)

lemma length_combined [simp]: "length (combined l r) = 64"
  by (simp add: combined_def)

lemma combined_commute: "combined l r = combined r l"
  by (auto simp: combined_def)

lemma combined_inject: "combined l r = combined l' r' \<Longrightarrow> l = l' \<and> r = r' \<or> l = r' \<and> r = l'"
  by (auto simp: combined_def append_eq_append_conv hash_bytes_inject split: if_splits)

lemma walk_up_step: "walk_up ops h (e # p) = walk_up ops (calculate_parent_hash ops h e) p"
  by (simp add: calculate_parent_hash_def combined_commute)

lemma walk_up_append: "walk_up ops h (p @ [e]) = calculate_parent_hash ops (walk_up ops h p) e"
  by (induction p arbitrary: h) (simp_all only: append.simps walk_up_step walk_up.simps(1))

lemma walk_strings_append: "walk_strings ops h (p @ [e]) = insert (combined (walk_up ops h p) e) (walk_strings ops h p)"
  by (induction p arbitrary: h) (simp_all only: append.simps walk_up_step walk_strings.simps walk_up.simps(1) insert_commute)

lemma tree_paths_verify: "((a, v), p) \<in> set (tree_paths ops t) \<Longrightarrow> walk_up ops (calculate_leaf_hash ops a v) p = tree_root ops t"
proof (induction t arbitrary: p)
  case (Claim_Node l r)
  then show ?case
    by (auto simp: walk_up_append calculate_parent_hash_def combined_commute)
qed simp

lemma walk_up_listed:
  assumes law: "encoding_law ops"
    and "inj_on (blake_hash ops) (tree_strings ops t \<union> insert (encode_claim ops a v) (walk_strings ops (calculate_leaf_hash ops a v) p))"
    and "walk_up ops (calculate_leaf_hash ops a v) p = tree_root ops t"
  shows "(a, v) \<in> tree_claims t"
  using assms(2,3)
proof (induction p arbitrary: t rule: rev_induct)
  case Nil
  have e: "encode_claim ops a v \<noteq> combined x y" for x y
    using law by (metis encoding_law_def length_combined)
  show ?case
  proof (cases t)
    case (Claim_Leaf b w)
    then have "encode_claim ops a v = encode_claim ops b w"
      using Nil by (intro inj_onD [OF Nil(1)]) (simp_all add: calculate_leaf_hash_def)
    then show ?thesis using law Claim_Leaf by (auto simp: encoding_law_def)
  next
    case (Claim_Node l r)
    then have "encode_claim ops a v = combined (tree_root ops l) (tree_root ops r)"
      using Nil by (intro inj_onD [OF Nil(1)]) (simp_all add: calculate_leaf_hash_def calculate_parent_hash_def)
    then show ?thesis using e by blast
  qed
next
  case (snoc e p)
  let ?h = "walk_up ops (calculate_leaf_hash ops a v) p"
  have eq: "blake_hash ops (combined ?h e) = tree_root ops t"
    using snoc.prems(2) by (simp add: walk_up_append calculate_parent_hash_def)
  note inj = snoc.prems(1) [unfolded walk_strings_append]
  show ?case
  proof (cases t)
    case (Claim_Leaf b w)
    then have "combined ?h e = encode_claim ops b w"
      using eq by (intro inj_onD [OF inj]) (simp_all add: calculate_leaf_hash_def)
    then show ?thesis using law by (metis encoding_law_def length_combined)
  next
    case (Claim_Node l r)
    then have "combined ?h e = combined (tree_root ops l) (tree_root ops r)"
      using eq by (intro inj_onD [OF inj]) (simp_all add: calculate_parent_hash_def)
    then have "?h = tree_root ops l \<or> ?h = tree_root ops r" using combined_inject by blast
    then show ?thesis
    proof
      assume h: "?h = tree_root ops l"
      have "(a, v) \<in> tree_claims l"
        by (rule snoc.IH [OF inj_on_subset [OF inj] h]) (auto simp: Claim_Node)
      then show ?thesis by (simp add: Claim_Node)
    next
      assume h: "?h = tree_root ops r"
      have "(a, v) \<in> tree_claims r"
        by (rule snoc.IH [OF inj_on_subset [OF inj] h]) (auto simp: Claim_Node)
      then show ?thesis by (simp add: Claim_Node)
    qed
  qed
qed

section \<open>Effects of the dispatchables\<close>

lemma in_env_Inr: "in_env m s = (Inr y, s') \<longleftrightarrow> (\<exists>x. m (airdrop_env s) = (Inr y, x) \<and> s' = s\<lparr> airdrop_env := x \<rparr>)"
  by (auto simp: in_env_def split: prod.splits)

lemma run_airdrop_call_error: "run_airdrop_call ops origin c s = (Inl e, s') \<Longrightarrow> s' = s"
  by (cases c) (simp_all add: create_airdrop_def fund_airdrop_def claim_def delete_airdrop_def transactional_Inl)

lemmas airdrop_results = comp_results in_env_Inr airdrop_event_def mutate_balance_def

lemma create_airdrop_effect:
  assumes "create_airdrop origin root period start_delay s = (Inr u, s')"
  obtains who m where "origin = Signed who"
    "m = \<lparr> merkle_root = root, creator = who, airdrop_balance = 0, vesting_period = period, vesting_delay = start_delay \<rparr>"
    "s' = s\<lparr> AirdropInfo := (AirdropInfo s)(NextAirdropId s \<mapsto> m), NextAirdropId := sat_add (NextAirdropId s) 1,
       airdrop_events := airdrop_events s @ [AirdropCreated (NextAirdropId s) m] \<rparr>"
  using assms by (auto simp: create_airdrop_def airdrop_results Let_def)

lemma fund_airdrop_effect:
  assumes "fund_airdrop ops origin i amount s = (Inr u, s')"
  obtains who m x where "origin = Signed who" "AirdropInfo s i = Some m"
    "airdrop_transfer ops who (airdrop_account ops) amount KeepAlive (airdrop_env s) = (Inr (), x)"
    "s' = s\<lparr> AirdropInfo := (AirdropInfo s)(i \<mapsto> m\<lparr> airdrop_balance := sat_add (airdrop_balance m) amount \<rparr>),
       airdrop_env := x, airdrop_events := airdrop_events s @ [AirdropFunded i amount] \<rparr>"
  using assms by (auto simp: fund_airdrop_def airdrop_results)

lemma claim_effect:
  assumes "claim ops origin i recipient amount pr s = (Inr u, s')"
  obtains m pb x where "origin = Unsigned" "Claimed s i recipient = None" "AirdropInfo s i = Some m"
    "verify_merkle_proof ops recipient amount (merkle_root m) pr" "amount \<le> airdrop_balance m"
    "per_block_of ops m amount = Inr pb"
    "vested_transfer ops (airdrop_account ops) recipient amount pb (vesting_start_of ops m s) (airdrop_env s) = (Inr (), x)"
    "s' = s\<lparr> AirdropInfo := (AirdropInfo s)(i \<mapsto> m\<lparr> airdrop_balance := sat_sub (airdrop_balance m) amount \<rparr>),
       Claimed := (Claimed s)(i := (Claimed s i)(recipient \<mapsto> ())), airdrop_env := x,
       airdrop_events := airdrop_events s @ [AirdropClaimed i recipient amount] \<rparr>"
  using assms unfolding claim_def transactional_Inr
  by (clarsimp simp: airdrop_results vesting_start_of_def split: option.splits)

lemma delete_airdrop_effect:
  assumes "delete_airdrop ops origin i s = (Inr u, s')"
  obtains m x where "origin = Signed (creator m)" "AirdropInfo s i = Some m"
    "airdrop_transfer ops (airdrop_account ops) (creator m) (airdrop_balance m) KeepAlive (airdrop_env s) = (Inr (), x)"
    "s' = s\<lparr> AirdropInfo := (AirdropInfo s)(i := None), airdrop_env := x,
       airdrop_events := airdrop_events s @ [AirdropDeleted i] \<rparr>"
  using assms unfolding delete_airdrop_def transactional_Inr
  by (clarsimp simp: airdrop_results split: option.splits)

section \<open>What the airdrops owe\<close>

text \<open>What is documented of the currency and the vesting: a transfer into the pallet's account adds
  the amount to what it holds (\<open>pot\<close>), and one out of it takes at most the amount.\<close>

definition airdrop_law :: "'x airdrop_ops \<Rightarrow> ('x \<Rightarrow> nat) \<Rightarrow> bool" where
  "airdrop_law ops pot \<longleftrightarrow>
     (\<forall>who v x u x'. airdrop_transfer ops who (airdrop_account ops) v KeepAlive x = (Inr u, x') \<longrightarrow>
        who \<noteq> airdrop_account ops \<longrightarrow> pot x' = pot x + unat v) \<and>
     (\<forall>dest v x u x'. airdrop_transfer ops (airdrop_account ops) dest v KeepAlive x = (Inr u, x') \<longrightarrow>
        pot x \<le> pot x' + unat v) \<and>
     (\<forall>dest v pb t x u x'. vested_transfer ops (airdrop_account ops) dest v pb t x = (Inr u, x') \<longrightarrow>
        pot x \<le> pot x' + unat v)"

lemma airdrop_lawD:
  assumes "airdrop_law ops pot"
  shows "airdrop_transfer ops who (airdrop_account ops) v KeepAlive x = (Inr u, x') \<Longrightarrow>
      who \<noteq> airdrop_account ops \<Longrightarrow> pot x' = pot x + unat v"
    "airdrop_transfer ops (airdrop_account ops) dest v KeepAlive x = (Inr u, x') \<Longrightarrow> pot x \<le> pot x' + unat v"
    "vested_transfer ops (airdrop_account ops) dest v pb t x = (Inr u, x') \<Longrightarrow> pot x \<le> pot x' + unat v"
  using assms unfolding airdrop_law_def by metis+

definition owes :: "airdrop_metadata option \<Rightarrow> nat" where
  "owes m = (case m of None \<Rightarrow> 0 | Some m \<Rightarrow> unat (airdrop_balance m))"

definition owed_in_all :: "(airdrop_id \<Rightarrow> airdrop_metadata option) \<Rightarrow> nat" where
  "owed_in_all info = (\<Sum>i\<in>UNIV. owes (info i))"

lemma owes_simps [simp]: "owes None = 0" "owes (Some m) = unat (airdrop_balance m)"
  by (simp_all add: owes_def)

lemma owed_in_all_upd: "owed_in_all (info(i := m)) + owes (info i) = owed_in_all info + owes m"
proof -
  have e: "(\<lambda>j. owes ((info(i := m)) j)) = (\<lambda>j. owes (info j))(i := owes m)" by auto
  show ?thesis unfolding owed_in_all_def e by (rule sum_fun_upd)
qed

lemma owes_le_all: "owes (info i) \<le> owed_in_all info"
  unfolding owed_in_all_def by (rule member_le_sum) auto

text \<open>What the events say was paid into and out of an airdrop, and who claimed.\<close>

definition paid_in :: "airdrop_id \<Rightarrow> airdrop_event \<Rightarrow> nat" where
  "paid_in i ev = (case ev of AirdropFunded j v \<Rightarrow> if j = i then unat v else 0 | _ \<Rightarrow> 0)"

definition paid_out :: "airdrop_id \<Rightarrow> airdrop_event \<Rightarrow> nat" where
  "paid_out i ev = (case ev of AirdropClaimed j a v \<Rightarrow> if j = i then unat v else 0 | _ \<Rightarrow> 0)"

definition claimants :: "airdrop_event list \<Rightarrow> (airdrop_id \<times> account) list" where
  "claimants evs = concat (map (\<lambda>ev. case ev of AirdropClaimed i a v \<Rightarrow> [(i, a)] | _ \<Rightarrow> []) evs)"

lemma claimants_append [simp]: "claimants (evs @ evs') = claimants evs @ claimants evs'"
  by (simp add: claimants_def)

lemma claimants_one [simp]: "claimants [AirdropClaimed i a v] = [(i, a)]" "claimants [AirdropFunded i v] = []"
  "claimants [AirdropCreated i m] = []" "claimants [AirdropDeleted i] = []"
  by (simp_all add: claimants_def)

definition airdrop_inv :: "('x \<Rightarrow> nat) \<Rightarrow> 'x airdrop_state \<Rightarrow> bool" where
  "airdrop_inv pot s \<longleftrightarrow> owed_in_all (AirdropInfo s) \<le> pot (airdrop_env s) \<and>
     (\<forall>i. (\<Sum>ev\<leftarrow>airdrop_events s. paid_out i ev) + owes (AirdropInfo s i) \<le> (\<Sum>ev\<leftarrow>airdrop_events s. paid_in i ev)) \<and>
     distinct (claimants (airdrop_events s)) \<and>
     (\<forall>i a. (i, a) \<in> set (claimants (airdrop_events s)) \<longleftrightarrow> Claimed s i a = Some ())"

definition no_airdrops :: "'x \<Rightarrow> 'x airdrop_state" where
  "no_airdrops x = \<lparr> AirdropInfo = (\<lambda>_. None), Claimed = (\<lambda>_ _. None), NextAirdropId = 0, airdrop_env = x,
     airdrop_events = [] \<rparr>"

inductive airdrop_reachable :: "'x airdrop_ops \<Rightarrow> ('x \<Rightarrow> nat) \<Rightarrow> 'x airdrop_state \<Rightarrow> bool" for ops pot where
  airdrop_start: "airdrop_reachable ops pot (no_airdrops x)"
| airdrop_call: "airdrop_reachable ops pot s \<Longrightarrow> origin \<noteq> Signed (airdrop_account ops) \<Longrightarrow>
    run_airdrop_call ops origin c s = (r, s') \<Longrightarrow> airdrop_reachable ops pot s'"
| airdrop_other: "airdrop_reachable ops pot s \<Longrightarrow> pot (airdrop_env s) \<le> pot x \<Longrightarrow>
    airdrop_reachable ops pot (s\<lparr> airdrop_env := x \<rparr>)"

lemma paid_simps [simp]:
  "paid_in i (AirdropFunded j v) = (if j = i then unat v else 0)" "paid_in i (AirdropClaimed j a v) = 0"
  "paid_in i (AirdropCreated j m) = 0" "paid_in i (AirdropDeleted j) = 0"
  "paid_out i (AirdropFunded j v) = 0" "paid_out i (AirdropClaimed j a v) = (if j = i then unat v else 0)"
  "paid_out i (AirdropCreated j m) = 0" "paid_out i (AirdropDeleted j) = 0"
  by (simp_all add: paid_in_def paid_out_def)

lemma create_airdrop_inv:
  assumes "airdrop_inv pot s" "create_airdrop origin root period start_delay s = (Inr u, s')"
  shows "airdrop_inv pot s'"
proof (rule create_airdrop_effect [OF assms(2)])
  fix who and m :: airdrop_metadata
  assume m: "m = \<lparr> merkle_root = root, creator = who, airdrop_balance = 0, vesting_period = period, vesting_delay = start_delay \<rparr>"
    and s': "s' = s\<lparr> AirdropInfo := (AirdropInfo s)(NextAirdropId s \<mapsto> m), NextAirdropId := sat_add (NextAirdropId s) 1,
       airdrop_events := airdrop_events s @ [AirdropCreated (NextAirdropId s) m] \<rparr>"
  have "owed_in_all ((AirdropInfo s)(NextAirdropId s \<mapsto> m)) \<le> owed_in_all (AirdropInfo s)"
    using owed_in_all_upd [of "AirdropInfo s" "NextAirdropId s" "Some m"] m by simp
  moreover have "(\<Sum>ev\<leftarrow>airdrop_events s. paid_out i ev) \<le> (\<Sum>ev\<leftarrow>airdrop_events s. paid_in i ev)" for i
    using assms(1) unfolding airdrop_inv_def by (meson add_leD1)
  ultimately show ?thesis using assms(1) unfolding airdrop_inv_def s' by (auto simp: m)
qed

lemma fund_airdrop_inv:
  assumes law: "airdrop_law ops pot" and "airdrop_inv pot s" "origin \<noteq> Signed (airdrop_account ops)"
    and r: "fund_airdrop ops origin i amount s = (Inr u, s')"
  shows "airdrop_inv pot s'"
proof (rule fund_airdrop_effect [OF r])
  fix who x and m :: airdrop_metadata
  let ?m = "m\<lparr> airdrop_balance := sat_add (airdrop_balance m) amount \<rparr>"
  assume w: "origin = Signed who" "AirdropInfo s i = Some m"
    "airdrop_transfer ops who (airdrop_account ops) amount KeepAlive (airdrop_env s) = (Inr (), x)"
    and s': "s' = s\<lparr> AirdropInfo := (AirdropInfo s)(i \<mapsto> ?m), airdrop_env := x,
      airdrop_events := airdrop_events s @ [AirdropFunded i amount] \<rparr>"
  have p: "pot x = pot (airdrop_env s) + unat amount" using airdrop_lawD(1) [OF law w(3)] w(1) assms(3) by simp
  have b: "unat (sat_add (airdrop_balance m) amount) \<le> unat (airdrop_balance m) + unat amount" by (simp add: mach_nat)
  have o: "owed_in_all ((AirdropInfo s)(i \<mapsto> ?m)) \<le> owed_in_all (AirdropInfo s) + unat amount"
    using owed_in_all_upd [of "AirdropInfo s" i "Some ?m"] b w(2) by simp
  have old: "(\<Sum>ev\<leftarrow>airdrop_events s. paid_out i ev) + unat (airdrop_balance m) \<le> (\<Sum>ev\<leftarrow>airdrop_events s. paid_in i ev)"
    using assms(2) w(2) unfolding airdrop_inv_def by (metis owes_simps(2))
  show ?thesis
    using assms(2) p o b old unfolding airdrop_inv_def s' by auto
qed

lemma claim_inv:
  assumes law: "airdrop_law ops pot" and "airdrop_inv pot s" and r: "claim ops origin i recipient amount pr s = (Inr u, s')"
  shows "airdrop_inv pot s'"
proof (rule claim_effect [OF r])
  fix pb x and m :: airdrop_metadata
  let ?m = "m\<lparr> airdrop_balance := sat_sub (airdrop_balance m) amount \<rparr>"
  assume w: "Claimed s i recipient = None" "AirdropInfo s i = Some m" "amount \<le> airdrop_balance m"
    "vested_transfer ops (airdrop_account ops) recipient amount pb (vesting_start_of ops m s) (airdrop_env s) = (Inr (), x)"
    and s': "s' = s\<lparr> AirdropInfo := (AirdropInfo s)(i \<mapsto> ?m),
       Claimed := (Claimed s)(i := (Claimed s i)(recipient \<mapsto> ())), airdrop_env := x,
       airdrop_events := airdrop_events s @ [AirdropClaimed i recipient amount] \<rparr>"
  have p: "pot (airdrop_env s) \<le> pot x + unat amount" by (rule airdrop_lawD(3) [OF law w(4)])
  have b: "unat (sat_sub (airdrop_balance m) amount) + unat amount = unat (airdrop_balance m)"
    using w(3) by (simp add: mach_nat word_le_nat_alt)
  have o: "owed_in_all ((AirdropInfo s)(i \<mapsto> ?m)) + unat amount = owed_in_all (AirdropInfo s)"
    using owed_in_all_upd [of "AirdropInfo s" i "Some ?m"] b w(2) by simp
  have old: "(\<Sum>ev\<leftarrow>airdrop_events s. paid_out i ev) + unat (airdrop_balance m) \<le> (\<Sum>ev\<leftarrow>airdrop_events s. paid_in i ev)"
    using assms(2) w(2) unfolding airdrop_inv_def by (metis owes_simps(2))
  have new: "(i, recipient) \<notin> set (claimants (airdrop_events s))" using assms(2) w(1) unfolding airdrop_inv_def by simp
  show ?thesis
    using assms(2) p o b old new unfolding airdrop_inv_def s' by (auto split: if_splits)
qed

lemma delete_airdrop_inv:
  assumes law: "airdrop_law ops pot" and "airdrop_inv pot s" and r: "delete_airdrop ops origin i s = (Inr u, s')"
  shows "airdrop_inv pot s'"
proof (rule delete_airdrop_effect [OF r])
  fix x and m :: airdrop_metadata
  assume w: "AirdropInfo s i = Some m"
    "airdrop_transfer ops (airdrop_account ops) (creator m) (airdrop_balance m) KeepAlive (airdrop_env s) = (Inr (), x)"
    and s': "s' = s\<lparr> AirdropInfo := (AirdropInfo s)(i := None), airdrop_env := x,
       airdrop_events := airdrop_events s @ [AirdropDeleted i] \<rparr>"
  have p: "pot (airdrop_env s) \<le> pot x + unat (airdrop_balance m)" by (rule airdrop_lawD(2) [OF law w(2)])
  have o: "owed_in_all ((AirdropInfo s)(i := None)) + unat (airdrop_balance m) = owed_in_all (AirdropInfo s)"
    using owed_in_all_upd [of "AirdropInfo s" i None] w(1) by simp
  have "(\<Sum>ev\<leftarrow>airdrop_events s. paid_out j ev) \<le> (\<Sum>ev\<leftarrow>airdrop_events s. paid_in j ev)" for j
    using assms(2) unfolding airdrop_inv_def by (meson add_leD1)
  then show ?thesis using assms(2) p o unfolding airdrop_inv_def s' by auto
qed

lemma airdrop_reachable_inv:
  assumes law: "airdrop_law ops pot" and r: "airdrop_reachable ops pot s"
  shows "airdrop_inv pot s"
  using r
proof induction
  case (airdrop_start x)
  then show ?case by (simp add: airdrop_inv_def no_airdrops_def owed_in_all_def claimants_def)
next
  case (airdrop_call s origin c r s')
  show ?case
  proof (cases r)
    case (Inl e)
    then show ?thesis using run_airdrop_call_error airdrop_call by metis
  next
    case (Inr u)
    note run = airdrop_call.hyps(3) [unfolded Inr]
    show ?thesis
    proof (cases c)
      case (Create_Airdrop root period d)
      show ?thesis by (rule create_airdrop_inv [OF airdrop_call.IH]) (use run Create_Airdrop in simp)
    next
      case (Fund_Airdrop i v)
      show ?thesis by (rule fund_airdrop_inv [OF law airdrop_call.IH airdrop_call.hyps(2)]) (use run Fund_Airdrop in simp)
    next
      case (Claim_Airdrop i a v p)
      show ?thesis by (rule claim_inv [OF law airdrop_call.IH]) (use run Claim_Airdrop in simp)
    next
      case (Delete_Airdrop i)
      show ?thesis by (rule delete_airdrop_inv [OF law airdrop_call.IH]) (use run Delete_Airdrop in simp)
    qed
  qed
next
  case (airdrop_other s x)
  then show ?case by (auto simp: airdrop_inv_def)
qed

section \<open>A currency for the witnesses\<close>

text \<open>The state is the balance of the pallet's account, 99. A claim is encoded as the runtime does, in 48
  bytes; the hash tells two claims and a pair of hashes apart.\<close>

definition scale_claim :: "account \<Rightarrow> balance \<Rightarrow> bytes" where
  "scale_claim a v = hash_bytes a @ bytes_le 16 (unat v)"

definition pot_out :: "balance \<Rightarrow> (nat, dispatch_error, unit) comp" where
  "pot_out v x = (if unat v \<le> x then (Inr (), x - unat v) else (Inl (Token FundsUnavailable), x))"

definition pot_ops :: "nat airdrop_ops" where
  "pot_ops = \<lparr> MaxProofs = 100, airdrop_account = 99, UnsignedClaimPriority = 5,
     airdrop_transfer = (\<lambda>who dest v _ x. if who = 99 then pot_out v x else (Inr (), x + unat v)),
     vested_transfer = (\<lambda>_ _ v _ _. pot_out v), airdrop_block = (\<lambda>_. 7),
     block_number_to_balance = (\<lambda>b. ucast b),
     blake_hash = (\<lambda>bs. if bs = scale_claim 1 10 then 100 else if bs = scale_claim 2 20 then 200
                     else if length bs = 64 then 300 else 0),
     encode_claim = scale_claim \<rparr>"

lemma scale_claim_inject: "scale_claim a v = scale_claim b w \<longleftrightarrow> a = b \<and> v = w"
proof -
  have "v = w" if "bytes_le 16 (unat v) = bytes_le 16 (unat w)"
  proof -
    have "unat v mod 256 ^ 16 = unat w mod 256 ^ 16"
      using arg_cong [OF that, of value_le] by (simp only: value_le_bytes)
    then show ?thesis using unat_lt_max [of v] unat_lt_max [of w] by (simp add: word_unat_eq_iff)
  qed
  then show ?thesis by (auto simp: scale_claim_def hash_bytes_inject)
qed

lemma length_scale_claim [simp]: "length (scale_claim a v) = 48"
  by (simp add: scale_claim_def)

lemma combined_not_claim: "combined h k \<noteq> scale_claim a v"
proof
  assume "combined h k = scale_claim a v"
  then have "length (combined h k) = length (scale_claim a v)" by (rule arg_cong)
  then show False by simp
qed

lemma pot_encoding: "encoding_law pot_ops"
  by (simp add: encoding_law_def pot_ops_def scale_claim_inject)

lemma pot_law: "airdrop_law pot_ops (\<lambda>x. x)"
  by (simp add: airdrop_law_def pot_ops_def pot_out_def)

definition sample_tree :: claim_tree where
  "sample_tree = Claim_Node (Claim_Leaf 1 10) (Claim_Leaf 2 20)"

lemma sample_hashes:
  "calculate_leaf_hash pot_ops 1 10 = 100" "calculate_leaf_hash pot_ops 2 20 = 200"
  "calculate_parent_hash pot_ops h k = 300"
  by (simp_all add: calculate_leaf_hash_def calculate_parent_hash_def pot_ops_def scale_claim_inject combined_not_claim)

lemma sample_path_verifies: "verify_merkle_proof pot_ops 1 10 300 [200]"
  by (simp add: verify_merkle_proof_def sample_hashes del: walk_up.simps) (simp add: sample_hashes)

lemma sample_collision_free:
  "inj_on (blake_hash pot_ops)
     (tree_strings pot_ops sample_tree \<union> insert (encode_claim pot_ops 1 10) (walk_strings pot_ops (calculate_leaf_hash pot_ops 1 10) [200]))"
proof -
  have l: "blake_hash pot_ops (combined h k) = 300" for h k
    using sample_hashes(3) [of h k] by (simp add: calculate_parent_hash_def)
  have c: "blake_hash pot_ops (scale_claim 1 10) = 100" "blake_hash pot_ops (scale_claim 2 20) = 200"
    "encode_claim pot_ops = scale_claim"
    by (simp_all add: pot_ops_def scale_claim_inject)
  show ?thesis by (rule inj_onI) (auto simp: sample_tree_def sample_hashes c l)
qed

text \<open>The airdrop of the sample tree, funded with 50.\<close>

definition sample_airdrop :: "nat airdrop_state" where
  "sample_airdrop = snd (fund_airdrop pot_ops (Signed 3) 0 50 (snd (create_airdrop (Signed 4) 300 (Some 5) None (no_airdrops 0))))"

lemma sample_airdrop_eq:
  "sample_airdrop = \<lparr> AirdropInfo = [0 \<mapsto> \<lparr> merkle_root = 300, creator = 4, airdrop_balance = 50,
       vesting_period = Some 5, vesting_delay = None \<rparr>], Claimed = (\<lambda>_ _. None), NextAirdropId = 1, airdrop_env = 50,
     airdrop_events = [AirdropCreated 0 \<lparr> merkle_root = 300, creator = 4, airdrop_balance = 0,
       vesting_period = Some 5, vesting_delay = None \<rparr>, AirdropFunded 0 50] \<rparr>"
  by (simp add: sample_airdrop_def fund_airdrop_def create_airdrop_def no_airdrops_def transactional_def and_then_def
      ensure_signed_def Let_def airdrop_event_def ensure_def in_env_def mutate_balance_def pot_ops_def sat_add_def)

lemma sample_airdrop_reachable: "airdrop_reachable pot_ops (\<lambda>x. x) sample_airdrop"
proof -
  let ?s = "snd (create_airdrop (Signed 4) 300 (Some 5) None (no_airdrops 0)) :: nat airdrop_state"
  have "airdrop_reachable pot_ops (\<lambda>x. x) ?s"
    by (rule airdrop_call [OF airdrop_start, where origin = "Signed 4" and c = "Create_Airdrop 300 (Some 5) None"])
      (simp_all add: pot_ops_def prod_eq_iff)
  then show ?thesis
    unfolding sample_airdrop_def
    by (rule airdrop_call [where origin = "Signed 3" and c = "Fund_Airdrop 0 50"]) (simp_all add: pot_ops_def prod_eq_iff)
qed

lemma sample_claim:
  "\<exists>s'. claim pot_ops Unsigned 0 1 10 [200] sample_airdrop = (Inr (), s')"
  using sample_path_verifies
  by (simp add: claim_def sample_airdrop_eq transactional_def and_then_def ensure_none_def ensure_def mutate_balance_def
      per_block_of_def in_env_def vesting_start_of_def) (simp add: pot_ops_def pot_out_def)

section \<open>The properties\<close>

text \<open>C28: A Merkle proof stands for membership in the tree of claims behind the root: every path of the
  tree verifies, and unless two different strings among those hashed collide, nothing but the listed
  claims does, whatever the length of the proof.\<close>

theorem merkle_proof_correct:
  assumes "encoding_law ops" "root = tree_root ops t"
    and "inj_on (blake_hash ops) (tree_strings ops t \<union> insert (encode_claim ops a v)
      (walk_strings ops (calculate_leaf_hash ops a v) p))"
  shows "(\<forall>((b, w), q) \<in> set (tree_paths ops t). verify_merkle_proof ops b w root q) \<and>
    (verify_merkle_proof ops a v root p \<longrightarrow> (a, v) \<in> tree_claims t)"
  using tree_paths_verify [of _ _ _ ops t] walk_up_listed [OF assms(1,3)] assms(2)
  by (auto simp: verify_merkle_proof_def)

lemma merkle_proof_correct_witness:
  "verify_merkle_proof pot_ops 2 20 300 [100] \<and> (1, 10) \<in> tree_claims sample_tree"
proof -
  have "300 = tree_root pot_ops sample_tree" by (simp add: sample_tree_def sample_hashes)
  from merkle_proof_correct [OF pot_encoding this sample_collision_free] sample_path_verifies show ?thesis
    by (simp add: sample_tree_def sample_hashes)
qed





text \<open>An airdrop created with a vesting period of zero blocks is accepted and can be funded, but nobody can
  ever claim from it: every claim fails on the division.\<close>

theorem zero_vesting_never_claimable:
  assumes "block_number_to_balance ops 0 = 0" "AirdropInfo s i = Some m" "vesting_period m = Some 0"
  shows "\<exists>e. claim ops origin i recipient amount pr s = (Inl e, s)"
proof (cases "claim ops origin i recipient amount pr s")
  case (Pair r s')
  show ?thesis
  proof (cases r)
    case (Inl e)
    then show ?thesis using Pair run_airdrop_call_error [of ops origin "Claim_Airdrop i recipient amount pr"] by simp
  next
    case (Inr u)
    then have c: "claim ops origin i recipient amount pr s = (Inr u, s')" using Pair by simp
    show ?thesis by (rule claim_effect [OF c]) (use assms in \<open>simp add: per_block_of_def\<close>)
  qed
qed

definition stuck_airdrop :: "nat airdrop_state" where
  "stuck_airdrop = snd (create_airdrop (Signed 4) 300 (Some 0) None (no_airdrops 0))"

lemma zero_vesting_never_claimable_witness:
  "\<exists>e. claim pot_ops Unsigned 0 1 10 [200] stuck_airdrop = (Inl e, stuck_airdrop)"
  by (rule zero_vesting_never_claimable [where m = "\<lparr> merkle_root = 300, creator = 4, airdrop_balance = 0,
      vesting_period = Some 0, vesting_delay = None \<rparr>"])
    (simp_all add: stuck_airdrop_def create_airdrop_def no_airdrops_def transactional_def and_then_def
      ensure_signed_def Let_def airdrop_event_def pot_ops_def)

lemma sat_add_last: "sat_add (- 1 :: u32) 1 = - 1"
  by (simp add: sat_add_def unsigned_minus_1_eq_mask mask_eq_exp_minus_1)

text \<open>The last identifier is given out again and again: once the counter has reached the maximum, creating an
  airdrop replaces the one that is there, with its root and what it still owed.\<close>

theorem last_airdrop_is_overwritten:
  assumes "NextAirdropId s = - 1"
  shows "\<exists>s'. create_airdrop (Signed who) root period start_delay s = (Inr (), s') \<and> NextAirdropId s' = - 1 \<and>
    AirdropInfo s' (- 1) = Some \<lparr> merkle_root = root, creator = who, airdrop_balance = 0,
      vesting_period = period, vesting_delay = start_delay \<rparr>"
  using assms
  by (simp add: create_airdrop_def transactional_def and_then_def ensure_signed_def Let_def airdrop_event_def sat_add_last)

lemma last_airdrop_is_overwritten_witness:
  "\<exists>s'. create_airdrop (Signed 4) 7 None None (sample_airdrop\<lparr> NextAirdropId := - 1,
      AirdropInfo := [- 1 \<mapsto> \<lparr> merkle_root = 300, creator = 3, airdrop_balance = 50, vesting_period = None,
        vesting_delay = None \<rparr>] \<rparr>) = (Inr (), s') \<and>
     (\<exists>m. AirdropInfo s' (- 1) = Some m \<and> airdrop_balance m = 0 \<and> creator m = 4)"
  using last_airdrop_is_overwritten [of "sample_airdrop\<lparr> NextAirdropId := - 1,
      AirdropInfo := [- 1 \<mapsto> \<lparr> merkle_root = 300, creator = 3, airdrop_balance = 50, vesting_period = None,
        vesting_delay = None \<rparr>] \<rparr>" 4 7 None None] by auto

text \<open>The transaction pool admits exactly the claims that can be paid, but for the money: a claim that
  succeeds is valid, and a valid one succeeds when the airdrop has the amount, the vesting period is not
  zero and the vesting pallet accepts the transfer.\<close>

theorem validate_unsigned_correct:
  "(\<exists>s'. claim ops Unsigned i recipient amount pr s = (Inr (), s')) \<longleftrightarrow>
    (\<exists>v. validate_unsigned ops s (Claim_Airdrop i recipient amount pr) = Inr v) \<and>
    (\<exists>m pb x. AirdropInfo s i = Some m \<and> amount \<le> airdrop_balance m \<and> per_block_of ops m amount = Inr pb \<and>
      vested_transfer ops (airdrop_account ops) recipient amount pb (vesting_start_of ops m s) (airdrop_env s) = (Inr (), x))"
proof
  assume "\<exists>s'. claim ops Unsigned i recipient amount pr s = (Inr (), s')"
  then obtain s' where c: "claim ops Unsigned i recipient amount pr s = (Inr (), s')" by blast
  show "(\<exists>v. validate_unsigned ops s (Claim_Airdrop i recipient amount pr) = Inr v) \<and>
    (\<exists>m pb x. AirdropInfo s i = Some m \<and> amount \<le> airdrop_balance m \<and> per_block_of ops m amount = Inr pb \<and>
      vested_transfer ops (airdrop_account ops) recipient amount pb (vesting_start_of ops m s) (airdrop_env s) = (Inr (), x))"
    by (rule claim_effect [OF c]) (auto simp: validate_unsigned_def)
next
  assume "(\<exists>v. validate_unsigned ops s (Claim_Airdrop i recipient amount pr) = Inr v) \<and>
    (\<exists>m pb x. AirdropInfo s i = Some m \<and> amount \<le> airdrop_balance m \<and> per_block_of ops m amount = Inr pb \<and>
      vested_transfer ops (airdrop_account ops) recipient amount pb (vesting_start_of ops m s) (airdrop_env s) = (Inr (), x))"
  then show "\<exists>s'. claim ops Unsigned i recipient amount pr s = (Inr (), s')"
    by (auto simp: claim_def transactional_Inr and_then_def ensure_none_def ensure_def validate_unsigned_def in_env_def
        vesting_start_of_def mutate_balance_def split: option.splits if_splits)
qed

end
