(* ===== verification/TransactionExtension.thy ===== *)
theory TransactionExtension
  imports ReversibleProps BalancesCalls
begin

text \<open>
  The transaction extension of the runtime (\<open>runtime/src/transaction_extensions.rs\<close>) that guards the balances
  transfers of reversible accounts: an account with the explicit policy may not make them, those of an account
  with the intercept policy are scheduled instead. It composes the reversible transfers pallet with the balances
  pallet, whose storage \<open>balances_of\<close> reads from the environment of the former.
\<close>

section \<open>The extension\<close>

datatype ('l, 'o) ext_call =
  Balances_Transfer_Keep_Alive 'l balance
| Balances_Transfer_Allow_Death 'l balance
| Balances_Transfer_All 'l bool
| Any_Other_Call 'o

datatype validity_error = Invalid_BadSigner | Invalid_Custom u8 | Unknown_Custom u8

fun is_transfer :: "('l, 'o) ext_call \<Rightarrow> bool" where
  "is_transfer (Any_Other_Call _) = False"
| "is_transfer _ = True"

text \<open>Destination and amount of a transfer; \<open>transfer_all\<close> moves what the account can spend.\<close>

fun transfer_of ::
    "'e bal_config \<Rightarrow> 'e bal_state \<Rightarrow> account \<Rightarrow> ('l, 'o) ext_call \<Rightarrow> ('l \<times> balance) option" where
  "transfer_of cfg b who (Balances_Transfer_Keep_Alive dest v) = Some (dest, v)"
| "transfer_of cfg b who (Balances_Transfer_Allow_Death dest v) = Some (dest, v)"
| "transfer_of cfg b who (Balances_Transfer_All dest keep_alive) =
     Some (dest, reducible_balance cfg b who (if keep_alive then Preserve else Expendable) Polite)"
| "transfer_of cfg b who (Any_Other_Call _) = None"

definition ext_validate ::
    "('x, 'l, 'b) rev_ops \<Rightarrow> 'e bal_config \<Rightarrow> ('x \<Rightarrow> 'e bal_state) \<Rightarrow> origin \<Rightarrow> ('l, 'o) ext_call
      \<Rightarrow> (('x, 'b) rev_state, validity_error, unit) comp" where
  "ext_validate ops cfg balances_of origin call s =
     (case ensure_signed origin of
        Inl _ \<Rightarrow> (Inl Invalid_BadSigner, s)
      | Inr who \<Rightarrow>
          (case is_reversible s who of
             None \<Rightarrow> (Inr (), s)
           | Some data \<Rightarrow>
               (case policy data of
                  Explicit \<Rightarrow> if is_transfer call then (Inl (Invalid_Custom 0), s) else (Inr (), s)
                | Intercept \<Rightarrow>
                    (case transfer_of cfg (balances_of (rev_env s)) who call of
                       None \<Rightarrow> (Inr (), s)
                     | Some (dest, amount) \<Rightarrow>
                         (case do_schedule_transfer ops origin dest amount s of
                            (Inl _, s') \<Rightarrow> (Inl (Invalid_Custom 1), s')
                          | (Inr _, s') \<Rightarrow> (Inl (Unknown_Custom 255), s'))))))"

section \<open>Property\<close>

lemma transfer_of_transfer: "transfer_of cfg b who call \<noteq> None \<longleftrightarrow> is_transfer call"
  by (cases call) auto

lemma validate_signed:
  "ext_validate ops cfg bo (Signed who) call s =
     (case ReversibleAccounts s who of
        None \<Rightarrow> (Inr (), s)
      | Some data \<Rightarrow>
          if \<not> is_transfer call then (Inr (), s)
          else if policy data = Explicit then (Inl (Invalid_Custom 0), s)
          else let (dest, amount) = the (transfer_of cfg (bo (rev_env s)) who call)
               in (case do_schedule_transfer ops (Signed who) dest amount s of
                     (Inl _, s') \<Rightarrow> (Inl (Invalid_Custom 1), s')
                   | (Inr _, s') \<Rightarrow> (Inl (Unknown_Custom 255), s')))"
  using transfer_of_transfer [of cfg "bo (rev_env s)" who call]
  by (auto simp: ext_validate_def ensure_signed_def is_reversible_def Let_def
      split: option.splits delay_policy.splits prod.splits)

text \<open>What an interception has done: the transfer is pending and its amount on hold.\<close>

definition intercepted ::
    "('x, 'l, 'b) rev_ops \<Rightarrow> ('x, 'l, 'b) rev_view \<Rightarrow> account \<Rightarrow> 'l \<Rightarrow> balance
      \<Rightarrow> ('x, 'b) rev_state \<Rightarrow> ('x, 'b) rev_state \<Rightarrow> bool" where
  "intercepted ops v who dest amount s s' \<longleftrightarrow>
     held v (rev_env s') = (held v (rev_env s))(who := held v (rev_env s) who + unat amount) \<and>
     unat (AccountPendingIndex s' who) = unat (AccountPendingIndex s who) + 1 \<and>
     PendingTransfers s' (tx_hash ops who (Transfer_Keep_Alive dest amount)) \<noteq> None \<and>
     ReversibleAccounts s' = ReversibleAccounts s"


lemma do_schedule_intercepted:
  assumes "escrow_law ops v" and "env_ok v (rev_env s)" and "do_schedule_transfer ops (Signed who) dest amount s = (Inr u, s')"
  shows "intercepted ops v who dest amount s s'"
proof -
  have r: "schedule_transfer ops (Signed who) dest amount s = (Inr u, s')"
    using assms(3) by (simp add: schedule_transfer_def transactional_Inr)
  have "unat (sat_add n 1) = unat n + 1" if "n < m" for n m :: u32
  proof -
    have "unat n + 1 < 2 ^ 32" using that unat_lt_max [of m] by (simp add: word_less_nat_alt)
    then show ?thesis by (simp add: mach_nat)
  qed
  then show ?thesis
    by - (rule schedule_effect [OF assms(1,2) r], auto simp: intercepted_def)
qed

text \<open>An account that intercepts, for the witness.\<close>

definition intercepting :: "(ledger, account runtime_call) rev_state" where
  "intercepting = snd (set_reversibility ledger_ops (Signed 5) None Intercept None ledger_start)"

text \<open>C17: A reversible account cannot move funds by a balances transfer, whichever of the three it calls. With the
  explicit policy the transaction is invalid and nothing changes; with the intercept policy it is never valid
  either, and when the code reports the interception the transfer, of the whole spendable balance for
  \<open>transfer_all\<close>, is pending with its amount on hold. Every other call, and every call of another
  account, passes and changes nothing.\<close>

theorem reversible_transfers_guarded:
  assumes "escrow_law ops v" and "env_ok v (rev_env s)" and "ext_validate ops cfg bo (Signed who) call s = (r, s')"
  shows "case ReversibleAccounts s who of
      None \<Rightarrow> r = Inr () \<and> s' = s
    | Some data \<Rightarrow>
        if \<not> is_transfer call then r = Inr () \<and> s' = s
        else if policy data = Explicit then r = Inl (Invalid_Custom 0) \<and> s' = s
        else \<exists>dest amount. transfer_of cfg (bo (rev_env s)) who call = Some (dest, amount) \<and>
          (if \<exists>u t. schedule_transfer ops (Signed who) dest amount s = (Inr u, t)
           then r = Inl (Unknown_Custom 255) \<and> intercepted ops v who dest amount s s'
           else r = Inl (Invalid_Custom 1))"
proof (cases "ReversibleAccounts s who")
  case None
  with assms(3) show ?thesis by (simp add: validate_signed)
next
  case (Some data)
  show ?thesis
  proof (cases "is_transfer call \<and> policy data \<noteq> Explicit")
    case False
    with assms(3) Some show ?thesis by (auto simp: validate_signed)
  next
    case True
    then obtain dest amount where t: "transfer_of cfg (bo (rev_env s)) who call = Some (dest, amount)"
      using transfer_of_transfer by fast
    obtain q t' where d: "do_schedule_transfer ops (Signed who) dest amount s = (q, t')" by fastforce
    have "(\<exists>u t. schedule_transfer ops (Signed who) dest amount s = (Inr u, t)) \<longleftrightarrow> (\<exists>u. q = Inr u)"
      by (simp add: schedule_transfer_def transactional_Inr d)
    moreover have "q = Inr u \<Longrightarrow> intercepted ops v who dest amount s t'" for u
      using do_schedule_intercepted [OF assms(1,2)] d by blast
    ultimately show ?thesis
      using assms(3) Some True t d by (cases q) (auto simp: validate_signed)
  qed
qed

theorem reversible_transfers_guarded_witness:
  "\<exists>s'. ext_validate ledger_ops (ref_config 10) (\<lambda>_. two_accounts (funded 100 20 1) (funded 50 0 0)) (Signed 5)
      (Balances_Transfer_Keep_Alive 8 70 :: (account, unit) ext_call) intercepting = (Inl (Unknown_Custom 255), s') \<and>
    held ledger_view (rev_env s') 5 = 70"
proof -
  let ?bo = "\<lambda>_ :: ledger. two_accounts (funded 100 20 1) (funded 50 0 0)"
  let ?c = "Balances_Transfer_Keep_Alive 8 70 :: (account, unit) ext_call"
  have i: "ReversibleAccounts intercepting 5 = Some \<lparr> explicit_reverser = None, delay = 100, policy = Intercept \<rparr>"
    "held ledger_view (rev_env intercepting) 5 = 0"
    by (simp_all add: intercepting_def set_reversibility_def ledger_eval ok_or_def)
  have "\<exists>u t. schedule_transfer ledger_ops (Signed 5) 8 70 intercepting = (Inr u, t)"
    by (simp add: intercepting_def set_reversibility_def ledger_eval)
  moreover obtain r s' where v: "ext_validate ledger_ops (ref_config 10) ?bo (Signed 5) ?c intercepting = (r, s')"
    by fastforce
  ultimately show ?thesis
    using reversible_transfers_guarded [OF ledger_law ledger_view_ok v] i by (auto simp: intercepted_def)
qed

end
