(* ===== verification/Escrow.thy ===== *)
theory Escrow
  imports TransactionExtension BalancesCalls
begin

text \<open>
  The holds behind the reversible transfers. The pallet holds, releases and moves funds through default methods of
  the framework, which are documented in terms of the operations of the balances pallet; the locale \<open>holding\<close> says
  what it needs of them, and the balances pallet with those methods is its interpretation.
\<close>

section \<open>The interface\<close>

locale holding =
  fixes hold :: "account \<Rightarrow> balance \<Rightarrow> 's \<Rightarrow> (dispatch_error + unit) \<times> 's"
    and release :: "account \<Rightarrow> balance \<Rightarrow> 's \<Rightarrow> (dispatch_error + balance) \<times> 's"
    and move :: "account \<Rightarrow> account \<Rightarrow> balance \<Rightarrow> 's \<Rightarrow> (dispatch_error + balance) \<times> 's"
    and on_hold :: "'s \<Rightarrow> account \<Rightarrow> nat"
    and consistent :: "'s \<Rightarrow> bool"
  assumes hold_adds: "consistent s \<Longrightarrow> hold who a s = (Inr u, s') \<Longrightarrow>
      on_hold s' = (on_hold s)(who := on_hold s who + unat a) \<and> consistent s'"
    and release_takes: "consistent s \<Longrightarrow> release who a s = (Inr w, s') \<Longrightarrow>
      unat a \<le> on_hold s who \<and> on_hold s' = (on_hold s)(who := on_hold s who - unat a) \<and> consistent s'"
    and move_takes: "consistent s \<Longrightarrow> move who dest a s = (Inr w, s') \<Longrightarrow>
      unat a \<le> on_hold s who \<and> on_hold s' = (on_hold s)(who := on_hold s who - unat a) \<and> consistent s'"

text \<open>A computation of the balances inside an environment of balances and scheduler.\<close>

definition on_balances :: "('s \<Rightarrow> 'r \<times> 's) \<Rightarrow> 's \<times> 'y \<Rightarrow> 'r \<times> ('s \<times> 'y)" where
  "on_balances m x = (case m (fst x) of (r, b) \<Rightarrow> (r, (b, snd x)))"

lemma on_balances_result: "on_balances m x = (r, x') \<longleftrightarrow> m (fst x) = (r, fst x') \<and> snd x' = snd x"
  by (cases x') (auto simp: on_balances_def split: prod.splits)

context holding begin

text \<open>With a provider of holds the reversible transfers have the holds they rely on, also when their own
  operations only do where they succeed what the provider does.\<close>

lemma holds_provided:
  assumes "\<And>who a. op_hold ops who a = on_balances (h who a)"
    and "\<And>who a. op_release ops who a Exact = on_balances (r who a)"
    and "\<And>who dest a. op_transfer_on_hold ops who dest a Exact Restrict_Free Polite = on_balances (m who dest a)"
    and "\<And>l a who. op_dispatch ops (runtime_call.Transfer_Keep_Alive l a) who = on_balances (dispatch l a who)"
    and follows: "\<And>who a s u s'. h who a s = (Inr u, s') \<Longrightarrow> hold who a s = (Inr u, s')"
      "\<And>who a s w s'. r who a s = (Inr w, s') \<Longrightarrow> release who a s = (Inr w, s')"
      "\<And>who dest a s w s'. m who dest a s = (Inr w, s') \<Longrightarrow> move who dest a s = (Inr w, s')"
    and keeps: "\<And>l a who s u s'. consistent s \<Longrightarrow> dispatch l a who s = (Inr u, s') \<Longrightarrow> on_hold s' = on_hold s \<and> consistent s'"
    and v: "held v = (\<lambda>x. on_hold (fst x))" "task v = (\<lambda>x. tasks (snd x))" "env_ok v = (\<lambda>x. consistent (fst x))"
  shows "holds_law ops v"
  unfolding holds_law_def assms(1-4) on_balances_result v same_view_def
  using hold_adds [OF _ follows(1)] release_takes [OF _ follows(2)] move_takes [OF _ follows(3)] keeps
  by (intro conjI allI impI) (metis)+

end

section \<open>Holds by the framework's default methods\<close>

text \<open>What the documentation of the framework's traits says of their default methods: the steps each consists of.
  The code does not see these methods; they enter as the law \<open>default_methods\<close> on the ones it is given.\<close>

definition decrease_balance ::
    "'e bal_config \<Rightarrow> account \<Rightarrow> balance \<Rightarrow> preservation \<Rightarrow> fortitude \<Rightarrow> ('e, balance) bal" where
  "decrease_balance cfg who amount preservation force s =
     (if reducible_balance cfg s who preservation force < amount then (Inl (Token FundsUnavailable), s)
      else case checked_sub (free_balance cfg s who) amount of
          None \<Rightarrow> (Inl (Token FundsUnavailable), s)
        | Some x \<Rightarrow> and_then (write_balance cfg who x) (\<lambda>dust s. (Inr amount, handle_raw_dust cfg dust s)) s)"

definition increase_balance :: "'e bal_config \<Rightarrow> account \<Rightarrow> balance \<Rightarrow> precision \<Rightarrow> ('e, balance) bal" where
  "increase_balance cfg who amount prec s =
     (let old = free_balance cfg s who
      in case (if prec = BestEffort then Some (sat_add old amount) else checked_add old amount) of
          None \<Rightarrow> (Inl (Arithmetic Overflow), s)
        | Some x \<Rightarrow>
            if x < ExistentialDeposit cfg then (if prec = BestEffort then (Inr 0, s) else (Inl (Token BelowMinimum), s))
            else if x = old then (Inr 0, s)
            else and_then (write_balance cfg who x) (\<lambda>dust s. (Inr (sat_sub x old), handle_raw_dust cfg dust s)) s)"

definition decrease_on_hold :: "'e bal_config \<Rightarrow> nat \<Rightarrow> account \<Rightarrow> balance \<Rightarrow> ('e, balance) bal" where
  "decrease_on_hold cfg reason who amount s =
     (case checked_sub (balance_on_hold s reason who) amount of
        None \<Rightarrow> (Inl (Token FundsUnavailable), s)
      | Some x \<Rightarrow> and_then (set_balance_on_hold cfg reason who x) (\<lambda>_. ret amount) s)"

definition increase_on_hold :: "'e bal_config \<Rightarrow> nat \<Rightarrow> account \<Rightarrow> balance \<Rightarrow> ('e, balance) bal" where
  "increase_on_hold cfg reason who amount s =
     (let old = balance_on_hold s reason who; x = sat_add old amount; d = sat_sub x old
      in if d = 0 then (Inr 0, s) else and_then (set_balance_on_hold cfg reason who x) (\<lambda>_. ret d) s)"

definition hold_funds :: "'e bal_config \<Rightarrow> nat \<Rightarrow> account \<Rightarrow> balance \<Rightarrow> ('e, unit) bal" where
  "hold_funds cfg reason who amount s =
     (if \<not> hold_available cfg s reason who then (Inl (Token CannotCreateHold), s)
      else if reducible_balance cfg s who Protect Force < amount then (Inl (Token FundsUnavailable), s)
      else and_then (decrease_balance cfg who amount Protect Force) (\<lambda>_.
             and_then (increase_on_hold cfg reason who amount) (\<lambda>_. ret ())) s)"

definition release_funds :: "'e bal_config \<Rightarrow> nat \<Rightarrow> account \<Rightarrow> balance \<Rightarrow> ('e, balance) bal" where
  "release_funds cfg reason who amount s =
     (if can_deposit cfg s who amount Extant \<noteq> Deposit_Success then (Inl (Token CannotCreate), s)
      else and_then (decrease_on_hold cfg reason who amount) (\<lambda>n. increase_balance cfg who n BestEffort) s)"

definition move_held_funds :: "'e bal_config \<Rightarrow> nat \<Rightarrow> account \<Rightarrow> account \<Rightarrow> balance \<Rightarrow> ('e, balance) bal" where
  "move_held_funds cfg reason source dest amount s =
     (if reducible_total_balance_on_hold cfg s source Polite < amount then (Inl (Token Token_Frozen), s)
      else if balance_on_hold s reason source < amount then (Inl (Token FundsUnavailable), s)
      else if can_deposit cfg s dest amount Extant \<noteq> Deposit_Success then (Inl (Token CannotCreate), s)
      else and_then (decrease_on_hold cfg reason source amount) (\<lambda>n. increase_balance cfg dest n Exact) s)"

section \<open>The holds are backed\<close>

text \<open>Every account has reserved at least what its holds say, and free and reserved fit one balance.\<close>

definition backed :: "'e bal_config \<Rightarrow> 'e bal_state \<Rightarrow> account \<Rightarrow> bool" where
  "backed cfg s a \<longleftrightarrow> entries_ok (MaxHolds cfg) (Holds s a) \<and> nonzero_entries (Holds s a) \<and>
     amounts_sum (Holds s a) \<le> unat (reserved (account_of cfg s a)) \<and> total_nat (account_of cfg s a) < 2 ^ 128"

definition holds_backed :: "'e bal_config \<Rightarrow> 'e bal_state \<Rightarrow> bool" where
  "holds_backed cfg s \<longleftrightarrow> bal_ok cfg s \<and> (\<forall>a. backed cfg s a)"

lemma backed_elsewhere:
  assumes "others_keep cfg who s s'" "\<And>a. a \<noteq> who \<Longrightarrow> Holds s' a = Holds s a" "a \<noteq> who"
  shows "backed cfg s' a = backed cfg s a"
  using assms by (simp add: backed_def others_keep_def)

lemma amount_le_sum: "unat (amount_under j xs) \<le> amounts_sum xs"
  by (induction xs) (auto simp: amount_under_def)

lemma amount_under_absent: "j \<notin> id_of ` set xs \<Longrightarrow> amount_under j xs = 0"
  by (induction xs) (auto simp: amount_under_def)

lemma amounts_sum_by_id:
  "distinct (map id_of xs) \<Longrightarrow> finite A \<Longrightarrow> id_of ` set xs \<subseteq> A \<Longrightarrow> amounts_sum xs = (\<Sum>j\<in>A. unat (amount_under j xs))"
proof (induction xs)
  case (Cons x xs)
  have "(\<Sum>j\<in>A. unat (amount_under j (x # xs))) = (\<Sum>j\<in>A. unat (amount_under j xs) + (if j = id_of x then unat (amount_of x) else 0))"
    using Cons.prems(1) amount_under_absent [of "id_of x" xs]
    by (intro sum.cong) (auto simp: amount_under_def)
  also have "\<dots> = amounts_sum xs + unat (amount_of x)"
    using Cons by (simp add: sum.distrib sum.delta)
  finally show ?case by simp
qed (simp add: amount_under_def)

lemma amounts_sum_change:
  assumes "distinct (map id_of xs)" "distinct (map id_of ys)" "\<forall>j. j \<noteq> i \<longrightarrow> amount_under j ys = amount_under j xs"
  shows "amounts_sum ys + unat (amount_under i xs) = amounts_sum xs + unat (amount_under i ys)"
proof -
  let ?A = "insert i (id_of ` set xs \<union> id_of ` set ys)"
  have split: "amounts_sum zs = unat (amount_under i zs) + (\<Sum>j\<in>?A - {i}. unat (amount_under j zs))"
    if "distinct (map id_of zs)" "id_of ` set zs \<subseteq> ?A" for zs
    using amounts_sum_by_id [OF that(1) _ that(2)] sum.remove [of ?A i] by simp
  have "(\<Sum>j\<in>?A - {i}. unat (amount_under j ys)) = (\<Sum>j\<in>?A - {i}. unat (amount_under j xs))"
    using assms(3) by (intro sum.cong) auto
  moreover have "id_of ` set xs \<subseteq> ?A" "id_of ` set ys \<subseteq> ?A" by auto
  ultimately show ?thesis using split [OF assms(1)] split [OF assms(2)] by simp
qed

lemma kept_cases:
  "kept cfg a = a \<or> kept cfg a = default_account \<and> reserved a = 0 \<and> free a < ExistentialDeposit cfg"
  by (auto simp: kept_def lives_def does_provide_def)

lemma kept_le: "unat (free (kept cfg a)) \<le> unat (free a)" "reserved (kept cfg a) = reserved a" "total_nat (kept cfg a) \<le> total_nat a"
  using kept_cases [of cfg a] by (auto simp: default_account_def total_nat_def)

lemma handle_dust_keeps:
  assumes "good_balances cfg" "dust = (if d = 0 then None else Some d)"
  shows "Holds (handle_raw_dust cfg dust s) = Holds s" "account_of cfg (handle_raw_dust cfg dust s) = account_of cfg s"
    "bal_ok cfg (handle_raw_dust cfg dust s) = bal_ok cfg s"
proof -
  have dl: "dust_law cfg" using assms(1) by (simp add: good_balances_def)
  show "Holds (handle_raw_dust cfg dust s) = Holds s"
  proof (cases "d = 0")
    case False
    then show ?thesis using assms(2) by - (rule handle_raw_dust_Some [OF dl, of d s], simp)
  qed (simp add: assms(2))
qed (simp_all add: assms(2) handle_raw_dust_effect [OF assms(1)])

text \<open>Writing a balance and handling the dust, as both directions do.\<close>

lemma write_free_effect:
  assumes g: "good_balances cfg" and hb: "holds_backed cfg s"
    and w: "write_balance cfg who x s = (Inr dust, s1)" and s': "s' = handle_raw_dust cfg dust s1"
    and fit: "unat x + unat (reserved (account_of cfg s who)) < 2 ^ 128"
  shows "holds_backed cfg s' \<and> Holds s' = Holds s \<and> others_keep cfg who s s' \<and>
    unat (free (account_of cfg s' who)) \<le> unat x \<and>
    reserved (account_of cfg s' who) = reserved (account_of cfg s who)"
proof -
  have ok: "bal_ok cfg s" using hb by (simp add: holds_backed_def)
  let ?f = "\<lambda>a. if sat_sub (free a) x \<le> reducible_balance cfg s who Expendable Force
                 then (Inr (), a\<lparr> free := x \<rparr>) else (Inl (Balances_Error InsufficientBalance), a)"
  obtain u where m: "mutate_account cfg who no_drop ?f s = (Inr (Inr u, dust), s1)"
    using w by (auto simp: write_balance_def Let_def and_then_Inr)
  obtain a a' where e: "?f a = (Inr u, a')" "old_account cfg s who a" "bal_ok cfg s1" "store_only s s1"
    "others_keep cfg who s s1" "account_of cfg s1 who = kept cfg a'"
    "dust = (if dust_of cfg a' = 0 then None else Some (dust_of cfg a'))"
    by (rule mutate_account_cases [OF g ok m]) auto
  have a': "a' = a\<lparr> free := x \<rparr>" using e(1) by (auto split: if_splits)
  note keeps = handle_dust_keeps [OF g e(7), of s1, folded s']
  have H: "Holds s' = Holds s" using keeps(1) store_only_fields [OF e(4)] by simp
  have oth: "others_keep cfg who s s'" using e(5) keeps(2) by (simp add: others_keep_def)
  have acc: "account_of cfg s' who = kept cfg (a\<lparr> free := x \<rparr>)" using keeps(2) e(6) a' by simp
  have res: "reserved (account_of cfg s' who) = reserved (account_of cfg s who)"
    using e(2) by (simp add: acc kept_le(2) old_account_def)
  have fr: "unat (free (account_of cfg s' who)) \<le> unat x" using kept_le(1) [of cfg "a\<lparr> free := x \<rparr>"] by (simp add: acc)
  have "backed cfg s' who"
    using hb fit fr res H by (simp add: holds_backed_def backed_def total_nat_def)
  then have "backed cfg s' b" for b
    using hb backed_elsewhere [OF oth, of b] H by (cases "b = who") (simp_all add: holds_backed_def)
  then show ?thesis using keeps(3) e(3) H oth fr res by (simp add: holds_backed_def)
qed

lemma decrease_balance_effect:
  assumes g: "good_balances cfg" and hb: "holds_backed cfg s"
    and r: "decrease_balance cfg who amount p f s = (Inr n, s')"
  shows "holds_backed cfg s' \<and> Holds s' = Holds s \<and> others_keep cfg who s s' \<and>
    unat (free (account_of cfg s' who)) + unat amount \<le> unat (free (account_of cfg s who)) \<and>
    reserved (account_of cfg s' who) = reserved (account_of cfg s who)"
proof -
  obtain x dust s1 where x: "checked_sub (free_balance cfg s who) amount = Some x"
    "write_balance cfg who x s = (Inr dust, s1)" "s' = handle_raw_dust cfg dust s1"
    using r by (auto simp: decrease_balance_def and_then_Inr split: if_splits option.splits)
  have le: "unat amount \<le> unat (free (account_of cfg s who)) \<and> unat x = unat (free (account_of cfg s who)) - unat amount"
    using x(1) by (simp add: checked_sub_Some free_balance_def)
  have "total_nat (account_of cfg s who) < 2 ^ 128" using hb by (simp add: holds_backed_def backed_def)
  then have "unat x + unat (reserved (account_of cfg s who)) < 2 ^ 128" using le by (simp add: total_nat_def)
  from write_free_effect [OF g hb x(2,3) this] show ?thesis using le by (simp add: le_diff_conv2)
qed

lemma increase_balance_effect:
  assumes g: "good_balances cfg" and hb: "holds_backed cfg s"
    and r: "increase_balance cfg who amount prec s = (Inr n, s')"
    and fit: "total_nat (account_of cfg s who) + unat amount < 2 ^ 128"
  shows "holds_backed cfg s' \<and> Holds s' = Holds s"
proof -
  let ?old = "free_balance cfg s who"
  obtain x where x: "(if prec = BestEffort then Some (sat_add ?old amount) else checked_add ?old amount) = Some x"
    and c: "s' = s \<or> (\<exists>dust s1. write_balance cfg who x s = (Inr dust, s1) \<and> s' = handle_raw_dust cfg dust s1)"
    using r by (auto simp: increase_balance_def Let_def and_then_Inr split: if_splits option.splits)
  have "unat x = unat ?old + unat amount"
    using x fit by (auto simp: checked_add_Some mach_nat total_nat_def free_balance_def split: if_splits)
  then have "unat x + unat (reserved (account_of cfg s who)) < 2 ^ 128"
    using fit by (simp add: total_nat_def free_balance_def)
  then show ?thesis using c write_free_effect [OF g hb] hb by blast
qed

text \<open>Setting a hold: the reserved balance moves with it.\<close>

lemma set_hold_effect:
  assumes g: "good_balances cfg" and hb: "holds_backed cfg s"
    and r: "set_balance_on_hold cfg reason who amount s = (Inr u, s')"
    and fit: "total_nat (account_of cfg s who) + unat amount < 2 ^ 128 + unat (balance_on_hold s reason who)"
  shows "holds_backed cfg s' \<and> others_keep cfg who s s' \<and>
    (\<forall>a. balance_on_hold s' reason a = (if a = who then amount else balance_on_hold s reason a)) \<and>
    total_nat (account_of cfg s' who) + unat (balance_on_hold s reason who) \<le> total_nat (account_of cfg s who) + unat amount"
proof -
  have ok: "bal_ok cfg s" and b: "entries_ok (MaxHolds cfg) (Holds s who)" "nonzero_entries (Holds s who)"
    "amounts_sum (Holds s who) \<le> unat (reserved (account_of cfg s who))" "total_nat (account_of cfg s who) < 2 ^ 128"
    using hb by (simp_all add: holds_backed_def backed_def)
  obtain holds x where h: "Holds s' = (Holds s)(who := holds)" "entries_ok (MaxHolds cfg) holds" "nonzero_entries holds"
    "amount_under reason holds = amount" "\<forall>j. j \<noteq> reason \<longrightarrow> amount_under j holds = amount_under j (Holds s who)"
    and x: "unat x + amounts_sum (Holds s who) = unat (reserved (account_of cfg s who)) + amounts_sum holds"
    and acc: "account_of cfg s' who = kept cfg ((account_of cfg s who)\<lparr> reserved := x \<rparr>)"
    and oth: "others_keep cfg who s s'" and ok': "bal_ok cfg s'"
    by (rule set_balance_on_hold_effect [OF g ok b(1,2) r])
  have sum: "amounts_sum holds + unat (balance_on_hold s reason who) = amounts_sum (Holds s who) + unat amount"
    using amounts_sum_change [of "Holds s who" holds reason] b(1) h(2,4,5) by (simp add: entries_ok_def balance_on_hold_def)
  let ?a = "(account_of cfg s who)\<lparr> reserved := x \<rparr>"
  have t: "total_nat ?a + unat (balance_on_hold s reason who) = total_nat (account_of cfg s who) + unat amount"
    using x sum b(3) by (simp add: total_nat_def)
  have le: "total_nat (account_of cfg s' who) \<le> total_nat ?a" using kept_le(3) [of cfg ?a] by (simp add: acc)
  have "amounts_sum holds \<le> unat (reserved (account_of cfg s' who))"
    using x b(3) by (simp add: acc kept_le(2))
  then have "backed cfg s' who" using h le t fit by (simp add: backed_def)
  then have "backed cfg s' a" for a
    using hb backed_elsewhere [OF oth, of a] h(1) by (cases "a = who") (simp_all add: holds_backed_def)
  then show ?thesis
    using ok' oth h(1,4) le t by (simp add: holds_backed_def balance_on_hold_def)
qed

definition held_under :: "nat \<Rightarrow> 'e bal_state \<Rightarrow> account \<Rightarrow> nat" where
  "held_under reason s a = unat (balance_on_hold s reason a)"

lemma backed_bounds:
  assumes "holds_backed cfg s"
  shows "held_under reason s a \<le> unat (reserved_balance cfg s a)" "total_nat (account_of cfg s a) < 2 ^ 128"
  using assms amount_le_sum [of reason "Holds s a"] unfolding holds_backed_def backed_def
  by (auto simp: held_under_def balance_on_hold_def reserved_balance_def intro: le_trans)

lemma hold_funds_law:
  assumes g: "good_balances cfg" and hb: "holds_backed cfg s" and r: "hold_funds cfg reason who a s = (Inr u, s')"
  shows "held_under reason s' = (held_under reason s)(who := held_under reason s who + unat a) \<and> holds_backed cfg s'"
proof -
  obtain n s1 m where d: "decrease_balance cfg who a Protect Force s = (Inr n, s1)"
    and i: "increase_on_hold cfg reason who a s1 = (Inr m, s')"
    using r by (auto simp: hold_funds_def and_then_Inr split: if_splits)
  note e = decrease_balance_effect [OF g hb d]
  then have hb1: "holds_backed cfg s1" and H: "Holds s1 = Holds s" by simp_all
  have h1: "held_under reason s1 = held_under reason s" using H by (simp add: held_under_def balance_on_hold_def fun_eq_iff)
  let ?old = "balance_on_hold s1 reason who"
  have t: "total_nat (account_of cfg s1 who) + unat a < 2 ^ 128"
    using e backed_bounds(2) [OF hb, of who] by (simp add: total_nat_def)
  have "unat ?old + unat a < 2 ^ 128"
    using backed_bounds(1) [OF hb1, of reason who] t by (simp add: held_under_def reserved_balance_def total_nat_def)
  then have x: "unat (sat_add ?old a) = unat ?old + unat a" by (simp add: mach_nat)
  show ?thesis
  proof (cases "sat_sub (sat_add ?old a) ?old = 0")
    case True
    then have "unat (sat_sub (sat_add ?old a) ?old) = 0" by simp
    then have "unat a = 0" using x by (simp add: mach_nat)
    moreover have "s' = s1" using i True by (simp add: increase_on_hold_def Let_def)
    ultimately show ?thesis using h1 hb1 by simp
  next
    case False
    then obtain u where sb: "set_balance_on_hold cfg reason who (sat_add ?old a) s1 = (Inr u, s')"
      using i by (auto simp: increase_on_hold_def Let_def and_then_Inr)
    have "total_nat (account_of cfg s1 who) + unat (sat_add ?old a) < 2 ^ 128 + unat ?old" using t x by simp
    from set_hold_effect [OF g hb1 sb this] show ?thesis using h1 x by (auto simp: held_under_def fun_eq_iff)
  qed
qed

lemma decrease_on_hold_effect:
  assumes g: "good_balances cfg" and hb: "holds_backed cfg s" and r: "decrease_on_hold cfg reason who a s = (Inr n, s')"
  shows "n = a \<and> unat a \<le> held_under reason s who \<and> holds_backed cfg s' \<and> others_keep cfg who s s' \<and>
    held_under reason s' = (held_under reason s)(who := held_under reason s who - unat a) \<and>
    total_nat (account_of cfg s' who) + unat a \<le> total_nat (account_of cfg s who)"
proof -
  obtain x u where x: "checked_sub (balance_on_hold s reason who) a = Some x" "n = a"
    and sb: "set_balance_on_hold cfg reason who x s = (Inr u, s')"
    using r by (auto simp: decrease_on_hold_def and_then_Inr split: option.splits)
  have le: "unat a \<le> unat (balance_on_hold s reason who)" "unat x = unat (balance_on_hold s reason who) - unat a"
    using x(1) by (simp_all add: checked_sub_Some)
  have "total_nat (account_of cfg s who) + unat x < 2 ^ 128 + unat (balance_on_hold s reason who)"
    using backed_bounds(2) [OF hb, of who] le by simp
  from set_hold_effect [OF g hb sb this] show ?thesis using x(2) le by (auto simp: held_under_def fun_eq_iff)
qed

lemma can_deposit_fits:
  assumes "can_deposit cfg s who a Extant = Deposit_Success" "holds_backed cfg s"
  shows "total_nat (account_of cfg s who) + unat a < 2 ^ 128"
proof (cases "a = 0")
  case True
  then show ?thesis using backed_bounds(2) [OF assms(2)] by simp
next
  case False
  then obtain x y where "checked_add (free (account_of cfg s who)) a = Some x"
    "checked_add (reserved (account_of cfg s who)) x = Some y"
    using assms(1) by (auto simp: can_deposit_def Let_def split: option.splits if_splits)
  then have "unat x = unat (free (account_of cfg s who)) + unat a"
    "unat y = unat (reserved (account_of cfg s who)) + unat x" by (simp_all add: checked_add_Some)
  then show ?thesis using unat_lt_max [of y] by (simp add: total_nat_def)
qed

text \<open>Taking from the hold of one account and giving to the free balance of an account that can take it.\<close>

lemma held_to_free:
  assumes g: "good_balances cfg" and hb: "holds_backed cfg s" and c: "can_deposit cfg s dest a Extant = Deposit_Success"
    and r: "and_then (decrease_on_hold cfg reason who a) (\<lambda>n. increase_balance cfg dest n prec) s = (Inr w, s')"
  shows "unat a \<le> held_under reason s who \<and>
    held_under reason s' = (held_under reason s)(who := held_under reason s who - unat a) \<and> holds_backed cfg s'"
proof -
  obtain n s1 where d: "decrease_on_hold cfg reason who a s = (Inr n, s1)"
    and i: "increase_balance cfg dest n prec s1 = (Inr w, s')" using r by (auto simp: and_then_Inr)
  note e = decrease_on_hold_effect [OF g hb d]
  then have hb1: "holds_backed cfg s1" and i': "increase_balance cfg dest a prec s1 = (Inr w, s')" using i by simp_all
  have "total_nat (account_of cfg s1 dest) \<le> total_nat (account_of cfg s dest)"
    using e by (cases "dest = who") (auto simp: others_keep_def)
  then have "total_nat (account_of cfg s1 dest) + unat a < 2 ^ 128" using can_deposit_fits [OF c hb] by linarith
  from increase_balance_effect [OF g hb1 i' this] have "holds_backed cfg s'" "Holds s' = Holds s1" by simp_all
  moreover from this(2) have "held_under reason s' = held_under reason s1"
    by (simp add: held_under_def balance_on_hold_def fun_eq_iff)
  ultimately show ?thesis using e by simp
qed

section \<open>The balances pallet as a provider of holds\<close>

definition hold_ready :: "'e bal_config \<Rightarrow> 'e bal_state \<Rightarrow> bool" where
  "hold_ready cfg s \<longleftrightarrow> good_balances cfg \<and> holds_backed cfg s"

interpretation balances_holds: holding "hold_funds cfg reason" "release_funds cfg reason" "move_held_funds cfg reason"
    "held_under reason" "hold_ready cfg" for cfg reason
proof unfold_locales
  fix s s' :: "'a bal_state" and who dest a u w
  assume "hold_ready cfg s"
  then have g: "good_balances cfg" and hb: "holds_backed cfg s" by (simp_all add: hold_ready_def)
  show "held_under reason s' = (held_under reason s)(who := held_under reason s who + unat a) \<and> hold_ready cfg s'"
    if "hold_funds cfg reason who a s = (Inr u, s')"
    using hold_funds_law [OF g hb that] g by (simp add: hold_ready_def)
  show "unat a \<le> held_under reason s who \<and>
      held_under reason s' = (held_under reason s)(who := held_under reason s who - unat a) \<and> hold_ready cfg s'"
    if "release_funds cfg reason who a s = (Inr w, s')"
    using held_to_free [OF g hb, where dest = who] that g by (auto simp: release_funds_def hold_ready_def split: if_splits)
  show "unat a \<le> held_under reason s who \<and>
      held_under reason s' = (held_under reason s)(who := held_under reason s who - unat a) \<and> hold_ready cfg s'"
    if "move_held_funds cfg reason who dest a s = (Inr w, s')"
    using held_to_free [OF g hb] that g by (auto simp: move_held_funds_def hold_ready_def split: if_splits)
qed

text \<open>Holding, releasing and moving of the framework: where a method succeeds, it has made the documented steps.\<close>

type_synonym 'e hold_methods = "(account \<Rightarrow> balance \<Rightarrow> ('e, unit) bal) \<times> (account \<Rightarrow> balance \<Rightarrow> ('e, balance) bal) \<times>
  (account \<Rightarrow> account \<Rightarrow> balance \<Rightarrow> ('e, balance) bal)"

definition default_methods :: "'e bal_config \<Rightarrow> nat \<Rightarrow> 'e hold_methods \<Rightarrow> bool" where
  "default_methods cfg reason ms \<longleftrightarrow> (case ms of (hold, release, move) \<Rightarrow>
     (\<forall>who a s u s'. hold who a s = (Inr u, s') \<longrightarrow> hold_funds cfg reason who a s = (Inr u, s')) \<and>
     (\<forall>who a s w s'. release who a s = (Inr w, s') \<longrightarrow> release_funds cfg reason who a s = (Inr w, s')) \<and>
     (\<forall>who dest a s w s'. move who dest a s = (Inr w, s') \<longrightarrow> move_held_funds cfg reason who dest a s = (Inr w, s')))"

text \<open>The pallet of the reversible transfers over the balances pallet: its holds by the given methods, and the call
  it dispatches; the scheduler and the preimages are those of \<open>base\<close>.\<close>

definition reversible_over_balances ::
    "'e bal_config \<Rightarrow> ('e, 'l) bal_runtime \<Rightarrow> 'e hold_methods \<Rightarrow> ('e bal_state \<times> 'y, 'l, 'b) rev_ops
      \<Rightarrow> ('e bal_state \<times> 'y, 'l, 'b) rev_ops" where
  "reversible_over_balances cfg rt ms base = (case ms of (hold, release, move) \<Rightarrow>
     base\<lparr> op_hold := (\<lambda>who a. on_balances (hold who a)),
       op_release := (\<lambda>who a prec. if prec = Exact then on_balances (release who a)
          else op_release base who a prec),
       op_transfer_on_hold := (\<lambda>who dest a prec mode f. if prec = Exact \<and> mode = Restrict_Free \<and> f = Polite
          then on_balances (move who dest a)
          else op_transfer_on_hold base who dest a prec mode f),
       op_dispatch := (\<lambda>call who. case call of
            runtime_call.Transfer_Keep_Alive dest v \<Rightarrow> on_balances (transfer_keep_alive cfg rt (Signed who) dest v)
          | _ \<Rightarrow> op_dispatch base call who) \<rparr>)"

definition balances_view :: "'e bal_config \<Rightarrow> nat \<Rightarrow> ('y \<Rightarrow> hash256 \<Rightarrow> bool) \<Rightarrow> ('b \<Rightarrow> 'l runtime_call)
    \<Rightarrow> ('e bal_state \<times> 'y, 'l, 'b) rev_view" where
  "balances_view cfg reason tasks calls =
     \<lparr> held = (\<lambda>x. held_under reason (fst x)), task = (\<lambda>x. tasks (snd x)), call_of = calls,
       env_ok = (\<lambda>x. hold_ready cfg (fst x)) \<rparr>"

text \<open>What is documented of a transfer: it moves free balances and touches no hold.\<close>

definition transfer_spares_holds :: "'e bal_config \<Rightarrow> ('e, 'l) bal_runtime \<Rightarrow> bool" where
  "transfer_spares_holds cfg rt \<longleftrightarrow>
     (\<forall>a b v p s r s'. holds_backed cfg s \<longrightarrow> fungible_transfer rt a b v p s = (Inr r, s') \<longrightarrow>
        holds_backed cfg s' \<and> Holds s' = Holds s)"

lemma dispatch_spares_holds:
  assumes "transfer_spares_holds cfg rt" "hold_ready cfg s" "transfer_keep_alive cfg rt (Signed who) dest v s = (Inr u, s')"
  shows "held_under reason s' = held_under reason s \<and> hold_ready cfg s'"
proof -
  obtain to r s1 where t: "fungible_transfer rt who to v Preserve s = (Inr r, s1)" "s' = store_transfer_proof cfg who to v s1"
    using assms(3) by (auto simp: transfer_keep_alive_def transactional_Inr transfer_and_prove_def and_then_Inr)
  have "holds_backed cfg s1" "Holds s1 = Holds s"
    using assms(1,2) t(1) unfolding transfer_spares_holds_def hold_ready_def by blast+
  moreover have sys: "sys s' = sys s1" "Holds s' = Holds s1" by (simp_all add: t(2) store_transfer_proof_def)
  ultimately show ?thesis
    using assms(2) account_of_sys [OF sys(1), of cfg] bal_ok_sys [OF sys(1), of cfg]
    by (simp add: hold_ready_def holds_backed_def backed_def held_under_def balance_on_hold_def fun_eq_iff)
qed

lemma reversible_escrow:
  assumes "transfer_spares_holds cfg rt" "default_methods cfg reason ms"
    and "scheduler_law (reversible_over_balances cfg rt ms base) (balances_view cfg reason tasks calls)"
  shows "escrow_law (reversible_over_balances cfg rt ms base) (balances_view cfg reason tasks calls)"
  unfolding escrow_law_def
proof
  obtain h r m where ms: "ms = (h, r, m)" by (cases ms)
  show "holds_law (reversible_over_balances cfg rt ms base) (balances_view cfg reason tasks calls)"
    by (rule balances_holds.holds_provided [where h = h and r = r and m = m and tasks = tasks
          and dispatch = "\<lambda>l a who. transfer_keep_alive cfg rt (Signed who) l a"])
      (use dispatch_spares_holds [OF assms(1)] assms(2) in
        \<open>simp_all add: reversible_over_balances_def balances_view_def default_methods_def ms\<close>)
qed (rule assms(3))

section \<open>Property\<close>

text \<open>C6: The funds of pending transfers are really there. In every state of the reversible transfers over the
  balances pallet, whoever schedules, cancels or executes, what an account has on hold under the pallet's
  reason is the sum of its pending transfers, identical ones counted, and its pending index is their number, within
  the maximum; its reserved balance covers that and all its other holds; and the accounts are consistent
  with their references.\<close>

theorem pending_funds_are_reserved:
  assumes "good_balances cfg" and "transfer_spares_holds cfg rt" and "default_methods cfg reason ms"
    and "ops = reversible_over_balances cfg rt ms base"
    and "v = balances_view cfg reason tasks calls" and "scheduler_law ops v" and "hash_ok ops used"
    and "rev_reachable ops v used s" and "b = fst (rev_env s)"
  shows "unat (balance_on_hold b reason a) = pending_sum (owed a) (PendingTransfers s) \<and>
    pending_sum (owed a) (PendingTransfers s) \<le> amounts_sum (Holds b a) \<and>
    amounts_sum (Holds b a) \<le> unat (reserved_balance cfg b a) \<and> bal_ok cfg b \<and>
    unat (AccountPendingIndex s a) = pending_sum (counted a) (PendingTransfers s) \<and>
    AccountPendingIndex s a \<le> MaxPendingPerAccount ops"
proof -
  have "escrow_law ops v" using reversible_escrow [OF assms(2,3)] assms(4-6) by simp
  from rev_reachable_inv [OF this assms(7,8)]
  have "held_under reason b a = pending_sum (owed a) (PendingTransfers s)" and hb: "holds_backed cfg b"
    and "unat (AccountPendingIndex s a) = pending_sum (counted a) (PendingTransfers s) \<and>
      AccountPendingIndex s a \<le> MaxPendingPerAccount ops"
    by (simp_all add: rev_inv_def assms(5,9) balances_view_def hold_ready_def)
  moreover have "held_under reason b a \<le> amounts_sum (Holds b a)"
    using amount_le_sum [of reason "Holds b a"] by (simp add: held_under_def balance_on_hold_def)
  ultimately show ?thesis
    using hb by (simp add: held_under_def holds_backed_def backed_def reserved_balance_def)
qed

text \<open>A transfer made of the same parts, and a scheduler that keeps the names of its tasks.\<close>

definition transfer_funds :: "'e bal_config \<Rightarrow> account \<Rightarrow> account \<Rightarrow> balance \<Rightarrow> preservation \<Rightarrow> ('e, balance) bal" where
  "transfer_funds cfg source dest amount p s =
     (if can_deposit cfg s dest amount Extant \<noteq> Deposit_Success then (Inl (Token CannotCreate), s)
      else if source = dest then (Inr amount, s)
      else and_then (decrease_balance cfg source amount p Polite) (\<lambda>n. increase_balance cfg dest n BestEffort) s)"

definition moving_runtime :: "'e bal_config \<Rightarrow> ('e, account) bal_runtime" where
  "moving_runtime cfg = \<lparr> fungible_transfer = transfer_funds cfg, fungible_burn_from = (\<lambda>a v p q f. fail (Other [])),
     lookup = Inr \<rparr>"

lemma moving_spares_holds:
  assumes g: "good_balances cfg"
  shows "transfer_spares_holds cfg (moving_runtime cfg)"
proof -
  have "holds_backed cfg s' \<and> Holds s' = Holds s"
    if hb: "holds_backed cfg s" and r: "transfer_funds cfg a b v p s = (Inr w, s')" for a b v p s w s'
  proof (cases "a = b")
    case True
    then show ?thesis using r hb by (simp add: transfer_funds_def split: if_splits)
  next
    case False
    then obtain n s1 where c: "can_deposit cfg s b v Extant = Deposit_Success"
      and d: "decrease_balance cfg a v p Polite s = (Inr n, s1)" and i: "increase_balance cfg b n BestEffort s1 = (Inr w, s')"
      using r by (auto simp: transfer_funds_def and_then_Inr split: if_splits)
    have n: "n = v" using d by (auto simp: decrease_balance_def and_then_Inr split: if_splits option.splits)
    note e = decrease_balance_effect [OF g hb d]
    then have hb1: "holds_backed cfg s1" by simp
    have "total_nat (account_of cfg s1 b) + unat n < 2 ^ 128"
      using can_deposit_fits [OF c hb] e False n by (simp add: others_keep_def)
    from increase_balance_effect [OF g hb1 i this] e show ?thesis by simp
  qed
  then show ?thesis by (simp add: transfer_spares_holds_def moving_runtime_def)
qed

definition named_tasks :: "(ref_store bal_state \<times> (hash256 \<Rightarrow> bool), account, account runtime_call) rev_ops" where
  "named_tasks = \<lparr> MaxPendingPerAccount = 10, DefaultDelay = 100, MinDelayPeriod = 3, pallet_account = 99,
     op_hold = (\<lambda>who a. fail (External 0)), op_release = (\<lambda>who a p. fail (External 0)),
     op_transfer_on_hold = (\<lambda>who dest a p m f. fail (External 0)), op_dispatch = (\<lambda>c who. fail (External 0)),
     op_schedule_named = (\<lambda>k t acc c x. if snd x k then (Inl (External 1), x) else (Inr (), (fst x, (snd x)(k := True)))),
     op_cancel_named = (\<lambda>k x. if snd x k then (Inr (), (fst x, (snd x)(k := False))) else (Inl (External 2), x)),
     op_bound = (\<lambda>c x. (Inr c, x)), op_realize = (\<lambda>c x. (Inr c, x)), current_block_number = (\<lambda>_. 5),
     tx_hash = (\<lambda>who _. who), schedule_hash = (\<lambda>tx n. Some (1000 * tx + of_nat (unat n))) \<rparr>"

definition sample_methods :: "'e bal_config \<Rightarrow> nat \<Rightarrow> 'e hold_methods" where
  "sample_methods cfg reason = (hold_funds cfg reason, release_funds cfg reason, move_held_funds cfg reason)"

lemma sample_methods_default: "default_methods cfg reason (sample_methods cfg reason)"
  by (simp add: default_methods_def sample_methods_def)

definition sample_ops :: "(ref_store bal_state \<times> (hash256 \<Rightarrow> bool), account, account runtime_call) rev_ops" where
  "sample_ops = reversible_over_balances (ref_config 10) (moving_runtime (ref_config 10)) (sample_methods (ref_config 10) 4) named_tasks"

definition sample_start :: "(ref_store bal_state \<times> (hash256 \<Rightarrow> bool), account runtime_call) rev_state" where
  "sample_start = reversible_genesis sample_ops [(1, 50)]
     (empty_rev_state (two_accounts (funded 100 20 1) (funded 50 0 0), \<lambda>_. False))"

definition sample_view where
  "sample_view = balances_view (ref_config 10) 4 (\<lambda>t. t) (\<lambda>c :: account runtime_call. c)"

lemma sample_scheduler: "scheduler_law sample_ops sample_view"
  by (auto simp: scheduler_law_def sample_ops_def reversible_over_balances_def sample_methods_def named_tasks_def sample_view_def balances_view_def
      same_view_def split: if_splits)

lemma sample_backed: "hold_ready (ref_config 10) (two_accounts (funded 100 20 1) (funded 50 0 0))"
proof -
  let ?s = "two_accounts (funded 100 20 1) (funded 50 0 0)"
  have "bal_ok (ref_config 10) ?s" using two_funded_sound [of 10 100 50 20 0 1 0] by (simp add: sound_balances_def)
  moreover have "backed (ref_config 10) ?s a" for a
    by (simp add: backed_def two_accounts_def entries_ok_def nonzero_entries_def total_nat_def account_of_stored funded_def
        no_account_def default_account_def)
  ultimately show ?thesis using ref_good [of 10] by (simp add: hold_ready_def holds_backed_def)
qed

lemma sample_hold:
  obtains b where "hold_funds (ref_config 10) 4 1 30 (two_accounts (funded 100 20 1) (funded 50 0 0)) = (Inr (), b)"
    "balance_on_hold b 4 1 = 30"
proof -
  let ?s = "two_accounts (funded 100 20 1) (funded 50 0 0)"
  let ?r = "hold_funds (ref_config 10) 4 1 30 ?s"
  have "fst ?r = Inr ()"
    by (simp add: hold_funds_def hold_available_def reducible_balance_def decrease_balance_def write_balance_def
       increase_on_hold_def set_balance_on_hold_def change_hold_def has_id_def checked_add_def checked_sub_def sat_sub_def sat_add_def
       balance_on_hold_def amount_under_def mutate_account_def free_balance_def put_holds_def ref_eval)
  then have r: "?r = (Inr (), snd ?r)" by (simp add: prod_eq_iff)
  have "held_under 4 ?s 1 = 0"
    by (simp add: held_under_def balance_on_hold_def amount_under_def two_accounts_def)
  with balances_holds.hold_adds [OF sample_backed r] have "held_under 4 (snd ?r) 1 = 30" by simp
  then have "balance_on_hold (snd ?r) 4 1 = 30" by (simp add: held_under_def word_unat_eq_iff)
  with r show ?thesis by (rule that)
qed

lemma sample_schedules:
  obtains s' where "schedule_transfer sample_ops (Signed 1) 8 30 sample_start = (Inr (), s')"
    "balance_on_hold (fst (rev_env s')) 4 1 = 30"
proof -
  obtain b where b: "hold_funds (ref_config 10) 4 1 30 (two_accounts (funded 100 20 1) (funded 50 0 0)) = (Inr (), b)"
    "balance_on_hold b 4 1 = 30" by (rule sample_hold)
  have "\<exists>s'. schedule_transfer sample_ops (Signed 1) 8 30 sample_start = (Inr (), s') \<and> fst (rev_env s') = b"
    by (simp add: sample_ops_def sample_start_def reversible_over_balances_def sample_methods_def named_tasks_def empty_rev_state_def
        schedule_transfer_def do_schedule_transfer_def transactional_def and_then_def ensure_def ensure_signed_def ok_or_def
        increment_index_def new_pending_def make_schedule_id_def on_env_def or_error_def rev_event_def sat_add_def
        on_balances_def b(1))
  with b(2) show ?thesis using that by blast
qed

theorem pending_funds_are_reserved_witness:
  "\<exists>s :: (ref_store bal_state \<times> (hash256 \<Rightarrow> bool), account runtime_call) rev_state.
    balance_on_hold (fst (rev_env s)) 4 1 = 30 \<and> pending_sum (owed 1) (PendingTransfers s) = 30 \<and>
    30 \<le> unat (reserved_balance (ref_config 10) (fst (rev_env s)) 1)"
proof -
  let ?u = "{(1 :: account, runtime_call.Transfer_Keep_Alive (8 :: account) 30)}"
  obtain s' where c: "schedule_transfer sample_ops (Signed 1) 8 30 sample_start = (Inr (), s')"
    and b: "balance_on_hold (fst (rev_env s')) 4 1 = 30" by (rule sample_schedules)
  have "held sample_view (two_accounts (funded 100 20 1) (funded 50 0 0), \<lambda>_. False) = (\<lambda>_. 0)"
    by (simp add: sample_view_def balances_view_def held_under_def balance_on_hold_def amount_under_def two_accounts_def fun_eq_iff)
  moreover have "env_ok sample_view (two_accounts (funded 100 20 1) (funded 50 0 0), \<lambda>_. False)"
    using sample_backed by (simp add: sample_view_def balances_view_def)
  ultimately have st: "rev_reachable sample_ops sample_view ?u sample_start"
    unfolding sample_start_def by (rule rev_start)
  have r: "rev_reachable sample_ops sample_view ?u s'"
    by (rule rev_call [OF st, where origin = "Signed 1" and c = "Call_Schedule 8 30"]) (use c in simp_all)
  have g: "good_balances (ref_config 10)" by (simp add: ref_good)
  have "hash_ok sample_ops ?u" by (simp add: hash_ok_def)
  from pending_funds_are_reserved [OF g moving_spares_holds [OF g] sample_methods_default sample_ops_def sample_view_def sample_scheduler this r refl, of 1] b
  show ?thesis by (intro exI [of _ s']) auto
qed

end
