(* ===== verification/Reservable.thy ===== *)
theory Reservable
  imports Minting
begin

text \<open>
  The interface of deposits that are set aside and given back, as a locale, and the balances pallet as its
  provider: \<open>reserve\<close> and \<open>unreserve\<close> on well kept accounts (\<open>pallets/balances/src/impl_currency.rs\<close>). On
  the way: a mutation keeps the account store well kept, and one that lowers no balance cannot fail.
\<close>

section \<open>The interface of deposits\<close>

text \<open>What the holders of deposits use: \<open>hold_back\<close> sets an amount of an account aside or fails, and
  \<open>give_back\<close> returns it and cannot fail as long as that much is set aside. An account that owns at least
  \<open>least\<close> loses nothing on the way.\<close>

locale reservable =
  fixes hold_back :: "account \<Rightarrow> balance \<Rightarrow> ('s, dispatch_error, unit) comp"
    and give_back :: "account \<Rightarrow> balance \<Rightarrow> 's \<Rightarrow> balance \<times> 's"
    and aside :: "'s \<Rightarrow> account \<Rightarrow> nat"
    and spendable :: "'s \<Rightarrow> account \<Rightarrow> nat"
    and sound :: "'s \<Rightarrow> bool"
    and least :: nat
  assumes hold_back_ok: "sound s \<Longrightarrow> hold_back who v s = (Inr u, s') \<Longrightarrow>
      sound s' \<and> unat v \<le> spendable s who \<and> aside s' = (aside s)(who := aside s who + unat v) \<and>
      spendable s' = (spendable s)(who := spendable s who - unat v)"
    and give_back_ok: "sound s \<Longrightarrow> unat v \<le> aside s who \<Longrightarrow> least \<le> spendable s who + aside s who \<Longrightarrow>
      \<exists>s'. give_back who v s = (0, s') \<and> sound s' \<and> aside s' = (aside s)(who := aside s who - unat v) \<and>
        spendable s' = (spendable s)(who := spendable s who + unat v)"
begin

definition deposited :: "account \<Rightarrow> balance \<Rightarrow> 's \<Rightarrow> 's \<Rightarrow> bool" where
  "deposited who v s s' \<longleftrightarrow> sound s' \<and> aside s' = (aside s)(who := aside s who + unat v) \<and>
     spendable s' = (spendable s)(who := spendable s who - unat v) \<and> unat v \<le> spendable s who"

lemma deposit_taken: "sound s \<Longrightarrow> hold_back who v s = (Inr u, s') \<Longrightarrow> deposited who v s s'"
  using hold_back_ok by (simp add: deposited_def)

lemma deposit_returned:
  assumes "deposited who v s t" "least \<le> spendable s who + aside s who"
  shows "\<exists>t'. give_back who v t = (0, t') \<and> sound t' \<and> aside t' = aside s \<and> spendable t' = spendable s"
proof -
  have "sound t" "unat v \<le> aside t who" "least \<le> spendable t who + aside t who"
    using assms by (auto simp: deposited_def)
  from give_back_ok [OF this] assms(1) show ?thesis by (auto simp: deposited_def)
qed

text \<open>A deposit that is replaced by another one.\<close>

lemma deposit_replaced:
  assumes d: "deposited who v s t" and l: "least \<le> spendable s who + aside s who"
    and h: "hold_back who w (snd (give_back who v t)) = (Inr u, t')"
  shows "deposited who w s t'"
proof -
  obtain t1 where t1: "give_back who v t = (0, t1)" "sound t1" "aside t1 = aside s" "spendable t1 = spendable s"
    using deposit_returned [OF d l] by blast
  with hold_back_ok [OF t1(2), of who w u t'] h show ?thesis by (simp add: deposited_def)
qed

end

section \<open>The balances pallet as a provider of deposits\<close>

text \<open>A consuming account has a consumer reference after its references have been updated.\<close>

lemma update_references_consumers:
  assumes law: "system_law (sy cfg)" and u: "update_references cfg who did_provide did_consume a s = (Inr v, s')"
    and c: "does_consume a"
  shows "0 < sys_consumers (sy cfg) (sys s') who"
proof -
  let ?y = "sy cfg"
  define s1 where "s1 = (if \<not> did_provide \<and> does_provide cfg a then on_sys_pure (sys_inc_providers ?y who) s else s)"
  obtain u1 s3 where "inc_consumers_if cfg who (\<not> did_consume) s1 = (Inr u1, s3)"
    and u': "and_then (inc_consumers_if cfg who (sys_consumers ?y (sys s3) who = 0))
      (\<lambda>_. if did_provide \<and> \<not> does_provide cfg a then drop_provider cfg who did_consume True else ret ()) s3 = (Inr v, s')"
    using u c by (auto simp: update_references_def Let_def and_then_Inr s1_def)
  then obtain s4 where i: "inc_consumers_if cfg who (sys_consumers ?y (sys s3) who = 0) s3 = (Inr (), s4)"
    and d: "(if did_provide \<and> \<not> does_provide cfg a then drop_provider cfg who did_consume True else ret ()) s4 = (Inr v, s')"
    by (auto simp: and_then_Inr)
  have "0 < sys_consumers ?y (sys s4) who"
    using i law_inc_consumers(5) [OF law, of who "sys s3"]
    by (auto simp: inc_consumers_if_def on_sys_def word_neq_0_conv split: if_splits sum.splits)
  then show ?thesis
    using d law_dec_providers(5) [OF law, of who "sys s4"]
    by (auto simp: drop_provider_def split: if_splits sum.splits)
qed

lemma settle_cases:
  "settle cfg a = (if does_provide cfg a \<or> reserved a \<noteq> 0 then Some (Some a, None)
     else Some (None, if free a = 0 then None else Some (free a)))"
  by (auto simp: settle_def does_provide_def not_le)


text \<open>A mutation that keeps the flags keeps the store well kept.\<close>

lemma try_mutate_well_kept:
  assumes g: "good_balances cfg" and wk: "well_kept cfg s" and ok: "bal_ok cfg s" and q: "quiet f"
    and flags: "\<And>a new s0 x a' s1. f a new s0 = (Inr (x, a'), s1) \<Longrightarrow> is_new_logic (flags a) \<Longrightarrow> is_new_logic (flags a')"
    and r: "try_mutate_account cfg who on_drop f s = (Inr (res, dust), s')"
  shows "well_kept cfg s'"
proof -
  let ?y = "sy cfg" and ?A = "account_of cfg s who" and ?new = "sys_account (sy cfg) (sys s) who = None"
  have law: "system_law ?y" and ed: "ExistentialDeposit cfg \<noteq> 0" using g by (auto simp: good_balances_def)
  have acc: "data_or_default (sys_account ?y (sys s) who) = ?A" by (simp add: account_of_def)
  obtain a' s1 u s2 stored where f: "f ?A ?new s = (Inr (res, a'), s1)"
    and ur: "update_references cfg who (does_provide cfg ?A) (\<not> ?new \<and> does_consume ?A) a' s1 = (Inr u, s2)"
    and st: "settle cfg a' = Some (stored, dust)"
    and put: "sys_put ?y who stored (sys s2) = Inr (sys s')"
    using r unfolding try_mutate_account_def well_kept_not_upgraded [OF wk] Let_def snd_conv acc
    by (auto simp: on_sys_def split: sum.splits prod.splits option.splits)
  have s1: "sys s1 = sys s" using quiet_leaves_alone(3) [OF q f] .
  have refs: "refs_ok ?y (sys s1)" and prov: "does_provide cfg ?A \<Longrightarrow> 0 < sys_providers ?y (sys s1) who"
    using ok by (auto simp: bal_ok_def s1)
  note step = update_references_step [OF law refs prov ur]
  have at: "only_at ?y who (sys s1) (sys s2)" using step by (simp add: refs_step_def)
  note p = law_put [OF law put]
  have who: "stored_data ?y (sys s') who = a' \<and> (does_provide cfg a' \<or> reserved a' \<noteq> 0) \<or>
      stored_data ?y (sys s') who = default_account"
    using p(4) st by (auto simp: settle_cases split: if_splits)
  have consumers: "0 < sys_consumers ?y (sys s') who" if "does_consume a'"
    using update_references_consumers [OF law ur that] step that p(5) by simp
  have dc: "\<not> does_consume default_account" by (simp add: does_consume_def)
  have "is_new_logic (flags a')" using flags [OF f well_keptD(1) [OF wk]] .
  moreover have "is_new_logic (flags default_account)"
    by (simp add: default_account_def is_new_logic_def IS_NEW_LOGIC_def)
  ultimately have "is_new_logic (flags (account_of cfg s' b))" for b
    using well_keptD(1) [OF wk, of b] who only_atD(1) [OF p(1), of b] only_atD(1) [OF at, of b] s1
    by (cases "b = who") (auto simp: account_of_stored)
  moreover have "0 < sys_consumers ?y (sys s') b" if "does_consume (account_of cfg s' b)" for b
    using that well_keptD(2) [OF wk, of b] who dc consumers only_atD [OF p(1), of b] only_atD [OF at, of b] s1
    by (cases "b = who") (auto simp: account_of_stored)
  moreover have "free d \<noteq> 0 \<or> reserved d \<noteq> 0" if d: "sys_account ?y (sys s') b = Some d" for b d
  proof (cases "b = who")
    case True
    then have "stored_data ?y (sys s') who = d" "d \<noteq> default_account"
      using d law_account [OF law, of "sys s'" b] by (auto simp: stored_data_def)
    then show ?thesis using who ed by (auto simp: does_provide_def)
  next
    case False
    then show ?thesis
      using d well_keptD(3) [OF wk, of b d] only_atD(4) [OF p(1), of b] only_atD(4) [OF at, of b] s1 by simp
  qed
  ultimately show ?thesis unfolding well_kept_def by blast
qed

lemma handle_raw_dust_sys:
  assumes "good_balances cfg"
  shows "sys (handle_raw_dust cfg dust s) = sys s"
proof (cases dust)
  case (Some d)
  have "dust_law cfg" using assms by (simp add: good_balances_def)
  from handle_raw_dust_Some [OF this, of d s] Some show ?thesis by force
qed simp

lemma try_mutate_dust_well_kept:
  assumes "good_balances cfg" "well_kept cfg s" "bal_ok cfg s" "quiet f"
    and "\<And>a new s0 x a' s1. f a new s0 = (Inr (x, a'), s1) \<Longrightarrow> is_new_logic (flags a) \<Longrightarrow> is_new_logic (flags a')"
    and r: "try_mutate_account_handling_dust cfg who on_drop f s = (Inr res, s')"
  shows "well_kept cfg s'"
proof -
  obtain dust s1 where t: "try_mutate_account cfg who on_drop f s = (Inr (res, dust), s1)"
    and s': "s' = handle_raw_dust cfg dust s1"
    using r by (auto simp: try_mutate_account_handling_dust_def and_then_Inr)
  have "well_kept cfg s1" by (rule try_mutate_well_kept [OF assms(1-5) t])
  then show ?thesis using well_kept_sys [of s' s1 cfg] handle_raw_dust_sys [OF assms(1)] by (simp add: s')
qed

text \<open>A mutation that does not lower the free balance and does not begin to consume cannot fail.\<close>

lemma mutate_never_fails:
  assumes g: "good_balances cfg" and pt: "put_total (sy cfg)" and wk: "well_kept cfg s"
    and f: "f (account_of cfg s who) = (res, a')" and up: "free (account_of cfg s who) \<le> free a'"
    and c: "does_consume a' \<Longrightarrow> does_consume (account_of cfg s who)"
  shows "\<exists>s'. mutate_account_handling_dust cfg who on_drop f s = (Inr res, s')"
proof -
  let ?y = "sy cfg" and ?A = "account_of cfg s who" and ?new = "sys_account (sy cfg) (sys s) who = None"
  have law: "system_law ?y" using g by (simp add: good_balances_def)
  have acc: "data_or_default (sys_account ?y (sys s) who) = ?A" by (simp add: account_of_def)
  have did: "(\<not> ?new \<and> does_consume ?A) = does_consume ?A"
    using acc by (cases "sys_account ?y (sys s) who") (auto simp: does_consume_def)
  define s1 where "s1 = (if \<not> does_provide cfg ?A \<and> does_provide cfg a' then on_sys_pure (sys_inc_providers ?y who) s else s)"
  define s2 where "s2 = (if does_consume ?A \<and> \<not> does_consume a' then on_sys_pure (sys_dec_consumers ?y who) s1 else s1)"
  have "sys_consumers ?y (sys s2) who \<noteq> 0" if "does_consume a'"
    using that c well_keptD(2) [OF wk, of who] law_inc_providers(4) [OF law, of who "sys s"]
    by (auto simp: s1_def s2_def on_sys_pure_def)
  moreover have "does_provide cfg ?A \<Longrightarrow> does_provide cfg a'" using up by (simp add: does_provide_def)
  ultimately have ur: "update_references cfg who (does_provide cfg ?A) (does_consume ?A) a' s = (Inr (), s2)"
    using c unfolding update_references_def Let_def s1_def [symmetric] s2_def [symmetric]
    by (auto simp: inc_consumers_if_def and_then_def)
  obtain stored dust where st: "settle cfg a' = Some (stored, dust)"
    by (cases "does_provide cfg a' \<or> reserved a' \<noteq> 0") (simp_all add: settle_cases)
  obtain e' where e': "sys_put ?y who stored (sys s2) = Inr e'" using pt unfolding put_total_def by blast
  show ?thesis
    unfolding mutate_account_handling_dust_def mutate_account_def try_mutate_account_def well_kept_not_upgraded [OF wk]
      Let_def snd_conv acc did f ret_apply prod.case sum.case ur st option.case on_sys_def e' and_then_def
    by simp
qed

definition aside_of :: "'e bal_config \<Rightarrow> 'e bal_state \<Rightarrow> account \<Rightarrow> nat" where
  "aside_of cfg s who = unat (reserved_balance cfg s who)"

lemma aside_fits:
  assumes "sound_balances cfg s"
  shows "unat (free_balance cfg s who) + unat (reserved_balance cfg s who) < 2 ^ 128"
  using total_le_holdings [of cfg s who] assms unat_lt_max [of "TotalIssuance s"]
  by (simp add: sound_balances_def issued_ok_def total_nat_def free_balance_def reserved_balance_def)

text \<open>A mutation after which the account still lives and owns as much as before.\<close>

lemma moved_within:
  assumes r: "ready_to_mint cfg s" and m: "mutated cfg who s a' s'" and wk: "well_kept cfg s'"
    and lives: "does_provide cfg a' \<or> reserved a' \<noteq> 0"
    and same: "total_nat a' = total_nat (account_of cfg s who)"
  shows "ready_to_mint cfg s' \<and> funds_of cfg s' = (funds_of cfg s)(who := unat (free a')) \<and>
    aside_of cfg s' = (aside_of cfg s)(who := unat (reserved a'))"
proof -
  have a: "account_of cfg s' who = a'" "\<And>b. b \<noteq> who \<Longrightarrow> account_of cfg s' b = account_of cfg s b"
    "TotalIssuance s' = TotalIssuance s" "bal_ok cfg s'"
    using m lives by (auto simp: mutated_def)
  have "holdings cfg s' = holdings cfg s"
    using holdings_changed [OF a(2), where who = who] a(1) same by simp
  then show ?thesis
    using r a wk by (auto simp: ready_to_mint_def sound_balances_def issued_ok_def funds_of_def aside_of_def
        free_balance_def reserved_balance_def)
qed

lemma reserve_moves:
  assumes r: "ready_to_mint cfg s" and e: "reserve cfg who v s = (Inr u, s')"
  shows "ready_to_mint cfg s' \<and> unat v \<le> funds_of cfg s who \<and>
    aside_of cfg s' = (aside_of cfg s)(who := aside_of cfg s who + unat v) \<and>
    funds_of cfg s' = (funds_of cfg s)(who := funds_of cfg s who - unat v)"
proof (cases "v = 0")
  case True
  then show ?thesis using e r by (simp add: reserve_def)
next
  case False
  have g: "good_balances cfg" "bal_ok cfg s" "well_kept cfg s"
    using r by (auto simp: ready_to_mint_def sound_balances_def)
  obtain a x y where m: "old_account cfg s who a" "unat x + unat v = unat (free a)"
      "unat y = unat (reserved a) + unat v" "mutated cfg who s (a\<lparr> free := x, reserved := y \<rparr>) s'"
    using reserve_effect [OF g(1,2) False e] by blast
  obtain s3 where t: "try_mutate_account_handling_dust cfg who no_drop (reserve_closure cfg who v) s = (Inr (), s3)"
    and s': "sys s' = sys s3"
    using e False by (auto simp: reserve_def and_then_Inr deposit_event_def)
  have "well_kept cfg s3"
    by (rule try_mutate_dust_well_kept [OF g(1,3,2) quiet_closures(5) _ t])
       (auto simp: reserve_closure_def and_then_Inr split: option.splits)
  then have wk: "well_kept cfg s'" using well_kept_sys [OF s', of cfg] by simp
  have "y \<noteq> 0" using m(3) False by (auto simp: word_unat_eq_iff)
  moreover have "unat x = unat (free a) - unat v" using m(2) by simp
  ultimately show ?thesis
    using moved_within [OF r m(4) wk] m(1-3)
    by (auto simp: old_account_def total_nat_def funds_of_def aside_of_def free_balance_def reserved_balance_def)
qed

lemma unreserve_gives_back:
  assumes r: "ready_to_mint cfg s" and le: "unat v \<le> aside_of cfg s who"
    and least: "unat (ExistentialDeposit cfg) \<le> funds_of cfg s who + aside_of cfg s who"
  shows "\<exists>s'. unreserve cfg who v s = (0, s') \<and> ready_to_mint cfg s' \<and>
    aside_of cfg s' = (aside_of cfg s)(who := aside_of cfg s who - unat v) \<and>
    funds_of cfg s' = (funds_of cfg s)(who := funds_of cfg s who + unat v)"
proof (cases "v = 0")
  case True
  then show ?thesis using r by (simp add: unreserve_def)
next
  case False
  let ?A = "account_of cfg s who"
  have g: "good_balances cfg" "bal_ok cfg s" "well_kept cfg s" "put_total (sy cfg)" and snd: "sound_balances cfg s"
    using r by (auto simp: ready_to_mint_def sound_balances_def)
  have lev: "v \<le> reserved ?A" using le by (simp add: aside_of_def reserved_balance_def word_le_nat_alt)
  then have mn: "min (reserved ?A) v = v" by (simp add: min_def)
  let ?a = "?A\<lparr> reserved := reserved ?A - v, free := sat_add (free ?A) v \<rparr>"
  have f: "unreserve_closure v ?A = (v, ?a)" by (simp add: unreserve_closure_def Let_def mn)
  have sum: "unat (free ?A) + unat (reserved ?A) < 2 ^ 128"
    using aside_fits [OF snd, of who] by (simp add: free_balance_def reserved_balance_def)
  have x: "unat (sat_add (free ?A) v) = unat (free ?A) + unat v"
    using sum lev by (simp add: mach_nat word_le_nat_alt)
  have y: "unat (reserved ?A - v) = unat (reserved ?A) - unat v" using lev by (simp add: mach_nat)
  have "does_consume ?a \<Longrightarrow> does_consume ?A" using lev False by (auto simp: does_consume_def)
  then obtain s3 where t: "mutate_account_handling_dust cfg who no_drop (unreserve_closure v) s = (Inr v, s3)"
    using mutate_never_fails [where f = "unreserve_closure v" and who = who and on_drop = no_drop, OF g(1,4,3) f]
      sat_add_ge by fastforce
  have "reserved ?A \<noteq> 0" using lev False by auto
  then have "total_balance cfg s who \<noteq> 0"
    using sum by (auto simp: total_balance_def account_total_def mach_nat word_unat_eq_iff)
  then have un: "unreserve cfg who v s = (0, deposit_event (B_Unreserved who v) s3)"
    using t False by (simp add: unreserve_def)
  obtain a x' y' where m: "mutated cfg who s (a\<lparr> reserved := y', free := x' \<rparr>) (deposit_event (B_Unreserved who v) s3)"
     "old_account cfg s who a" "y' = reserved a - min (reserved a) v" "x' = sat_add (free a) (min (reserved a) v)"
    using unreserve_effect [OF g(1,2) False un] False by auto
  have t': "try_mutate_account_handling_dust cfg who no_drop (\<lambda>a _. ret (unreserve_closure v a)) s = (Inr v, s3)"
    using t by (simp add: mutate_account_handling_dust_def mutate_account_def try_mutate_account_handling_dust_def)
  have "well_kept cfg s3"
    by (rule try_mutate_dust_well_kept [OF g(1,3,2) quiet_ret _ t'])
       (auto simp: unreserve_closure_def Let_def)
  then have wk: "well_kept cfg (deposit_event (B_Unreserved who v) s3)"
    using well_kept_sys [of "deposit_event (B_Unreserved who v) s3" s3 cfg] by (simp add: deposit_event_def)
  have "x' = sat_add (free ?A) v" "y' = reserved ?A - v" using m(2-4) mn by (auto simp: old_account_def)
  with x y have xy: "unat x' = unat (free ?A) + unat v" "unat y' = unat (reserved ?A) - unat v" by simp_all
  have "does_provide cfg (a\<lparr> reserved := y', free := x' \<rparr>) \<or> reserved (a\<lparr> reserved := y', free := x' \<rparr>) \<noteq> 0"
    using least xy lev
    by (auto simp: does_provide_def word_le_nat_alt word_unat_eq_iff funds_of_def aside_of_def free_balance_def
        reserved_balance_def)
  with moved_within [OF r m(1) wk] xy lev un show ?thesis
    by (auto simp: total_nat_def funds_of_def aside_of_def free_balance_def reserved_balance_def word_le_nat_alt)
qed

interpretation balances_reserves: reservable "reserve cfg" "unreserve cfg" "aside_of cfg" "funds_of cfg"
    "ready_to_mint cfg" "unat (ExistentialDeposit cfg)" for cfg
  by unfold_locales (simp add: reserve_moves, rule unreserve_gives_back)

end
