(* ===== verification/RuntimeConfig.thy ===== *)
theory RuntimeConfig
  imports Qpow ReversibleProps BalancesCalls Reservable Faucet MiningRewards
begin

text \<open>
  The constants of the runtime and the configuration it gives the pallets (\<open>runtime/src/lib.rs\<close>,
  \<open>runtime/src/configs/mod.rs\<close>), and its genesis (\<open>runtime/src/genesis_config_presets.rs\<close>). What the
  macros generate (the account store, the numbers of hold and freeze reasons) is a parameter.
\<close>

section \<open>Units and times\<close>

definition UNIT :: balance where "UNIT = 1000000000000"
definition MILLI_UNIT :: balance where "MILLI_UNIT = 1000000000"
definition MICRO_UNIT :: balance where "MICRO_UNIT = 1000000"
definition EXISTENTIAL_DEPOSIT :: balance where "EXISTENTIAL_DEPOSIT = MILLI_UNIT"

definition MINUTES :: block_number where "MINUTES = 60"
definition HOURS :: block_number where "HOURS = MINUTES * 60"
definition DAYS :: block_number where "DAYS = HOURS * 24"

section \<open>Pallet configurations\<close>

text \<open>That of the QPoW pallet is \<open>runtime_qpow\<close>, in \<open>Qpow\<close>.\<close>

text \<open>\<open>DustRemoval = ()\<close> drops the dust, \<open>MaxReserves = ()\<close> is zero.\<close>

definition runtime_balances ::
    "'e system_ops \<Rightarrow> (balance \<Rightarrow> 'e bal_state \<Rightarrow> 'e bal_state) \<Rightarrow> u32 \<Rightarrow> u32 \<Rightarrow> 'e bal_config" where
  "runtime_balances y drop_dust freeze_reasons hold_reasons =
     \<lparr> ExistentialDeposit = EXISTENTIAL_DEPOSIT, MaxLocks = 50, MaxReserves = 0, MaxFreezes = freeze_reasons,
       MaxHolds = hold_reasons, DustRemoval = drop_dust, sy = y \<rparr>"

definition runtime_faucet ::
    "('l \<Rightarrow> dispatch_error + account) \<Rightarrow> (account \<Rightarrow> negative_imbalance \<Rightarrow> 'e bal_state \<Rightarrow> 'e bal_state)
      \<Rightarrow> ('e, 'l) faucet_ops" where
  "runtime_faucet look_up resolve =
     \<lparr> MaxTokenAmount = 1000 * UNIT, DefaultMintAmount = 10 * UNIT, faucet_lookup = look_up, faucet_resolve = resolve \<rparr>"

definition runtime_block_reward :: balance where
  "runtime_block_reward = 1000000000000"

definition with_runtime_delays :: "('x, 'l, 'b) rev_ops \<Rightarrow> ('x, 'l, 'b) rev_ops" where
  "with_runtime_delays ops = ops\<lparr> MaxPendingPerAccount := 10, DefaultDelay := 10, MinDelayPeriod := 2 \<rparr>"

section \<open>Genesis\<close>

definition genesis_balances :: "account list \<Rightarrow> (account \<times> balance) list" where
  "genesis_balances endowed = map (\<lambda>k. (k, push_bit 60 1)) endowed"

section \<open>Properties\<close>

text \<open>Times are counted in blocks as if a block took a second, but blocks are targeted at ten.\<close>

lemma runtime_days: "unat DAYS * unat (TargetBlockTime runtime_qpow) = 10 * (24 * 60 * 60 * 1000)"
  by (simp add: DAYS_def HOURS_def MINUTES_def runtime_qpow_def)

lemma runtime_parameters_good:
  "good_config runtime_qpow" "integrity_test (with_runtime_delays ops)"
  by (simp_all add: good_config_def runtime_qpow_def integrity_test_def with_runtime_delays_def)

text \<open>A store in which accounts live but do not consume is well kept.\<close>

lemma fresh_well_kept:
  assumes g: "good_balances cfg"
    and a: "\<And>b. account_of cfg s b = default_account \<or>
      (\<exists>v. ExistentialDeposit cfg \<le> v \<and> account_of cfg s b = default_account\<lparr> free := v \<rparr>)"
  shows "well_kept cfg s"
proof -
  have law: "system_law (sy cfg)" and ed: "ExistentialDeposit cfg \<noteq> 0" using g by (auto simp: good_balances_def)
  have n: "is_new_logic (flags default_account)"
    by (simp add: default_account_def is_new_logic_def IS_NEW_LOGIC_def)
  have "free d \<noteq> 0 \<or> reserved d \<noteq> 0" if d: "sys_account (sy cfg) (sys s) b = Some d" for b d
  proof -
    have "account_of cfg s b = d" "d \<noteq> default_account"
      using d law_account [OF law, of "sys s" b] by (auto simp: account_of_def)
    then show ?thesis using a [of b] ed by auto
  qed
  moreover have "is_new_logic (flags (account_of cfg s b))" "\<not> does_consume (account_of cfg s b)" for b
    using a [of b] n by (auto simp: does_consume_def)
  ultimately show ?thesis unfolding well_kept_def by blast
qed

lemma sum_list_constant: "sum_list (map (unat \<circ> snd) (map (\<lambda>k. (k, v)) l)) = length l * unat v"
  by (induction l) simp_all

text \<open>The chain starts in a state where everything else applies. From an empty store the genesis of the runtime, with
  \<open>2 ^ 60\<close> for every endowed account, is built without a panic exactly when no account is listed twice; then
  those accounts have their endowment, nobody else has anything, the issuance is the sum, and the
  pallets that create tokens find the state they rely on.\<close>

theorem runtime_genesis_ready:
  assumes "good_balances (runtime_balances y drop_dust fr hr)" and "put_total y" and "cfg = runtime_balances y drop_dust fr hr"
    and "bal_ok cfg s" and "\<forall>a. account_of cfg s a = default_account" and "length endowed < 2 ^ 60"
    and "balances_genesis_build cfg (genesis_balances endowed) s = (r, s')"
  shows "(r = Inr () \<longleftrightarrow> distinct endowed) \<and>
    (r = Inr () \<longrightarrow> ready_to_mint cfg s' \<and> issuance s' = length endowed * 2 ^ 60 \<and>
       (\<forall>b. funds_of cfg s' b = (if b \<in> set endowed then 2 ^ 60 else 0)))"
proof -
  have sy: "sy cfg = y" and ed: "ExistentialDeposit cfg = EXISTENTIAL_DEPOSIT"
    by (simp_all add: assms(3) runtime_balances_def)
  let ?v = "push_bit 60 1 :: balance"
  have v: "unat ?v = 2 ^ 60" "EXISTENTIAL_DEPOSIT \<le> ?v"
    by (simp_all add: push_bit_eq_mult EXISTENTIAL_DEPOSIT_def MILLI_UNIT_def)
  have sum: "sum_list (map (unat \<circ> snd) (genesis_balances endowed)) = length endowed * 2 ^ 60"
    unfolding genesis_balances_def sum_list_constant v(1) ..
  have lt: "length endowed * 2 ^ 60 < 2 ^ 128"
    using mult_strict_right_mono [OF assms(6), of "2 ^ 60"] by simp
  have all: "\<forall>(w, v) \<in> set (genesis_balances endowed). ExistentialDeposit cfg \<le> v"
    using v(2) ed by (auto simp: genesis_balances_def)
  have fst: "map fst (genesis_balances endowed) = endowed"
    by (induction endowed) (simp_all add: genesis_balances_def)
  have g: "good_balances cfg" using assms(1,3) by simp
  note gen = genesis_build_correct [OF g _ assms(4,5) _ assms(7)]
  have r: "r = Inr () \<longleftrightarrow> distinct endowed"
    using gen assms(2) sy sum lt all fst by simp
  moreover have "ready_to_mint cfg s' \<and> issuance s' = length endowed * 2 ^ 60 \<and>
      (\<forall>b. funds_of cfg s' b = (if b \<in> set endowed then 2 ^ 60 else 0))" if ok: "r = Inr ()"
  proof -
    have snd: "sound_balances cfg s'" and ti: "unat (TotalIssuance s') = length endowed * 2 ^ 60"
      and bal: "\<And>w. w \<in> set endowed \<Longrightarrow> account_of cfg s' w = default_account\<lparr> free := ?v \<rparr>"
      and rest: "\<And>b. b \<notin> set endowed \<Longrightarrow> account_of cfg s' b = default_account"
      using gen assms(2) sy sum lt ok fst by (auto simp: genesis_balances_def)
    have "well_kept cfg s'"
      by (rule fresh_well_kept [OF g]) (use bal rest v(2) ed in auto)
    then have "ready_to_mint cfg s'" using g assms(2) sy snd by (simp add: ready_to_mint_def)
    moreover have "funds_of cfg s' b = (if b \<in> set endowed then 2 ^ 60 else 0)" for b
      using bal [of b] rest [of b] v(1) by (simp add: funds_of_def free_balance_def)
    ultimately show ?thesis using ti by (simp add: issuance_def)
  qed
  ultimately show ?thesis by blast
qed


lemma empty_runtime_chain:
  defines "cfg \<equiv> runtime_balances ref_system ref_dust 0 0 :: ref_store bal_config"
  shows "good_balances cfg" "bal_ok cfg empty_chain" "\<forall>a. account_of cfg empty_chain a = default_account"
proof -
  have c: "sy cfg = ref_system" "ExistentialDeposit cfg = EXISTENTIAL_DEPOSIT" "DustRemoval cfg = ref_dust"
    by (simp_all add: runtime_balances_def cfg_def)
  have ed: "EXISTENTIAL_DEPOSIT \<noteq> 0" by (simp add: EXISTENTIAL_DEPOSIT_def MILLI_UNIT_def)
  show "good_balances cfg"
    using ref_good [OF ed] by (simp add: good_balances_def dust_law_def c)
  have empty: "account_of cfg empty_chain a = default_account" for a
    by (simp add: account_of_stored c empty_chain_def no_account_def)
  have none: "sys_consumers ref_system (sys empty_chain) a = 0" for a
    by (simp add: ref_system_def empty_chain_def no_account_def)
  show "bal_ok cfg empty_chain" "\<forall>a. account_of cfg empty_chain a = default_account"
    using ed by (auto simp: bal_ok_def refs_ok_def empty none c no_dust_def does_provide_def)
qed

theorem runtime_genesis_ready_witness:
  "\<exists>s'. balances_genesis_build (runtime_balances ref_system ref_dust 0 0) (genesis_balances [1, 2]) empty_chain = (Inr (), s') \<and>
    issuance s' = 2 * 2 ^ 60"
proof -
  let ?cfg = "runtime_balances ref_system ref_dust 0 0 :: ref_store bal_config"
  obtain r s' where b: "balances_genesis_build ?cfg (genesis_balances [1, 2]) empty_chain = (r, s')" by fastforce
  from runtime_genesis_ready [OF empty_runtime_chain(1) ref_put_total refl empty_runtime_chain(2,3) _ b] b show ?thesis by simp
qed

end
