(* ===== verification/Governance.thy ===== *)
theory Governance
  imports RuntimeConfig
begin

text \<open>
  The governance parts of the runtime (\<open>runtime/src/governance.rs\<close>): the deposit for preimages, which rests on
  the reserves of the balances pallet, the tracks of the two referenda pallets, and the origins that may act
  for the technical collective. The origins other pallets define are a parameter type; the membership of the
  collective is a parameter.
\<close>

section \<open>Deposits for preimages\<close>

record footprint =
  fp_count :: u64
  fp_size :: u64

record preimage_deposit =
  deposit_amount :: balance

definition deposit_for :: "footprint \<Rightarrow> balance" where
  "deposit_for fp =
     (let base = UNIT div 10; per_byte = MICRO_UNIT div 10;
          size = sat_add (ucast (fp_size fp)) (ucast (fp_count fp) :: u128)
      in sat_add base (sat_mul per_byte size))"

text \<open>The operations take \<open>Balances::reserve\<close> and \<open>Balances::unreserve\<close> as arguments.\<close>

definition preimage_new ::
    "(account \<Rightarrow> balance \<Rightarrow> ('s, dispatch_error, unit) comp) \<Rightarrow> account \<Rightarrow> footprint
      \<Rightarrow> ('s, dispatch_error, preimage_deposit) comp" where
  "preimage_new reserve_op who fp =
     (let amount = deposit_for fp
      in and_then (reserve_op who amount) (\<lambda>_. ret \<lparr> deposit_amount = amount \<rparr>))"

definition preimage_update ::
    "(account \<Rightarrow> balance \<Rightarrow> ('s, dispatch_error, unit) comp) \<Rightarrow> (account \<Rightarrow> balance \<Rightarrow> 's \<Rightarrow> balance \<times> 's)
      \<Rightarrow> preimage_deposit \<Rightarrow> account \<Rightarrow> footprint \<Rightarrow> ('s, dispatch_error, preimage_deposit) comp" where
  "preimage_update reserve_op unreserve_op d who fp s =
     (let new_amount = deposit_for fp;
          s1 = snd (unreserve_op who (deposit_amount d) s)
      in and_then (reserve_op who new_amount) (\<lambda>_. ret \<lparr> deposit_amount = new_amount \<rparr>) s1)"

definition preimage_drop ::
    "(account \<Rightarrow> balance \<Rightarrow> 's \<Rightarrow> balance \<times> 's) \<Rightarrow> preimage_deposit \<Rightarrow> account \<Rightarrow> ('s, dispatch_error, unit) comp" where
  "preimage_drop unreserve_op d who s = (Inr (), snd (unreserve_op who (deposit_amount d) s))"

section \<open>Tracks\<close>

text \<open>A linear decreasing curve with its percentages.\<close>

record curve =
  curve_length :: nat
  curve_floor :: nat
  curve_ceil :: nat

record track_info =
  track_name :: string
  max_deciding :: nat
  decision_deposit :: balance
  prepare_period :: block_number
  decision_period :: block_number
  confirm_period :: block_number
  min_enactment_period :: block_number
  min_approval :: curve
  min_support :: curve

definition community_tracks :: "(u16 \<times> track_info) list" where
  "community_tracks =
     [(0, \<lparr> track_name = ''signed'', max_deciding = 5, decision_deposit = 500 * UNIT, prepare_period = 12 * HOURS,
        decision_period = 7 * DAYS, confirm_period = 12 * HOURS, min_enactment_period = 1 * DAYS,
        min_approval = \<lparr> curve_length = 100, curve_floor = 55, curve_ceil = 70 \<rparr>,
        min_support = \<lparr> curve_length = 100, curve_floor = 5, curve_ceil = 25 \<rparr> \<rparr>),
      (1, \<lparr> track_name = ''signaling'', max_deciding = 20, decision_deposit = 100 * UNIT, prepare_period = 6 * HOURS,
        decision_period = 5 * DAYS, confirm_period = 3 * HOURS, min_enactment_period = 1,
        min_approval = \<lparr> curve_length = 100, curve_floor = 50, curve_ceil = 60 \<rparr>,
        min_support = \<lparr> curve_length = 100, curve_floor = 1, curve_ceil = 10 \<rparr> \<rparr>)]"

definition tech_tracks :: "(u16 \<times> track_info) list" where
  "tech_tracks =
     [(0, \<lparr> track_name = ''root'', max_deciding = 1, decision_deposit = 1000 * UNIT, prepare_period = 1 * DAYS,
        decision_period = 5 * DAYS, confirm_period = 2 * DAYS, min_enactment_period = 2 * DAYS,
        min_approval = \<lparr> curve_length = 100, curve_floor = 75, curve_ceil = 100 \<rparr>,
        min_support = \<lparr> curve_length = 0, curve_floor = 0, curve_ceil = 0 \<rparr> \<rparr>)]"

text \<open>The callers the runtime knows: those of the system pallet, and those \<open>'o\<close> of others.\<close>

datatype 'o caller = System_Origin origin | Pallet_Origin 'o

fun as_signed :: "'o caller \<Rightarrow> account option" where
  "as_signed (System_Origin (Signed who)) = Some who"
| "as_signed _ = None"

definition community_track_for :: "'o caller \<Rightarrow> u16 option" where
  "community_track_for o' =
     (if o' = System_Origin Unsigned then Some 1
      else if as_signed o' \<noteq> None then Some 0 else None)"

definition tech_track_for :: "'o caller \<Rightarrow> u16 option" where
  "tech_track_for o' =
     (if o' = System_Origin Root then Some 0
      else if o' = System_Origin Unsigned then Some 2
      else if as_signed o' \<noteq> None then Some 1 else None)"

definition info_of :: "(u16 \<times> track_info) list \<Rightarrow> u16 \<Rightarrow> track_info option" where
  "info_of tracks i = map_option snd (find (\<lambda>(track_id, _). track_id = i) tracks)"

definition check_integrity :: "(u16 \<times> track_info) list \<Rightarrow> string + unit" where
  "check_integrity tracks =
     (let track_ids = remdups_adj (sort (map fst tracks))
      in if length track_ids \<noteq> length tracks then Inl ''Duplicate track IDs found'' else Inr ())"

section \<open>Ranks and origins of the collective\<close>

definition min_rank_of_class :: "u16 \<Rightarrow> u16" where
  "min_rank_of_class track = 0"

definition global_max_members :: "u32 \<Rightarrow> u16 \<Rightarrow> u32 option" where
  "global_max_members max_val rank = Some max_val"

text \<open>A failed check gives the origin back.\<close>

definition collective_try_origin :: "(account \<Rightarrow> bool) \<Rightarrow> 'o caller \<Rightarrow> 'o caller + u16" where
  "collective_try_origin member o' =
     (if o' = System_Origin Root then Inr 0
      else case o' of
          System_Origin (Signed who) \<Rightarrow> if member who then Inr 0 else Inl o'
        | _ \<Rightarrow> Inl o')"

definition tech_referenda_try_origin :: "(account \<Rightarrow> bool) \<Rightarrow> 'o caller \<Rightarrow> 'o caller + account" where
  "tech_referenda_try_origin member o' =
     (if o' = System_Origin Root \<and> as_signed o' \<noteq> None then Inr (the (as_signed o'))
      else case o' of
          System_Origin (Signed who) \<Rightarrow> if member who then Inr who else Inl o'
        | _ \<Rightarrow> Inl o')"

section \<open>Deposits over any provider\<close>

text \<open>The updates of one deposit, each in its dispatchable; a failed one leaves everything as it was.\<close>

fun run_updates ::
    "(account \<Rightarrow> balance \<Rightarrow> ('s, dispatch_error, unit) comp) \<Rightarrow> (account \<Rightarrow> balance \<Rightarrow> 's \<Rightarrow> balance \<times> 's) \<Rightarrow> account
      \<Rightarrow> footprint list \<Rightarrow> preimage_deposit \<Rightarrow> 's \<Rightarrow> preimage_deposit \<times> 's" where
  "run_updates reserve_op unreserve_op who [] d s = (d, s)"
| "run_updates reserve_op unreserve_op who (fp # fps) d s =
     (case transactional (preimage_update reserve_op unreserve_op d who fp) s of
        (Inl _, s') \<Rightarrow> run_updates reserve_op unreserve_op who fps d s'
      | (Inr d', s') \<Rightarrow> run_updates reserve_op unreserve_op who fps d' s')"

lemma deposit_for_value: "unat (deposit_for fp) = 10 ^ 11 + 10 ^ 5 * (unat (fp_size fp) + unat (fp_count fp))"
proof -
  have "unat (fp_size fp) < 2 ^ 64" "unat (fp_count fp) < 2 ^ 64"
    using unat_lt_max [of "fp_size fp"] unat_lt_max [of "fp_count fp"] by simp_all
  moreover have "unat (ucast w :: u128) = unat w" for w :: u64
    using unat_lt_max [of w] by (simp add: unsigned_ucast_eq take_bit_nat_eq_self_iff)
  moreover have "unat (UNIT div 10) = 10 ^ 11" "unat (MICRO_UNIT div 10) = 10 ^ 5"
    by (simp_all add: UNIT_def MICRO_UNIT_def unat_div)
  ultimately show ?thesis
    by (simp add: deposit_for_def Let_def mach_nat)
qed

context reservable begin

lemma new_deposit:
  assumes "sound s" "transactional (preimage_new hold_back who fp) s = (Inr d, t)"
  shows "deposited who (deposit_amount d) s t \<and> deposit_amount d = deposit_for fp"
  using assms deposit_taken by (auto simp: transactional_Inr preimage_new_def Let_def and_then_Inr)

lemma updated_deposit:
  assumes "deposited who (deposit_amount d) s t" "least \<le> spendable s who + aside s who"
    and "transactional (preimage_update hold_back give_back d who fp) t = (r, t')"
  shows "case r of Inl _ \<Rightarrow> t' = t | Inr d' \<Rightarrow> deposited who (deposit_amount d') s t'"
proof (cases r)
  case (Inl e)
  then show ?thesis using assms(3) by (simp add: transactional_Inl)
next
  case (Inr d')
  then show ?thesis
    using assms(3) deposit_replaced [OF assms(1,2)]
    by (auto simp: transactional_Inr preimage_update_def Let_def and_then_Inr)
qed

lemma updates_deposit:
  assumes "deposited who (deposit_amount d) s t" "least \<le> spendable s who + aside s who"
    and "run_updates hold_back give_back who fps d t = (d', t')"
  shows "deposited who (deposit_amount d') s t'"
  using assms
proof (induction fps arbitrary: d t)
  case (Cons fp fps)
  obtain r t1 where r: "transactional (preimage_update hold_back give_back d who fp) t = (r, t1)" by fastforce
  from updated_deposit [OF Cons.prems(1,2) r] Cons.IH Cons.prems(2,3) Cons.prems(1) r
  show ?case by (cases r) auto
qed simp

lemma dropped_deposit:
  assumes "deposited who (deposit_amount d) s t" "least \<le> spendable s who + aside s who"
  shows "\<exists>t'. preimage_drop give_back d who t = (Inr (), t') \<and> aside t' = aside s \<and> spendable t' = spendable s"
  using deposit_returned [OF assms] by (auto simp: preimage_drop_def)

end

section \<open>Properties\<close>


text \<open>Two accounts that can pay for a preimage.\<close>

definition two_rich :: "ref_store bal_state" where
  "two_rich = two_accounts (funded (500 * UNIT) 20 1) (funded 50 0 0)"

lemma two_rich_ready: "ready_to_mint (ref_config 10) two_rich"
proof -
  have "well_kept (ref_config 10) two_rich"
    by (simp add: well_kept_def two_rich_def two_accounts_def funded_def no_account_def is_new_logic_def
        does_consume_def default_account_def IS_NEW_LOGIC_def ref_system_def UNIT_def)
  moreover have "sound_balances (ref_config 10) two_rich"
    unfolding two_rich_def by (rule two_funded_sound) (simp_all add: UNIT_def)
  ultimately show ?thesis using ref_good [of 10] ref_put_total by (simp add: ready_to_mint_def)
qed

definition small_footprint :: footprint where
  "small_footprint = \<lparr> fp_count = 1, fp_size = 99 \<rparr>"

lemma two_rich_new:
  "\<exists>d t. transactional (preimage_new (reserve (ref_config 10)) 1 small_footprint) two_rich = (Inr d, t)"
proof -
  have "deposit_for small_footprint = 100010000000"
    by (simp add: word_unat_eq_iff deposit_for_value small_footprint_def)
  then have "\<exists>t. reserve (ref_config 10) 1 (deposit_for small_footprint) two_rich = (Inr (), t)"
    by (simp add: ref_eval reserve_def reserve_closure_def ensure_can_withdraw_def checked_sub_def checked_add_def
        two_rich_def two_accounts_def funded_def UNIT_def no_account_def)
  then show ?thesis by (auto simp: transactional_Inr preimage_new_def Let_def and_then_Inr)
qed


text \<open>Who may do what in the technical collective. Only a member can submit to its referenda, never root; members and
  root manage the collective, with rank zero. The community's tracks cover every origin they accept, and both lists of
  tracks pass their integrity check; but of the tracks the technical referenda name for an origin only the one of root
  exists: a signed proposal goes to track one and one without an origin to track two, which have no information.\<close>

theorem governance_origins:
  shows "(tech_referenda_try_origin member o' = Inr who \<longleftrightarrow> o' = System_Origin (Signed who) \<and> member who) \<and>
    (\<forall>r. collective_try_origin member o' = Inr r \<longleftrightarrow>
       r = 0 \<and> (o' = System_Origin Root \<or> (\<exists>w. o' = System_Origin (Signed w) \<and> member w))) \<and>
    (\<forall>i. community_track_for o' = Some i \<longrightarrow> info_of community_tracks i \<noteq> None) \<and>
    (\<forall>i. tech_track_for o' = Some i \<longrightarrow> (info_of tech_tracks i \<noteq> None \<longleftrightarrow> o' = System_Origin Root)) \<and>
    check_integrity community_tracks = Inr () \<and> check_integrity tech_tracks = Inr ()"
proof -
  have "community_track_for o' = Some i \<Longrightarrow> info_of community_tracks i \<noteq> None" for i
    by (auto simp: community_track_for_def info_of_def community_tracks_def split: if_splits)
  moreover have "tech_track_for o' = Some i \<Longrightarrow> info_of tech_tracks i \<noteq> None \<longleftrightarrow> o' = System_Origin Root" for i
    by (auto simp: tech_track_for_def info_of_def tech_tracks_def split: if_splits)
  moreover have "check_integrity community_tracks = Inr ()" "check_integrity tech_tracks = Inr ()"
    by (simp_all add: check_integrity_def community_tracks_def tech_tracks_def)
  ultimately show ?thesis
    by (cases o'; cases "as_signed o'")
       (auto simp: tech_referenda_try_origin_def collective_try_origin_def split: origin.splits caller.splits)
qed


theorem governance_origins_witness:
  "info_of community_tracks 0 \<noteq> None \<and> tech_track_for (System_Origin (Signed 1) :: unit caller) = Some 1 \<and>
    info_of tech_tracks 1 = None"
proof -
  have "community_track_for (System_Origin (Signed 1) :: unit caller) = Some 0"
    "tech_track_for (System_Origin (Signed 1) :: unit caller) = Some 1"
    by (simp_all add: community_track_for_def tech_track_for_def)
  then show ?thesis using governance_origins [of "\<lambda>_. True" "System_Origin (Signed 1) :: unit caller"] by auto
qed

end
