(* ===== verification/PowClient.thy ===== *)
theory PowClient
  imports HeaviestChain Frame
begin

text \<open>
  The proof-of-work client (\<open>client/consensus/pow/src/lib.rs\<close> and \<open>worker.rs\<close>): the verifier that takes the
  seal off a header, the block import that checks it and decides the fork choice by total difficulty,
  and the mining worker with the build it hands out and takes back. The database, the select chain, the
  inherents, the inner import, the header hash and the proposer are parameters, functions of a state \<open>'x\<close>;
  the algorithm is a record, with the QPoW algorithm of \<open>HeaviestChain\<close> as its instance.
\<close>

section \<open>Blocks and errors\<close>

record 'h pow_header =
  h_parent :: hash256
  h_number :: u32
  h_logs :: "digest_item list"
  h_rest :: 'h

datatype pow_client_error =
  WrongEngine bytes
| HeaderUnsealed hash256
| InvalidSeal
| FailedPreliminaryVerify
| CreateInherents string
| CheckInherents string
| CheckInherentsUnknownError bytes
| MultiplePreRuntimeDigests
| Pow_Client string
| Pow_Codec
| Algorithm_Error pow_error
| ChainLookup string
| InherentProviders string
| NoIntermediate
| Inner_Import string

datatype state_action = ApplyChanges | Execute | ExecuteIfPossible | Skip

datatype fork_choice = LongestChain | Custom bool

record 'd pow_aux =
  aux_difficulty :: 'd
  aux_total :: 'd

record ('h, 'd, 'b) block_params =
  bp_header :: "'h pow_header"
  bp_body :: "'b option"
  bp_post_digests :: "digest_item list"
  bp_intermediate :: "'d option option"
  bp_fork_choice :: "fork_choice option"
  bp_auxiliary :: "(bytes \<times> bytes option) list"
  bp_post_hash :: "hash256 option"
  bp_state_action :: state_action

record ('x, 'd) pow_algorithm =
  alg_difficulty :: "'x \<Rightarrow> hash256 \<Rightarrow> pow_error + 'd"
  alg_preliminary_verify :: "'x \<Rightarrow> hash256 \<Rightarrow> bytes \<Rightarrow> pow_error + bool option"
  alg_break_tie :: "bytes \<Rightarrow> bytes \<Rightarrow> bool"
  alg_verify :: "'x \<Rightarrow> block_id \<Rightarrow> hash256 \<Rightarrow> bytes option \<Rightarrow> bytes \<Rightarrow> 'd \<Rightarrow> pow_error + bool"

text \<open>The QPoW algorithm overrides only the difficulty and the verification.\<close>

definition qpow_algorithm :: "'x client_ops \<Rightarrow> ('x, u512) pow_algorithm" where
  "qpow_algorithm cl = \<lparr> alg_difficulty = algorithm_difficulty cl, alg_preliminary_verify = (\<lambda>_ _ _. Inr None),
     alg_break_tie = (\<lambda>_ _. False), alg_verify = algorithm_verify cl \<rparr>"

record ('x, 'h, 'd, 'b, 'i, 'n) import_ops =
  pow_engine :: bytes
  check_inherents_after :: u32
  skip_execution_checks :: "state_action \<Rightarrow> bool"
  hash_header :: "'h pow_header \<Rightarrow> hash256"
  best_chain_header :: "'x \<Rightarrow> string + 'h pow_header"
  get_aux :: "'x \<Rightarrow> bytes \<Rightarrow> string + bytes option"
  encode_aux :: "'d pow_aux \<Rightarrow> bytes"
  decode_aux :: "bytes \<Rightarrow> 'd pow_aux option"
  default_aux :: "'d pow_aux"
  increment :: "'d \<Rightarrow> 'd \<Rightarrow> 'd"
  inherent_providers :: "'x \<Rightarrow> hash256 \<Rightarrow> string + 'i"
  inherent_data :: "'i \<Rightarrow> string + 'n"
  runtime_check_inherents :: "'x \<Rightarrow> hash256 \<Rightarrow> 'h pow_header \<Rightarrow> 'b \<Rightarrow> 'n \<Rightarrow> string + bool \<times> (bytes \<times> bytes) list"
  try_handle_error :: "'i \<Rightarrow> bytes \<Rightarrow> bytes \<Rightarrow> (string + unit) option"
  inner_import :: "('h, 'd, 'b) block_params \<Rightarrow> ('x, string, unit) comp"

type_synonym ('x, 'a) imp = "('x, pow_client_error, 'a) comp"

section \<open>Auxiliary data, seals and digests\<close>

definition map_err :: "('e \<Rightarrow> 'f) \<Rightarrow> 'e + 'a \<Rightarrow> 'f + 'a" where
  "map_err f r = (case r of Inl e \<Rightarrow> Inl (f e) | Inr y \<Rightarrow> Inr y)"

definition POW_AUX_PREFIX :: bytes where
  "POW_AUX_PREFIX = [80, 111, 87, 58]"

definition pow_aux_key :: "hash256 \<Rightarrow> bytes" where
  "pow_aux_key h = POW_AUX_PREFIX @ to_be 32 h"

definition read_aux :: "('x, 'h, 'd, 'b, 'i, 'n) import_ops \<Rightarrow> 'x \<Rightarrow> hash256 \<Rightarrow> pow_client_error + 'd pow_aux" where
  "read_aux ops x h =
     (case get_aux ops x (pow_aux_key h) of
        Inl e \<Rightarrow> Inl (Pow_Client e)
      | Inr None \<Rightarrow> Inr (default_aux ops)
      | Inr (Some bytes) \<Rightarrow> (case decode_aux ops bytes of None \<Rightarrow> Inl Pow_Codec | Some a \<Rightarrow> Inr a))"

fun find_pre_digest :: "bytes \<Rightarrow> digest_item list \<Rightarrow> bytes option \<Rightarrow> pow_client_error + bytes option" where
  "find_pre_digest engine [] pre_digest = Inr pre_digest"
| "find_pre_digest engine (PreRuntime i v # logs) pre_digest =
     (if i = engine
      then (if pre_digest \<noteq> None then Inl MultiplePreRuntimeDigests else find_pre_digest engine logs (Some v))
      else find_pre_digest engine logs pre_digest)"
| "find_pre_digest engine (_ # logs) pre_digest = find_pre_digest engine logs pre_digest"

definition last_item :: "digest_item list \<Rightarrow> digest_item option" where
  "last_item l = (if l = [] then None else Some (last l))"

definition fetch_seal :: "bytes \<Rightarrow> digest_item option \<Rightarrow> hash256 \<Rightarrow> pow_client_error + bytes" where
  "fetch_seal engine digest h =
     (case digest of
        Some (Digest_Seal i seal) \<Rightarrow> if i = engine then Inr seal else Inl (WrongEngine i)
      | _ \<Rightarrow> Inl (HeaderUnsealed h))"

text \<open>\<open>BlockImportParams::post_header\<close> and \<open>post_hash\<close>: the header with the post digests put back.\<close>

definition post_header :: "('h, 'd, 'b) block_params \<Rightarrow> 'h pow_header" where
  "post_header b = (bp_header b)\<lparr> h_logs := h_logs (bp_header b) @ bp_post_digests b \<rparr>"

definition post_hash_of :: "('x, 'h, 'd, 'b, 'i, 'n) import_ops \<Rightarrow> ('h, 'd, 'b) block_params \<Rightarrow> hash256" where
  "post_hash_of ops b = (case bp_post_hash b of Some h \<Rightarrow> h | None \<Rightarrow> hash_header ops (post_header b))"

section \<open>The verifier\<close>

definition check_header ::
    "('x, 'h, 'd, 'b, 'i, 'n) import_ops \<Rightarrow> ('x, 'd) pow_algorithm \<Rightarrow> 'x \<Rightarrow> 'h pow_header
      \<Rightarrow> pow_client_error + 'h pow_header \<times> digest_item" where
  "check_header ops alg x header =
     (case last_item (h_logs header) of
        Some (Digest_Seal i inner_seal) \<Rightarrow>
          if i = pow_engine ops
          then let header' = header\<lparr> h_logs := butlast (h_logs header) \<rparr>; pre_hash = hash_header ops header'
               in (case alg_preliminary_verify alg x pre_hash inner_seal of
                     Inl e \<Rightarrow> Inl (Algorithm_Error e)
                   | Inr r \<Rightarrow> if (case r of None \<Rightarrow> True | Some b \<Rightarrow> b)
                       then Inr (header', Digest_Seal i inner_seal) else Inl FailedPreliminaryVerify)
          else Inl (WrongEngine i)
      | _ \<Rightarrow> Inl (HeaderUnsealed (hash_header ops header)))"

definition verify_block ::
    "('x, 'h, 'd, 'b, 'i, 'n) import_ops \<Rightarrow> ('x, 'd) pow_algorithm \<Rightarrow> 'x \<Rightarrow> ('h, 'd, 'b) block_params
      \<Rightarrow> pow_client_error + ('h, 'd, 'b) block_params" where
  "verify_block ops alg x block =
     (case check_header ops alg x (bp_header block) of
        Inl e \<Rightarrow> Inl e
      | Inr (checked_header, seal) \<Rightarrow>
          Inr (block\<lparr> bp_header := checked_header, bp_post_digests := bp_post_digests block @ [seal],
            bp_intermediate := Some None, bp_post_hash := Some (hash_header ops (bp_header block)) \<rparr>))"

section \<open>The block import\<close>

fun handle_inherent_errors ::
    "('x, 'h, 'd, 'b, 'i, 'n) import_ops \<Rightarrow> 'i \<Rightarrow> (bytes \<times> bytes) list \<Rightarrow> pow_client_error + unit" where
  "handle_inherent_errors ops providers [] = Inr ()"
| "handle_inherent_errors ops providers ((identifier, err) # rest) =
     (case try_handle_error ops providers identifier err of
        None \<Rightarrow> Inl (CheckInherentsUnknownError identifier)
      | Some (Inl e) \<Rightarrow> Inl (CheckInherents e)
      | Some (Inr _) \<Rightarrow> handle_inherent_errors ops providers rest)"

definition check_inherents ::
    "('x, 'h, 'd, 'b, 'i, 'n) import_ops \<Rightarrow> 'x \<Rightarrow> 'h pow_header \<Rightarrow> 'b \<Rightarrow> hash256 \<Rightarrow> 'i \<Rightarrow> pow_client_error + unit" where
  "check_inherents ops x header body at_hash providers =
     (if h_number header < check_inherents_after ops then Inr ()
      else case inherent_data ops providers of
          Inl e \<Rightarrow> Inl (CreateInherents e)
        | Inr dat \<Rightarrow>
            (case runtime_check_inherents ops x at_hash header body dat of
               Inl e \<Rightarrow> Inl (Pow_Client e)
             | Inr (ok, errors) \<Rightarrow> if ok then Inr () else handle_inherent_errors ops providers errors))"

definition inherents_step ::
    "('x, 'h, 'd, 'b, 'i, 'n) import_ops \<Rightarrow> 'x \<Rightarrow> ('h, 'd, 'b) block_params \<Rightarrow> pow_client_error + unit" where
  "inherents_step ops x block =
     (case bp_body block of
        None \<Rightarrow> Inr ()
      | Some body \<Rightarrow>
          if skip_execution_checks ops (bp_state_action block) then Inr ()
          else case inherent_providers ops x (h_parent (bp_header block)) of
              Inl e \<Rightarrow> Inl (InherentProviders e)
            | Inr providers \<Rightarrow>
                check_inherents ops x (bp_header block) body (h_parent (bp_header block)) providers)"

text \<open>Is the new block the best one: by total difficulty, and by the algorithm between equals.\<close>

definition is_new_best ::
    "('x, 'h, 'd::linorder, 'b, 'i, 'n) import_ops \<Rightarrow> ('x, 'd) pow_algorithm \<Rightarrow> 'h pow_header \<Rightarrow> 'd \<Rightarrow> 'd \<Rightarrow> bytes
      \<Rightarrow> pow_client_error + bool" where
  "is_new_best ops alg best_header new_total best_total inner_seal =
     (if new_total < best_total then Inr False
      else if best_total < new_total then Inr True
      else case fetch_seal (pow_engine ops) (last_item (h_logs best_header)) (hash_header ops best_header) of
          Inl e \<Rightarrow> Inl e
        | Inr best_inner_seal \<Rightarrow> Inr (alg_break_tie alg best_inner_seal inner_seal))"

definition choose_fork ::
    "('x, 'h, 'd::linorder, 'b, 'i, 'n) import_ops \<Rightarrow> ('x, 'd) pow_algorithm \<Rightarrow> fork_choice option \<Rightarrow> 'h pow_header
      \<Rightarrow> 'd \<Rightarrow> 'd \<Rightarrow> bytes \<Rightarrow> pow_client_error + fork_choice" where
  "choose_fork ops alg given best_header new_total best_total inner_seal =
     (case given of
        Some c \<Rightarrow> Inr c
      | None \<Rightarrow> (case is_new_best ops alg best_header new_total best_total inner_seal of
          Inl e \<Rightarrow> Inl e | Inr b \<Rightarrow> Inr (Custom b)))"

definition import_block ::
    "('x, 'h, 'd::linorder, 'b, 'i, 'n) import_ops \<Rightarrow> ('x, 'd) pow_algorithm \<Rightarrow> ('h, 'd, 'b) block_params
      \<Rightarrow> ('x, unit) imp" where
  "import_block ops alg block x =
     (let header = bp_header block; parent_hash = h_parent header
      in and_then (lift_res (map_err ChainLookup (best_chain_header ops x))) (\<lambda>best_header.
         and_then (lift_res (read_aux ops x (hash_header ops best_header))) (\<lambda>best_aux.
         and_then (lift_res (read_aux ops x parent_hash)) (\<lambda>aux.
         and_then (lift_res (inherents_step ops x block)) (\<lambda>_.
         and_then (lift_res (fetch_seal (pow_engine ops) (last_item (bp_post_digests block)) (hash_header ops header)))
           (\<lambda>inner_seal.
         and_then (lift_res (case bp_intermediate block of None \<Rightarrow> Inl NoIntermediate | Some i \<Rightarrow> Inr i)) (\<lambda>intermediate.
         and_then (lift_res (case intermediate of
             Some d \<Rightarrow> Inr d | None \<Rightarrow> map_err Algorithm_Error (alg_difficulty alg x parent_hash))) (\<lambda>difficulty.
         and_then (lift_res (find_pre_digest (pow_engine ops) (h_logs header) None)) (\<lambda>pre_digest.
         and_then (lift_res (map_err Algorithm_Error (alg_verify alg x (BlockId_Hash parent_hash)
             (hash_header ops header) pre_digest inner_seal difficulty))) (\<lambda>valid.
         and_then (ensure valid InvalidSeal) (\<lambda>_.
           let aux' = \<lparr> aux_difficulty = difficulty, aux_total = increment ops (aux_total aux) difficulty \<rparr>;
               block' = block\<lparr> bp_intermediate := None,
                 bp_auxiliary := bp_auxiliary block @ [(pow_aux_key (post_hash_of ops block), Some (encode_aux ops aux'))] \<rparr>
           in and_then (lift_res (choose_fork ops alg (bp_fork_choice block) best_header (aux_total aux')
                  (aux_total best_aux) inner_seal)) (\<lambda>choice x.
              case inner_import ops (block'\<lparr> bp_fork_choice := Some choice \<rparr>) x of
                (r, x') \<Rightarrow> (map_err Inner_Import r, x')))))))))))) x)"

section \<open>The mining worker\<close>

record ('h, 'd) mining_metadata =
  best_hash :: hash256
  pre_hash :: hash256
  pre_runtime :: "bytes option"
  md_difficulty :: 'd

record ('h, 'd, 'b) mining_build =
  build_metadata :: "('h, 'd) mining_metadata"
  build_header :: "'h pow_header"
  build_body :: 'b

record ('h, 'd, 'b) mining_handle =
  handle_version :: u64
  handle_build :: "('h, 'd, 'b) mining_build option"

definition new_handle :: "('h, 'd, 'b) mining_handle" where
  "new_handle = \<lparr> handle_version = 0, handle_build = None \<rparr>"

definition increment_version :: "('h, 'd, 'b) mining_handle \<Rightarrow> ('h, 'd, 'b) mining_handle" where
  "increment_version w = w\<lparr> handle_version := handle_version w + 1 \<rparr>"

definition on_major_syncing :: "('h, 'd, 'b) mining_handle \<Rightarrow> ('h, 'd, 'b) mining_handle" where
  "on_major_syncing w = increment_version (w\<lparr> handle_build := None \<rparr>)"

definition on_build :: "('h, 'd, 'b) mining_build \<Rightarrow> ('h, 'd, 'b) mining_handle \<Rightarrow> ('h, 'd, 'b) mining_handle" where
  "on_build b w = increment_version (w\<lparr> handle_build := Some b \<rparr>)"

definition handle_best_hash :: "('h, 'd, 'b) mining_handle \<Rightarrow> hash256 option" where
  "handle_best_hash w = map_option (\<lambda>b. best_hash (build_metadata b)) (handle_build w)"

definition handle_metadata :: "('h, 'd, 'b) mining_handle \<Rightarrow> ('h, 'd) mining_metadata option" where
  "handle_metadata w = map_option build_metadata (handle_build w)"

text \<open>\<open>submit\<close> checks the seal against the metadata it reads, and takes the build in a second locked
  section; other tasks may run in between.\<close>

definition submit_check :: "('x, 'd) pow_algorithm \<Rightarrow> 'x \<Rightarrow> bytes \<Rightarrow> ('h, 'd, 'b) mining_handle \<Rightarrow> bool" where
  "submit_check alg x seal w =
     (case handle_metadata w of
        None \<Rightarrow> False
      | Some m \<Rightarrow>
          (case alg_verify alg x (BlockId_Hash (best_hash m)) (pre_hash m) (pre_runtime m) seal (md_difficulty m) of
             Inr True \<Rightarrow> True | _ \<Rightarrow> False))"

definition take_build :: "('h, 'd, 'b) mining_handle \<Rightarrow> ('h, 'd, 'b) mining_build option \<times> ('h, 'd, 'b) mining_handle" where
  "take_build w =
     (case handle_build w of
        None \<Rightarrow> (None, w)
      | Some b \<Rightarrow> (Some b, increment_version (w\<lparr> handle_build := None \<rparr>)))"

definition mined_block :: "('x, 'h, 'd, 'b, 'i, 'n) import_ops \<Rightarrow> ('h, 'd, 'b) mining_build \<Rightarrow> bytes \<Rightarrow> ('h, 'd, 'b) block_params" where
  "mined_block ops b seal =
     \<lparr> bp_header = build_header b, bp_body = Some (build_body b), bp_post_digests = [Digest_Seal (pow_engine ops) seal],
       bp_intermediate = Some (Some (md_difficulty (build_metadata b))), bp_fork_choice = None, bp_auxiliary = [],
       bp_post_hash = None, bp_state_action = ApplyChanges \<rparr>"

definition submit_import ::
    "('x, 'h, 'd::linorder, 'b, 'i, 'n) import_ops \<Rightarrow> ('x, 'd) pow_algorithm \<Rightarrow> bytes \<Rightarrow> ('h, 'd, 'b) mining_handle
      \<Rightarrow> 'x \<Rightarrow> bool \<times> ('h, 'd, 'b) mining_handle \<times> 'x" where
  "submit_import ops alg seal w x =
     (case take_build w of
        (None, w') \<Rightarrow> (False, w', x)
      | (Some b, w') \<Rightarrow>
          (case import_block ops alg (mined_block ops b seal) x of
             (Inr _, x') \<Rightarrow> (True, w', x')
           | (Inl _, x') \<Rightarrow> (False, w', x')))"

definition submit ::
    "('x, 'h, 'd::linorder, 'b, 'i, 'n) import_ops \<Rightarrow> ('x, 'd) pow_algorithm \<Rightarrow> bytes \<Rightarrow> ('h, 'd, 'b) mining_handle
      \<Rightarrow> 'x \<Rightarrow> bool \<times> ('h, 'd, 'b) mining_handle \<times> 'x" where
  "submit ops alg seal w x =
     (if submit_check alg x seal w then submit_import ops alg seal w x else (False, w, x))"

section \<open>The proposing task\<close>

text \<open>What one round asks of its surroundings, with an error where a warning and the next round follow.\<close>

record ('x, 'h, 'd, 'b, 'i, 'n, 'p) propose_ops =
  is_major_syncing :: "'x \<Rightarrow> bool"
  pr_best_chain :: "'x \<Rightarrow> string + 'h pow_header"
  pr_providers :: "'x \<Rightarrow> hash256 \<Rightarrow> string + 'i"
  pr_inherent_data :: "'i \<Rightarrow> string + 'n"
  init_proposer :: "'x \<Rightarrow> 'h pow_header \<Rightarrow> string + 'p"
  propose :: "'p \<Rightarrow> 'n \<Rightarrow> digest_item list \<Rightarrow> string + 'h pow_header \<times> 'b"

definition propose_build ::
    "('x, 'h, 'd, 'b, 'i, 'n, 'p) propose_ops \<Rightarrow> ('x, 'h, 'd, 'b, 'i, 'n) import_ops \<Rightarrow> ('x, 'd) pow_algorithm
      \<Rightarrow> bytes option \<Rightarrow> 'x \<Rightarrow> 'h pow_header \<Rightarrow> ('h, 'd, 'b) mining_build option" where
  "propose_build pr ops alg pre x best_header =
     (let best = hash_header ops best_header
      in case alg_difficulty alg x best of Inl _ \<Rightarrow> None | Inr difficulty \<Rightarrow>
         (case pr_providers pr x best of Inl _ \<Rightarrow> None | Inr providers \<Rightarrow>
         (case pr_inherent_data pr providers of Inl _ \<Rightarrow> None | Inr dat \<Rightarrow>
           let inherent_digest = (case pre of None \<Rightarrow> [] | Some v \<Rightarrow> [PreRuntime (pow_engine ops) v])
           in (case init_proposer pr x best_header of Inl _ \<Rightarrow> None | Inr proposer \<Rightarrow>
              (case propose pr proposer dat inherent_digest of Inl _ \<Rightarrow> None | Inr (header, body) \<Rightarrow>
                Some \<lparr> build_metadata = \<lparr> best_hash = best, pre_hash = hash_header ops header, pre_runtime = pre,
                         md_difficulty = difficulty \<rparr>,
                       build_header = header, build_body = body \<rparr>)))))"

definition mining_round ::
    "('x, 'h, 'd, 'b, 'i, 'n, 'p) propose_ops \<Rightarrow> ('x, 'h, 'd, 'b, 'i, 'n) import_ops \<Rightarrow> ('x, 'd) pow_algorithm
      \<Rightarrow> bytes option \<Rightarrow> 'x \<Rightarrow> ('h, 'd, 'b) mining_handle \<Rightarrow> ('h, 'd, 'b) mining_handle" where
  "mining_round pr ops alg pre x w =
     (if is_major_syncing pr x then on_major_syncing w
      else case pr_best_chain pr x of
          Inl _ \<Rightarrow> w
        | Inr best_header \<Rightarrow>
            if handle_best_hash w = Some (hash_header ops best_header) then w
            else (case propose_build pr ops alg pre x best_header of None \<Rightarrow> w | Some b \<Rightarrow> on_build b w))"

section \<open>The timer\<close>

text \<open>\<open>UntilImportedOrTimeout\<close>: the notifications that are there are drained; the delay counts from
  the first poll after it fired.\<close>

datatype poll = Pending | Ready_None | Ready_Fire

record import_timer =
  timer_pending :: nat
  timer_closed :: bool
  timer_delay :: "nat option"

text \<open>The result of draining: \<open>None\<close> when the stream has ended, else whether something was there.\<close>

fun drain_notifications :: "nat \<Rightarrow> bool \<Rightarrow> bool \<Rightarrow> bool option" where
  "drain_notifications 0 closed fire = (if closed then None else Some fire)"
| "drain_notifications (Suc n) closed fire = drain_notifications n closed True"

definition poll_next :: "nat \<Rightarrow> nat \<Rightarrow> import_timer \<Rightarrow> poll \<times> import_timer" where
  "poll_next now timeout t =
     (case drain_notifications (timer_pending t) (timer_closed t) False of
        None \<Rightarrow> (Ready_None, t\<lparr> timer_pending := 0 \<rparr>)
      | Some imported \<Rightarrow>
          let deadline = (case timer_delay t of Some d \<Rightarrow> d | None \<Rightarrow> now + timeout);
              fire = (imported \<or> deadline \<le> now)
          in if fire then (Ready_Fire, t\<lparr> timer_pending := 0, timer_delay := None \<rparr>)
             else (Pending, t\<lparr> timer_pending := 0, timer_delay := Some deadline \<rparr>))"

end
