(* ===== verification/PowClientLaw.thy ===== *)
theory PowClientLaw
  imports PowClient
begin

text \<open>
  The properties of the proof-of-work client: what a block that was verified and imported carries, that
  the version of the mining handle certifies its build, and what a seal that comes late does.
\<close>

section \<open>What an import has checked\<close>

lemma map_err_Inr [simp]: "map_err f r = Inr y \<longleftrightarrow> r = Inr y"
  by (simp add: map_err_def split: sum.splits)

lemma last_item_Some: "last_item l = Some i \<longleftrightarrow> l = butlast l @ [i]"
  by (metis append_butlast_last_id last_item_def last_snoc option.distinct(1) option.inject snoc_eq_iff_butlast)

lemma fetch_seal_Inr: "fetch_seal engine d h = Inr seal \<longleftrightarrow> d = Some (Digest_Seal engine seal)"
  by (auto simp: fetch_seal_def split: option.splits digest_item.splits if_splits)

definition engine_items :: "bytes \<Rightarrow> digest_item list \<Rightarrow> bytes list" where
  "engine_items engine logs = concat (map (\<lambda>i. case i of PreRuntime e v \<Rightarrow> if e = engine then [v] else [] | _ \<Rightarrow> []) logs)"

lemma find_pre_digest_result:
  "find_pre_digest engine logs pre =
     (case (case pre of None \<Rightarrow> [] | Some v \<Rightarrow> [v]) @ engine_items engine logs of
        [] \<Rightarrow> Inr None | [v] \<Rightarrow> Inr (Some v) | _ \<Rightarrow> Inl MultiplePreRuntimeDigests)"
  by (induction engine logs pre rule: find_pre_digest.induct)
    (auto simp: engine_items_def split: option.splits list.splits)

lemma case_prod_Inr: "(case m of (r, x') \<Rightarrow> (map_err f r, x')) = (Inr y, x'') \<longleftrightarrow> m = (Inr y, x'')"
  by (auto split: prod.splits)

lemma some_or_error: "(case m of None \<Rightarrow> Inl e | Some x \<Rightarrow> Inr x) = Inr y \<longleftrightarrow> m = Some y"
  by (simp split: option.splits)

lemma import_block_effect:
  assumes "import_block ops alg block x = (Inr u, x')"
  obtains best best_aux aux seal d pre choice intermediate where
    "best_chain_header ops x = Inr best" "read_aux ops x (hash_header ops best) = Inr best_aux"
    "read_aux ops x (h_parent (bp_header block)) = Inr aux"
    "last_item (bp_post_digests block) = Some (Digest_Seal (pow_engine ops) seal)"
    "bp_intermediate block = Some intermediate"
    "case intermediate of Some d' \<Rightarrow> d' = d | None \<Rightarrow> alg_difficulty alg x (h_parent (bp_header block)) = Inr d"
    "find_pre_digest (pow_engine ops) (h_logs (bp_header block)) None = Inr pre"
    "alg_verify alg x (BlockId_Hash (h_parent (bp_header block))) (hash_header ops (bp_header block)) pre seal d = Inr True"
    "choose_fork ops alg (bp_fork_choice block) best (increment ops (aux_total aux) d) (aux_total best_aux) seal = Inr choice"
    "inner_import ops (block\<lparr> bp_intermediate := None, bp_auxiliary := bp_auxiliary block @
        [(pow_aux_key (post_hash_of ops block),
          Some (encode_aux ops \<lparr> aux_difficulty = d, aux_total = increment ops (aux_total aux) d \<rparr>))],
        bp_fork_choice := Some choice \<rparr>) x = (Inr (), x')"
    "inherents_step ops x block = Inr ()"
proof -
  obtain best best_aux aux seal d pre choice intermediate where
    s: "best_chain_header ops x = Inr best" "read_aux ops x (hash_header ops best) = Inr best_aux"
      "read_aux ops x (h_parent (bp_header block)) = Inr aux" "inherents_step ops x block = Inr ()"
      "fetch_seal (pow_engine ops) (last_item (bp_post_digests block)) (hash_header ops (bp_header block)) = Inr seal"
      "bp_intermediate block = Some intermediate"
      "(case intermediate of Some d \<Rightarrow> Inr d | None \<Rightarrow> map_err Algorithm_Error (alg_difficulty alg x (h_parent (bp_header block)))) = Inr d"
      "find_pre_digest (pow_engine ops) (h_logs (bp_header block)) None = Inr pre"
      "alg_verify alg x (BlockId_Hash (h_parent (bp_header block))) (hash_header ops (bp_header block)) pre seal d = Inr True"
      "choose_fork ops alg (bp_fork_choice block) best (increment ops (aux_total aux) d) (aux_total best_aux) seal = Inr choice"
      "inner_import ops (block\<lparr> bp_intermediate := None, bp_auxiliary := bp_auxiliary block @
        [(pow_aux_key (post_hash_of ops block),
          Some (encode_aux ops \<lparr> aux_difficulty = d, aux_total = increment ops (aux_total aux) d \<rparr>))],
        bp_fork_choice := Some choice \<rparr>) x = (Inr (), x')"
    using assms unfolding import_block_def Let_def
    by (clarsimp simp: and_then_Inr ensure_Inr case_prod_Inr some_or_error simp del: split_paired_Ex)
  show ?thesis
    using s(5,7,10)
    by (intro that [OF s(1-3) _ s(6) _ s(8,9) _ s(11,4)])
      (auto simp: fetch_seal_Inr split: option.splits sum.splits)
qed

lemma verify_block_effect:
  assumes "verify_block ops alg x block = Inr block'"
  obtains logs seal where "h_logs (bp_header block) = logs @ [Digest_Seal (pow_engine ops) seal]"
    "block' = block\<lparr> bp_header := (bp_header block)\<lparr> h_logs := logs \<rparr>,
       bp_post_digests := bp_post_digests block @ [Digest_Seal (pow_engine ops) seal],
       bp_intermediate := Some None, bp_post_hash := Some (hash_header ops (bp_header block)) \<rparr>"
proof -
  obtain seal where s: "last_item (h_logs (bp_header block)) = Some (Digest_Seal (pow_engine ops) seal)"
    "block' = block\<lparr> bp_header := (bp_header block)\<lparr> h_logs := butlast (h_logs (bp_header block)) \<rparr>,
       bp_post_digests := bp_post_digests block @ [Digest_Seal (pow_engine ops) seal],
       bp_intermediate := Some None, bp_post_hash := Some (hash_header ops (bp_header block)) \<rparr>"
    using assms by (auto simp: verify_block_def check_header_def Let_def
        split: option.splits digest_item.splits if_splits sum.splits prod.splits)
  show ?thesis by (rule that [OF _ s(2)]) (use s(1) in \<open>simp only: last_item_Some\<close>)
qed

section \<open>The mining handle\<close>

datatype ('h, 'd, 'b) handle_op = Op_Sync | Op_Build "('h, 'd, 'b) mining_build" | Op_Take

fun run_handle :: "('h, 'd, 'b) handle_op list \<Rightarrow> ('h, 'd, 'b) mining_handle \<Rightarrow> ('h, 'd, 'b) mining_handle" where
  "run_handle [] w = w"
| "run_handle (Op_Sync # l) w = run_handle l (on_major_syncing w)"
| "run_handle (Op_Build b # l) w = run_handle l (on_build b w)"
| "run_handle (Op_Take # l) w = run_handle l (snd (take_build w))"

text \<open>Every operation either leaves the handle alone or advances the version by one.\<close>

lemma run_handle_version:
  "\<exists>k\<le>length l. handle_version (run_handle l w) = handle_version w + word_of_nat k \<and> (k = 0 \<longrightarrow> run_handle l w = w)"
proof (induction l w rule: run_handle.induct)
  case (1 w)
  then show ?case by simp
next
  case (2 l w)
  then obtain k where "k \<le> length l" "handle_version (run_handle l (on_major_syncing w)) = handle_version w + 1 + word_of_nat k"
    by (auto simp: on_major_syncing_def increment_version_def)
  then show ?case by (intro exI [of _ "Suc k"]) simp
next
  case (3 b l w)
  then obtain k where "k \<le> length l" "handle_version (run_handle l (on_build b w)) = handle_version w + 1 + word_of_nat k"
    by (auto simp: on_build_def increment_version_def)
  then show ?case by (intro exI [of _ "Suc k"]) simp
next
  case (4 l w)
  show ?case
  proof (cases "handle_build w")
    case None
    then show ?thesis using 4 by (auto simp: take_build_def intro: le_SucI)
  next
    case (Some b)
    then obtain k where "k \<le> length l" "handle_version (run_handle l (snd (take_build w))) = handle_version w + 1 + word_of_nat k"
      using 4 by (auto simp: take_build_def increment_version_def)
    then show ?thesis by (intro exI [of _ "Suc k"]) simp
  qed
qed

section \<open>A chain for the witnesses\<close>

text \<open>The state is the list of the auxiliary entries, difficulties are numbers, a header's hash is its
  number of digest items, and the seal 7 is valid.\<close>

type_synonym toy_pow = "(bytes \<times> bytes option) list"

definition toy_import :: "(toy_pow, unit, nat, unit, unit, unit) import_ops" where
  "toy_import = \<lparr> pow_engine = [1], check_inherents_after = 0, skip_execution_checks = (\<lambda>a. a = Skip),
     hash_header = (\<lambda>h. of_nat (length (h_logs h))),
     best_chain_header = (\<lambda>_. Inr \<lparr> h_parent = 0, h_number = 0, h_logs = [], h_rest = () \<rparr>),
     get_aux = (\<lambda>x k. Inr (case map_of x k of None \<Rightarrow> None | Some v \<Rightarrow> v)), encode_aux = (\<lambda>a. [of_nat (aux_total a)]),
     decode_aux = (\<lambda>bs. if bs = [] then None else Some \<lparr> aux_difficulty = 0, aux_total = unat (hd bs) \<rparr>),
     default_aux = \<lparr> aux_difficulty = 0, aux_total = 0 \<rparr>, increment = (+),
     inherent_providers = (\<lambda>_ _. Inr ()), inherent_data = (\<lambda>_. Inr ()),
     runtime_check_inherents = (\<lambda>_ _ _ _ _. Inr (True, [])), try_handle_error = (\<lambda>_ _ _. None),
     inner_import = (\<lambda>b x. (Inr (), bp_auxiliary b @ x)) \<rparr>"

definition toy_alg :: "(toy_pow, nat) pow_algorithm" where
  "toy_alg = \<lparr> alg_difficulty = (\<lambda>_ _. Inr 5), alg_preliminary_verify = (\<lambda>_ _ _. Inr None), alg_break_tie = (\<lambda>_ _. False),
     alg_verify = (\<lambda>_ _ _ _ seal _. Inr (seal = [7])) \<rparr>"

definition toy_block :: "(unit, nat, unit) block_params" where
  "toy_block = \<lparr> bp_header = \<lparr> h_parent = 3, h_number = 1, h_logs = [PreRuntime [1] [9], Digest_Seal [1] [7]], h_rest = () \<rparr>,
     bp_body = Some (), bp_post_digests = [], bp_intermediate = None, bp_fork_choice = None, bp_auxiliary = [],
     bp_post_hash = None, bp_state_action = Execute \<rparr>"

definition toy_build :: "(unit, nat, unit) mining_build" where
  "toy_build = \<lparr> build_metadata = \<lparr> best_hash = 3, pre_hash = 1, pre_runtime = Some [9], md_difficulty = 5 \<rparr>,
     build_header = \<lparr> h_parent = 3, h_number = 1, h_logs = [PreRuntime [1] [9]], h_rest = () \<rparr>, build_body = () \<rparr>"

section \<open>The properties\<close>

text \<open>A block of the network that has passed the verifier and the import carries exactly one seal of the
  engine at the end of its header and at most one pre-runtime item of it; the algorithm has accepted the
  seal for the hash of the header without it, at the difficulty after the parent; the total difficulty
  recorded under the hash of the sealed header is the parent's plus that difficulty; and without a given
  fork choice the block becomes the best exactly when its total is greater, or equal and the algorithm
  breaks the tie for it.\<close>

theorem imported_blocks_are_sealed:
  assumes "verify_block ops alg x0 block = Inr block'" "import_block ops alg block' x = (Inr u, x')"
  shows "\<exists>logs seal d pre best best_aux aux imported.
    h_logs (bp_header block) = logs @ [Digest_Seal (pow_engine ops) seal] \<and>
    engine_items (pow_engine ops) logs = (case pre of None \<Rightarrow> [] | Some v \<Rightarrow> [v]) \<and>
    alg_difficulty alg x (h_parent (bp_header block)) = Inr d \<and>
    alg_verify alg x (BlockId_Hash (h_parent (bp_header block)))
      (hash_header ops ((bp_header block)\<lparr> h_logs := logs \<rparr>)) pre seal d = Inr True \<and>
    best_chain_header ops x = Inr best \<and> read_aux ops x (hash_header ops best) = Inr best_aux \<and>
    read_aux ops x (h_parent (bp_header block)) = Inr aux \<and>
    inner_import ops imported x = (Inr (), x') \<and>
    h_parent (bp_header imported) = h_parent (bp_header block) \<and>
    post_hash_of ops imported = hash_header ops (bp_header block) \<and>
    bp_auxiliary imported = bp_auxiliary block @ [(pow_aux_key (hash_header ops (bp_header block)),
      Some (encode_aux ops \<lparr> aux_difficulty = d, aux_total = increment ops (aux_total aux) d \<rparr>))] \<and>
    (bp_fork_choice block = None \<longrightarrow> bp_fork_choice imported = Some (Custom
      (aux_total best_aux < increment ops (aux_total aux) d \<or> aux_total best_aux = increment ops (aux_total aux) d \<and>
        (\<exists>best_seal. last_item (h_logs best) = Some (Digest_Seal (pow_engine ops) best_seal) \<and>
           alg_break_tie alg best_seal seal))))"
proof -
  obtain logs i seal0 where v: "h_logs (bp_header block) = logs @ [Digest_Seal (pow_engine ops) seal0]"
    "block' = block\<lparr> bp_header := (bp_header block)\<lparr> h_logs := logs \<rparr>,
       bp_post_digests := bp_post_digests block @ [Digest_Seal (pow_engine ops) seal0],
       bp_intermediate := Some None, bp_post_hash := Some (hash_header ops (bp_header block)) \<rparr>"
    by (rule verify_block_effect [OF assms(1)])
  obtain best best_aux aux seal d pre choice intermediate where e:
    "best_chain_header ops x = Inr best" "read_aux ops x (hash_header ops best) = Inr best_aux"
    "read_aux ops x (h_parent (bp_header block')) = Inr aux"
    "last_item (bp_post_digests block') = Some (Digest_Seal (pow_engine ops) seal)"
    "bp_intermediate block' = Some intermediate"
    "case intermediate of Some d' \<Rightarrow> d' = d | None \<Rightarrow> alg_difficulty alg x (h_parent (bp_header block')) = Inr d"
    "find_pre_digest (pow_engine ops) (h_logs (bp_header block')) None = Inr pre"
    "alg_verify alg x (BlockId_Hash (h_parent (bp_header block'))) (hash_header ops (bp_header block')) pre seal d = Inr True"
    "choose_fork ops alg (bp_fork_choice block') best (increment ops (aux_total aux) d) (aux_total best_aux) seal = Inr choice"
    "inner_import ops (block'\<lparr> bp_intermediate := None, bp_auxiliary := bp_auxiliary block' @
        [(pow_aux_key (post_hash_of ops block'),
          Some (encode_aux ops \<lparr> aux_difficulty = d, aux_total = increment ops (aux_total aux) d \<rparr>))],
        bp_fork_choice := Some choice \<rparr>) x = (Inr (), x')"
    by (rule import_block_effect [OF assms(2)])
  have seal: "seal = seal0" using e(4) v(2) by (simp add: last_item_def)
  have items: "engine_items (pow_engine ops) logs = (case pre of None \<Rightarrow> [] | Some v \<Rightarrow> [v])"
    using e(7) v(2) by (auto simp: find_pre_digest_result split: list.splits)
  have fork: "choice = Custom (aux_total best_aux < increment ops (aux_total aux) d \<or>
      aux_total best_aux = increment ops (aux_total aux) d \<and>
      (\<exists>best_seal. last_item (h_logs best) = Some (Digest_Seal (pow_engine ops) best_seal) \<and>
         alg_break_tie alg best_seal seal))" if "bp_fork_choice block = None"
    using e(9) v(2) that
    by (auto simp: choose_fork_def is_new_best_def fetch_seal_Inr split: sum.splits if_splits)
  show ?thesis
    by (intro exI conjI impI, rule v(1), rule items, use e(5,6) v(2) in force, use e(8) seal v(2) in force, rule e(1), rule e(2),
        use e(3) v(2) in force, rule e(10), use v(2) in simp, use v(2) in \<open>simp add: post_hash_of_def\<close>, use v(2) in \<open>simp add: post_hash_of_def\<close>, use fork seal in simp)
qed

theorem imported_blocks_are_sealed_witness:
  "\<exists>b' x'. verify_block toy_import toy_alg [] toy_block = Inr b' \<and> import_block toy_import toy_alg b' [] = (Inr (), x') \<and>
     (\<exists>logs seal. h_logs (bp_header toy_block) = logs @ [Digest_Seal [1] seal] \<and>
       alg_verify toy_alg [] (BlockId_Hash 3) (of_nat (length logs)) (Some [9]) seal 5 = Inr True)"
proof -
  obtain b' where b: "verify_block toy_import toy_alg [] toy_block = Inr b'"
    and "bp_header b' = \<lparr> h_parent = 3, h_number = 1, h_logs = [PreRuntime [1] [9]], h_rest = () \<rparr>"
      "bp_post_digests b' = [Digest_Seal [1] [7]]" "bp_intermediate b' = Some None" "bp_fork_choice b' = None"
      "bp_body b' = Some ()" "bp_state_action b' = Execute"
    by (simp add: verify_block_def check_header_def toy_import_def toy_alg_def toy_block_def last_item_def)
  then obtain x' where i: "import_block toy_import toy_alg b' [] = (Inr (), x')"
    by (simp add: import_block_def Let_def and_then_def map_err_def toy_import_def toy_alg_def read_aux_def inherents_step_def
        check_inherents_def fetch_seal_def last_item_def ensure_def choose_fork_def is_new_best_def)
  from imported_blocks_are_sealed [OF b i] b i show ?thesis
    by (auto simp: toy_import_def toy_alg_def toy_block_def)
qed

text \<open>The version tells whether the build has changed, as its users rely on: if it is the same after fewer
  than \<open>2 ^ 64\<close> operations on the handle, nothing has changed at all, neither the metadata nor the build.\<close>

theorem version_certifies_build:
  assumes "length l < 2 ^ 64" "handle_version (run_handle l w) = handle_version w"
  shows "run_handle l w = w"
proof -
  obtain k where k: "k \<le> length l" "handle_version (run_handle l w) = handle_version w + word_of_nat k"
    "k = 0 \<longrightarrow> run_handle l w = w"
    using run_handle_version [of l w] by blast
  have "(word_of_nat k :: u64) = 0" using k(2) assms(2) by simp
  then have "(2 :: nat) ^ 64 dvd k" by (simp add: word_of_nat_eq_0_iff)
  then have "k = 0" using k(1) assms(1) by (metis dvd_imp_le le_less_trans not_less neq0_conv)
  then show ?thesis using k(3) by simp
qed

theorem version_certifies_build_witness:
  "run_handle [Op_Take, Op_Take] (new_handle :: (unit, nat, unit) mining_handle) = new_handle"
  by (rule version_certifies_build) (simp_all add: new_handle_def take_build_def)

text \<open>A seal that arrives late costs the newer build: when a build replaces the one the seal was checked
  against, before \<open>submit\<close> takes it, the submission fails, as it must, but the newer build is gone and
  the miner has nothing to work on until the next one is made.\<close>

theorem late_seal_discards_build:
  assumes "submit_check alg x seal w"
    and "\<And>pre d. alg_verify alg x (BlockId_Hash (h_parent (build_header b))) (hash_header ops (build_header b)) pre seal d
      \<noteq> Inr True"
  shows "\<exists>w' x'. submit_import ops alg seal (on_build b w) x = (False, w', x') \<and> handle_build w' = None"
proof (cases "import_block ops alg (mined_block ops b seal) x")
  case (Pair r x')
  have t: "take_build (on_build b w) = (Some b, increment_version ((on_build b w)\<lparr> handle_build := None \<rparr>))"
    by (simp add: take_build_def on_build_def increment_version_def)
  show ?thesis
  proof (cases r)
    case (Inl e)
    then show ?thesis using Pair by (simp add: submit_import_def t increment_version_def)
  next
    case (Inr u)
    then have i: "import_block ops alg (mined_block ops b seal) x = (Inr u, x')" using Pair by simp
    show ?thesis
      by (rule import_block_effect [OF i]) (use assms(2) in \<open>simp add: mined_block_def last_item_def\<close>)
  qed
qed

theorem late_seal_discards_build_witness:
  "\<exists>w' x'. submit_import toy_import (toy_alg\<lparr> alg_verify := (\<lambda>_ p _ _ seal _. Inr (p = BlockId_Hash 3 \<and> seal = [7])) \<rparr>) [7]
     (on_build (toy_build\<lparr> build_header := \<lparr> h_parent = 4, h_number = 2, h_logs = [], h_rest = () \<rparr> \<rparr>) (on_build toy_build new_handle)) []
     = (False, w', x') \<and> handle_build w' = None"
  by (rule late_seal_discards_build)
    (simp_all add: submit_check_def handle_metadata_def on_build_def increment_version_def toy_build_def toy_alg_def)

end
