(* ===== verification/ExternalMiner.thy ===== *)
theory ExternalMiner
  imports QpowMath
begin

text \<open>
  The external miner (\<open>external-miner/src/lib.rs\<close>), the requests and answers it exchanges with a node
  (\<open>resonance-miner-api\<close>), and the node's side of it (\<open>node/src/external_miner_client.rs\<close>). The hash map
  of jobs is a list of pairs, in the order a pass visits them; the hexadecimal and decimal conversions of
  the libraries and the HTTP transport are parameters; times are left out.
\<close>

section \<open>Messages\<close>

datatype api_status = Api_Accepted | Api_Running | Api_Completed | Api_Failed | Api_Cancelled | Api_NotFound | Api_Error

record mining_request =
  rq_job_id :: string
  rq_mining_hash :: string
  rq_threshold :: string
  rq_nonce_start :: string
  rq_nonce_end :: string

record mining_response =
  rs_status :: api_status
  rs_job_id :: string
  rs_message :: "string option"

record mining_result =
  mr_status :: api_status
  mr_job_id :: string
  mr_nonce :: "string option"
  mr_work :: "string option"
  mr_hash_count :: u64

record codec_ops =
  hex_encode :: "bytes \<Rightarrow> string"
  hex_decode :: "string \<Rightarrow> bytes option"
  from_dec_str :: "string \<Rightarrow> u512 option"
  from_hex_str :: "string \<Rightarrow> u512 option"
  to_dec_str :: "u512 \<Rightarrow> string"
  hex_padded :: "u512 \<Rightarrow> string"
  hex_short :: "u512 \<Rightarrow> string"

section \<open>Jobs\<close>

datatype job_status = Running | Completed | Failed

record mining_job =
  header_hash :: bytes
  distance_threshold :: u512
  nonce_start :: u512
  nonce_end :: u512
  current_nonce :: u512
  job_status :: job_status
  hash_count :: u64

definition new_job :: "bytes \<Rightarrow> u512 \<Rightarrow> u512 \<Rightarrow> u512 \<Rightarrow> mining_job" where
  "new_job hash threshold start end =
     \<lparr> header_hash = hash, distance_threshold = threshold, nonce_start = start, nonce_end = end,
       current_nonce = start, job_status = Running, hash_count = 0 \<rparr>"

type_synonym mining_state = "(string \<times> mining_job) list"

definition get_job :: "mining_state \<Rightarrow> string \<Rightarrow> mining_job option" where
  "get_job jobs job_id = map_of jobs job_id"

definition add_job :: "mining_state \<Rightarrow> string \<Rightarrow> mining_job \<Rightarrow> (string + unit) \<times> mining_state" where
  "add_job jobs job_id job =
     (if map_of jobs job_id \<noteq> None then (Inl ''Job already exists'', jobs) else (Inr (), jobs @ [(job_id, job)]))"

definition remove_job :: "mining_state \<Rightarrow> string \<Rightarrow> mining_job option \<times> mining_state" where
  "remove_job jobs job_id = (map_of jobs job_id, filter (\<lambda>(i, _). i \<noteq> job_id) jobs)"

section \<open>The mining loop\<close>

text \<open>One visit of a job. Advancing the nonce panics on overflow, and checking a nonce may not return.\<close>

datatype tick = Tick mining_job | Tick_Panic | Tick_Diverges

definition next_nonce :: "mining_job \<Rightarrow> u512 option" where
  "next_nonce job = (if 0 < hash_count job then checked_add (current_nonce job) 1 else Some (current_nonce job))"

definition try_current ::
    "(bytes \<Rightarrow> bytes) \<Rightarrow> (bytes \<Rightarrow> bytes) \<Rightarrow> mining_job \<Rightarrow> tick" where
  "try_current sha256 sha3 job =
     (if nonce_end job < current_nonce job then Tick (job\<lparr> job_status := Failed \<rparr>)
      else let job1 = job\<lparr> hash_count := hash_count job + 1 \<rparr>
           in (case is_valid_nonce sha256 sha3 (header_hash job1) (to_be 64 (current_nonce job1)) (distance_threshold job1) of
                 None \<Rightarrow> Tick_Diverges
               | Some valid \<Rightarrow>
                   if valid then Tick (job1\<lparr> job_status := Completed \<rparr>)
                   else if current_nonce job1 = nonce_end job1 then Tick (job1\<lparr> job_status := Failed \<rparr>)
                   else Tick job1))"

definition job_tick :: "(bytes \<Rightarrow> bytes) \<Rightarrow> (bytes \<Rightarrow> bytes) \<Rightarrow> mining_job \<Rightarrow> tick" where
  "job_tick sha256 sha3 job =
     (if job_status job = Running
      then (case next_nonce job of
              None \<Rightarrow> Tick_Panic
            | Some n \<Rightarrow> try_current sha256 sha3 (job\<lparr> current_nonce := n \<rparr>))
      else Tick job)"

text \<open>One pass over all jobs, with the lock held; \<open>None\<close> when it does not come to its end.\<close>

fun mining_pass :: "(bytes \<Rightarrow> bytes) \<Rightarrow> (bytes \<Rightarrow> bytes) \<Rightarrow> mining_state \<Rightarrow> mining_state option" where
  "mining_pass sha256 sha3 [] = Some []"
| "mining_pass sha256 sha3 ((job_id, job) # jobs) =
     (case job_tick sha256 sha3 job of
        Tick job' \<Rightarrow> map_option (\<lambda>jobs'. (job_id, job') # jobs') (mining_pass sha256 sha3 jobs)
      | _ \<Rightarrow> None)"

fun mining_passes :: "(bytes \<Rightarrow> bytes) \<Rightarrow> (bytes \<Rightarrow> bytes) \<Rightarrow> nat \<Rightarrow> mining_state \<Rightarrow> mining_state option" where
  "mining_passes sha256 sha3 0 jobs = Some jobs"
| "mining_passes sha256 sha3 (Suc n) jobs =
     (case mining_pass sha256 sha3 jobs of None \<Rightarrow> None | Some jobs' \<Rightarrow> mining_passes sha256 sha3 n jobs')"

section \<open>Requests\<close>

definition validate_mining_request :: "codec_ops \<Rightarrow> mining_request \<Rightarrow> string + unit" where
  "validate_mining_request cd rq =
     (if rq_job_id rq = [] then Inl ''Job ID cannot be empty''
      else if length (rq_mining_hash rq) \<noteq> 64 \<or> hex_decode cd (rq_mining_hash rq) = None
      then Inl ''Invalid mining_hash (must be 64 hex characters)''
      else if from_dec_str cd (rq_threshold rq) = None
      then Inl ''Invalid distance_threshold (must be a valid U512)''
      else if length (rq_nonce_start rq) \<noteq> 128 \<or> from_hex_str cd (rq_nonce_start rq) = None
      then Inl ''Invalid nonce_start (must be 128 hex characters)''
      else if length (rq_nonce_end rq) \<noteq> 128 \<or> from_hex_str cd (rq_nonce_end rq) = None
      then Inl ''Invalid nonce_end (must be 128 hex characters)''
      else if the (from_hex_str cd (rq_nonce_end rq)) < the (from_hex_str cd (rq_nonce_start rq))
      then Inl ''nonce_start cannot be greater than nonce_end''
      else Inr ())"

text \<open>The handler panics, \<open>None\<close>, if the decoded hash were not 32 bytes long.\<close>

definition handle_mine_request ::
    "codec_ops \<Rightarrow> mining_request \<Rightarrow> mining_state \<Rightarrow> ((nat \<times> mining_response) \<times> mining_state) option" where
  "handle_mine_request cd rq jobs =
     (case validate_mining_request cd rq of
        Inl e \<Rightarrow> Some ((400, \<lparr> rs_status = Api_Error, rs_job_id = rq_job_id rq, rs_message = Some e \<rparr>), jobs)
      | Inr _ \<Rightarrow>
          let header = the (hex_decode cd (rq_mining_hash rq));
              job = new_job header (the (from_dec_str cd (rq_threshold rq)))
                (the (from_hex_str cd (rq_nonce_start rq))) (the (from_hex_str cd (rq_nonce_end rq)))
          in (if length header \<noteq> 32 then None
              else Some
                (case add_job jobs (rq_job_id rq) job of
                   (Inr _, jobs') \<Rightarrow> ((200, \<lparr> rs_status = Api_Accepted, rs_job_id = rq_job_id rq, rs_message = None \<rparr>), jobs')
                 | (Inl e, jobs') \<Rightarrow> ((409, \<lparr> rs_status = Api_Error, rs_job_id = rq_job_id rq, rs_message = Some e \<rparr>), jobs'))))"

definition handle_result_request :: "codec_ops \<Rightarrow> string \<Rightarrow> mining_state \<Rightarrow> nat \<times> mining_result" where
  "handle_result_request cd job_id jobs =
     (case get_job jobs job_id of
        Some job \<Rightarrow>
          (200, \<lparr> mr_status = (case job_status job of
                     Running \<Rightarrow> Api_Running | Completed \<Rightarrow> Api_Completed | Failed \<Rightarrow> Api_Failed),
                  mr_job_id = job_id, mr_nonce = Some (hex_short cd (current_nonce job)),
                  mr_work = (if job_status job = Completed then Some (hex_encode cd (to_be 64 (current_nonce job))) else None),
                  mr_hash_count = hash_count job \<rparr>)
      | None \<Rightarrow> (404, \<lparr> mr_status = Api_NotFound, mr_job_id = job_id, mr_nonce = None, mr_work = None, mr_hash_count = 0 \<rparr>))"

definition handle_cancel_request :: "string \<Rightarrow> mining_state \<Rightarrow> (nat \<times> mining_response) \<times> mining_state" where
  "handle_cancel_request job_id jobs =
     (case remove_job jobs job_id of
        (Some _, jobs') \<Rightarrow> ((200, \<lparr> rs_status = Api_Cancelled, rs_job_id = job_id, rs_message = None \<rparr>), jobs')
      | (None, jobs') \<Rightarrow> ((404, \<lparr> rs_status = Api_NotFound, rs_job_id = job_id, rs_message = None \<rparr>), jobs'))"

section \<open>The node's side\<close>

definition mining_request_for :: "codec_ops \<Rightarrow> string \<Rightarrow> 256 word \<Rightarrow> u512 \<Rightarrow> u512 \<Rightarrow> u512 \<Rightarrow> mining_request" where
  "mining_request_for cd job_id mining_hash threshold start end =
     \<lparr> rq_job_id = job_id, rq_mining_hash = hex_encode cd (to_be 32 mining_hash), rq_threshold = to_dec_str cd threshold,
       rq_nonce_start = hex_padded cd start, rq_nonce_end = hex_padded cd end \<rparr>"

definition submit_mining_job ::
    "codec_ops \<Rightarrow> (mining_request \<Rightarrow> string + mining_response) \<Rightarrow> string \<Rightarrow> 256 word \<Rightarrow> u512 \<Rightarrow> u512 \<Rightarrow> u512
      \<Rightarrow> string + unit" where
  "submit_mining_job cd send job_id mining_hash threshold start end =
     (case send (mining_request_for cd job_id mining_hash threshold start end) of
        Inl e \<Rightarrow> Inl e
      | Inr r \<Rightarrow> if rs_status r \<noteq> Api_Accepted then Inl ''Mining job was not accepted'' else Inr ())"

definition check_mining_result ::
    "codec_ops \<Rightarrow> (string \<Rightarrow> string + mining_result) \<Rightarrow> string \<Rightarrow> string + bytes option" where
  "check_mining_result cd fetch job_id =
     (case fetch job_id of
        Inl e \<Rightarrow> Inl e
      | Inr r \<Rightarrow>
          (case mr_status r of
             Api_Completed \<Rightarrow>
               (case mr_work r of
                  Some work_hex \<Rightarrow>
                    (case hex_decode cd work_hex of
                       None \<Rightarrow> Inl ''Failed to decode work hex''
                     | Some nonce_bytes \<Rightarrow>
                         if length nonce_bytes = 64 then Inr (Some nonce_bytes) else Inl ''Invalid decoded work length'')
                | None \<Rightarrow> Inl ''Missing 'work' field in completed mining result'')
           | Api_Running \<Rightarrow> Inr None
           | Api_NotFound \<Rightarrow> Inl ''Mining job not found''
           | Api_Failed \<Rightarrow> Inl ''Mining job failed (miner reported)''
           | Api_Cancelled \<Rightarrow> Inl ''Mining job was cancelled (miner reported)''
           | Api_Error \<Rightarrow> Inl ''Miner reported an unspecified error''
           | Api_Accepted \<Rightarrow> Inl ''Unexpected 'Accepted' status received from result endpoint''))"

definition cancel_mining_job :: "(string \<Rightarrow> string + mining_response) \<Rightarrow> string \<Rightarrow> string + unit" where
  "cancel_mining_job send job_id =
     (case send job_id of
        Inl e \<Rightarrow> Inl e
      | Inr r \<Rightarrow>
          if rs_status r = Api_Cancelled \<or> rs_status r = Api_NotFound then Inr ()
          else Inl ''Failed to cancel mining job (unexpected status)'')"

end
