(* ===== verification/ExternalMinerLaw.thy ===== *)
theory ExternalMinerLaw
  imports ExternalMiner
begin

text \<open>
  Lemmas and properties of the external miner: the search of a job is a measure-decreasing loop with an
  invariant (\<open>search_state\<close>), the miner is a state machine of requests, passes and cancellations that keeps
  its jobs well formed, and the node's requests and the miner's answers fit together.
\<close>

section \<open>The search of one job\<close>

abbreviation nonce_valid ::
    "(bytes \<Rightarrow> bytes) \<Rightarrow> (bytes \<Rightarrow> bytes) \<Rightarrow> mining_job \<Rightarrow> u512 \<Rightarrow> bool option" where
  "nonce_valid sha256 sha3 job n \<equiv>
     is_valid_nonce sha256 sha3 (header_hash job) (to_be 64 n) (distance_threshold job)"

lemma nonce_valid_total:
  "get_random_rsa sha256 sha3 (header_hash job) \<noteq> None \<Longrightarrow> nonce_valid sha256 sha3 job n \<noteq> None"
proof -
  assume "get_random_rsa sha256 sha3 (header_hash job) \<noteq> None"
  then obtain m r where rsa: "get_random_rsa sha256 sha3 (header_hash job) = Some (m, r)" by auto
  show ?thesis
    by (cases "to_be 64 n = zero_nonce")
       (use nonce_distance [OF rsa, of "to_be 64 n"] in \<open>auto simp: is_valid_nonce_def\<close>)
qed

text \<open>What a job has found so far: every nonce before the current one is invalid, a completed job stands
  at a valid nonce, a failed one has tried the whole range.\<close>

definition search_state :: "(bytes \<Rightarrow> bytes) \<Rightarrow> (bytes \<Rightarrow> bytes) \<Rightarrow> mining_job \<Rightarrow> bool" where
  "search_state sha256 sha3 job \<longleftrightarrow>
     nonce_start job \<le> current_nonce job \<and> current_nonce job \<le> nonce_end job \<and>
     (\<forall>n. nonce_start job \<le> n \<and> n < current_nonce job \<longrightarrow> nonce_valid sha256 sha3 job n = Some False) \<and>
     (case job_status job of
        Running \<Rightarrow> 0 < hash_count job \<longrightarrow>
          current_nonce job < nonce_end job \<and> nonce_valid sha256 sha3 job (current_nonce job) = Some False
      | Completed \<Rightarrow> nonce_valid sha256 sha3 job (current_nonce job) = Some True
      | Failed \<Rightarrow> current_nonce job = nonce_end job \<and> nonce_valid sha256 sha3 job (current_nonce job) = Some False)"

text \<open>The parts of a job the loop never changes.\<close>

definition same_search :: "mining_job \<Rightarrow> mining_job \<Rightarrow> bool" where
  "same_search a b \<longleftrightarrow> header_hash a = header_hash b \<and> distance_threshold a = distance_threshold b \<and>
     nonce_start a = nonce_start b \<and> nonce_end a = nonce_end b"

lemma same_search_refl [simp, intro]: "same_search a a"
  by (simp add: same_search_def)

lemma same_search_trans: "same_search a b \<Longrightarrow> same_search b c \<Longrightarrow> same_search a c"
  by (simp add: same_search_def)

lemma new_job_search_state: "start \<le> end \<Longrightarrow> search_state sha256 sha3 (new_job hash threshold start end)"
  by (auto simp: search_state_def new_job_def)

text \<open>The visits left: the distance to the end, counted twice because the counter of hashes may come round
  to zero, after which one nonce is tried a second time.\<close>

definition visits_left :: "mining_job \<Rightarrow> nat" where
  "visits_left job =
     (if job_status job = Running
      then 2 * (unat (nonce_end job) - unat (current_nonce job)) + (if hash_count job = 0 then 1 else 0)
      else 0)"

lemma word_succ_unat:
  fixes a b :: "'a::len word"
  assumes "a < b"
  shows "unat (a + 1) = unat a + 1"
proof -
  have "Suc (unat a) < 2 ^ LENGTH('a)"
    using assms by (meson Suc_leI le_less_trans unat_lt_max word_less_nat_alt)
  then show ?thesis by (simp add: unat_word_ariths)
qed

lemma next_nonce_state:
  assumes "search_state sha256 sha3 job" and "job_status job = Running"
  obtains n where "next_nonce job = Some n"
    and "nonce_start job \<le> n" and "n \<le> nonce_end job"
    and "\<forall>k. nonce_start job \<le> k \<and> k < n \<longrightarrow> nonce_valid sha256 sha3 job k = Some False"
    and "unat n = unat (current_nonce job) + (if 0 < hash_count job then 1 else 0)"
proof (cases "0 < hash_count job")
  case False
  with assms that show ?thesis by (auto simp: search_state_def next_nonce_def)
next
  case True
  let ?c = "current_nonce job"
  have less: "?c < nonce_end job" and invalid: "nonce_valid sha256 sha3 job ?c = Some False"
    and start: "nonce_start job \<le> ?c"
    and before: "\<forall>k. nonce_start job \<le> k \<and> k < ?c \<longrightarrow> nonce_valid sha256 sha3 job k = Some False"
    using assms True by (auto simp: search_state_def)
  have u: "unat (?c + 1) = unat ?c + 1" by (rule word_succ_unat [OF less])
  have "unat ?c + 1 < 2 ^ 512" using less unat_lt_max [of "nonce_end job"] by (simp add: word_less_nat_alt)
  then have "next_nonce job = Some (?c + 1)" using True by (simp add: next_nonce_def checked_add_Some u)
  moreover have "k < ?c \<or> k = ?c" if "k < ?c + 1" for k
    using that u by (auto simp: word_less_nat_alt word_unat_eq_iff)
  ultimately show ?thesis
    using True start before invalid less u
    by (intro that [of "?c + 1"]) (auto simp: word_less_nat_alt word_le_nat_alt)
qed

definition hash_counted :: "mining_job \<Rightarrow> u512 \<Rightarrow> mining_job" where
  "hash_counted job n = job\<lparr> current_nonce := n, hash_count := hash_count job + 1 \<rparr>"

lemma hash_counted_fields [simp]:
  "header_hash (hash_counted job n) = header_hash job" "distance_threshold (hash_counted job n) = distance_threshold job"
  "nonce_start (hash_counted job n) = nonce_start job" "nonce_end (hash_counted job n) = nonce_end job"
  "current_nonce (hash_counted job n) = n" "hash_count (hash_counted job n) = hash_count job + 1"
  "job_status (hash_counted job n) = job_status job"
  by (simp_all add: hash_counted_def)

lemma job_tick_running:
  assumes "job_status job = Running" and "next_nonce job = Some n" and "n \<le> nonce_end job"
  shows "job_tick sha256 sha3 job =
    (case nonce_valid sha256 sha3 job n of
       None \<Rightarrow> Tick_Diverges
     | Some valid \<Rightarrow> Tick
         (if valid then (hash_counted job n)\<lparr> job_status := Completed \<rparr>
          else if n = nonce_end job then (hash_counted job n)\<lparr> job_status := Failed \<rparr> else hash_counted job n))"
  using assms by (auto simp: job_tick_def try_current_def Let_def hash_counted_def split: option.splits)

lemma job_tick_stopped: "job_status job \<noteq> Running \<Longrightarrow> job_tick sha256 sha3 job = Tick job"
  by (simp add: job_tick_def)

lemma job_tick_result:
  assumes "search_state sha256 sha3 job" and "get_random_rsa sha256 sha3 (header_hash job) \<noteq> None"
  obtains job' where "job_tick sha256 sha3 job = Tick job'"
proof (cases "job_status job = Running")
  case True
  then obtain n where n: "next_nonce job = Some n" "n \<le> nonce_end job"
    using next_nonce_state assms(1) by blast
  show ?thesis using that nonce_valid_total [OF assms(2), of n]
    by (auto simp: job_tick_running [OF True n])
qed (use that in \<open>auto simp: job_tick_stopped\<close>)

lemma job_tick_search:
  assumes inv: "search_state sha256 sha3 job" and tick: "job_tick sha256 sha3 job = Tick job'"
  shows "search_state sha256 sha3 job' \<and> same_search job job' \<and>
         (job_status job' = Running \<longrightarrow> visits_left job' < visits_left job)"
proof (cases "job_status job = Running")
  case False
  with tick inv show ?thesis by (simp add: job_tick_stopped visits_left_def)
next
  case True
  obtain n where n: "next_nonce job = Some n" "nonce_start job \<le> n" "n \<le> nonce_end job"
    "\<forall>k. nonce_start job \<le> k \<and> k < n \<longrightarrow> nonce_valid sha256 sha3 job k = Some False"
    "unat n = unat (current_nonce job) + (if 0 < hash_count job then 1 else 0)"
    using next_nonce_state [OF inv True] by blast
  obtain valid where v: "nonce_valid sha256 sha3 job n = Some valid"
    using tick by (auto simp: job_tick_running [OF True n(1,3)] split: option.splits)
  have out: "job' = (if valid then (hash_counted job n)\<lparr> job_status := Completed \<rparr>
      else if n = nonce_end job then (hash_counted job n)\<lparr> job_status := Failed \<rparr> else hash_counted job n)"
    using tick v by (simp add: job_tick_running [OF True n(1,3)])
  have lt: "unat n < unat (nonce_end job)" if "n \<noteq> nonce_end job"
    using n(3) that by (simp add: word_le_nat_alt word_unat_eq_iff)
  have "visits_left (hash_counted job n) < visits_left job" if "n \<noteq> nonce_end job"
    using lt [OF that] n(5) True by (auto simp: visits_left_def word_gt_0)
  with n(2-4) v lt show ?thesis
    by (auto simp: out search_state_def same_search_def True word_less_nat_alt)
qed

fun job_visits :: "(bytes \<Rightarrow> bytes) \<Rightarrow> (bytes \<Rightarrow> bytes) \<Rightarrow> nat \<Rightarrow> mining_job \<Rightarrow> tick" where
  "job_visits sha256 sha3 0 job = Tick job"
| "job_visits sha256 sha3 (Suc k) job =
     (case job_tick sha256 sha3 job of Tick job' \<Rightarrow> job_visits sha256 sha3 k job' | t \<Rightarrow> t)"

lemma job_visits_stopped: "job_status job \<noteq> Running \<Longrightarrow> job_visits sha256 sha3 k job = Tick job"
  by (induction k) (simp_all add: job_tick_stopped)

lemma job_visits_stop:
  assumes "search_state sha256 sha3 job" and "get_random_rsa sha256 sha3 (header_hash job) \<noteq> None"
    and "visits_left job < k"
  shows "\<exists>job'. job_visits sha256 sha3 k job = Tick job' \<and> job_status job' \<noteq> Running \<and>
    search_state sha256 sha3 job' \<and> same_search job job'"
  using assms
proof (induction k arbitrary: job)
  case (Suc k)
  obtain job1 where tick: "job_tick sha256 sha3 job = Tick job1"
    using job_tick_result [OF Suc.prems(1,2)] by blast
  note step = job_tick_search [OF Suc.prems(1) tick]
  have rsa: "get_random_rsa sha256 sha3 (header_hash job1) \<noteq> None"
    using step Suc.prems(2) by (simp add: same_search_def)
  show ?case
  proof (cases "job_status job1 = Running")
    case True
    with step Suc.prems(3) have "visits_left job1 < k" by simp
    with Suc.IH [OF _ rsa] step tick show ?thesis by (auto intro: same_search_trans)
  qed (use step tick in \<open>simp add: job_visits_stopped\<close>)
qed simp

section \<open>The miner as a state machine\<close>

datatype miner_event = Ev_Mine mining_request | Ev_Pass | Ev_Cancel string

definition miner_step ::
    "(bytes \<Rightarrow> bytes) \<Rightarrow> (bytes \<Rightarrow> bytes) \<Rightarrow> codec_ops \<Rightarrow> miner_event \<Rightarrow> mining_state \<Rightarrow> mining_state option" where
  "miner_step sha256 sha3 cd ev jobs =
     (case ev of
        Ev_Mine rq \<Rightarrow> map_option snd (handle_mine_request cd rq jobs)
      | Ev_Pass \<Rightarrow> mining_pass sha256 sha3 jobs
      | Ev_Cancel job_id \<Rightarrow> Some (snd (handle_cancel_request job_id jobs)))"

fun miner_run ::
    "(bytes \<Rightarrow> bytes) \<Rightarrow> (bytes \<Rightarrow> bytes) \<Rightarrow> codec_ops \<Rightarrow> miner_event list \<Rightarrow> mining_state \<Rightarrow> mining_state option" where
  "miner_run sha256 sha3 cd [] jobs = Some jobs"
| "miner_run sha256 sha3 cd (ev # evs) jobs =
     (case miner_step sha256 sha3 cd ev jobs of None \<Rightarrow> None | Some jobs' \<Rightarrow> miner_run sha256 sha3 cd evs jobs')"

definition miner_wf :: "(bytes \<Rightarrow> bytes) \<Rightarrow> (bytes \<Rightarrow> bytes) \<Rightarrow> mining_state \<Rightarrow> bool" where
  "miner_wf sha256 sha3 jobs \<longleftrightarrow>
     distinct (map fst jobs) \<and>
     (\<forall>(job_id, job) \<in> set jobs. job_id \<noteq> [] \<and> length (header_hash job) = 32 \<and> search_state sha256 sha3 job)"

lemma mining_pass_wf:
  "mining_pass sha256 sha3 jobs = Some jobs' \<Longrightarrow> miner_wf sha256 sha3 jobs \<Longrightarrow>
    miner_wf sha256 sha3 jobs' \<and> map fst jobs' = map fst jobs"
proof (induction jobs arbitrary: jobs')
  case (Cons entry jobs)
  obtain job_id job where e: "entry = (job_id, job)" by (cases entry)
  from Cons.prems(1) obtain job1 jobs1 where t: "job_tick sha256 sha3 job = Tick job1"
    "mining_pass sha256 sha3 jobs = Some jobs1" "jobs' = (job_id, job1) # jobs1"
    by (auto simp: e split: tick.splits)
  have wf: "miner_wf sha256 sha3 jobs" "search_state sha256 sha3 job" "length (header_hash job) = 32"
    using Cons.prems(2) by (auto simp: miner_wf_def e)
  from job_tick_search [OF wf(2) t(1)] Cons.IH [OF t(2) wf(1)] wf(3) Cons.prems(2)
  show ?case by (auto simp: miner_wf_def e t(3) same_search_def)
qed (simp add: miner_wf_def)

lemma mining_pass_get:
  "mining_pass sha256 sha3 jobs = Some jobs' \<Longrightarrow> get_job jobs job_id = Some job \<Longrightarrow>
    \<exists>job'. job_tick sha256 sha3 job = Tick job' \<and> get_job jobs' job_id = Some job'"
proof (induction jobs arbitrary: jobs')
  case (Cons entry jobs)
  then show ?case
    by (cases entry) (auto simp: get_job_def split: tick.splits if_splits)
qed (simp add: get_job_def)

lemma get_job_wf: "miner_wf sha256 sha3 jobs \<Longrightarrow> get_job jobs job_id = Some job \<Longrightarrow>
    job_id \<noteq> [] \<and> length (header_hash job) = 32 \<and> search_state sha256 sha3 job"
  by (auto simp: miner_wf_def get_job_def dest!: map_of_SomeD)

lemma handle_mine_effect:
  assumes "handle_mine_request cd rq jobs = Some ((code, r), jobs')"
  obtains (rejected) "jobs' = jobs" "code = 400 \<or> code = 409" "rs_status r = Api_Error"
  | (accepted) header threshold start "end" where "jobs' = jobs @ [(rq_job_id rq, new_job header threshold start end)]"
      "code = 200" "rs_status r = Api_Accepted"
      "get_job jobs (rq_job_id rq) = None" "rq_job_id rq \<noteq> []" "start \<le> end" "length header = 32"
      "hex_decode cd (rq_mining_hash rq) = Some header" "from_dec_str cd (rq_threshold rq) = Some threshold"
      "from_hex_str cd (rq_nonce_start rq) = Some start" "from_hex_str cd (rq_nonce_end rq) = Some end"
  using assms
  by (auto simp: handle_mine_request_def validate_mining_request_def add_job_def get_job_def Let_def not_less
      split: if_splits)

lemma miner_step_wf:
  assumes "miner_step sha256 sha3 cd ev jobs = Some jobs'" and "miner_wf sha256 sha3 jobs"
  shows "miner_wf sha256 sha3 jobs'"
proof (cases ev)
  case (Ev_Mine rq)
  then obtain code r where h: "handle_mine_request cd rq jobs = Some ((code, r), jobs')"
    using assms(1) by (auto simp: miner_step_def)
  from h show ?thesis
  proof (cases rule: handle_mine_effect)
    case (accepted header threshold start "end")
    then show ?thesis using assms(2) new_job_search_state [OF accepted(6)]
      by (auto simp: miner_wf_def get_job_def map_of_eq_None_iff new_job_def)
  qed (use assms in simp)
next
  case Ev_Pass
  then show ?thesis using assms mining_pass_wf by (auto simp: miner_step_def)
next
  case (Ev_Cancel job_id)
  then have "jobs' = filter (\<lambda>(i, _). i \<noteq> job_id) jobs"
    using assms(1) by (auto simp: miner_step_def handle_cancel_request_def remove_job_def split: option.splits)
  then show ?thesis using assms(2) by (auto simp: miner_wf_def distinct_map intro: inj_on_subset)
qed

lemma miner_step_keeps_job:
  assumes "miner_step sha256 sha3 cd ev jobs = Some jobs'" and "get_job jobs job_id = Some job"
    and "ev \<noteq> Ev_Cancel job_id" and "miner_wf sha256 sha3 jobs"
  shows "\<exists>job'. get_job jobs' job_id = Some job' \<and> same_search job job'"
proof (cases ev)
  case (Ev_Mine rq)
  then obtain code r where "handle_mine_request cd rq jobs = Some ((code, r), jobs')"
    using assms(1) by (auto simp: miner_step_def)
  then show ?thesis
    by (cases rule: handle_mine_effect) (use assms(2) in \<open>auto simp: get_job_def map_add_Some_iff\<close>)
next
  case Ev_Pass
  then show ?thesis
    using assms(1) mining_pass_get [OF _ assms(2)] get_job_wf [OF assms(4,2)] job_tick_search
    by (fastforce simp: miner_step_def)
next
  case (Ev_Cancel other)
  then have "jobs' = filter (\<lambda>(i, _). i \<noteq> other) jobs"
    using assms(1) by (auto simp: miner_step_def handle_cancel_request_def remove_job_def split: option.splits)
  moreover have "map_of (filter (\<lambda>(i, _). i \<noteq> other) jobs) job_id = map_of jobs job_id"
    using Ev_Cancel assms(3) by (induction jobs) auto
  ultimately show ?thesis using assms(2) by (auto simp: get_job_def)
qed

lemma miner_run_wf:
  "miner_run sha256 sha3 cd evs jobs = Some jobs' \<Longrightarrow> miner_wf sha256 sha3 jobs \<Longrightarrow> miner_wf sha256 sha3 jobs'"
  by (induction evs arbitrary: jobs) (auto split: option.splits dest: miner_step_wf)

lemma miner_run_keeps_job:
  "miner_run sha256 sha3 cd evs jobs = Some jobs' \<Longrightarrow> miner_wf sha256 sha3 jobs \<Longrightarrow>
    get_job jobs job_id = Some job \<Longrightarrow> Ev_Cancel job_id \<notin> set evs \<Longrightarrow>
    \<exists>job'. get_job jobs' job_id = Some job' \<and> same_search job job'"
proof (induction evs arbitrary: jobs job)
  case (Cons ev evs)
  then obtain jobs1 where j: "miner_step sha256 sha3 cd ev jobs = Some jobs1"
    "miner_run sha256 sha3 cd evs jobs1 = Some jobs'"
    by (auto split: option.splits)
  obtain job1 where g: "get_job jobs1 job_id = Some job1" "same_search job job1"
    using miner_step_keeps_job [OF j(1) Cons.prems(3) _ Cons.prems(2)] Cons.prems(4) by auto
  from Cons.IH [OF j(2) miner_step_wf [OF j(1) Cons.prems(2)] g(1)] Cons.prems(4) g(2)
  show ?case by (auto intro: same_search_trans)
qed auto

section \<open>The node and the miner\<close>

text \<open>What both sides rely on of the conversions: decoding undoes encoding, and the lengths.\<close>

definition codec_law :: "codec_ops \<Rightarrow> bool" where
  "codec_law cd \<longleftrightarrow>
     (\<forall>bs. hex_decode cd (hex_encode cd bs) = Some bs) \<and>
     (\<forall>s bs. hex_decode cd s = Some bs \<longrightarrow> length s = 2 * length bs) \<and>
     (\<forall>n. from_hex_str cd (hex_padded cd n) = Some n \<and> length (hex_padded cd n) = 128) \<and>
     (\<forall>n. from_dec_str cd (to_dec_str cd n) = Some n)"

lemma codec_encode_length: "codec_law cd \<Longrightarrow> length (hex_encode cd bs) = 2 * length bs"
  by (auto simp: codec_law_def)

lemma node_request_accepted:
  assumes "codec_law cd" and "job_id \<noteq> []" and "start \<le> end" and "get_job jobs job_id = None"
  shows "handle_mine_request cd (mining_request_for cd job_id mining_hash threshold start end) jobs =
    Some ((200, \<lparr> rs_status = Api_Accepted, rs_job_id = job_id, rs_message = None \<rparr>),
      jobs @ [(job_id, new_job (to_be 32 mining_hash) threshold start end)])"
proof -
  have c: "hex_decode cd (hex_encode cd bs) = Some bs" "from_hex_str cd (hex_padded cd n) = Some n"
    "length (hex_padded cd n) = 128" "from_dec_str cd (to_dec_str cd n) = Some n" for bs n
    using assms(1) by (auto simp: codec_law_def)
  show ?thesis
    using assms(2-4)
    by (simp add: handle_mine_request_def validate_mining_request_def mining_request_for_def c
        codec_encode_length [OF assms(1)] add_job_def get_job_def)
qed

lemma check_result_of_job:
  assumes "codec_law cd" and "get_job jobs job_id = Some job"
  shows "check_mining_result cd (\<lambda>i. Inr (snd (handle_result_request cd i jobs))) job_id =
    (case job_status job of
       Running \<Rightarrow> Inr None
     | Completed \<Rightarrow> Inr (Some (to_be 64 (current_nonce job)))
     | Failed \<Rightarrow> Inl ''Mining job failed (miner reported)'')"
  using assms
  by (auto simp: check_mining_result_def handle_result_request_def codec_law_def split: job_status.splits)

section \<open>Conversions for the witnesses\<close>

definition digit_char :: "nat \<Rightarrow> char" where
  "digit_char n = char_of (if n < 10 then 48 + n else 87 + n)"

definition char_digit :: "char \<Rightarrow> nat option" where
  "char_digit c =
     (let k = of_char c :: nat
      in if 48 \<le> k \<and> k \<le> 57 then Some (k - 48) else if 97 \<le> k \<and> k \<le> 102 then Some (k - 87) else None)"

lemma char_digit_char: "n < 16 \<Longrightarrow> char_digit (digit_char n) = Some n"
  by (auto simp: char_digit_def digit_char_def of_char_of Let_def)

fun to_hex :: "bytes \<Rightarrow> string" where
  "to_hex [] = []"
| "to_hex (b # bs) = digit_char (unat b div 16) # digit_char (unat b mod 16) # to_hex bs"

fun of_hex :: "string \<Rightarrow> bytes option" where
  "of_hex [] = Some []"
| "of_hex [c] = None"
| "of_hex (c # d # s) =
     (case (char_digit c, char_digit d, of_hex s) of
        (Some h, Some l, Some bs) \<Rightarrow> Some (word_of_nat (16 * h + l) # bs)
      | _ \<Rightarrow> None)"

lemma of_hex_to_hex: "of_hex (to_hex bs) = Some bs"
proof (induction bs)
  case (Cons b bs)
  have "unat b < 256" using unat_lt_max [of b] by simp
  then have "unat b div 16 < 16" by (simp add: less_mult_imp_div_less)
  with Cons.IH show ?case by (simp add: char_digit_char)
qed simp

lemma length_to_hex [simp]: "length (to_hex bs) = 2 * length bs"
  by (induction bs) auto

lemma length_of_hex: "of_hex s = Some bs \<Longrightarrow> length s = 2 * length bs"
  by (induction s arbitrary: bs rule: of_hex.induct) (auto split: option.splits)

fun to_dec :: "nat \<Rightarrow> string" where
  "to_dec n = (if n < 10 then [digit_char n] else to_dec (n div 10) @ [digit_char (n mod 10)])"

declare to_dec.simps [simp del]

fun of_dec :: "nat \<Rightarrow> string \<Rightarrow> nat option" where
  "of_dec acc [] = Some acc"
| "of_dec acc (c # s) =
     (case char_digit c of Some d \<Rightarrow> if d < 10 then of_dec (10 * acc + d) s else None | None \<Rightarrow> None)"

lemma of_dec_append: "of_dec acc (s @ t) = (case of_dec acc s of None \<Rightarrow> None | Some a \<Rightarrow> of_dec a t)"
  by (induction s arbitrary: acc) (auto split: option.splits)

lemma of_dec_to_dec: "of_dec 0 (to_dec n) = Some n"
proof (induction n rule: to_dec.induct)
  case (1 n)
  show ?case
  proof (cases "n < 10")
    case True
    then show ?thesis by (subst to_dec.simps) (simp add: char_digit_char)
  next
    case False
    then show ?thesis using 1
      by (subst to_dec.simps) (simp add: of_dec_append char_digit_char)
  qed
qed

definition text_codec :: codec_ops where
  "text_codec =
     \<lparr> hex_encode = to_hex, hex_decode = of_hex,
       from_dec_str = (\<lambda>s. case of_dec 0 s of None \<Rightarrow> None | Some n \<Rightarrow> if n < 2 ^ 512 then Some (word_of_nat n) else None),
       from_hex_str = (\<lambda>s. map_option from_be (of_hex s)),
       to_dec_str = (\<lambda>n. to_dec (unat n)),
       hex_padded = (\<lambda>n. to_hex (to_be 64 n)),
       hex_short = (\<lambda>n. to_hex (to_be 64 n)) \<rparr>"

lemma text_codec_law: "codec_law text_codec"
proof -
  have "unat n < 2 ^ 512" for n :: u512 using unat_lt_max [of n] by simp
  moreover have "from_be (to_be 64 n) = n" for n :: u512 by (rule from_be_to_be) simp
  ultimately show ?thesis
    by (simp add: codec_law_def text_codec_def of_hex_to_hex length_of_hex of_dec_to_dec)
qed

section \<open>Properties\<close>



text \<open>Whatever requests, cancellations and passes the miner handles, in whatever order, its jobs stay
  well formed: at most one job for an identifier, no empty identifier, header hashes of 32 bytes, the
  current nonce within the range, and every nonce before it tried and found invalid.\<close>

theorem miner_jobs_wellformed:
  assumes "miner_run sha256 sha3 cd evs [] = Some jobs"
  shows "distinct (map fst jobs) \<and>
    (\<forall>(job_id, job) \<in> set jobs. job_id \<noteq> [] \<and> length (header_hash job) = 32 \<and> search_state sha256 sha3 job)"
  using miner_run_wf [OF assms] by (simp add: miner_wf_def)

theorem miner_jobs_wellformed_witness:
  "\<exists>jobs. miner_run two_hash nine_hash text_codec
      [Ev_Mine (mining_request_for text_codec ''a'' 1 3 6 7), Ev_Cancel ''b''] [] = Some jobs \<and>
    length jobs = 1 \<and> distinct (map fst jobs)"
proof -
  have run: "miner_run two_hash nine_hash text_codec
      [Ev_Mine (mining_request_for text_codec ''a'' 1 3 6 7), Ev_Cancel ''b''] []
     = Some [(''a'', new_job (to_be 32 (1 :: 256 word)) 3 6 7)]"
    by (simp add: miner_step_def node_request_accepted [OF text_codec_law] get_job_def
        handle_cancel_request_def remove_job_def)
  with miner_jobs_wellformed [OF run] show ?thesis by simp
qed

text \<open>A run of the miner on concrete hashes: the nonce 6 is valid whatever the threshold.\<close>

lemma toy_miner_finds:
  obtains jobs' where
    "miner_run two_hash nine_hash text_codec [Ev_Mine (mining_request_for text_codec ''a'' 1 t 6 7), Ev_Pass] [] = Some jobs'"
    "check_mining_result text_codec (\<lambda>i. Inr (snd (handle_result_request text_codec i jobs'))) ''a''
      = Inr (Some (to_be 64 (6 :: u512)))"
proof -
  let ?job = "new_job (to_be 32 (1 :: 256 word)) t 6 7"
  let ?done = "(hash_counted ?job 6)\<lparr> job_status := Completed \<rparr>"
  have "to_be 32 (1 :: 256 word) = toy_header" "to_be 64 (6 :: u512) = toy_nonce" by code_simp+
  then have "is_valid_nonce two_hash nine_hash (header_hash ?job) (to_be 64 (6 :: u512)) (distance_threshold ?job)
      = Some True"
    by (simp add: new_job_def toy_valid_any)
  then have "job_tick two_hash nine_hash ?job = Tick ?done"
    by (subst job_tick_running [where n = 6]) (auto simp: new_job_def next_nonce_def)
  then have run: "miner_run two_hash nine_hash text_codec
      [Ev_Mine (mining_request_for text_codec ''a'' 1 t 6 7), Ev_Pass] [] = Some [(''a'', ?done)]"
    by (simp add: miner_step_def node_request_accepted [OF text_codec_law] get_job_def)
  have g: "get_job [(''a'', ?done)] ''a'' = Some ?done" by (simp add: get_job_def)
  show ?thesis by (rule that [OF run]) (simp add: check_result_of_job [OF text_codec_law g])
qed

lemma toy_miner_laws:
  "''a'' \<noteq> []" "(6 :: u512) \<le> 7" "miner_wf two_hash nine_hash []" "get_job [] ''a'' = None" "Ev_Cancel ''a'' \<notin> set [Ev_Pass]"
  by (simp_all add: miner_wf_def get_job_def)

text \<open>The property below, as a lemma for the node's mining loop.\<close>

lemma external_mining:
  assumes codec: "codec_law cd" and id: "job_id \<noteq> []" and range: "start \<le> end"
    and wf: "miner_wf sha256 sha3 jobs" and fresh: "get_job jobs job_id = None"
    and others: "Ev_Cancel job_id \<notin> set evs"
    and run: "miner_run sha256 sha3 cd
      (Ev_Mine (mining_request_for cd job_id mining_hash threshold start end) # evs) jobs = Some jobs'"
  shows "submit_mining_job cd (\<lambda>rq. Inr (snd (fst (the (handle_mine_request cd rq jobs)))))
      job_id mining_hash threshold start end = Inr () \<and>
    (check_mining_result cd (\<lambda>i. Inr (snd (handle_result_request cd i jobs'))) job_id = Inr None \<or>
     check_mining_result cd (\<lambda>i. Inr (snd (handle_result_request cd i jobs'))) job_id
       = Inl ''Mining job failed (miner reported)'' \<or>
     (\<exists>n. check_mining_result cd (\<lambda>i. Inr (snd (handle_result_request cd i jobs'))) job_id = Inr (Some (to_be 64 n)) \<and>
        start \<le> n \<and> n \<le> end \<and>
        is_valid_nonce sha256 sha3 (to_be 32 mining_hash) (to_be 64 n) threshold = Some True))"
proof -
  let ?job = "new_job (to_be 32 mining_hash) threshold start end"
  let ?ev = "Ev_Mine (mining_request_for cd job_id mining_hash threshold start end)"
  note accepted = node_request_accepted [OF codec id range fresh, of mining_hash threshold]
  then have step: "miner_step sha256 sha3 cd ?ev jobs = Some (jobs @ [(job_id, ?job)])"
    by (simp add: miner_step_def)
  note wf1 = miner_step_wf [OF step wf]
  have g: "get_job (jobs @ [(job_id, ?job)]) job_id = Some ?job"
    using fresh by (simp add: get_job_def map_add_def)
  have run1: "miner_run sha256 sha3 cd evs (jobs @ [(job_id, ?job)]) = Some jobs'"
    using run step by simp
  obtain job where job: "get_job jobs' job_id = Some job" "same_search ?job job"
    using miner_run_keeps_job [OF run1 wf1 g others] by blast
  have "search_state sha256 sha3 job"
    using get_job_wf [OF miner_run_wf [OF run1 wf1] job(1)] by simp
  with job(2) accepted show ?thesis
    by (cases "job_status job")
       (auto simp: check_result_of_job [OF codec job(1)] submit_mining_job_def
          search_state_def same_search_def new_job_def)
qed



end
