(* ===== verification/RuntimeApi.thy ===== *)
theory RuntimeApi
  imports RuntimeConfig PowClientLaw ExternalMinerLaw
begin

text \<open>
  The runtime behind the client. The runtime interface (\<open>runtime/src/apis.rs\<close>, declared in
  \<open>primitives/consensus/qpow\<close>) answers from the state of the QPoW pallet after a block, and the changes a call
  makes are dropped. With it in the place of the client's parameters the parts meet: what the client verifies
  is what the pallet checks, what the miners find is what the import accepts, and the total difficulty the
  client keeps (\<open>primitives/consensus/pow\<close>) is the total work of the runtime.
\<close>

section \<open>The runtime interface\<close>

definition api_verify_for_import ::
    "(bytes \<Rightarrow> bytes) \<Rightarrow> (bytes \<Rightarrow> bytes) \<Rightarrow> qpow_config \<Rightarrow> bytes \<Rightarrow> bytes \<Rightarrow> qpow_state \<Rightarrow> (bool \<times> qpow_state) option" where
  "api_verify_for_import sha256 sha3 cfg header nonce s = verify_for_import sha256 sha3 cfg header nonce s"

definition api_verify_historical_block ::
    "(bytes \<Rightarrow> bytes) \<Rightarrow> (bytes \<Rightarrow> bytes) \<Rightarrow> bytes \<Rightarrow> bytes \<Rightarrow> u32 \<Rightarrow> qpow_state \<Rightarrow> bool option" where
  "api_verify_historical_block sha256 sha3 header nonce block_number s =
     verify_historical_block sha256 sha3 header nonce block_number s"

definition api_submit_nonce ::
    "(bytes \<Rightarrow> bytes) \<Rightarrow> (bytes \<Rightarrow> bytes) \<Rightarrow> qpow_config \<Rightarrow> bytes \<Rightarrow> bytes \<Rightarrow> qpow_state \<Rightarrow> (bool \<times> qpow_state) option" where
  "api_submit_nonce sha256 sha3 cfg header nonce s = submit_nonce sha256 sha3 cfg header nonce s"

definition api_max_reorg_depth :: "qpow_config \<Rightarrow> qpow_state \<Rightarrow> u32" where
  "api_max_reorg_depth cfg s = MaxReorgDepth cfg"

definition api_difficulty :: "qpow_config \<Rightarrow> qpow_state \<Rightarrow> u512 option" where
  "api_difficulty cfg s = get_difficulty cfg s"

definition api_distance_threshold :: "qpow_config \<Rightarrow> qpow_state \<Rightarrow> u512" where
  "api_distance_threshold cfg s = get_distance_threshold cfg s"

definition api_distance_threshold_at_block :: "u32 \<Rightarrow> qpow_state \<Rightarrow> u512" where
  "api_distance_threshold_at_block block_number s = get_distance_threshold_at_block block_number s"

definition api_total_work :: "qpow_state \<Rightarrow> u512" where
  "api_total_work s = TotalWork s"

definition api_block_time_sum :: "qpow_config \<Rightarrow> qpow_state \<Rightarrow> u64" where
  "api_block_time_sum cfg s = get_block_time_sum cfg s"

definition api_median_block_time :: "qpow_config \<Rightarrow> qpow_state \<Rightarrow> u64" where
  "api_median_block_time cfg s = get_median_block_time cfg s"

definition api_last_block_time :: "qpow_state \<Rightarrow> u64" where
  "api_last_block_time s = LastBlockTime s"

definition api_last_block_duration :: "qpow_state \<Rightarrow> u64" where
  "api_last_block_duration s = LastBlockDuration s"

definition api_latest_nonce :: "qpow_state \<Rightarrow> bytes option" where
  "api_latest_nonce s = LatestNonce s"

definition api_random_rsa :: "(bytes \<Rightarrow> bytes) \<Rightarrow> (bytes \<Rightarrow> bytes) \<Rightarrow> bytes \<Rightarrow> (u512 \<times> u512) option" where
  "api_random_rsa sha256 sha3 header = get_random_rsa sha256 sha3 header"

definition api_hash_to_group_bigint :: "u512 \<Rightarrow> u512 \<Rightarrow> u512 \<Rightarrow> u512 \<Rightarrow> u512 option" where
  "api_hash_to_group_bigint h m n solution = hash_to_group_bigint h m n solution"

definition api_max_distance :: "qpow_config \<Rightarrow> u512" where
  "api_max_distance cfg = get_max_distance cfg"

definition api_nonce_distance :: "(bytes \<Rightarrow> bytes) \<Rightarrow> (bytes \<Rightarrow> bytes) \<Rightarrow> bytes \<Rightarrow> bytes \<Rightarrow> u512 option" where
  "api_nonce_distance sha256 sha3 header nonce = get_nonce_distance sha256 sha3 header nonce"

text \<open>The faucet's view of an account, and the nonce the system keeps.\<close>

definition api_account_balance :: "'e bal_config \<Rightarrow> account \<Rightarrow> 'e bal_state \<Rightarrow> balance \<times> balance" where
  "api_account_balance cfg account s = (free_balance cfg s account, reserved_balance cfg s account)"

definition api_account_nonce :: "'e bal_config \<Rightarrow> account \<Rightarrow> 'e bal_state \<Rightarrow> u32" where
  "api_account_nonce cfg account s = sys_account_nonce (sy cfg) (sys s) account"

text \<open>There are no session keys.\<close>

definition generate_session_keys :: "bytes option \<Rightarrow> bytes" where
  "generate_session_keys seed = []"

definition decode_session_keys :: "bytes \<Rightarrow> (bytes \<times> u32) list option" where
  "decode_session_keys encoded = None"

section \<open>The client on top of it\<close>

text \<open>\<open>states x h\<close> is the state of the pallet after the block with hash \<open>h\<close>, as the node at \<open>x\<close> stores it. A
  call on an unknown block, or one that traps, is an error; so is here one that does not return.\<close>

definition at_block :: "('x \<Rightarrow> h256 \<Rightarrow> qpow_state option) \<Rightarrow> 'x \<Rightarrow> h256 \<Rightarrow> (qpow_state \<Rightarrow> 'a option) \<Rightarrow> string + 'a" where
  "at_block states x h call =
     (case states x h of
        None \<Rightarrow> Inl ''Unknown block''
      | Some s \<Rightarrow> (case call s of None \<Rightarrow> Inl ''Runtime call failed'' | Some y \<Rightarrow> Inr y))"

definition runtime_client ::
    "(bytes \<Rightarrow> bytes) \<Rightarrow> (bytes \<Rightarrow> bytes) \<Rightarrow> qpow_config \<Rightarrow> ('x \<Rightarrow> h256 \<Rightarrow> qpow_state option) \<Rightarrow> 'x client_ops \<Rightarrow> 'x client_ops" where
  "runtime_client sha256 sha3 cfg states cl =
     cl\<lparr> cl_total_work := (\<lambda>x h. at_block states x h (\<lambda>s. Some (api_total_work s))),
         cl_max_reorg_depth := (\<lambda>x h. at_block states x h (\<lambda>s. Some (api_max_reorg_depth cfg s))),
         cl_difficulty := (\<lambda>x h. at_block states x h (api_difficulty cfg)),
         cl_verify_for_import := (\<lambda>x h header nonce.
           at_block states x h (\<lambda>s. map_option fst (api_verify_for_import sha256 sha3 cfg header nonce s))),
         cl_submit_nonce := (\<lambda>x h header nonce.
           at_block states x h (\<lambda>s. map_option fst (api_submit_nonce sha256 sha3 cfg header nonce s))) \<rparr>"

text \<open>\<open>TotalDifficulty\<close> for \<open>U512\<close>.\<close>

definition increment_total :: "u512 \<Rightarrow> u512 \<Rightarrow> u512" where
  "increment_total a b = sat_add a b"

section \<open>Chains of blocks\<close>

text \<open>What a block does to the pallet: \<open>on_idle\<close> when weight is left, and \<open>on_finalize\<close>. No call writes its storage.\<close>

definition run_block ::
    "(u128 \<Rightarrow> u128 \<Rightarrow> u128 option) \<Rightarrow> qpow_config \<Rightarrow> bool \<Rightarrow> u64 \<Rightarrow> u32 \<Rightarrow> qpow_state \<Rightarrow> qpow_state option" where
  "run_block fr cfg idle now n s = on_finalize fr cfg now n (if idle then on_idle cfg now s else s)"

text \<open>The states along a chain, the newest first; the block on top of \<open>k\<close> others has the number \<open>k\<close>, and blocks
  carry a time that is not zero.\<close>

inductive chain :: "(u128 \<Rightarrow> u128 \<Rightarrow> u128 option) \<Rightarrow> qpow_config \<Rightarrow> qpow_state list \<Rightarrow> bool" for fr cfg where
  genesis: "chain fr cfg [genesis_build cfg empty_qpow]"
| block: "chain fr cfg (s # ss) \<Longrightarrow> now \<noteq> 0 \<Longrightarrow> length (s # ss) < 2 ^ 32 \<Longrightarrow>
    run_block fr cfg idle now (word_of_nat (length (s # ss))) s = Some s' \<Longrightarrow> chain fr cfg (s' # s # ss)"

inductive_cases chain_NilE [elim!]: "chain fr cfg []"
inductive_cases chain_ConsE: "chain fr cfg (s # ss)"

definition block_work :: "qpow_config \<Rightarrow> qpow_state \<Rightarrow> nat" where
  "block_work cfg s = unat (get_max_distance cfg) div unat (get_distance_threshold cfg s)"


section \<open>What a chain keeps\<close>

definition idle_harmless :: "qpow_config \<Rightarrow> qpow_state \<Rightarrow> bool" where
  "idle_harmless cfg s \<longleftrightarrow> qpow_ok cfg s \<and> CurrentDistanceThreshold s \<noteq> 0 \<and>
     (LastBlockTime s = 0 \<longrightarrow> CurrentDistanceThreshold s = get_initial_distance_threshold cfg)"

lemma stored_threshold:
  "idle_harmless cfg s \<Longrightarrow> get_distance_threshold cfg s = CurrentDistanceThreshold s"
  by (simp add: idle_harmless_def get_distance_threshold_def)

lemma run_block_effect:
  assumes g: "good_config cfg" and fr: "floor_rational_law fr" and h: "idle_harmless cfg s" and now: "now \<noteq> 0"
    and r: "run_block fr cfg idle now n s = Some s'"
  shows "idle_harmless cfg s'"
    and "BlockDistanceThresholds s' = (BlockDistanceThresholds s)(n := CurrentDistanceThreshold s)"
    and "TotalWork s' = sat_add (TotalWork s) (get_max_distance cfg div CurrentDistanceThreshold s)"
    and "LatestNonce s' = LatestNonce s"
proof -
  let ?t = "if idle then on_idle cfg now s else s"
  have same: "CurrentDistanceThreshold ?t = CurrentDistanceThreshold s" "TotalWork ?t = TotalWork s"
      "BlockDistanceThresholds ?t = BlockDistanceThresholds s" "LatestNonce ?t = LatestNonce s" "qpow_ok cfg ?t"
    using h by (auto simp: on_idle_def idle_harmless_def qpow_ok_def)
  have "CurrentDistanceThreshold ?t \<noteq> 0" using h same by (simp add: idle_harmless_def)
  from on_finalize_result(1) [OF g fr same(5) this, of now n] r
  have "qpow_ok cfg s' \<and> BlockDistanceThresholds s' = (BlockDistanceThresholds ?t)(n := CurrentDistanceThreshold ?t) \<and>
      TotalWork s' = sat_add (TotalWork ?t) (get_max_distance cfg div CurrentDistanceThreshold ?t) \<and>
      LastBlockTime s' = now \<and> LatestNonce s' = LatestNonce ?t \<and> CurrentDistanceThreshold s' \<noteq> 0"
    by (auto simp: run_block_def)
  with same now show "idle_harmless cfg s'"
    and "BlockDistanceThresholds s' = (BlockDistanceThresholds s)(n := CurrentDistanceThreshold s)"
    and "TotalWork s' = sat_add (TotalWork s) (get_max_distance cfg div CurrentDistanceThreshold s)"
    and "LatestNonce s' = LatestNonce s"
    by (auto simp: idle_harmless_def)
qed

lemma run_block_work:
  assumes "good_config cfg" "floor_rational_law fr" "idle_harmless cfg s" "now \<noteq> 0"
    and "run_block fr cfg idle now n s = Some s'"
  shows "unat (TotalWork s') = min (unat (TotalWork s) + block_work cfg s) (2 ^ 512 - 1)"
  using run_block_effect(3) [OF assms] stored_threshold [OF assms(3)]
  by (simp add: mach_nat unat_div block_work_def)

definition chain_inv :: "qpow_config \<Rightarrow> qpow_state \<Rightarrow> qpow_state list \<Rightarrow> bool" where
  "chain_inv cfg s ss \<longleftrightarrow> idle_harmless cfg s \<and> LatestNonce s = Some zero_nonce \<and>
     unat (TotalWork s) = min (1 + sum_list (map (block_work cfg) ss)) (2 ^ 512 - 1) \<and>
     (\<forall>i<length ss. BlockDistanceThresholds s (word_of_nat (length ss - i)) = get_distance_threshold cfg (ss ! i))"

lemma chain_inv_genesis: "good_config cfg \<Longrightarrow> chain_inv cfg (genesis_build cfg empty_qpow) []"
  using initial_threshold_range [of cfg]
  by (simp add: chain_inv_def idle_harmless_def genesis_build_def empty_qpow_def Let_def qpow_ok_def zero_nonce_def
      good_config_def)

lemma chain_inv_step:
  assumes g: "good_config cfg" and fr: "floor_rational_law fr" and i: "chain_inv cfg s ss" and now: "now \<noteq> 0"
    and len: "length (s # ss) < 2 ^ 32" and r: "run_block fr cfg idle now (word_of_nat (length (s # ss))) s = Some s'"
  shows "chain_inv cfg s' (s # ss)"
proof -
  have h: "idle_harmless cfg s" using i by (simp add: chain_inv_def)
  note e = run_block_effect [OF g fr h now r] and w = run_block_work [OF g fr h now r]
  have th: "BlockDistanceThresholds s' (word_of_nat (length (s # ss) - k)) = get_distance_threshold cfg ((s # ss) ! k)"
    if "k < length (s # ss)" for k
  proof (cases k)
    case 0
    then show ?thesis using e(2) stored_threshold [OF h] by simp
  next
    case (Suc j)
    then have j: "j < length ss" using that by simp
    have "(word_of_nat (length ss - j) :: u32) \<noteq> word_of_nat (length (s # ss))"
      by (subst word_of_nat_small) (use len j in simp_all)
    then show ?thesis using e(2) i j Suc by (simp add: chain_inv_def)
  qed
  have tw: "unat (TotalWork s') = min (1 + sum_list (map (block_work cfg) (s # ss))) (2 ^ 512 - 1)"
    using i unfolding chain_inv_def w by (simp only: min_plus list.map sum_list.Cons)
  have n: "LatestNonce s' = Some zero_nonce" using e(4) i by (simp add: chain_inv_def)
  show ?thesis unfolding chain_inv_def by (intro conjI allI impI e(1) n tw th)
qed

lemma block_work_pos:
  assumes g: "good_config cfg" and h: "idle_harmless cfg s"
  shows "1 \<le> block_work cfg s"
proof -
  have "unat (CurrentDistanceThreshold s) \<noteq> 0" "unat (CurrentDistanceThreshold s) \<le> unat (get_max_distance cfg)"
    using h by (auto simp: idle_harmless_def qpow_ok_def word_le_nat_alt unat_gt_0)
  then show ?thesis using stored_threshold [OF h] by (simp add: block_work_def Suc_le_eq div_greater_zero_iff)
qed

lemma chain_inv_chain:
  assumes "good_config cfg" "floor_rational_law fr" "chain fr cfg l"
  obtains s ss where "l = s # ss" "chain_inv cfg s ss"
proof -
  from assms(3) have "\<exists>s ss. l = s # ss \<and> chain_inv cfg s ss"
  proof induction
    case genesis
    then show ?case using chain_inv_genesis [OF assms(1)] by blast
  next
    case (block s ss now idle s')
    then show ?case using chain_inv_step [OF assms(1,2)] by blast
  qed
  then show ?thesis using that by blast
qed


lemma chain_blocks_harmless:
  assumes g: "good_config cfg" and fr: "floor_rational_law fr" and c: "chain fr cfg l"
  shows "\<forall>p \<in> set l. idle_harmless cfg p"
  using c
proof induction
  case genesis
  then show ?case using chain_inv_genesis [OF g] by (simp add: chain_inv_def)
next
  case (block s ss now idle s')
  then show ?case using run_block_effect(1) [OF g fr] by auto
qed

section \<open>What the client sees of it\<close>

lemma api_verify_iff:
  "map_option fst (api_verify_for_import sha256 sha3 cfg header nonce s) =
     is_valid_nonce sha256 sha3 header nonce (get_distance_threshold cfg s)"
  by (simp add: api_verify_for_import_def verify_for_import_def split: option.split)

lemma api_submit_iff:
  "map_option fst (api_submit_nonce sha256 sha3 cfg header nonce s) =
     is_valid_nonce sha256 sha3 header nonce (get_distance_threshold cfg s)"
  by (simp add: api_submit_nonce_def submit_nonce_def split: option.split)

lemma at_block_Inr: "at_block states x h call = Inr y \<longleftrightarrow> (\<exists>s. states x h = Some s \<and> call s = Some y)"
  by (simp add: at_block_def split: option.split)

text \<open>The client accepts exactly the seals of 64 bytes that are valid at the threshold after the parent.\<close>

definition seal_has_work ::
    "(bytes \<Rightarrow> bytes) \<Rightarrow> (bytes \<Rightarrow> bytes) \<Rightarrow> qpow_config \<Rightarrow> qpow_state \<Rightarrow> h256 \<Rightarrow> bytes \<Rightarrow> bool" where
  "seal_has_work sha256 sha3 cfg s ph seal \<longleftrightarrow> length seal = 64 \<and>
     is_valid_nonce sha256 sha3 (to_be 32 ph) seal (get_distance_threshold cfg s) = Some True"

lemma seal_has_work_distance:
  "seal_has_work sha256 sha3 cfg s ph seal \<longleftrightarrow> length seal = 64 \<and> seal \<noteq> zero_nonce \<and>
     (\<exists>d. get_nonce_distance sha256 sha3 (to_be 32 ph) seal = Some d \<and> d \<le> get_distance_threshold cfg s)"
  by (auto simp: seal_has_work_def is_valid_nonce_def)

lemma runtime_verify_iff:
  "algorithm_verify (runtime_client sha256 sha3 cfg states cl) x (BlockId_Hash p) ph pre seal d = Inr True \<longleftrightarrow>
     (\<exists>s. states x p = Some s \<and> seal_has_work sha256 sha3 cfg s ph seal)"
  by (auto simp: algorithm_verify_def extract_block_hash_def runtime_client_def at_block_def api_verify_iff
      seal_has_work_def split: option.splits)

lemma runtime_difficulty_Inr:
  "algorithm_difficulty (runtime_client sha256 sha3 cfg states cl) x p = Inr d \<longleftrightarrow>
     (\<exists>s. states x p = Some s \<and> get_difficulty cfg s = Some d)"
  by (auto simp: algorithm_difficulty_def runtime_client_def at_block_def api_difficulty_def split: option.splits)

lemma runtime_try_nonce:
  "try_nonce (runtime_client sha256 sha3 cfg states cl) x p ph nonce = Some seal \<longleftrightarrow>
     seal = nonce \<and> (\<exists>s. states x p = Some s \<and>
       is_valid_nonce sha256 sha3 (to_be 32 ph) nonce (get_distance_threshold cfg s) = Some True)"
  by (auto simp: try_nonce_def runtime_client_def at_block_def api_submit_iff split: option.splits bool.splits)


end
