(* ===== verification/RuntimeNode.thy ===== *)
theory RuntimeNode
  imports RuntimeApi
begin

text \<open>
  A node on top of its runtime: a sequence of imports over a database that runs each block on the state of its
  parent (\<open>block_store_law\<close>), the invariant that the client's totals are the runtime's total work, and the
  properties that span the client, the runtime interface, the pallet and the miners.
\<close>

section \<open>The node as a sequence of imports\<close>

text \<open>What the database promises: an import that succeeds has run the block on the state of its parent, keeps
  the state it ends in under the hash of the block, and stores the auxiliary entries of the block, which
  read back as they were written.\<close>

definition block_store_law ::
    "(u128 \<Rightarrow> u128 \<Rightarrow> u128 option) \<Rightarrow> qpow_config \<Rightarrow> ('x \<Rightarrow> h256 \<Rightarrow> qpow_state option)
      \<Rightarrow> ('x, 'h, u512, 'b, 'i, 'n) import_ops \<Rightarrow> bool" where
  "block_store_law fr cfg states ops \<longleftrightarrow>
     (\<forall>a. decode_aux ops (encode_aux ops a) = Some a) \<and>
     (\<forall>b x x'. inner_import ops b x = (Inr (), x') \<longrightarrow>
        (\<exists>idle now s s'. now \<noteq> 0 \<and> states x (h_parent (bp_header b)) = Some s \<and>
           run_block fr cfg idle now (h_number (bp_header b)) s = Some s' \<and>
           states x' = (states x)(post_hash_of ops b \<mapsto> s')) \<and>
        (\<forall>k. get_aux ops x' k =
           (case map_of (rev (bp_auxiliary b)) k of Some v \<Rightarrow> Inr v | None \<Rightarrow> get_aux ops x k)))"

text \<open>A node that starts with the genesis block \<open>g\<close> and imports blocks of the network, whose parameters carry
  no auxiliary entries.\<close>

inductive node_runs ::
    "('x, 'h, u512, 'b, 'i, 'n) import_ops \<Rightarrow> ('x, u512) pow_algorithm \<Rightarrow> ('x \<Rightarrow> h256 \<Rightarrow> qpow_state option)
      \<Rightarrow> qpow_config \<Rightarrow> 'x \<Rightarrow> bool"
  for ops alg states cfg where
  start: "states x = [g \<mapsto> genesis_build cfg empty_qpow] \<Longrightarrow> (\<And>h. get_aux ops x (pow_aux_key h) = Inr None) \<Longrightarrow>
    node_runs ops alg states cfg x"
| import: "node_runs ops alg states cfg x \<Longrightarrow> bp_auxiliary block = [] \<Longrightarrow> verify_block ops alg x0 block = Inr block' \<Longrightarrow>
    import_block ops alg block' x = (Inr u, x') \<Longrightarrow> node_runs ops alg states cfg x'"

text \<open>The total of the client for a block, and the total work of the runtime after it, which starts at one.\<close>

definition total_agrees :: "u512 pow_aux \<Rightarrow> qpow_state \<Rightarrow> bool" where
  "total_agrees a s \<longleftrightarrow> unat (TotalWork s) = min (1 + unat (aux_total a)) (2 ^ 512 - 1)"

definition node_inv ::
    "('x, 'h, u512, 'b, 'i, 'n) import_ops \<Rightarrow> ('x \<Rightarrow> h256 \<Rightarrow> qpow_state option) \<Rightarrow> qpow_config \<Rightarrow> 'x \<Rightarrow> bool" where
  "node_inv ops states cfg x \<longleftrightarrow>
     (\<forall>h s. states x h = Some s \<longrightarrow> idle_harmless cfg s \<and> (\<exists>a. read_aux ops x h = Inr a \<and> total_agrees a s))"

lemma pow_aux_key_inj: "pow_aux_key h = pow_aux_key h' \<longleftrightarrow> h = h'"
proof
  assume "pow_aux_key h = pow_aux_key h'"
  then have "(from_be (to_be 32 h) :: hash256) = from_be (to_be 32 h')" by (simp add: pow_aux_key_def)
  then show "h = h'" by (simp add: from_be_to_be)
qed simp

lemma total_agrees_step:
  assumes g: "good_config cfg" and a: "total_agrees a s" and d: "get_difficulty cfg s = Some d"
    and w: "unat (TotalWork s') = min (unat (TotalWork s) + block_work cfg s) (2 ^ 512 - 1)"
  shows "total_agrees \<lparr> aux_difficulty = d, aux_total = increment_total (aux_total a) d \<rparr> s'"
proof -
  have d: "unat d = block_work cfg s"
    using d get_distance_threshold_pos [OF g, of s]
    by (auto simp: get_difficulty_def checked_div_def block_work_def unat_div split: if_splits)
  define m :: nat where "m = 2 ^ 512 - 1"
  have "unat (increment_total (aux_total a) d) = min (unat (aux_total a) + block_work cfg s) m"
    by (simp add: increment_total_def unat_sat_add d m_def)
  then show ?thesis
    using w a unfolding total_agrees_def m_def [symmetric] by (simp add: min_plus)
qed


text \<open>What an import of a block of the network has checked and done, with the runtime behind the client.\<close>

lemma runtime_import_effect:
  assumes "verify_block ops (qpow_algorithm (runtime_client sha256 sha3 cfg states cl)) x0 block = Inr block'"
    and "import_block ops (qpow_algorithm (runtime_client sha256 sha3 cfg states cl)) block' x = (Inr u, x')"
  obtains logs seal pre s d best best_aux aux imported where
    "h_logs (bp_header block) = logs @ [Digest_Seal (pow_engine ops) seal]"
    "engine_items (pow_engine ops) logs = (case pre of None \<Rightarrow> [] | Some v \<Rightarrow> [v])"
    "states x (h_parent (bp_header block)) = Some s" "get_difficulty cfg s = Some d"
    "seal_has_work sha256 sha3 cfg s (hash_header ops ((bp_header block)\<lparr> h_logs := logs \<rparr>)) seal"
    "best_chain_header ops x = Inr best" "read_aux ops x (hash_header ops best) = Inr best_aux"
    "read_aux ops x (h_parent (bp_header block)) = Inr aux"
    "inner_import ops imported x = (Inr (), x')" "h_parent (bp_header imported) = h_parent (bp_header block)"
    "post_hash_of ops imported = hash_header ops (bp_header block)"
    "bp_auxiliary imported = bp_auxiliary block @ [(pow_aux_key (hash_header ops (bp_header block)),
      Some (encode_aux ops \<lparr> aux_difficulty = d, aux_total = increment ops (aux_total aux) d \<rparr>))]"
    "bp_fork_choice block = None \<longrightarrow>
      bp_fork_choice imported = Some (Custom (aux_total best_aux < increment ops (aux_total aux) d))"
  using imported_blocks_are_sealed [OF assms]
  by (auto simp: qpow_algorithm_def runtime_difficulty_Inr runtime_verify_iff)

lemma read_aux_after:
  assumes law: "block_store_law fr cfg states ops" and i: "inner_import ops b x = (Inr (), x')"
    and a: "bp_auxiliary b = [(pow_aux_key h, Some (encode_aux ops v))]"
  shows "read_aux ops x' k = (if k = h then Inr v else read_aux ops x k)"
proof -
  have "get_aux ops x' key = (case map_of (rev (bp_auxiliary b)) key of Some v \<Rightarrow> Inr v | None \<Rightarrow> get_aux ops x key)" for key
    using law i unfolding block_store_law_def by blast
  moreover have "decode_aux ops (encode_aux ops v) = Some v" using law by (simp add: block_store_law_def)
  ultimately show ?thesis using a by (simp add: read_aux_def pow_aux_key_inj)
qed

lemma node_inv_import:
  assumes g: "good_config cfg" and fr: "floor_rational_law fr" and law: "block_store_law fr cfg states ops"
    and inc: "increment ops = increment_total" and inv: "node_inv ops states cfg x" and aux: "bp_auxiliary block = []"
    and v: "verify_block ops (qpow_algorithm (runtime_client sha256 sha3 cfg states cl)) x0 block = Inr block'"
    and i: "import_block ops (qpow_algorithm (runtime_client sha256 sha3 cfg states cl)) block' x = (Inr u, x')"
  shows "node_inv ops states cfg x'"
proof -
  obtain logs seal pre s d best best_aux a imported where e:
    "states x (h_parent (bp_header block)) = Some s" "get_difficulty cfg s = Some d"
    "read_aux ops x (h_parent (bp_header block)) = Inr a"
    "inner_import ops imported x = (Inr (), x')" "h_parent (bp_header imported) = h_parent (bp_header block)"
    "post_hash_of ops imported = hash_header ops (bp_header block)"
    "bp_auxiliary imported = [(pow_aux_key (hash_header ops (bp_header block)),
      Some (encode_aux ops \<lparr> aux_difficulty = d, aux_total = increment ops (aux_total a) d \<rparr>))]"
    by (rule runtime_import_effect [OF v i]) (simp add: aux)
  let ?h = "hash_header ops (bp_header block)"
  obtain idle now n s' where r: "now \<noteq> 0" "run_block fr cfg idle now n s = Some s'" "states x' = (states x)(?h \<mapsto> s')"
    using law e(1,4-6) unfolding block_store_law_def by (metis option.inject)
  have h: "idle_harmless cfg s" and agree: "total_agrees a s"
    using inv e(1,3) by (fastforce simp: node_inv_def)+
  have "total_agrees \<lparr> aux_difficulty = d, aux_total = increment_total (aux_total a) d \<rparr> s'"
    by (rule total_agrees_step [OF g agree e(2) run_block_work [OF g fr h r(1,2)]])
  then show ?thesis
    using inv run_block_effect(1) [OF g fr h r(1,2)] read_aux_after [OF law e(4,7)] r(3) inc
    by (auto simp: node_inv_def)
qed

lemma node_inv_runs:
  assumes g: "good_config cfg" and fr: "floor_rational_law fr" and law: "block_store_law fr cfg states ops"
    and inc: "increment ops = increment_total" and zero: "aux_total (default_aux ops) = 0"
    and "node_runs ops (qpow_algorithm (runtime_client sha256 sha3 cfg states cl)) states cfg x"
  shows "node_inv ops states cfg x"
  using assms(6)
proof induction
  case (start x k)
  then show ?case
    using chain_inv_genesis [OF g] zero
    by (simp add: node_inv_def read_aux_def total_agrees_def chain_inv_def)
next
  case (import x block x0 block' u x')
  then show ?case using node_inv_import [OF g fr law inc] by blast
qed


section \<open>Properties\<close>





text \<open>C12: What is mined is accepted. The nonces the runtime accepts from the local miner are exactly the seals the
  import accepts on the same parent; and a seal an external miner returns for the node's request, made
  with the threshold of the runtime after the parent, passes the import on that parent.\<close>

theorem mined_seals_are_accepted:
  assumes "cl = runtime_client sha256 sha3 cfg states cl0" and "length nonce = 64"
    and "codec_law cd" and "job_id \<noteq> []" and "start \<le> end"
    and "miner_wf sha256 sha3 jobs" and "get_job jobs job_id = None" and "Ev_Cancel job_id \<notin> set evs"
    and "states x p = Some s" and "threshold = api_distance_threshold cfg s"
    and "miner_run sha256 sha3 cd (Ev_Mine (mining_request_for cd job_id ph threshold start end) # evs) jobs = Some jobs'"
    and "check_mining_result cd (\<lambda>i. Inr (snd (handle_result_request cd i jobs'))) job_id = Inr (Some seal)"
  shows "(try_nonce cl x p ph nonce = Some nonce \<longleftrightarrow> algorithm_verify cl x (BlockId_Hash p) ph pre nonce d = Inr True) \<and>
    algorithm_verify cl x (BlockId_Hash p) ph pre seal d = Inr True"
proof
  show "try_nonce cl x p ph nonce = Some nonce \<longleftrightarrow> algorithm_verify cl x (BlockId_Hash p) ph pre nonce d = Inr True"
    using assms(2) by (simp add: assms(1) runtime_try_nonce runtime_verify_iff seal_has_work_def)
  have "\<exists>n :: u512. seal = to_be 64 n \<and> is_valid_nonce sha256 sha3 (to_be 32 ph) (to_be 64 n) threshold = Some True"
    using external_mining [OF assms(3-8,11)] assms(12) by auto
  then show "algorithm_verify cl x (BlockId_Hash p) ph pre seal d = Inr True"
    using assms(9) by (auto simp: assms(1,10) runtime_verify_iff seal_has_work_def api_distance_threshold_def)
qed


section \<open>A node for the witnesses\<close>

text \<open>The state is the map of the pallet's states and the list of the auxiliary entries. A header's hash is one
  more than the number of its digest items; genesis has the hash 3.\<close>

type_synonym toy_node = "(h256 \<Rightarrow> qpow_state option) \<times> (bytes \<times> bytes option) list"

definition toy_genesis :: qpow_state where
  "toy_genesis = genesis_build runtime_qpow empty_qpow"

definition toy_hash :: "unit pow_header \<Rightarrow> h256" where
  "toy_hash h = of_nat (length (h_logs h) + 1)"

definition silent_client :: "'x client_ops" where
  "silent_client = \<lparr> cl_header = (\<lambda>_ _. Inr None), cl_hash = (\<lambda>_ _. Inr None), cl_best_hash = (\<lambda>_. 3), cl_leaves = (\<lambda>_. Inr []),
     cl_get_aux = (\<lambda>_ _. Inr None), cl_insert_aux = (\<lambda>_ _ x. Inr x), cl_finalize_block = (\<lambda>_ x. Inr x),
     cl_total_work = (\<lambda>_ _. Inr 0), cl_max_reorg_depth = (\<lambda>_ _. Inr 0), cl_difficulty = (\<lambda>_ _. Inr 0),
     cl_verify_for_import = (\<lambda>_ _ _ _. Inr False), cl_submit_nonce = (\<lambda>_ _ _ _. Inr False) \<rparr>"

definition toy_store :: "(toy_node, unit, u512, unit, unit, unit) import_ops" where
  "toy_store = \<lparr> pow_engine = [1], check_inherents_after = 0, skip_execution_checks = (\<lambda>a. True),
     hash_header = toy_hash,
     best_chain_header = (\<lambda>_. Inr \<lparr> h_parent = 0, h_number = 0, h_logs = [Digest_Other [], Digest_Seal [1] []], h_rest = () \<rparr>),
     get_aux = (\<lambda>x k. Inr (case map_of (snd x) k of None \<Rightarrow> None | Some v \<Rightarrow> v)),
     encode_aux = (\<lambda>a. to_be 64 (aux_difficulty a) @ to_be 64 (aux_total a)),
     decode_aux = (\<lambda>bs. Some \<lparr> aux_difficulty = from_be (take 64 bs), aux_total = from_be (drop 64 bs) \<rparr>),
     default_aux = \<lparr> aux_difficulty = 0, aux_total = 0 \<rparr>, increment = increment_total,
     inherent_providers = (\<lambda>_ _. Inr ()), inherent_data = (\<lambda>_. Inr ()),
     runtime_check_inherents = (\<lambda>_ _ _ _ _. Inr (True, [])), try_handle_error = (\<lambda>_ _ _. None),
     inner_import = (\<lambda>b x. case fst x (h_parent (bp_header b)) of
         None \<Rightarrow> (Inl ''Unknown parent'', x)
       | Some s \<Rightarrow> (case run_block floor_rational_fn runtime_qpow True 5 (h_number (bp_header b)) s of
           None \<Rightarrow> (Inl ''Execution failed'', x)
         | Some s' \<Rightarrow> (Inr (), (fst x)((case bp_post_hash b of Some h \<Rightarrow> h | None \<Rightarrow> toy_hash (post_header b)) \<mapsto> s'), rev (bp_auxiliary b) @ snd x))) \<rparr>"


abbreviation toy_runtime :: "(toy_node, u512) pow_algorithm" where
  "toy_runtime \<equiv> qpow_algorithm (runtime_client two_hash nine_hash runtime_qpow fst silent_client)"

definition toy_start :: toy_node where
  "toy_start = ([3 \<mapsto> toy_genesis], [])"

definition toy_mined :: "(unit, u512, unit) block_params" where
  "toy_mined = \<lparr> bp_header = \<lparr> h_parent = 3, h_number = 1, h_logs = [Digest_Seal [1] toy_nonce], h_rest = () \<rparr>,
     bp_body = None, bp_post_digests = [], bp_intermediate = None, bp_fork_choice = None, bp_auxiliary = [],
     bp_post_hash = None, bp_state_action = Execute \<rparr>"

lemma toy_store_law: "block_store_law floor_rational_fn runtime_qpow fst toy_store"
proof -
  have "decode_aux toy_store (encode_aux toy_store a) = Some a" for a
    by (simp add: toy_store_def from_be_to_be)
  moreover have "(\<exists>idle now s s'. now \<noteq> 0 \<and> fst x (h_parent (bp_header b)) = Some s \<and>
        run_block floor_rational_fn runtime_qpow idle now (h_number (bp_header b)) s = Some s' \<and>
        fst x' = (fst x)(post_hash_of toy_store b \<mapsto> s')) \<and>
      (\<forall>k. get_aux toy_store x' k =
        (case map_of (rev (bp_auxiliary b)) k of Some v \<Rightarrow> Inr v | None \<Rightarrow> get_aux toy_store x k))"
    if i: "inner_import toy_store b x = (Inr (), x')" for b x x'
  proof -
    obtain s s' where r: "fst x (h_parent (bp_header b)) = Some s"
      "run_block floor_rational_fn runtime_qpow True 5 (h_number (bp_header b)) s = Some s'"
      "x' = ((fst x)(post_hash_of toy_store b \<mapsto> s'), rev (bp_auxiliary b) @ snd x)"
      using i by (auto simp: toy_store_def post_hash_of_def split: option.splits)
    moreover have "(5 :: u64) \<noteq> 0" by simp
    moreover have "get_aux toy_store x' k =
        (case map_of (rev (bp_auxiliary b)) k of Some v \<Rightarrow> Inr v | None \<Rightarrow> get_aux toy_store x k)" for k
      using r(3) by (simp add: toy_store_def map_add_def split: option.split)
    ultimately show ?thesis unfolding fst_conv by (metis fst_conv)
  qed
  ultimately show ?thesis unfolding block_store_law_def by blast
qed

lemma toy_genesis_harmless: "idle_harmless runtime_qpow toy_genesis" "CurrentDistanceThreshold toy_genesis = 2 ^ 502"
proof -
  show "idle_harmless runtime_qpow toy_genesis"
    using chain_inv_genesis [OF runtime_qpow_good] unfolding chain_inv_def toy_genesis_def by (rule conjunct1)
  have "CurrentDistanceThreshold toy_genesis = push_bit 502 1"
    by (simp add: toy_genesis_def genesis_build_def Let_def get_initial_distance_threshold_def runtime_qpow_def
        del: push_bit_of_1)
  then show "CurrentDistanceThreshold toy_genesis = 2 ^ 502" by (simp only: push_bit_eq_mult mult_1)
qed

lemma toy_genesis_runs:
  obtains s' where "run_block floor_rational_fn runtime_qpow True 5 1 toy_genesis = Some s'" "unat (TotalWork s') = 5"
proof -
  let ?t = "on_idle runtime_qpow 5 toy_genesis"
  have t: "CurrentDistanceThreshold ?t = 2 ^ 502" "qpow_ok runtime_qpow ?t"
    using toy_genesis_harmless
    by (auto simp: on_idle_def idle_harmless_def qpow_ok_def)
  have u: "unat (2 ^ 502 :: u512) = 2 ^ 502"
    using unat_two_power [of 502] by (simp add: push_bit_eq_mult)
  have "CurrentDistanceThreshold ?t \<noteq> 0" unfolding t(1) using u by (metis unat_0 power_not_zero zero_neq_numeral)
  moreover have "\<not> unat (CurrentDistanceThreshold ?t) < 1024" unfolding t(1) u by simp
  ultimately obtain s' where r: "run_block floor_rational_fn runtime_qpow True 5 1 toy_genesis = Some s'"
    using on_finalize_result(1) [OF runtime_qpow_good floor_rational_fn_law t(2)] by (auto simp: run_block_def)
  have b: "block_work runtime_qpow toy_genesis = 4"
    unfolding block_work_def stored_threshold [OF toy_genesis_harmless(1)] toy_genesis_harmless(2) u
      unat_max_distance [OF runtime_qpow_good] unat_initial_threshold [OF runtime_qpow_good]
    by (simp add: runtime_qpow_def)
  have "unat (TotalWork s') = 5"
    using run_block_work [OF runtime_qpow_good floor_rational_fn_law toy_genesis_harmless(1) _ r] b
    by (simp add: toy_genesis_def genesis_build_def Let_def)
  with r show ?thesis by (rule that)
qed


lemma toy_store_fields:
  "pow_engine toy_store = [1]" "hash_header toy_store = toy_hash" "increment toy_store = increment_total"
  "best_chain_header toy_store x = Inr \<lparr> h_parent = 0, h_number = 0, h_logs = [Digest_Other [], Digest_Seal [1] []], h_rest = () \<rparr>"
  "default_aux toy_store = \<lparr> aux_difficulty = 0, aux_total = 0 \<rparr>"
  by (simp_all add: toy_store_def)

lemma toy_inner_import:
  assumes "fst x (h_parent (bp_header b)) = Some s" "bp_post_hash b = Some h"
    and "run_block floor_rational_fn runtime_qpow True 5 (h_number (bp_header b)) s = Some s'"
  shows "inner_import toy_store b x = (Inr (), (fst x)(h \<mapsto> s'), rev (bp_auxiliary b) @ snd x)"
  using assms by (simp add: toy_store_def)

lemma toy_seal_valid: "seal_has_work two_hash nine_hash runtime_qpow toy_genesis 1 toy_nonce"
proof -
  have "to_be 32 (1 :: h256) = toy_header" "length toy_nonce = 64" by code_simp+
  then show ?thesis by (simp add: seal_has_work_def toy_valid_any)
qed

lemma toy_difficulty: "\<exists>d. get_difficulty runtime_qpow toy_genesis = Some d"
  using difficulty_value [OF runtime_qpow_good] by blast

lemma toy_imports:
  obtains b' x' s' where "verify_block toy_store toy_runtime toy_start toy_mined = Inr b'"
    "import_block toy_store toy_runtime b' toy_start = (Inr (), x')" "fst x' 2 = Some s'" "unat (TotalWork s') = 5"
proof -
  obtain s' where r: "run_block floor_rational_fn runtime_qpow True 5 1 toy_genesis = Some s'" "unat (TotalWork s') = 5"
    by (rule toy_genesis_runs)
  obtain d where d: "get_difficulty runtime_qpow toy_genesis = Some d" using toy_difficulty by blast
  have ad: "alg_difficulty toy_runtime toy_start 3 = Inr d"
    using d by (simp add: qpow_algorithm_def runtime_difficulty_Inr toy_start_def)
  have av: "alg_verify toy_runtime toy_start (BlockId_Hash 3) 1 None toy_nonce d = Inr True"
    using toy_seal_valid by (simp add: qpow_algorithm_def runtime_verify_iff toy_start_def)
  have ap: "alg_preliminary_verify toy_runtime x h b = Inr None" "alg_break_tie toy_runtime = (\<lambda>_ _. False)" for x h b
    by (simp_all add: qpow_algorithm_def)
  have aux: "read_aux toy_store toy_start h = Inr \<lparr> aux_difficulty = 0, aux_total = 0 \<rparr>" for h
    by (simp add: read_aux_def toy_store_def toy_start_def)
  obtain b' where b: "verify_block toy_store toy_runtime toy_start toy_mined = Inr b'"
    and f: "bp_header b' = \<lparr> h_parent = 3, h_number = 1, h_logs = [], h_rest = () \<rparr>"
      "bp_post_digests b' = [Digest_Seal [1] toy_nonce]" "bp_intermediate b' = Some None" "bp_fork_choice b' = None"
      "bp_body b' = None" "bp_auxiliary b' = []" "bp_post_hash b' = Some 2"
    by (simp add: verify_block_def check_header_def ap toy_store_def toy_mined_def last_item_def toy_hash_def)
  have "fst toy_start 3 = Some toy_genesis" by (simp add: toy_start_def)
  then obtain x' where "import_block toy_store toy_runtime b' toy_start = (Inr (), x')" "fst x' 2 = Some s'"
    using r(1) f ad av aux ap
    by (simp add: import_block_def Let_def and_then_def map_err_def inherents_step_def fetch_seal_def last_item_def
        ensure_def choose_fork_def is_new_best_def toy_hash_def toy_store_fields toy_inner_import)
  with that [OF b] r(2) show ?thesis by blast
qed





theorem mined_seals_are_accepted_witness:
  "algorithm_verify (runtime_client two_hash nine_hash runtime_qpow fst silent_client) toy_start (BlockId_Hash 3) 1 None
     (to_be 64 (6 :: u512)) 0 = Inr True"
proof (rule toy_miner_finds)
  fix jobs'
  assume m: "miner_run two_hash nine_hash text_codec [Ev_Mine (mining_request_for text_codec ''a'' 1
      (api_distance_threshold runtime_qpow toy_genesis) 6 7), Ev_Pass] [] = Some jobs'"
    "check_mining_result text_codec (\<lambda>i. Inr (snd (handle_result_request text_codec i jobs'))) ''a''
      = Inr (Some (to_be 64 (6 :: u512)))"
  have "length toy_nonce = 64" "fst toy_start 3 = Some toy_genesis" by (simp_all add: toy_nonce_def toy_start_def)
  from mined_seals_are_accepted [where states = fst and x = toy_start and p = 3, OF refl this(1) text_codec_law toy_miner_laws this(2) refl m]
  show ?thesis by blast
qed

end
