(* ===== verification/MiningLoop.thy ===== *)
theory MiningLoop
  imports ExternalMinerLaw PowClientLaw
begin

text \<open>
  The mining loop of the node (\<open>node/src/service.rs\<close>): it takes the build on offer from the mining handle of the
  proof-of-work client, looks for a nonce itself or through an external miner, and submits the seal. The
  state \<open>'x\<close> is the node around the loop, whose other tasks may change it whenever the loop reads from it;
  sleeping and logging are left out.
\<close>

section \<open>What the loop asks of its surroundings\<close>

text \<open>\<open>ml_handle\<close> reads the shared mining handle as the other tasks have left it by then, and \<open>ml_put_handle\<close>
  writes it back; the client is used at the state reached.\<close>

record ('x, 'h, 'd, 'b, 'i, 'n) loop_ops =
  ml_handle :: "'x \<Rightarrow> ('h, 'd, 'b) mining_handle \<times> 'x"
  ml_put_handle :: "('h, 'd, 'b) mining_handle \<Rightarrow> 'x \<Rightarrow> 'x"
  ml_import :: "('x, 'h, 'd, 'b, 'i, 'n) import_ops"
  ml_algorithm :: "('x, 'd) pow_algorithm"
  ml_client :: "'x client_ops"
  ml_threshold :: "hash256 \<Rightarrow> 'x \<Rightarrow> (string + u512) \<times> 'x"
  ml_new_job_id :: "'x \<Rightarrow> string \<times> 'x"
  ml_post_mine :: "mining_request \<Rightarrow> 'x \<Rightarrow> (string + mining_response) \<times> 'x"
  ml_get_result :: "string \<Rightarrow> 'x \<Rightarrow> (string + mining_result) \<times> 'x"
  ml_post_cancel :: "string \<Rightarrow> 'x \<Rightarrow> (string + mining_response) \<times> 'x"

section \<open>The loop\<close>

definition ml_metadata :: "('x, 'h, 'd::linorder, 'b, 'i, 'n) loop_ops \<Rightarrow> 'x \<Rightarrow> ('h, 'd) mining_metadata option \<times> 'x" where
  "ml_metadata ops x = (case ml_handle ops x of (w, x1) \<Rightarrow> (handle_metadata w, x1))"

definition ml_version :: "('x, 'h, 'd::linorder, 'b, 'i, 'n) loop_ops \<Rightarrow> 'x \<Rightarrow> u64 \<times> 'x" where
  "ml_version ops x = (case ml_handle ops x of (w, x1) \<Rightarrow> (handle_version w, x1))"

definition ml_submit :: "('x, 'h, 'd::linorder, 'b, 'i, 'n) loop_ops \<Rightarrow> bytes \<Rightarrow> 'x \<Rightarrow> bool \<times> 'x" where
  "ml_submit ops seal x =
     (case ml_handle ops x of
        (w, x1) \<Rightarrow> (case submit (ml_import ops) (ml_algorithm ops) seal w x1 of (ok, w', x2) \<Rightarrow> (ok, ml_put_handle ops w' x2)))"

text \<open>What happens to a seal: it is submitted unless the version has changed. The next nonce is \<open>None\<close> when
  counting up panics.\<close>

definition submit_seal :: "('x, 'h, 'd::linorder, 'b, 'i, 'n) loop_ops \<Rightarrow> u64 \<Rightarrow> bytes \<Rightarrow> u512 \<Rightarrow> 'x \<Rightarrow> u512 option \<times> 'x" where
  "submit_seal ops version seal nonce x =
     (case ml_version ops x of
        (current_version, x1) \<Rightarrow>
          if current_version = version
          then (case ml_submit ops seal x1 of
                  (True, x2) \<Rightarrow> (Some 0, x2)
                | (False, x2) \<Rightarrow> (checked_add nonce 1, x2))
          else (Some nonce, x1))"

text \<open>Polling the external miner; it may go on for ever.\<close>

partial_function (option) poll_loop ::
    "codec_ops \<Rightarrow> ('x, 'h, 'd::linorder, 'b, 'i, 'n) loop_ops \<Rightarrow> ('h, 'd) mining_metadata \<Rightarrow> string \<Rightarrow> u64 \<Rightarrow> u512 \<Rightarrow> 'x
      \<Rightarrow> (u512 option \<times> 'x) option" where
  "poll_loop cd ops m job_id version nonce x =
     (let (answer, x1) = ml_get_result ops job_id x
      in case check_mining_result cd (\<lambda>_. answer) job_id of
           Inl e \<Rightarrow> Some (Some nonce, x1)
         | Inr (Some seal) \<Rightarrow> Some (submit_seal ops version seal nonce x1)
         | Inr None \<Rightarrow>
             (let (m', x2) = ml_metadata ops x1
              in if (case m' of None \<Rightarrow> False | Some m' \<Rightarrow> best_hash m' \<noteq> best_hash m) then Some (Some nonce, x2)
                 else poll_loop cd ops m job_id version nonce x2))"

definition external_round ::
    "codec_ops \<Rightarrow> ('x, 'h, 'd::linorder, 'b, 'i, 'n) loop_ops \<Rightarrow> ('h, 'd) mining_metadata \<Rightarrow> u64 \<Rightarrow> u512 \<Rightarrow> string option \<Rightarrow> 'x
      \<Rightarrow> ((u512 \<times> string option) option \<times> 'x) option" where
  "external_round cd ops m version nonce current_job_id x =
     (let x1 = (case current_job_id of None \<Rightarrow> x | Some job_id \<Rightarrow> snd (ml_post_cancel ops job_id x))
      in case ml_threshold ops (best_hash m) x1 of
           (Inl e, x2) \<Rightarrow> Some (Some (nonce, current_job_id), x2)
         | (Inr threshold, x2) \<Rightarrow>
             (let (job_id, x3) = ml_new_job_id ops x2;
                  (answer, x4) = ml_post_mine ops (mining_request_for cd job_id (pre_hash m) threshold nonce (- 1)) x3
              in case submit_mining_job cd (\<lambda>_. answer) job_id (pre_hash m) threshold nonce (- 1) of
                   Inl e \<Rightarrow> Some (Some (nonce, Some job_id), x4)
                 | Inr _ \<Rightarrow>
                     map_option (\<lambda>(n, x5). (map_option (\<lambda>n. (n, Some job_id)) n, x5))
                       (poll_loop cd ops m job_id version nonce x4)))"

definition local_round ::
    "('x, 'h, 'd::linorder, 'b, 'i, 'n) loop_ops \<Rightarrow> ('h, 'd) mining_metadata \<Rightarrow> u64 \<Rightarrow> u512 \<Rightarrow> 'x \<Rightarrow> u512 option \<times> 'x" where
  "local_round ops m version nonce x =
     (case try_nonce (ml_client ops) x (best_hash m) (pre_hash m) (to_be 64 nonce) of
        Some seal \<Rightarrow> submit_seal ops version seal nonce x
      | None \<Rightarrow> (checked_add nonce 1, x))"

text \<open>One turn of the loop: the nonce and the job it goes on with, \<open>None\<close> inside after a panic, \<open>None\<close> outside
  when polling does not end.\<close>

definition loop_turn ::
    "codec_ops \<Rightarrow> ('x, 'h, 'd::linorder, 'b, 'i, 'n) loop_ops \<Rightarrow> bool \<Rightarrow> u512 \<times> string option \<Rightarrow> 'x
      \<Rightarrow> ((u512 \<times> string option) option \<times> 'x) option" where
  "loop_turn cd ops external st x =
     (case ml_metadata ops x of
        (None, x1) \<Rightarrow> Some (Some st, x1)
      | (Some m, x1) \<Rightarrow>
          (let (version, x2) = ml_version ops x1; (nonce, current_job_id) = st
           in if external then external_round cd ops m version nonce current_job_id x2
              else case local_round ops m version nonce x2 of
                  (n, x3) \<Rightarrow> Some (map_option (\<lambda>n. (n, current_job_id)) n, x3)))"

fun loop_turns ::
    "codec_ops \<Rightarrow> ('x, 'h, 'd::linorder, 'b, 'i, 'n) loop_ops \<Rightarrow> bool \<Rightarrow> nat \<Rightarrow> u512 \<times> string option \<Rightarrow> 'x
      \<Rightarrow> ((u512 \<times> string option) option \<times> 'x) option" where
  "loop_turns cd ops external 0 st x = Some (Some st, x)"
| "loop_turns cd ops external (Suc k) st x =
     (case loop_turn cd ops external st x of
        None \<Rightarrow> None
      | Some (None, x1) \<Rightarrow> Some (None, x1)
      | Some (Some st1, x1) \<Rightarrow> loop_turns cd ops external k st1 x1)"

section \<open>Local mining on a quiet node\<close>

text \<open>The build on offer stays the same, and the runtime says which nonces are valid.\<close>

definition quiet_node ::
    "('x, 'h, 'd::linorder, 'b, 'i, 'n) loop_ops \<Rightarrow> ('h, 'd, 'b) mining_build \<Rightarrow> (bytes \<Rightarrow> bool) \<Rightarrow> 'x \<Rightarrow> bool" where
  "quiet_node ops b valid x \<longleftrightarrow>
     (\<exists>w. ml_handle ops x = (w, x) \<and> handle_build w = Some b) \<and>
     (\<forall>bs. cl_submit_nonce (ml_client ops) x (best_hash (build_metadata b)) (to_be 32 (pre_hash (build_metadata b))) bs
        = Inr (valid bs))"

lemma quiet_turn:
  assumes "quiet_node ops b valid x" and "\<not> valid (to_be 64 nonce)"
  shows "loop_turn cd ops False (nonce, job) x = Some (map_option (\<lambda>n. (n, job)) (checked_add nonce 1), x)"
  using assms by (auto simp: quiet_node_def loop_turn_def local_round_def ml_metadata_def ml_version_def handle_metadata_def try_nonce_def)

lemma quiet_turn_valid:
  assumes "quiet_node ops b valid x" and "valid (to_be 64 nonce)"
    and "ml_submit ops (to_be 64 nonce) x = (ok, x')"
  shows "loop_turn cd ops False (nonce, job) x =
    Some (map_option (\<lambda>n. (n, job)) (if ok then Some 0 else checked_add nonce 1), x')"
  using assms
  by (cases ok) (auto simp: quiet_node_def loop_turn_def local_round_def submit_seal_def ml_metadata_def ml_version_def
      handle_metadata_def try_nonce_def)

lemma word_succ: "unat n < unat k \<Longrightarrow> checked_add n 1 = Some (n + 1) \<and> unat (n + 1) = unat n + 1" for n k :: u512
proof -
  assume "unat n < unat k"
  then have l: "n < k" by (simp add: word_less_nat_alt)
  have "unat (n + 1) = unat n + 1" by (rule word_succ_unat [OF l])
  moreover have "unat n + 1 < 2 ^ 512" using \<open>unat n < unat k\<close> unat_lt_max [of k] by simp
  ultimately show ?thesis by (simp add: checked_add_Some)
qed

lemma quiet_turns:
  assumes "quiet_node ops b valid x" and "unat nonce + j \<le> unat k"
    and "\<forall>i. nonce \<le> i \<and> i < k \<longrightarrow> \<not> valid (to_be 64 i)"
  shows "\<exists>n. loop_turns cd ops False (j + r) (nonce, job) x = loop_turns cd ops False r (n, job) x \<and> unat n = unat nonce + j"
  using assms(2,3)
proof (induction j arbitrary: nonce)
  case (Suc j)
  have lt: "unat nonce < unat k" using Suc.prems(1) by simp
  note s = word_succ [OF lt]
  have "\<not> valid (to_be 64 nonce)" using Suc.prems(2) lt by (simp add: word_less_nat_alt)
  from quiet_turn [OF assms(1) this, of cd job] s
  have t: "loop_turns cd ops False (Suc j + r) (nonce, job) x = loop_turns cd ops False (j + r) (nonce + 1, job) x" by simp
  have "\<forall>i. nonce + 1 \<le> i \<and> i < k \<longrightarrow> \<not> valid (to_be 64 i)"
    using Suc.prems(2) s by (auto simp: word_le_nat_alt)
  then obtain n where "loop_turns cd ops False (j + r) (nonce + 1, job) x = loop_turns cd ops False r (n, job) x"
      "unat n = unat (nonce + 1) + j"
    using Suc.IH [of "nonce + 1"] Suc.prems(1) s by auto
  with t s show ?case by (intro exI [of _ n]) simp
qed auto

section \<open>Property\<close>

text \<open>C34: Local mining finds the first valid nonce. As long as no new build arrives, the loop tries every nonce from the
  one it holds upwards, submits the encoding of the first valid one and nothing before it, and starts again at
  zero when the block is accepted, or goes on with the next nonce when it is not. When no nonce up to
  the greatest one is valid, the turn after the last panics on the overflow of the nonce.\<close>

theorem local_mining_finds_first:
  assumes "quiet_node ops b valid x" and "nonce \<le> k"
    and "\<forall>i. nonce \<le> i \<and> i < k \<longrightarrow> \<not> valid (to_be 64 i)"
    and "ml_submit ops (to_be 64 k) x = (ok, x')"
  shows "loop_turns cd ops False (unat k - unat nonce + 1) (nonce, job) x =
    (if valid (to_be 64 k)
     then Some (map_option (\<lambda>n. (n, job)) (if ok then Some 0 else checked_add k 1), x')
     else Some (map_option (\<lambda>n. (n, job)) (checked_add k 1), x)) \<and>
    (\<not> valid (to_be 64 k) \<and> k = - 1 \<longrightarrow>
      loop_turns cd ops False (unat k - unat nonce + 1) (nonce, job) x = Some (None, x))"
proof -
  have le: "unat nonce \<le> unat k" using assms(2) by (simp add: word_le_nat_alt)
  then obtain n where n: "loop_turns cd ops False ((unat k - unat nonce) + 1) (nonce, job) x = loop_turns cd ops False 1 (n, job) x"
      "unat n = unat nonce + (unat k - unat nonce)"
    using quiet_turns [OF assms(1) _ assms(3), of "unat k - unat nonce" cd 1 job] by auto
  have k: "n = k" using n(2) le by (simp add: word_unat_eq_iff)
  have one: "loop_turns cd ops False 1 (k, job) x =
      (if valid (to_be 64 k)
       then Some (map_option (\<lambda>n. (n, job)) (if ok then Some 0 else checked_add k 1), x')
       else Some (map_option (\<lambda>n. (n, job)) (checked_add k 1), x))"
    using quiet_turn [OF assms(1), of k cd job] quiet_turn_valid [OF assms(1) _ assms(4), of cd job]
    by (auto split: option.split)
  have none: "checked_add (- 1 :: u512) 1 = None"
    by (simp add: checked_add_None unat_max_word)
  show ?thesis
    unfolding n(1) k one
  proof (intro conjI refl impI)
    assume "\<not> valid (to_be 64 k) \<and> k = - 1"
    then have "\<not> valid (to_be 64 k)" "checked_add k 1 = None" using none by auto
    then show "(if valid (to_be 64 k)
       then Some (map_option (\<lambda>n. (n, job)) (if ok then Some 0 else checked_add k 1), x')
       else Some (map_option (\<lambda>n. (n, job)) (checked_add k 1), x)) = Some (None, x)" by simp
  qed
qed

lemma to_be_inj: "to_be 64 a = to_be 64 b \<longleftrightarrow> a = b" for a b :: u512
  proof
  assume "to_be 64 a = to_be 64 b"
  then have "(from_be (to_be 64 a) :: u512) = from_be (to_be 64 b)" by (rule arg_cong)
  moreover have "from_be (to_be 64 w) = w" for w :: u512 by (rule from_be_to_be) simp
  ultimately show "a = b" by simp
qed simp

definition three_client :: "'x client_ops" where
  "three_client = \<lparr> cl_header = (\<lambda>_ _. Inr None), cl_hash = (\<lambda>_ _. Inr None), cl_best_hash = (\<lambda>_. 1), cl_leaves = (\<lambda>_. Inr []),
     cl_get_aux = (\<lambda>_ _. Inr None), cl_insert_aux = (\<lambda>_ _ x. Inr x), cl_finalize_block = (\<lambda>_ x. Inr x),
     cl_total_work = (\<lambda>_ _. Inr 0), cl_max_reorg_depth = (\<lambda>_ _. Inr 0), cl_difficulty = (\<lambda>_ _. Inr 0),
     cl_verify_for_import = (\<lambda>_ _ _ _. Inr True), cl_submit_nonce = (\<lambda>_ _ _ bs. Inr (bs = to_be 64 (3 :: u512))) \<rparr>"

definition three_loop :: "(toy_pow, unit, nat, unit, unit, unit) loop_ops" where
  "three_loop = \<lparr> ml_handle = (\<lambda>x. (on_build toy_build new_handle, x)), ml_put_handle = (\<lambda>_ x. x), ml_import = toy_import,
     ml_algorithm = toy_alg\<lparr> alg_verify := (\<lambda>_ _ _ _ seal _. Inr (length seal = 64)) \<rparr>, ml_client = three_client,
     ml_threshold = (\<lambda>_ x. (Inr 1, x)), ml_new_job_id = (\<lambda>x. (''a'', x)),
     ml_post_mine = (\<lambda>_ x. (Inl [], x)), ml_get_result = (\<lambda>_ x. (Inl [], x)), ml_post_cancel = (\<lambda>_ x. (Inl [], x)) \<rparr>"

lemma three_submits: "length seal = 64 \<Longrightarrow> \<exists>x'. ml_submit three_loop seal [] = (True, x')"
  by (simp add: three_loop_def ml_submit_def submit_def submit_check_def handle_metadata_def on_build_def increment_version_def
      submit_import_def take_build_def mined_block_def toy_build_def import_block_def Let_def and_then_def map_err_def
      toy_import_def toy_alg_def read_aux_def inherents_step_def check_inherents_def fetch_seal_def last_item_def ensure_def
      choose_fork_def is_new_best_def)

theorem local_mining_finds_first_witness:
  "\<exists>x. loop_turns text_codec three_loop False 4 (0, None) [] = Some (Some (0, None), x)"
proof -
  have q: "quiet_node three_loop toy_build (\<lambda>bs. bs = to_be 64 (3 :: u512)) []"
    by (simp add: quiet_node_def three_loop_def three_client_def on_build_def increment_version_def)
  obtain x where s: "ml_submit three_loop (to_be 64 (3 :: u512)) [] = (True, x)" using three_submits by fastforce
  have first: "\<forall>i :: u512. 0 \<le> i \<and> i < 3 \<longrightarrow> \<not> to_be 64 i = to_be 64 (3 :: u512)" by (auto simp: to_be_inj)
  have four: "unat (3 :: u512) - unat (0 :: u512) + 1 = 4" by simp
  have "(0 :: u512) \<le> 3" by simp
  from conjunct1 [OF local_mining_finds_first [OF q this first s, of text_codec None]]
  show ?thesis unfolding four by simp
qed

end
