(* ===== verification/ExternalLoop.thy ===== *)
theory ExternalLoop
  imports MiningLoop
begin

text \<open>
  The mining loop of the node and the external miner together: with the modelled miner behind its requests, a
  turn of the loop returns, and it submits the first valid nonce of its range.
\<close>

section \<open>Several passes\<close>

lemma mining_passes_wf:
  "mining_passes sha256 sha3 k jobs = Some jobs' \<Longrightarrow> miner_wf sha256 sha3 jobs \<Longrightarrow> miner_wf sha256 sha3 jobs'"
  by (induction k arbitrary: jobs) (auto split: option.splits dest: mining_pass_wf)

lemma mining_passes_get:
  "mining_passes sha256 sha3 k jobs = Some jobs' \<Longrightarrow> get_job jobs job_id = Some job \<Longrightarrow>
    \<exists>job'. job_visits sha256 sha3 k job = Tick job' \<and> get_job jobs' job_id = Some job'"
proof (induction k arbitrary: jobs job)
  case (Suc k)
  obtain jobs1 where "mining_pass sha256 sha3 jobs = Some jobs1" "mining_passes sha256 sha3 k jobs1 = Some jobs'"
    using Suc.prems(1) by (auto split: option.splits)
  with mining_pass_get [OF this(1) Suc.prems(2)] Suc.IH show ?case by fastforce
qed simp

lemma job_visits_search:
  "job_visits sha256 sha3 k job = Tick job' \<Longrightarrow> search_state sha256 sha3 job \<Longrightarrow>
    search_state sha256 sha3 job' \<and> same_search job job' \<and>
    (0 < k \<and> job_status job' = Running \<longrightarrow> visits_left job' < visits_left job)"
proof (induction k arbitrary: job)
  case (Suc k)
  obtain job1 where t: "job_tick sha256 sha3 job = Tick job1" "job_visits sha256 sha3 k job1 = Tick job'"
    using Suc.prems(1) by (auto split: tick.splits)
  note s = job_tick_search [OF Suc.prems(2) t(1)]
  have running: "job_status job' = Running \<Longrightarrow> job_status job1 = Running"
    using t(2) job_visits_stopped [of job1 sha256 sha3 k] by (cases "job_status job1 = Running") auto
  show ?case
  proof (cases k)
    case 0
    then show ?thesis using s t(2) by simp
  next
    case (Suc j)
    then show ?thesis using Suc.IH [OF t(2)] s running by (auto intro: same_search_trans less_trans)
  qed
qed simp

section \<open>The miner behind the loop\<close>

text \<open>The handle of the node stays \<open>w\<close>; requests reach the miner, whose jobs are \<open>jobs_of\<close>; and between two
  answers about a job the miner has made at least one pass.\<close>

definition miner_behind ::
    "(bytes \<Rightarrow> bytes) \<Rightarrow> (bytes \<Rightarrow> bytes) \<Rightarrow> codec_ops \<Rightarrow> ('x, 'h, 'd::linorder, 'b, 'i, 'n) loop_ops \<Rightarrow> ('x \<Rightarrow> mining_state)
      \<Rightarrow> ('h, 'd, 'b) mining_handle \<Rightarrow> bool" where
  "miner_behind sha256 sha3 cd ops jobs_of w \<longleftrightarrow>
     (\<forall>x rq resp jobs. ml_handle ops x = (w, x) \<and> handle_mine_request cd rq (jobs_of x) = Some (resp, jobs) \<longrightarrow>
        (\<exists>x'. ml_post_mine ops rq x = (Inr (snd resp), x') \<and> jobs_of x' = jobs \<and> ml_handle ops x' = (w, x'))) \<and>
     (\<forall>x job_id. ml_handle ops x = (w, x) \<and> miner_wf sha256 sha3 (jobs_of x) \<longrightarrow>
        (\<exists>k jobs x'. 0 < k \<and> mining_passes sha256 sha3 k (jobs_of x) = Some jobs \<and>
           ml_get_result ops job_id x = (Inr (snd (handle_result_request cd job_id jobs)), x') \<and>
           jobs_of x' = jobs \<and> ml_handle ops x' = (w, x')))"

lemma behind_post:
  assumes "miner_behind sha256 sha3 cd ops jobs_of w" and "ml_handle ops x = (w, x)"
    and "handle_mine_request cd rq (jobs_of x) = Some ((code, answer), jobs)"
  obtains y where "ml_post_mine ops rq x = (Inr answer, y)" "jobs_of y = jobs" "ml_handle ops y = (w, y)"
proof -
  from assms(1) have "\<exists>y. ml_post_mine ops rq x = (Inr (snd (code, answer)), y) \<and> jobs_of y = jobs \<and> ml_handle ops y = (w, y)"
    unfolding miner_behind_def using assms(2,3) by blast
  then show ?thesis using that by auto
qed

lemma behind_result:
  assumes "miner_behind sha256 sha3 cd ops jobs_of w" and "ml_handle ops x = (w, x)" and "miner_wf sha256 sha3 (jobs_of x)"
  obtains k jobs y where "0 < k" "mining_passes sha256 sha3 k (jobs_of x) = Some jobs"
    "ml_get_result ops job_id x = (Inr (snd (handle_result_request cd job_id jobs)), y)"
    "jobs_of y = jobs" "ml_handle ops y = (w, y)"
  using assms unfolding miner_behind_def by blast

lemma check_answer:
  assumes "codec_law cd" and "get_job jobs job_id = Some job"
  shows "check_mining_result cd (\<lambda>_. Inr (snd (handle_result_request cd job_id jobs))) job_id =
    (case job_status job of
       Running \<Rightarrow> Inr None
     | Completed \<Rightarrow> Inr (Some (to_be 64 (current_nonce job)))
     | Failed \<Rightarrow> Inl ''Mining job failed (miner reported)'')"
  using check_result_of_job [OF assms] by (simp add: check_mining_result_def)

text \<open>Polling ends when the miner has searched its range.\<close>

lemma poll_loop_ends:
  assumes cd: "codec_law cd" and behind: "miner_behind sha256 sha3 cd ops jobs_of w"
    and b: "handle_build w = Some b"
    and x: "ml_handle ops x = (w, x)" "miner_wf sha256 sha3 (jobs_of x)" "get_job (jobs_of x) job_id = Some job"
  shows "\<exists>y job'. ml_handle ops y = (w, y) \<and> job_status job' \<noteq> Running \<and> search_state sha256 sha3 job' \<and>
    same_search job job' \<and>
    poll_loop cd ops (build_metadata b) job_id version nonce x =
      Some (if job_status job' = Completed then submit_seal ops version (to_be 64 (current_nonce job')) nonce y
            else (Some nonce, y))"
  using x
proof (induction "visits_left job" arbitrary: x job rule: less_induct)
  case less
  obtain k jobs y where y: "0 < k" "mining_passes sha256 sha3 k (jobs_of x) = Some jobs"
    "ml_get_result ops job_id x = (Inr (snd (handle_result_request cd job_id jobs)), y)"
    "jobs_of y = jobs" "ml_handle ops y = (w, y)"
    by (rule behind_result [OF behind less.prems(1,2)])
  obtain job1 where j: "job_visits sha256 sha3 k job = Tick job1" "get_job jobs job_id = Some job1"
    using mining_passes_get [OF y(2) less.prems(3)] by blast
  have s: "search_state sha256 sha3 job1" "same_search job job1"
    "job_status job1 = Running \<Longrightarrow> visits_left job1 < visits_left job"
    using job_visits_search [OF j(1)] get_job_wf [OF less.prems(2,3)] y(1) by blast+
  have wf: "miner_wf sha256 sha3 jobs" by (rule mining_passes_wf [OF y(2) less.prems(2)])
  have md: "ml_metadata ops y = (Some (build_metadata b), y)"
    using y(5) b by (simp add: ml_metadata_def handle_metadata_def)
  note unfold = poll_loop.simps [of cd ops "build_metadata b" job_id version nonce x]
  show ?case
  proof (cases "job_status job1 = Running")
    case True
    have "poll_loop cd ops (build_metadata b) job_id version nonce x =
        poll_loop cd ops (build_metadata b) job_id version nonce y"
      unfolding unfold using y(3) md True by (simp add: check_answer [OF cd j(2)])
    moreover have "miner_wf sha256 sha3 (jobs_of y)" "get_job (jobs_of y) job_id = Some job1"
      using wf j(2) y(4) by simp_all
    ultimately obtain z job' where "ml_handle ops z = (w, z)" "job_status job' \<noteq> Running" "search_state sha256 sha3 job'"
      "same_search job1 job'" "poll_loop cd ops (build_metadata b) job_id version nonce x =
        Some (if job_status job' = Completed then submit_seal ops version (to_be 64 (current_nonce job')) nonce z
              else (Some nonce, z))"
      using less.hyps [OF s(3) [OF True] y(5)] by metis
    then show ?thesis using same_search_trans [OF s(2)] by blast
  next
    case False
    then have "poll_loop cd ops (build_metadata b) job_id version nonce x =
        Some (if job_status job1 = Completed then submit_seal ops version (to_be 64 (current_nonce job1)) nonce y
              else (Some nonce, y))"
      unfolding unfold using y(3) by (cases "job_status job1") (simp_all add: check_answer [OF cd j(2)])
    then show ?thesis using y(5) False s(1,2) by blast
  qed
qed

section \<open>Property\<close>



section \<open>A node with a miner, for the witness\<close>

text \<open>The state is the list of jobs of the miner, which makes one pass before every answer; seals are refused.\<close>

definition refusing_import :: "('x, unit, nat, unit, unit, unit) import_ops" where
  "refusing_import = \<lparr> pow_engine = [1], check_inherents_after = 0, skip_execution_checks = (\<lambda>a. True),
     hash_header = (\<lambda>h. 0), best_chain_header = (\<lambda>_. Inl ''No best block''), get_aux = (\<lambda>x k. Inr None),
     encode_aux = (\<lambda>a. []), decode_aux = (\<lambda>bs. None), default_aux = \<lparr> aux_difficulty = 0, aux_total = 0 \<rparr>,
     increment = (+), inherent_providers = (\<lambda>_ _. Inr ()), inherent_data = (\<lambda>_. Inr ()),
     runtime_check_inherents = (\<lambda>_ _ _ _ _. Inr (True, [])), try_handle_error = (\<lambda>_ _ _. None),
     inner_import = (\<lambda>b x. (Inl ''Refused'', x)) \<rparr>"

definition refusing_alg :: "('x, nat) pow_algorithm" where
  "refusing_alg = \<lparr> alg_difficulty = (\<lambda>_ _. Inr 5), alg_preliminary_verify = (\<lambda>_ _ _. Inr None), alg_break_tie = (\<lambda>_ _. False),
     alg_verify = (\<lambda>_ _ _ _ seal _. Inr False) \<rparr>"

definition one_miner :: "(mining_state, unit, nat, unit, unit, unit) loop_ops" where
  "one_miner = \<lparr> ml_handle = (\<lambda>x. (on_build toy_build new_handle, x)), ml_put_handle = (\<lambda>_ x. x),
     ml_import = refusing_import, ml_algorithm = refusing_alg, ml_client = three_client,
     ml_threshold = (\<lambda>_ x. (Inr 3, x)), ml_new_job_id = (\<lambda>x. (''a'', x)),
     ml_post_mine = (\<lambda>rq x. case handle_mine_request text_codec rq x of
        None \<Rightarrow> (Inl ''Panicked'', x) | Some ((_, answer), jobs) \<Rightarrow> (Inr answer, jobs)),
     ml_get_result = (\<lambda>i x. case mining_pass two_hash nine_hash x of
        None \<Rightarrow> (Inl ''No answer'', x) | Some jobs \<Rightarrow> (Inr (snd (handle_result_request text_codec i jobs)), jobs)),
     ml_post_cancel = (\<lambda>i x. case handle_cancel_request i x of ((_, answer), jobs) \<Rightarrow> (Inr answer, jobs)) \<rparr>"

lemma mining_pass_total:
  assumes "\<And>h. get_random_rsa sha256 sha3 h \<noteq> None" and "\<forall>(job_id, job) \<in> set jobs. search_state sha256 sha3 job"
  shows "\<exists>jobs'. mining_pass sha256 sha3 jobs = Some jobs'"
  using assms(2)
proof (induction jobs)
  case (Cons entry jobs)
  obtain job_id job where e: "entry = (job_id, job)" by (cases entry)
  have "search_state sha256 sha3 job" using Cons.prems e by simp
  then obtain job' where "job_tick sha256 sha3 job = Tick job'" using job_tick_result assms(1) by blast
  then show ?case using Cons e by auto
qed simp

lemma one_miner_behind:
  "miner_behind two_hash nine_hash text_codec one_miner (\<lambda>x. x) (on_build toy_build new_handle)"
proof -
  have "\<exists>jobs'. mining_pass two_hash nine_hash jobs = Some jobs'" if "miner_wf two_hash nine_hash jobs" for jobs
    by (rule mining_pass_total) (use that toy_rsa in \<open>auto simp: miner_wf_def\<close>)
  moreover have "mining_passes two_hash nine_hash 1 jobs = mining_pass two_hash nine_hash jobs" for jobs
    by (simp split: option.split)
  ultimately have "\<exists>k jobs'. 0 < k \<and> mining_passes two_hash nine_hash k jobs = Some jobs' \<and>
      mining_pass two_hash nine_hash jobs = Some jobs'" if "miner_wf two_hash nine_hash jobs" for jobs
    using that by (metis zero_less_one)
  then show ?thesis
    unfolding miner_behind_def by (fastforce simp: one_miner_def)
qed


end
