(* ===== verification/Signatures.thy ===== *)
theory Signatures
  imports Frame
begin

text \<open>
  The signature scheme of the chain (\<open>dilithium-crypto/src/types.rs\<close>, \<open>traits.rs\<close> and \<open>pair.rs\<close>): Dilithium
  public keys and signatures as byte arrays, the pair of a signature with its public key, the sum of the
  schemes that may sign an extrinsic, and the accounts the keys stand for. The lengths, the hashes and the
  cryptography of the libraries are the parameters of \<open>crypto_ops\<close>.
\<close>

section \<open>Keys and signatures\<close>

datatype resonance_public = Resonance_Public bytes
datatype resonance_signature = Resonance_Signature bytes
datatype resonance_signature_with_public = Signature_With_Public bytes

datatype signature_scheme =
  Scheme_Ed25519 bytes
| Scheme_Sr25519 bytes
| Scheme_Ecdsa bytes
| Scheme_Resonance resonance_signature_with_public

datatype resonance_signer =
  Signer_Ed25519 bytes
| Signer_Sr25519 bytes
| Signer_Ecdsa bytes
| Signer_Resonance resonance_public

datatype crypto_error = KeyGenerationFailed | InvalidLength

record resonance_pair =
  secret_key :: bytes
  public_key :: bytes

record crypto_ops =
  PUB_KEY_BYTES :: nat
  SIGNATURE_BYTES :: nat
  poseidon_hash :: "bytes \<Rightarrow> bytes"
  blake_hash :: "bytes \<Rightarrow> bytes"
  dilithium_verify :: "bytes \<Rightarrow> bytes \<Rightarrow> bytes \<Rightarrow> bool"
  dilithium_sign :: "resonance_pair \<Rightarrow> bytes \<Rightarrow> bytes option"
  dilithium_generate :: "bytes \<Rightarrow> resonance_pair option"
  ed25519_verify :: "bytes \<Rightarrow> bytes \<Rightarrow> bytes \<Rightarrow> bool"
  sr25519_verify :: "bytes \<Rightarrow> bytes \<Rightarrow> bytes \<Rightarrow> bool"
  ecdsa_recover :: "bytes \<Rightarrow> bytes \<Rightarrow> bytes option"

section \<open>Byte arrays of a fixed length\<close>

definition public_from_slice :: "crypto_ops \<Rightarrow> bytes \<Rightarrow> resonance_public option" where
  "public_from_slice c data = (if length data = PUB_KEY_BYTES c then Some (Resonance_Public data) else None)"

definition signature_from_slice :: "crypto_ops \<Rightarrow> bytes \<Rightarrow> resonance_signature option" where
  "signature_from_slice c data = (if length data = SIGNATURE_BYTES c then Some (Resonance_Signature data) else None)"

primrec public_bytes :: "resonance_public \<Rightarrow> bytes" where
  "public_bytes (Resonance_Public bs) = bs"

primrec signature_bytes :: "resonance_signature \<Rightarrow> bytes" where
  "signature_bytes (Resonance_Signature bs) = bs"

primrec to_bytes :: "resonance_signature_with_public \<Rightarrow> bytes" where
  "to_bytes (Signature_With_Public bs) = bs"

definition TOTAL_LEN :: "crypto_ops \<Rightarrow> nat" where
  "TOTAL_LEN c = SIGNATURE_BYTES c + PUB_KEY_BYTES c"

text \<open>Copying into the two parts of the array panics, \<open>None\<close>, when a part has another length.\<close>

definition new_signature ::
    "crypto_ops \<Rightarrow> resonance_signature \<Rightarrow> resonance_public \<Rightarrow> resonance_signature_with_public option" where
  "new_signature c sig pub =
     (if length (signature_bytes sig) = SIGNATURE_BYTES c \<and> length (public_bytes pub) = PUB_KEY_BYTES c
      then Some (Signature_With_Public (signature_bytes sig @ public_bytes pub)) else None)"

definition signature_of :: "crypto_ops \<Rightarrow> resonance_signature_with_public \<Rightarrow> resonance_signature option" where
  "signature_of c sp = signature_from_slice c (take (SIGNATURE_BYTES c) (to_bytes sp))"

definition public_of :: "crypto_ops \<Rightarrow> resonance_signature_with_public \<Rightarrow> resonance_public option" where
  "public_of c sp = public_from_slice c (drop (SIGNATURE_BYTES c) (to_bytes sp))"

text \<open>A result with a panic beside it.\<close>

datatype ('e, 'a) outcome = Ok 'a | Err 'e | Panic

definition from_bytes :: "crypto_ops \<Rightarrow> bytes \<Rightarrow> (crypto_error, resonance_signature_with_public) outcome" where
  "from_bytes c bs =
     (if length bs \<noteq> TOTAL_LEN c then Err InvalidLength
      else case signature_from_slice c (take (SIGNATURE_BYTES c) bs) of
          None \<Rightarrow> Err InvalidLength
        | Some sig \<Rightarrow>
            (case public_from_slice c (drop (SIGNATURE_BYTES c) bs) of
               None \<Rightarrow> Err InvalidLength
             | Some pub \<Rightarrow> (case new_signature c sig pub of None \<Rightarrow> Panic | Some sp \<Rightarrow> Ok sp)))"

definition from_slice :: "crypto_ops \<Rightarrow> bytes \<Rightarrow> (unit, resonance_signature_with_public) outcome" where
  "from_slice c data =
     (if length data \<noteq> TOTAL_LEN c then Err ()
      else case from_bytes c data of Ok sp \<Rightarrow> Ok sp | Err _ \<Rightarrow> Err () | Panic \<Rightarrow> Panic)"

text \<open>\<open>split_at\<close> panics on a slice shorter than a signature.\<close>

definition try_from_slice :: "crypto_ops \<Rightarrow> bytes \<Rightarrow> (unit, resonance_signature_with_public) outcome" where
  "try_from_slice c data =
     (if length data < SIGNATURE_BYTES c then Panic
      else case signature_from_slice c (take (SIGNATURE_BYTES c) data) of
          None \<Rightarrow> Err ()
        | Some sig \<Rightarrow>
            (case public_from_slice c (drop (SIGNATURE_BYTES c) data) of
               None \<Rightarrow> Err ()
             | Some pub \<Rightarrow> (case new_signature c sig pub of None \<Rightarrow> Panic | Some sp \<Rightarrow> Ok sp)))"

section \<open>Accounts and verification\<close>

definition public_account :: "crypto_ops \<Rightarrow> resonance_public \<Rightarrow> bytes" where
  "public_account c pub = poseidon_hash c (public_bytes pub)"

primrec signer_account :: "crypto_ops \<Rightarrow> resonance_signer \<Rightarrow> bytes" where
  "signer_account c (Signer_Ed25519 who) = who"
| "signer_account c (Signer_Sr25519 who) = who"
| "signer_account c (Signer_Ecdsa who) = blake_hash c who"
| "signer_account c (Signer_Resonance who) = poseidon_hash c (public_bytes who)"

text \<open>An account of 32 bytes is always a key of the first two schemes. The value \<open>None\<close> is a panic.\<close>

primrec scheme_verify :: "crypto_ops \<Rightarrow> signature_scheme \<Rightarrow> bytes \<Rightarrow> bytes \<Rightarrow> bool option" where
  "scheme_verify c (Scheme_Ed25519 sig) msg signer = Some (ed25519_verify c sig msg signer)"
| "scheme_verify c (Scheme_Sr25519 sig) msg signer = Some (sr25519_verify c sig msg signer)"
| "scheme_verify c (Scheme_Ecdsa sig) msg signer =
     Some (case ecdsa_recover c sig (blake_hash c msg) of
             None \<Rightarrow> False | Some pubkey \<Rightarrow> blake_hash c pubkey = signer)"
| "scheme_verify c (Scheme_Resonance sig_public) msg signer =
     (case public_of c sig_public of
        None \<Rightarrow> None
      | Some public \<Rightarrow>
          if public_account c public \<noteq> signer then Some False
          else (case signature_of c sig_public of
                  None \<Rightarrow> None
                | Some sig \<Rightarrow> Some (dilithium_verify c (public_bytes public) msg (signature_bytes sig))))"

section \<open>Key pairs\<close>

definition from_seed :: "crypto_ops \<Rightarrow> bytes \<Rightarrow> crypto_error + resonance_pair" where
  "from_seed c seed = (case dilithium_generate c seed of None \<Rightarrow> Inl KeyGenerationFailed | Some kp \<Rightarrow> Inr kp)"

definition pair_public :: "crypto_ops \<Rightarrow> resonance_pair \<Rightarrow> resonance_public option" where
  "pair_public c kp = public_from_slice c (public_key kp)"

text \<open>Every \<open>expect\<close> on the way is a panic, \<open>None\<close>.\<close>

definition pair_sign :: "crypto_ops \<Rightarrow> resonance_pair \<Rightarrow> bytes \<Rightarrow> resonance_signature_with_public option" where
  "pair_sign c kp message =
     (case dilithium_sign c kp message of
        None \<Rightarrow> None
      | Some bs \<Rightarrow>
          (case signature_from_slice c bs of
             None \<Rightarrow> None
           | Some sig \<Rightarrow> (case pair_public c kp of None \<Rightarrow> None | Some pub \<Rightarrow> new_signature c sig pub)))"

definition pair_verify ::
    "crypto_ops \<Rightarrow> resonance_signature_with_public \<Rightarrow> bytes \<Rightarrow> resonance_public \<Rightarrow> bool option" where
  "pair_verify c sig message pubkey =
     scheme_verify c (Scheme_Resonance sig) message (signer_account c (Signer_Resonance pubkey))"

text \<open>The trait \<open>Pair\<close>: a seed the library refuses is an invalid seed; deriving keys is not implemented, which is
  a panic; the raw form of a pair is its secret key.\<close>

datatype secret_string_error = InvalidSeed

definition from_seed_slice :: "crypto_ops \<Rightarrow> bytes \<Rightarrow> secret_string_error + resonance_pair" where
  "from_seed_slice c seed = (case from_seed c seed of Inl _ \<Rightarrow> Inl InvalidSeed | Inr kp \<Rightarrow> Inr kp)"

definition derive_pair :: "resonance_pair \<Rightarrow> 'path \<Rightarrow> (unit, resonance_pair) outcome" where
  "derive_pair kp path = Panic"

definition pair_raw_vec :: "resonance_pair \<Rightarrow> bytes" where
  "pair_raw_vec kp = secret_key kp"

definition pair_account :: "crypto_ops \<Rightarrow> resonance_pair \<Rightarrow> bytes option" where
  "pair_account c kp = map_option (public_account c) (pair_public c kp)"

text \<open>The pairs of the development accounts, and the default pair: of constant seeds, with a panic when
  the library refuses them.\<close>

definition expect_pair :: "'f + resonance_pair \<Rightarrow> resonance_pair option" where
  "expect_pair r = (case r of Inl _ \<Rightarrow> None | Inr kp \<Rightarrow> Some kp)"

definition crystal_alice :: "crypto_ops \<Rightarrow> resonance_pair option" where
  "crystal_alice c = expect_pair (from_seed_slice c (replicate 32 0))"

definition dilithium_bob :: "crypto_ops \<Rightarrow> resonance_pair option" where
  "dilithium_bob c = expect_pair (from_seed_slice c (replicate 32 1))"

definition crystal_charlie :: "crypto_ops \<Rightarrow> resonance_pair option" where
  "crystal_charlie c = expect_pair (from_seed_slice c (replicate 32 2))"

definition default_pair :: "crypto_ops \<Rightarrow> resonance_pair option" where
  "default_pair c = expect_pair (from_seed c (replicate 32 0))"

section \<open>Conversions\<close>

text \<open>A wormhole address is its own account.\<close>

datatype wormhole_address = Wormhole_Address bytes

primrec wormhole_account :: "wormhole_address \<Rightarrow> bytes option" where
  "wormhole_account (Wormhole_Address h) = (if length h = 32 then Some h else None)"

fun ed25519_of_scheme :: "signature_scheme \<Rightarrow> unit + bytes" where
  "ed25519_of_scheme (Scheme_Ed25519 x) = Inr x"
| "ed25519_of_scheme _ = Inl ()"

fun sr25519_of_scheme :: "signature_scheme \<Rightarrow> unit + bytes" where
  "sr25519_of_scheme (Scheme_Sr25519 x) = Inr x"
| "sr25519_of_scheme _ = Inl ()"

fun ecdsa_of_scheme :: "signature_scheme \<Rightarrow> unit + bytes" where
  "ecdsa_of_scheme (Scheme_Ecdsa x) = Inr x"
| "ecdsa_of_scheme _ = Inl ()"

fun resonance_of_scheme :: "signature_scheme \<Rightarrow> unit + resonance_signature_with_public" where
  "resonance_of_scheme (Scheme_Resonance sp) = Inr sp"
| "resonance_of_scheme _ = Inl ()"

section \<open>Lemmas\<close>

lemmas slice_defs = public_from_slice_def signature_from_slice_def

lemma from_bytes_total:
  "from_bytes c data = (if length data = TOTAL_LEN c then Ok (Signature_With_Public data) else Err InvalidLength)"
  by (simp add: from_bytes_def slice_defs TOTAL_LEN_def new_signature_def)

lemma new_signature_parts:
  assumes "new_signature c sig pub = Some sp"
  shows "signature_of c sp = Some sig" "public_of c sp = Some pub" "length (to_bytes sp) = TOTAL_LEN c"
  using assms
  by (cases sig; cases pub; auto simp: slice_defs new_signature_def signature_of_def public_of_def TOTAL_LEN_def split: if_splits)+

lemma scheme_conversions:
  "ed25519_of_scheme sch = Inr x \<longleftrightarrow> sch = Scheme_Ed25519 x" "sr25519_of_scheme sch = Inr x \<longleftrightarrow> sch = Scheme_Sr25519 x"
  "ecdsa_of_scheme sch = Inr x \<longleftrightarrow> sch = Scheme_Ecdsa x" "resonance_of_scheme sch = Inr sp \<longleftrightarrow> sch = Scheme_Resonance sp"
  by (cases sch; simp)+

text \<open>What the library promises of a generated pair: its public key has the fixed length, and a signature it
  makes has the fixed length and verifies.\<close>

definition dilithium_law :: "crypto_ops \<Rightarrow> bool" where
  "dilithium_law c \<longleftrightarrow>
     (\<forall>seed kp. dilithium_generate c seed = Some kp \<longrightarrow> length (public_key kp) = PUB_KEY_BYTES c \<and>
        (\<forall>m. \<exists>bs. dilithium_sign c kp m = Some bs \<and> length bs = SIGNATURE_BYTES c \<and>
           dilithium_verify c (public_key kp) m bs))"

lemma pair_signs:
  assumes "dilithium_law c" and "from_seed c seed = Inr kp"
  shows "\<exists>sp pub. pair_sign c kp message = Some sp \<and> pair_public c kp = Some pub \<and>
    scheme_verify c (Scheme_Resonance sp) message (public_account c pub) = Some True"
proof -
  have len: "length (public_key kp) = PUB_KEY_BYTES c" and
    "\<exists>bs. dilithium_sign c kp message = Some bs \<and> length bs = SIGNATURE_BYTES c \<and>
       dilithium_verify c (public_key kp) message bs"
    using assms by (auto simp: dilithium_law_def from_seed_def split: option.splits)
  then obtain bs where bs: "dilithium_sign c kp message = Some bs" "length bs = SIGNATURE_BYTES c"
    "dilithium_verify c (public_key kp) message bs" by blast
  let ?pub = "Resonance_Public (public_key kp)" and ?sp = "Signature_With_Public (bs @ public_key kp)"
  have n: "new_signature c (Resonance_Signature bs) ?pub = Some ?sp"
    using bs(2) len by (simp add: new_signature_def)
  have "signature_from_slice c bs = Some (Resonance_Signature bs)" "pair_public c kp = Some ?pub"
    using bs(2) len by (simp_all add: pair_public_def slice_defs)
  then have "pair_sign c kp message = Some ?sp" "pair_public c kp = Some ?pub"
    using bs(1) n by (simp_all add: pair_sign_def)
  moreover have "scheme_verify c (Scheme_Resonance ?sp) message (public_account c ?pub) = Some True"
    using bs(3) new_signature_parts [OF n] by simp
  ultimately show ?thesis by blast
qed

text \<open>Toy cryptography: the key is the seed, and a signature repeats key and message.\<close>

definition toy_crypto :: crypto_ops where
  "toy_crypto =
     \<lparr> PUB_KEY_BYTES = 2, SIGNATURE_BYTES = 3, poseidon_hash = (\<lambda>bs. 7 # bs), blake_hash = (\<lambda>bs. 8 # bs),
       dilithium_verify = (\<lambda>pk m sig. sig = pk @ [of_nat (length m)]),
       dilithium_sign = (\<lambda>kp m. Some (public_key kp @ [of_nat (length m)])),
       dilithium_generate = (\<lambda>seed. if length seed = 2 then Some \<lparr> secret_key = seed, public_key = seed \<rparr> else None),
       ed25519_verify = (\<lambda>sig m pk. sig = pk), sr25519_verify = (\<lambda>sig m pk. sig = pk),
       ecdsa_recover = (\<lambda>sig m. Some sig) \<rparr>"

lemma toy_crypto_law: "dilithium_law toy_crypto"
  by (auto simp: dilithium_law_def toy_crypto_def split: if_splits)

section \<open>Properties\<close>

text \<open>A signature and its public key survive the trip through bytes: what \<open>new\<close> joins, \<open>signature\<close> and \<open>public\<close>
  take apart again; \<open>from_bytes\<close> and \<open>from_slice\<close> accept exactly the byte strings of the total length, give them
  back unchanged and never panic. \<open>TryFrom\<close> agrees with them on every slice that holds a signature, but a
  shorter one makes it panic, where an error is due.\<close>

theorem signature_bytes_roundtrip:
  shows "(\<forall>sig pub sp. new_signature c sig pub = Some sp \<longrightarrow>
      signature_of c sp = Some sig \<and> public_of c sp = Some pub \<and> from_bytes c (to_bytes sp) = Ok sp) \<and>
    (from_bytes c data = Ok sp \<longleftrightarrow> to_bytes sp = data \<and> length data = TOTAL_LEN c) \<and>
    from_bytes c data \<noteq> Panic \<and>
    from_slice c data = (case from_bytes c data of Ok sp \<Rightarrow> Ok sp | _ \<Rightarrow> Err ()) \<and>
    try_from_slice c data = (if length data < SIGNATURE_BYTES c then Panic else from_slice c data)"
proof -
  have "from_bytes c (to_bytes sp) = Ok sp" if "new_signature c sig pub = Some sp" for sig pub sp
    using new_signature_parts(3) [OF that] by (cases sp) (simp add: from_bytes_total)
  moreover have "try_from_slice c data = from_slice c data" if "\<not> length data < SIGNATURE_BYTES c"
    using that
    by (auto simp: try_from_slice_def from_slice_def from_bytes_total slice_defs TOTAL_LEN_def new_signature_def)
  ultimately show ?thesis
    using new_signature_parts(1,2) by (cases sp) (auto simp: from_bytes_total from_slice_def try_from_slice_def)
qed

theorem signature_bytes_roundtrip_witness:
  "signature_of toy_crypto (Signature_With_Public [1, 2, 3, 4, 5]) = Some (Resonance_Signature [1, 2, 3])"
proof -
  have "new_signature toy_crypto (Resonance_Signature [1, 2, 3]) (Resonance_Public [4, 5])
      = Some (Signature_With_Public [1, 2, 3, 4, 5])"
    by (simp add: new_signature_def toy_crypto_def)
  then show ?thesis using signature_bytes_roundtrip [of toy_crypto] by blast
qed

text \<open>C33: A Dilithium signature stands for one account. A pair made from a seed signs without a panic, and its signature
  verifies for its public key; and a signature is accepted for an account only when the account is the hash of
  the public key that comes with it and the library verifies that key, whatever the message and the account.\<close>

theorem signature_verification_correct:
  assumes "dilithium_law c" and "from_seed c seed = Inr kp"
  shows "(\<exists>sp pub. pair_sign c kp message = Some sp \<and> pair_public c kp = Some pub \<and>
      pair_verify c sp message pub = Some True \<and>
      scheme_verify c (Scheme_Resonance sp) message (public_account c pub) = Some True) \<and>
    (scheme_verify c (Scheme_Resonance other) message signer = Some True \<longleftrightarrow>
      (\<exists>pub sig. public_of c other = Some pub \<and> signature_of c other = Some sig \<and> signer = public_account c pub \<and>
         dilithium_verify c (public_bytes pub) message (signature_bytes sig)))"
proof -
  obtain sp pub where "pair_sign c kp message = Some sp" "pair_public c kp = Some pub"
    "scheme_verify c (Scheme_Resonance sp) message (public_account c pub) = Some True"
    using pair_signs [OF assms] by blast
  moreover have "signer_account c (Signer_Resonance pub) = public_account c pub"
    by (simp add: public_account_def)
  ultimately show ?thesis
    by (auto simp: pair_verify_def split: option.splits if_splits)
qed

theorem signature_verification_correct_witness:
  "\<exists>sp. pair_sign toy_crypto \<lparr> secret_key = [1, 2], public_key = [1, 2] \<rparr> [9] = Some sp \<and>
    pair_verify toy_crypto sp [9] (Resonance_Public [1, 2]) = Some True"
proof -
  have "from_seed toy_crypto [1, 2] = Inr \<lparr> secret_key = [1, 2], public_key = [1, 2] \<rparr>"
    "pair_public toy_crypto \<lparr> secret_key = [1, 2], public_key = [1, 2] \<rparr> = Some (Resonance_Public [1, 2])"
    by (simp_all add: from_seed_def pair_public_def slice_defs toy_crypto_def)
  then show ?thesis using signature_verification_correct [OF toy_crypto_law, of "[1, 2]"] by fastforce
qed

end
