(* ===== verification/NodeKeys.thy ===== *)
theory NodeKeys
  imports Signatures ExternalMinerLaw
begin

text \<open>
  Keys and addresses at the node's edge: the key command (\<open>node/src/command.rs\<close>), which makes a Dilithium pair
  from words, a seed or fresh words, or a wormhole address, and the faucet's RPC (\<open>node/src/faucet.rs\<close>), which
  reads an address and submits a faucet call. The word lists, the SS58 format, the random source and the
  transaction pool are parameters; printing is left out.
\<close>

section \<open>The key command\<close>

datatype address_type = Address_Standard | Address_Wormhole

record key_details =
  kd_address :: string
  raw_address :: string
  public_key_hex :: string
  secret_key_hex :: string
  seed_hex :: string
  secret_phrase :: "string option"

record key_ops =
  words_to_seed :: "string \<Rightarrow> bytes option"
  fresh_words :: "string option"
  fresh_wormhole :: "(bytes \<times> bytes) option"
  to_ss58check :: "bytes \<Rightarrow> string"
  from_ss58 :: "string \<Rightarrow> bytes option"

text \<open>\<open>trim_start_matches\<close> removes the prefix as often as it stands there.\<close>

fun trim_hex_prefix :: "string \<Rightarrow> string" where
  "trim_hex_prefix (c # d # s) = (if c = CHR ''0'' \<and> d = CHR ''x'' then trim_hex_prefix s else c # d # s)"
| "trim_hex_prefix s = s"

text \<open>The seed of the pair and the words to print.\<close>

definition choose_seed ::
    "codec_ops \<Rightarrow> key_ops \<Rightarrow> string option \<Rightarrow> string option \<Rightarrow> string + bytes \<times> string option" where
  "choose_seed cd k seed words =
     (case words of
        Some words_phrase \<Rightarrow>
          (case words_to_seed k words_phrase of
             None \<Rightarrow> Inl ''Failed to process provided words'' | Some s \<Rightarrow> Inr (s, Some words_phrase))
      | None \<Rightarrow>
          (case seed of
             Some hex_seed_str \<Rightarrow>
               (let hex_seed = trim_hex_prefix hex_seed_str
                in if length hex_seed \<noteq> 128 then Inl ''Invalid hex seed length''
                   else case hex_decode cd hex_seed of
                       None \<Rightarrow> Inl ''Invalid hex seed format''
                     | Some bs \<Rightarrow> if length bs \<noteq> 64 then Inl ''Invalid decoded hex seed length'' else Inr (bs, None))
           | None \<Rightarrow>
               (case fresh_words k of
                  None \<Rightarrow> Inl ''Failed to generate new words''
                | Some new_words \<Rightarrow>
                    (case words_to_seed k new_words of
                       None \<Rightarrow> Inl ''Failed to process new words'' | Some s \<Rightarrow> Inr (s, Some new_words)))))"

definition generate_quantus_key ::
    "codec_ops \<Rightarrow> crypto_ops \<Rightarrow> key_ops \<Rightarrow> address_type \<Rightarrow> string option \<Rightarrow> string option
      \<Rightarrow> (string, key_details) outcome" where
  "generate_quantus_key cd c k scheme seed words =
     (case scheme of
        Address_Standard \<Rightarrow>
          (case choose_seed cd k seed words of
             Inl e \<Rightarrow> Err e
           | Inr (actual_seed, words_to_print) \<Rightarrow>
               (case from_seed c actual_seed of
                  Inl e \<Rightarrow> Err ''Failed to create keypair''
                | Inr kp \<Rightarrow>
                    (case pair_public c kp of
                       None \<Rightarrow> Panic
                     | Some public \<Rightarrow>
                         let account_id = public_account c public
                         in Ok \<lparr> kd_address = to_ss58check k account_id,
                                 raw_address = ''0x'' @ hex_encode cd account_id,
                                 public_key_hex = ''0x'' @ hex_encode cd (public_bytes public),
                                 secret_key_hex = ''0x'' @ hex_encode cd (secret_key kp),
                                 seed_hex = ''0x'' @ hex_encode cd actual_seed,
                                 secret_phrase = words_to_print \<rparr>)))
      | Address_Wormhole \<Rightarrow>
          (case fresh_wormhole k of
             None \<Rightarrow> Err ''Wormhole generation error''
           | Some (address, secret) \<Rightarrow>
               Ok \<lparr> kd_address = to_ss58check k address, raw_address = ''0x'' @ hex_encode cd address,
                    public_key_hex = ''0x'' @ hex_encode cd address, secret_key_hex = ''0x'' @ hex_encode cd secret,
                    seed_hex = ''N/A (Wormhole)'', secret_phrase = None \<rparr>))"

section \<open>The faucet's RPC\<close>

definition strip_hex_prefix :: "string \<Rightarrow> string option" where
  "strip_hex_prefix s = (if take 2 s = ''0x'' then Some (drop 2 s) else None)"

definition parse_address :: "codec_ops \<Rightarrow> key_ops \<Rightarrow> string \<Rightarrow> string + bytes" where
  "parse_address cd k address =
     (case strip_hex_prefix address of
        Some hex_str \<Rightarrow>
          (case hex_decode cd hex_str of
             Some bs \<Rightarrow> if length bs \<noteq> 32 then Inl ''Invalid hex address length, expected 32 bytes'' else Inr bs
           | None \<Rightarrow> Inl ''Invalid hex address format'')
      | None \<Rightarrow>
          (case from_ss58 k address of
             Some account \<Rightarrow> Inr account
           | None \<Rightarrow> Inl ''Invalid address format, expected 0x-prefixed hex or valid SS58''))"

text \<open>The balances of an account as the runtime gives them, or zeros when it cannot be asked.\<close>

definition get_account_info ::
    "codec_ops \<Rightarrow> key_ops \<Rightarrow> (bytes \<Rightarrow> string + balance \<times> balance) \<Rightarrow> string \<Rightarrow> string + balance \<times> balance" where
  "get_account_info cd k account_balance address =
     (case parse_address cd k address of
        Inl e \<Rightarrow> Inl e
      | Inr account_id \<Rightarrow> (case account_balance account_id of Inr b \<Rightarrow> Inr b | Inl _ \<Rightarrow> Inr (0, 0)))"

definition request_tokens ::
    "codec_ops \<Rightarrow> key_ops \<Rightarrow> (bytes \<Rightarrow> u64 \<Rightarrow> 'x \<Rightarrow> bool \<times> 'x) \<Rightarrow> u64 \<Rightarrow> string \<Rightarrow> 'x \<Rightarrow> (string + bool) \<times> 'x" where
  "request_tokens cd k submit_mint seed address x =
     (case parse_address cd k address of
        Inl e \<Rightarrow> (Inl e, x)
      | Inr account_id \<Rightarrow> (case submit_mint account_id seed x of (ok, x') \<Rightarrow> (Inr ok, x')))"

section \<open>Property\<close>

text \<open>What the libraries promise of accounts: hashes are 32 bytes long, and the SS58 text of such an
  account can be read back and has no hexadecimal prefix.\<close>

definition address_law :: "crypto_ops \<Rightarrow> key_ops \<Rightarrow> bool" where
  "address_law c k \<longleftrightarrow> (\<forall>bs. length (poseidon_hash c bs) = 32) \<and>
     (\<forall>a. length a = 32 \<longrightarrow> from_ss58 k (to_ss58check k a) = Some a \<and> strip_hex_prefix (to_ss58check k a) = None)"

text \<open>Hexadecimal text never begins with the prefix.\<close>

definition hex_text_law :: "codec_ops \<Rightarrow> bool" where
  "hex_text_law cd \<longleftrightarrow> (\<forall>bs. strip_hex_prefix (hex_encode cd bs) = None)"

lemma trim_prefixed: "strip_hex_prefix h = None \<Longrightarrow> trim_hex_prefix (''0x'' @ h) = h"
  by (cases h rule: trim_hex_prefix.cases) (auto simp: strip_hex_prefix_def split: if_splits)

lemma generated_key_parts:
  assumes "generate_quantus_key cd c k Address_Standard seed words = Ok d"
  obtains s ws kp pub where "choose_seed cd k seed words = Inr (s, ws)" "from_seed c s = Inr kp" "pair_public c kp = Some pub"
    "d = \<lparr> kd_address = to_ss58check k (public_account c pub), raw_address = ''0x'' @ hex_encode cd (public_account c pub),
      public_key_hex = ''0x'' @ hex_encode cd (public_bytes pub), secret_key_hex = ''0x'' @ hex_encode cd (secret_key kp),
      seed_hex = ''0x'' @ hex_encode cd s, secret_phrase = ws \<rparr>"
  using assms that by (auto simp: generate_quantus_key_def Let_def split: sum.splits prod.splits option.splits)

lemma parse_addresses:
  assumes "codec_law cd" and "address_law c k"
  shows "parse_address cd k (to_ss58check k (public_account c pub)) = Inr (public_account c pub)"
    "parse_address cd k (''0x'' @ hex_encode cd (public_account c pub)) = Inr (public_account c pub)"
  using assms
  by (simp_all add: address_law_def public_account_def parse_address_def strip_hex_prefix_def codec_law_def)

text \<open>Toy keys of 64 bytes with accounts of 32, and an address format of one letter before the hexadecimal text.\<close>

definition toy_keys :: crypto_ops where
  "toy_keys = toy_crypto\<lparr> poseidon_hash := (\<lambda>bs. replicate 32 (if bs = [] then 0 else hd bs)),
     dilithium_generate := (\<lambda>seed. if length seed = 64 then Some \<lparr> secret_key = seed, public_key = take 2 seed \<rparr> else None) \<rparr>"

definition toy_addresses :: key_ops where
  "toy_addresses = \<lparr> words_to_seed = (\<lambda>w. Some (replicate 64 1)), fresh_words = None, fresh_wormhole = None,
     to_ss58check = (\<lambda>a. CHR ''5'' # to_hex a), from_ss58 = (\<lambda>s. if s = [] then None else of_hex (tl s)) \<rparr>"

lemma digit_char_not_x: "n < 16 \<Longrightarrow> digit_char n \<noteq> CHR ''x''"
  using char_digit_char [of n] by (auto simp: char_digit_def Let_def)

lemma toy_laws: "dilithium_law toy_keys" "address_law toy_keys toy_addresses" "hex_text_law text_codec"
proof -
  show "dilithium_law toy_keys"
    by (auto simp: dilithium_law_def toy_keys_def toy_crypto_def split: if_splits)
  show "address_law toy_keys toy_addresses"
    by (simp add: address_law_def toy_keys_def toy_addresses_def of_hex_to_hex strip_hex_prefix_def)
  have "strip_hex_prefix (to_hex bs) = None" for bs
  proof (cases bs)
    case (Cons b bs)
    have "unat b mod 16 < 16" by simp
    then show ?thesis using digit_char_not_x by (auto simp: Cons strip_hex_prefix_def)
  qed (simp add: strip_hex_prefix_def)
  then show "hex_text_law text_codec" by (simp add: hex_text_law_def text_codec_def)
qed

lemma toy_key:
  obtains d where "generate_quantus_key text_codec toy_keys toy_addresses Address_Standard None (Some ''w'') = Ok d"
    "kd_address d = to_ss58check toy_addresses (replicate 32 1)"
proof -
  let ?kp = "\<lparr> secret_key = replicate 64 1, public_key = [1, 1] \<rparr>"
  have g: "from_seed toy_keys (replicate 64 1) = Inr ?kp" "pair_public toy_keys ?kp = Some (Resonance_Public [1, 1])"
    "public_account toy_keys (Resonance_Public [1, 1]) = replicate 32 1"
    by (simp_all add: from_seed_def toy_keys_def toy_crypto_def pair_public_def slice_defs public_account_def take_replicate
        eval_nat_numeral)
  have "choose_seed text_codec toy_addresses None (Some ''w'') = Inr (replicate 64 1, Some ''w'')"
    by (simp add: choose_seed_def toy_addresses_def)
  with g obtain d where "generate_quantus_key text_codec toy_keys toy_addresses Address_Standard None (Some ''w'') = Ok d"
      "kd_address d = to_ss58check toy_addresses (replicate 32 1)"
    by (simp add: generate_quantus_key_def Let_def)
  then show ?thesis by (rule that)
qed

text \<open>A standard key and its addresses belong together. The key command never panics; when it succeeds, both the
  SS58 and the hexadecimal address it prints are read by the faucet as one account, the pair whose secret
  key and seed it prints signs for exactly that account, and giving the printed seed to the
  command again, when it has the length the command asks for, prints the same account and keys.\<close>

theorem generated_key_matches_address:
  assumes "codec_law cd" and "hex_text_law cd" and "dilithium_law c" and "address_law c k"
  shows "case generate_quantus_key cd c k Address_Standard seed words of
      Panic \<Rightarrow> False
    | Err e \<Rightarrow> True
    | Ok d \<Rightarrow> \<exists>account s kp.
        parse_address cd k (kd_address d) = Inr account \<and> parse_address cd k (raw_address d) = Inr account \<and>
        from_seed c s = Inr kp \<and> seed_hex d = ''0x'' @ hex_encode cd s \<and> secret_key_hex d = ''0x'' @ hex_encode cd (secret_key kp) \<and>
        (\<forall>message. \<exists>sp. pair_sign c kp message = Some sp \<and>
           scheme_verify c (Scheme_Resonance sp) message account = Some True) \<and>
        (length s = 64 \<longrightarrow>
           generate_quantus_key cd c k Address_Standard (Some (seed_hex d)) None = Ok (d\<lparr> secret_phrase := None \<rparr>))"
proof (cases "generate_quantus_key cd c k Address_Standard seed words")
  case (Ok d)
  from generated_key_parts [OF this] obtain s ws kp pub where
    g: "choose_seed cd k seed words = Inr (s, ws)" "from_seed c s = Inr kp" "pair_public c kp = Some pub"
    and d: "d = \<lparr> kd_address = to_ss58check k (public_account c pub), raw_address = ''0x'' @ hex_encode cd (public_account c pub),
      public_key_hex = ''0x'' @ hex_encode cd (public_bytes pub), secret_key_hex = ''0x'' @ hex_encode cd (secret_key kp),
      seed_hex = ''0x'' @ hex_encode cd s, secret_phrase = ws \<rparr>" by metis
  have ss: "parse_address cd k (kd_address d) = Inr (public_account c pub)"
    and raw: "parse_address cd k (raw_address d) = Inr (public_account c pub)"
    using parse_addresses [OF assms(1,4)] by (simp_all add: d)
  have hex: "hex_decode cd (hex_encode cd bs) = Some bs" for bs using assms(1) by (simp add: codec_law_def)
  have sig: "\<exists>sp. pair_sign c kp message = Some sp \<and>
      scheme_verify c (Scheme_Resonance sp) message (public_account c pub) = Some True" for message
    using pair_signs [OF assms(3) g(2)] g(3) by auto
  have "generate_quantus_key cd c k Address_Standard (Some (seed_hex d)) None = Ok (d\<lparr> secret_phrase := None \<rparr>)"
    if "length s = 64"
  proof -
    have "trim_hex_prefix (seed_hex d) = hex_encode cd s"
      using trim_prefixed [of "hex_encode cd s"] assms(2) by (simp add: hex_text_law_def d)
    then have "choose_seed cd k (Some (seed_hex d)) None = Inr (s, None)"
      using that hex codec_encode_length [OF assms(1), of s] by (simp add: choose_seed_def)
    then show ?thesis using g(2,3) by (simp add: generate_quantus_key_def Let_def d)
  qed
  then show ?thesis
    using Ok ss raw g(2) sig d by (auto intro!: exI [of _ "public_account c pub"] exI [of _ s] exI [of _ kp])
next
  case Panic
  then show ?thesis
    using assms(3) by (auto simp: generate_quantus_key_def Let_def dilithium_law_def from_seed_def pair_public_def slice_defs
        split: sum.splits prod.splits option.splits if_splits)
qed simp

theorem generated_key_matches_address_witness:
  "\<exists>d. generate_quantus_key text_codec toy_keys toy_addresses Address_Standard None (Some ''w'') = Ok d \<and>
    parse_address text_codec toy_addresses (raw_address d) = Inr (replicate 32 1)"
proof -
  obtain d where d: "generate_quantus_key text_codec toy_keys toy_addresses Address_Standard None (Some ''w'') = Ok d"
      "kd_address d = to_ss58check toy_addresses (replicate 32 1)"
    by (rule toy_key)
  have "parse_address text_codec toy_addresses (kd_address d) = Inr (replicate 32 1)"
    using toy_laws(2) by (simp add: d(2) parse_address_def address_law_def)
  with generated_key_matches_address [OF text_codec_law toy_laws(3,1,2), of None "Some ''w''"] d show ?thesis by auto
qed

end
