(* ===== verification/Presets.thy ===== *)
theory Presets
  imports NodeKeys RuntimeConfig
begin

text \<open>
  The genesis presets of the runtime (\<open>runtime/src/genesis_config_presets.rs\<close>): which accounts a chain starts
  with and who is sudo, and the chain that is built from them. The names of the standard presets, the test keyring
  and the writing of the configuration as JSON belong to the framework.
\<close>

section \<open>Presets\<close>

record genesis_config =
  gc_balances :: "(account \<times> balance) list"
  gc_sudo :: "account option"

record 'k preset_ops =
  DEV_RUNTIME_PRESET :: string
  LOCAL_TESTNET_RUNTIME_PRESET :: string
  keyring :: "'k list"
  keyring_One :: 'k
  keyring_Two :: 'k
  to_account_id :: "'k \<Rightarrow> account"

definition LIVE_TESTNET_RUNTIME_PRESET :: string where
  "LIVE_TESTNET_RUNTIME_PRESET = ''live_testnet''"

text \<open>An account of 32 bytes, as a number. Where the code expects a value and there is none it panics: \<open>None\<close>.\<close>

definition account_id :: "bytes \<Rightarrow> account" where
  "account_id bs = from_be bs"

definition account_from_ss58 :: "key_ops \<Rightarrow> string \<Rightarrow> account option" where
  "account_from_ss58 k ss58 = map_option account_id (from_ss58 k ss58)"

definition test_root_account :: "key_ops \<Rightarrow> account option" where
  "test_root_account k = account_from_ss58 k ''5FktBKPnRkY5QvF2NmFNUNh55mJvBtgMth5QoBjFJ4E4BbFf''"

definition into_account :: "crypto_ops \<Rightarrow> resonance_pair option \<Rightarrow> account option" where
  "into_account c kp = map_option account_id (Option.bind kp (pair_account c))"

definition dilithium_default_accounts :: "crypto_ops \<Rightarrow> account list option" where
  "dilithium_default_accounts c =
     (case (into_account c (crystal_alice c), into_account c (dilithium_bob c), into_account c (crystal_charlie c)) of
        (Some a, Some b, Some d) \<Rightarrow> Some [a, b, d] | _ \<Rightarrow> None)"

definition genesis_template :: "account list \<Rightarrow> account \<Rightarrow> genesis_config" where
  "genesis_template endowed_accounts root =
     \<lparr> gc_balances = genesis_balances endowed_accounts, gc_sudo = Some root \<rparr>"

definition development_config_genesis :: "crypto_ops \<Rightarrow> genesis_config option" where
  "development_config_genesis c =
     (case (dilithium_default_accounts c, into_account c (crystal_alice c)) of
        (Some endowed_accounts, Some root) \<Rightarrow> Some (genesis_template endowed_accounts root) | _ \<Rightarrow> None)"

definition live_testnet_config_genesis :: "key_ops \<Rightarrow> genesis_config option" where
  "live_testnet_config_genesis k = map_option (\<lambda>root. genesis_template [root] root) (test_root_account k)"

definition local_config_genesis :: "key_ops \<Rightarrow> 'k preset_ops \<Rightarrow> genesis_config option" where
  "local_config_genesis k ops =
     map_option
       (genesis_template (map (to_account_id ops) (filter (\<lambda>v. v \<noteq> keyring_One ops \<and> v \<noteq> keyring_Two ops) (keyring ops))))
       (test_root_account k)"

text \<open>An unknown preset is no configuration, beside the panics.\<close>

definition get_preset ::
    "crypto_ops \<Rightarrow> key_ops \<Rightarrow> 'k preset_ops \<Rightarrow> string \<Rightarrow> (unit, genesis_config) outcome" where
  "get_preset c k ops name =
     (let expected = (\<lambda>g. case g of Some config \<Rightarrow> Ok config | None \<Rightarrow> Panic)
      in if name = DEV_RUNTIME_PRESET ops then expected (development_config_genesis c)
         else if name = LOCAL_TESTNET_RUNTIME_PRESET ops then expected (local_config_genesis k ops)
         else if name = LIVE_TESTNET_RUNTIME_PRESET then expected (live_testnet_config_genesis k)
         else Err ())"

definition preset_names :: "'k preset_ops \<Rightarrow> string list" where
  "preset_names ops = [DEV_RUNTIME_PRESET ops, LOCAL_TESTNET_RUNTIME_PRESET ops, LIVE_TESTNET_RUNTIME_PRESET]"

section \<open>Property\<close>

lemma genesis_accounts: "map fst (genesis_balances endowed) = endowed"
  by (induction endowed) (simp_all add: genesis_balances_def)

lemma be_nat_zeros: "be_nat (replicate n 0 @ bs) = be_nat bs"
  by (induction n) (simp_all add: be_nat_Cons)

lemma preset_template:
  assumes "get_preset c k ops name = Ok config"
  obtains endowed root where "config = genesis_template endowed root"
    "name \<in> set (preset_names ops)"
    "name \<noteq> LOCAL_TESTNET_RUNTIME_PRESET ops \<or> name = DEV_RUNTIME_PRESET ops \<Longrightarrow> root \<in> set endowed"
  using assms that
  by (auto simp: get_preset_def preset_names_def Let_def development_config_genesis_def dilithium_default_accounts_def
      local_config_genesis_def live_testnet_config_genesis_def split: if_splits option.splits)

text \<open>Every preset starts a chain on which everything else applies. A name without a preset gives none and does not
  panic. Of a preset whose accounts differ the genesis is built without a panic: its accounts have \<open>2 ^ 60\<close>
  each, nobody else has anything, and the pallets that create tokens find the state they rely on. The
  sudo account of the development and the live preset is one of them, so that it can pay.\<close>

theorem presets_start_chain:
  assumes "good_balances (runtime_balances y drop_dust fr hr)" and "put_total y" and "cfg = runtime_balances y drop_dust fr hr"
    and "bal_ok cfg s" and "\<forall>a. account_of cfg s a = default_account"
    and "get_preset c k ops name = Ok config" and "accounts = map fst (gc_balances config)"
    and "distinct accounts" and "length accounts < 2 ^ 60"
  shows "(get_preset c k ops other = Err () \<longleftrightarrow> other \<notin> set (preset_names ops)) \<and>
    (\<exists>s'. balances_genesis_build cfg (gc_balances config) s = (Inr (), s') \<and> ready_to_mint cfg s' \<and>
       (\<forall>b. funds_of cfg s' b = (if b \<in> set accounts then 2 ^ 60 else 0)) \<and>
       (name \<noteq> LOCAL_TESTNET_RUNTIME_PRESET ops \<longrightarrow>
         (\<exists>root. gc_sudo config = Some root \<and> funds_of cfg s' root = 2 ^ 60)))"
proof -
  obtain endowed root where t: "config = genesis_template endowed root"
    "name \<noteq> LOCAL_TESTNET_RUNTIME_PRESET ops \<Longrightarrow> root \<in> set endowed"
    using preset_template [OF assms(6)] by metis
  have acc: "accounts = endowed" "gc_balances config = genesis_balances endowed"
    using t(1) assms(7) by (simp_all add: genesis_template_def genesis_accounts)
  obtain r s' where b: "balances_genesis_build cfg (genesis_balances endowed) s = (r, s')" by fastforce
  have "length endowed < 2 ^ 60" using assms(9) acc(1) by simp
  from runtime_genesis_ready [OF assms(1-5) this b] assms(8) acc b t
  have "\<exists>s'. balances_genesis_build cfg (gc_balances config) s = (Inr (), s') \<and> ready_to_mint cfg s' \<and>
       (\<forall>b. funds_of cfg s' b = (if b \<in> set accounts then 2 ^ 60 else 0)) \<and>
       (name \<noteq> LOCAL_TESTNET_RUNTIME_PRESET ops \<longrightarrow>
         (\<exists>root. gc_sudo config = Some root \<and> funds_of cfg s' root = 2 ^ 60))"
    by (simp add: genesis_template_def)
  moreover have "get_preset c k ops other = Err () \<longleftrightarrow> other \<notin> set (preset_names ops)"
    by (simp add: get_preset_def preset_names_def Let_def split: option.split)
  ultimately show ?thesis by blast
qed

text \<open>The live preset, with an address format that reads every text as the account 7.\<close>

definition one_address :: key_ops where
  "one_address = \<lparr> words_to_seed = (\<lambda>w. None), fresh_words = None, fresh_wormhole = None,
     to_ss58check = (\<lambda>a. ''5''), from_ss58 = (\<lambda>s. Some (replicate 31 0 @ [7])) \<rparr>"

definition three_presets :: "bool preset_ops" where
  "three_presets = \<lparr> DEV_RUNTIME_PRESET = ''development'', LOCAL_TESTNET_RUNTIME_PRESET = ''local_testnet'',
     keyring = [True, False], keyring_One = True, keyring_Two = True, to_account_id = of_bool \<rparr>"

theorem presets_start_chain_witness:
  "\<exists>config s'. get_preset toy_keys one_address three_presets ''live_testnet'' = Ok config \<and>
    balances_genesis_build (runtime_balances ref_system ref_dust 0 0) (gc_balances config) empty_chain = (Inr (), s') \<and>
    funds_of (runtime_balances ref_system ref_dust 0 0) s' 7 = 2 ^ 60"
proof -
  let ?cfg = "runtime_balances ref_system ref_dust 0 0 :: ref_store bal_config"
  have "be_nat (replicate 31 0 @ [7]) = 7"
    by (simp only: be_nat_zeros) (simp add: be_nat_def)
  then have p: "get_preset toy_keys one_address three_presets ''live_testnet'' = Ok (genesis_template [7] 7)"
    by (simp add: get_preset_def three_presets_def LIVE_TESTNET_RUNTIME_PRESET_def live_testnet_config_genesis_def
        test_root_account_def account_from_ss58_def one_address_def account_id_def from_be_def)
  have one: "map fst (gc_balances (genesis_template [7] 7)) = [7]" by (simp add: genesis_template_def genesis_accounts)
  have "distinct [7::account]" "length [7::account] < 2 ^ 60" by simp_all
  from presets_start_chain [OF empty_runtime_chain(1) ref_put_total refl empty_runtime_chain(2,3) p refl, unfolded one, OF this]
  obtain s' where b: "balances_genesis_build ?cfg (gc_balances (genesis_template [7] 7)) empty_chain = (Inr (), s')"
    and f: "\<forall>b. funds_of ?cfg s' b = (if b \<in> set [7] then 2 ^ 60 else 0)" by blast
  have "funds_of ?cfg s' 7 = 2 ^ 60" using f by (simp del: power_numeral)
  with p b show ?thesis by blast
qed

end
