(* ===== verification/FaucetService.thy ===== *)
theory FaucetService
  imports Presets RuntimeApi
begin

text \<open>
  The faucet from end to end: the node's RPC (\<open>node/src/faucet.rs\<close>) over the runtime it asks and the pallet that
  the requested call runs in.
\<close>

section \<open>The RPC over the runtime\<close>

text \<open>The node asks the runtime for the balances after the best block.\<close>

definition balance_api :: "'e bal_config \<Rightarrow> 'e bal_state \<Rightarrow> bytes \<Rightarrow> string + balance \<times> balance" where
  "balance_api cfg s bs = Inr (api_account_balance cfg (account_id bs) s)"

text \<open>What the RPC hands to the pool, and what documents the pool: a transaction it takes is pending afterwards.\<close>

definition pool_law :: "(bytes \<Rightarrow> u64 \<Rightarrow> 'x \<Rightarrow> bool \<times> 'x) \<Rightarrow> ('x \<Rightarrow> bytes faucet_call list) \<Rightarrow> bool" where
  "pool_law submit_mint pending \<longleftrightarrow>
     (\<forall>bs seed x x'. submit_mint bs seed x = (True, x') \<longrightarrow> Mint_New_Tokens bs seed \<in> set (pending x'))"

section \<open>Property\<close>

lemma creditable_faucet:
  assumes "cfg = runtime_balances y drop_dust fr hr"
  shows "creditable_to cfg s who (10 * UNIT)"
  by (simp add: assms creditable_to_def runtime_balances_def EXISTENTIAL_DEPOSIT_def MILLI_UNIT_def UNIT_def)

lemma info_of_account:
  assumes "parse_address cd k a = Inr bs"
  shows "get_account_info cd k (balance_api cfg s) a =
    Inr (free_balance cfg s (account_id bs), reserved_balance cfg s (account_id bs))"
  by (simp add: get_account_info_def assms balance_api_def api_account_balance_def)

lemma faucet_runs:
  assumes "cfg = runtime_balances y drop_dust fr hr" and "ready_to_mint cfg (faucet_balances s)"
    and "ops = runtime_faucet (\<lambda>bs. Inr (account_id bs)) (resolve_by_deposit cfg)"
    and "issuance (faucet_balances s) + unat (10 * UNIT) < 2 ^ 128" and "who = account_id bs"
  obtains s' where "mint_new_tokens ops cfg origin bs seed s = (Inr (), s')"
    "funds_of cfg (faucet_balances s') who = funds_of cfg (faucet_balances s) who +
       (if free_balance cfg (faucet_balances s) who < 1000 * UNIT then unat (10 * UNIT) else 0)"
proof -
  let ?b = "faucet_balances s"
  have ops: "faucet_lookup ops bs = Inr who" "MaxTokenAmount ops = 1000 * UNIT" "DefaultMintAmount ops = 10 * UNIT"
    "faucet_resolve ops = resolve_by_deposit cfg" by (simp_all add: assms(3,5) runtime_faucet_def)
  show ?thesis
  proof (cases "free_balance cfg ?b who < 1000 * UNIT")
    case True
    have b: "faucet_balances (faucet_mint ops who s) = issue_mint (resolve_by_deposit cfg) who (10 * UNIT) ?b"
      by (simp add: faucet_mint_def issue_mint_def ops split: prod.splits)
    have "mint_new_tokens ops cfg origin bs seed s = (Inr (), faucet_mint ops who s)"
      using True by (simp add: mint_new_tokens_def transactional_def and_then_def lift_res_def ops)
    from that [OF this] True show ?thesis
      using issue_minting.mint_funds [OF assms(2,4), of who] creditable_faucet [OF assms(1)] by (simp add: b)
  next
    case False
    then have "mint_new_tokens ops cfg origin bs seed s = (Inr (), s)"
      by (simp add: mint_new_tokens_def transactional_def and_then_def lift_res_def ops)
    from that [OF this] False show ?thesis by simp
  qed
qed

text \<open>C29: Whoever makes a key gets tokens for it. Asked for tokens with either address the key command
  printed, the faucet's RPC reads it without an error; a request the pool takes leaves a
  pending call that is valid without a signature, and when that call runs in a block, with any origin, an account below a
  thousand units has ten units more, which the RPC then reports for both addresses, and a richer one
  is left as it was.\<close>

theorem faucet_serves_generated_keys:
  assumes "codec_law cd" and "hex_text_law cd" and "dilithium_law c" and "address_law c k" and "pool_law submit_mint pending"
    and "generate_quantus_key cd c k Address_Standard key_seed words = Ok d" and "address \<in> {kd_address d, raw_address d}"
    and "request_tokens cd k submit_mint seed address x = (Inr True, x')"
    and "cfg = runtime_balances y drop_dust fr hr"
    and "ops = runtime_faucet (\<lambda>bs. Inr (account_id bs)) (resolve_by_deposit cfg)"
    and "ready_to_mint cfg (faucet_balances s)" and "issuance (faucet_balances s) + unat (10 * UNIT) < 2 ^ 128"
  shows "\<exists>call bs. call \<in> set (pending x') \<and> call = Mint_New_Tokens bs seed \<and> faucet_validate_unsigned block call \<noteq> None \<and>
    (\<exists>s'. mint_new_tokens ops cfg origin bs seed s = (Inr (), s') \<and>
      (\<forall>a \<in> {kd_address d, raw_address d}. \<exists>free reserved free' reserved'.
         get_account_info cd k (balance_api cfg (faucet_balances s)) a = Inr (free, reserved) \<and>
         get_account_info cd k (balance_api cfg (faucet_balances s')) a = Inr (free', reserved') \<and>
         unat free' = unat free + (if free < 1000 * UNIT then unat (10 * UNIT) else 0)))"
proof -
  obtain kp pub where d: "kd_address d = to_ss58check k (public_account c pub)"
      "raw_address d = ''0x'' @ hex_encode cd (public_account c pub)"
    by (rule generated_key_parts [OF assms(6)]) simp
  let ?bs = "public_account c pub" and ?who = "account_id (public_account c pub)"
  have parse: "parse_address cd k a = Inr ?bs" if "a \<in> {kd_address d, raw_address d}" for a
    using that parse_addresses [OF assms(1,4), of pub] d by auto
  have "submit_mint ?bs seed x = (True, x')"
    using assms(8) parse [OF assms(7)] by (simp add: request_tokens_def split: prod.splits)
  then have pending: "Mint_New_Tokens ?bs seed \<in> set (pending x')" using assms(5) by (simp add: pool_law_def)
  obtain s' where s': "mint_new_tokens ops cfg origin ?bs seed s = (Inr (), s')"
    "funds_of cfg (faucet_balances s') ?who = funds_of cfg (faucet_balances s) ?who +
       (if free_balance cfg (faucet_balances s) ?who < 1000 * UNIT then unat (10 * UNIT) else 0)"
    by (rule faucet_runs [OF assms(9,11,10,12) refl])
  have "\<exists>free reserved free' reserved'.
      get_account_info cd k (balance_api cfg (faucet_balances s)) a = Inr (free, reserved) \<and>
      get_account_info cd k (balance_api cfg (faucet_balances s')) a = Inr (free', reserved') \<and>
      unat free' = unat free + (if free < 1000 * UNIT then unat (10 * UNIT) else 0)"
    if a: "a \<in> {kd_address d, raw_address d}" for a
    using s'(2) unfolding funds_of_def info_of_account [OF parse [OF a]] by blast
  moreover have "faucet_validate_unsigned block (Mint_New_Tokens ?bs seed) \<noteq> None"
    by (simp add: faucet_validate_unsigned_def)
  ultimately show ?thesis using s'(1) pending by blast
qed

text \<open>A pool that takes everything, and the toy key of \<open>NodeKeys\<close>.\<close>

definition open_pool :: "bytes \<Rightarrow> u64 \<Rightarrow> bytes faucet_call list \<Rightarrow> bool \<times> bytes faucet_call list" where
  "open_pool bs seed x = (True, x @ [Mint_New_Tokens bs seed])"

theorem faucet_serves_generated_keys_witness:
  "\<exists>d call. generate_quantus_key text_codec toy_keys toy_addresses Address_Standard None (Some ''w'') = Ok d \<and>
    call \<in> set (snd (request_tokens text_codec toy_addresses open_pool 7 (raw_address d) [])) \<and>
    faucet_validate_unsigned 1 call \<noteq> None"
proof -
  let ?cfg = "runtime_balances ref_system ref_dust 0 0 :: ref_store bal_config"
  let ?ops = "runtime_faucet (\<lambda>bs. Inr (account_id bs)) (resolve_by_deposit ?cfg)"
  obtain r e where b: "balances_genesis_build ?cfg (genesis_balances []) empty_chain = (r, e)" by fastforce
  let ?s = "\<lparr> faucet_balances = e, faucet_events = [] \<rparr>"
  obtain d where d: "generate_quantus_key text_codec toy_keys toy_addresses Address_Standard None (Some ''w'') = Ok d"
    by (rule toy_key)
  have pool: "pool_law open_pool (\<lambda>x. x)" by (simp add: pool_law_def open_pool_def)
  obtain bs where p: "parse_address text_codec toy_addresses (raw_address d) = Inr bs"
    by (rule generated_key_parts [OF d]) (use parse_addresses [OF text_codec_law toy_laws(2)] in simp)
  then have r: "request_tokens text_codec toy_addresses open_pool 7 (raw_address d) [] = (Inr True, [Mint_New_Tokens bs 7])"
    by (simp add: request_tokens_def open_pool_def)
  have "ready_to_mint ?cfg (faucet_balances ?s)" "issuance (faucet_balances ?s) + unat (10 * UNIT) < 2 ^ 128"
    using runtime_genesis_ready [OF empty_runtime_chain(1) ref_put_total refl empty_runtime_chain(2,3) _ b]
    by (simp_all add: UNIT_def)
  from faucet_serves_generated_keys [OF text_codec_law toy_laws(3,1,2) pool d _ r refl refl this, of 1] r d
  show ?thesis by auto
qed

end
