(* ===== verification/TokenBooks.thy ===== *)
theory TokenBooks
  imports BalancesRun Escrow Minting
begin

text \<open>
  Keeping the books of the balances pallet. The surplus of a state is what the issuance says beyond what all
  accounts hold. An \<open>entry\<close> bounds what a computation does to the issuance and to the surplus; entries compose, and
  every operation of the pallet the other pallets use has one. The surplus may grow: dust that is dropped at the end
  of a hold, or an imbalance that is issued and not credited, leave tokens in the issuance that nobody has.
\<close>

section \<open>Entries\<close>

text \<open>The issuance grows by at most \<open>n\<close>, and the surplus by at least \<open>c\<close> less \<open>d\<close>.\<close>

definition entry :: "'e bal_config \<Rightarrow> nat \<Rightarrow> nat \<Rightarrow> nat \<Rightarrow> 'e bal_state \<Rightarrow> 'e bal_state \<Rightarrow> bool" where
  "entry cfg n c d s s' \<longleftrightarrow> (bal_ok cfg s \<longrightarrow> bal_ok cfg s' \<and> issuance s' \<le> issuance s + n \<and>
     issuance s + holdings cfg s' + c \<le> issuance s' + holdings cfg s + d)"

lemma entry_refl [intro, simp]: "entry cfg n 0 d s s"
  by (simp add: entry_def)

lemma entry_trans: "entry cfg n c d s t \<Longrightarrow> entry cfg m c' d' t u \<Longrightarrow> entry cfg (n + m) (c + c') (d + d') s u"
  by (auto simp: entry_def)

lemma entry_then:
  assumes "entry cfg n c d s t" "entry cfg m c' d' t u" "n + m \<le> k" "a + (d + d') \<le> b + (c + c')"
  shows "entry cfg k a b s u"
  using entry_trans [OF assms(1,2)] assms(3,4) by (auto simp: entry_def)

lemma entry_weaken: "entry cfg n c d s s' \<Longrightarrow> n \<le> m \<Longrightarrow> a + d \<le> b + c \<Longrightarrow> entry cfg m a b s s'"
  by (auto simp: entry_def)

lemma entry_if_ok: "(bal_ok cfg s \<Longrightarrow> entry cfg n c d s s') \<Longrightarrow> entry cfg n c d s s'"
  by (simp add: entry_def)

text \<open>The same accounts.\<close>

lemma entry_same_sys:
  assumes "sys s' = sys s" "issuance s' \<le> issuance s + n" "issuance s + c \<le> issuance s' + d"
  shows "entry cfg n c d s s'"
  using assms account_of_sys [OF assms(1), of cfg] bal_ok_sys [OF assms(1), of cfg]
  by (simp add: entry_def holdings_def)

lemma entry_event [simp]: "entry cfg n c d s (deposit_event ev s') = entry cfg n c d s s'"
  using account_of_sys [of "deposit_event ev s'" s' cfg] bal_ok_sys [of "deposit_event ev s'" s' cfg]
  by (simp add: entry_def holdings_def issuance_def)

lemma entry_same_balances: "same_balances cfg s s' \<Longrightarrow> entry cfg 0 0 0 s s'"
  using same_balances_holdings [of cfg s s'] store_only_fields(1) [of s s']
  by (simp add: entry_def same_balances_def issuance_def)

text \<open>A mutation of one account: what it adds to the account it takes from the surplus, and dust only ever adds.\<close>

lemma entry_mutated:
  assumes m: "mutated cfg who s a' s'" and o: "old_account cfg s who a" and t: "total_nat a' + c \<le> total_nat a + d"
  shows "entry cfg 0 c d s s'"
proof -
  have h: "holdings cfg s' + total_nat a = holdings cfg s + total_nat (account_of cfg s' who)"
    using holdings_changed [of who cfg s' s] m o by (simp add: mutated_def old_account_def total_nat_def)
  show ?thesis
  proof (cases "does_provide cfg a' \<or> reserved a' \<noteq> 0")
    case True
    then have "account_of cfg s' who = a'" "TotalIssuance s' = TotalIssuance s" "bal_ok cfg s'" using m by (simp_all add: mutated_def)
    then show ?thesis using h t by (simp add: entry_def issuance_def)
  next
    case False
    then have "account_of cfg s' who = default_account" "unat (TotalIssuance s') = unat (TotalIssuance s) - unat (free a')"
      "bal_ok cfg s'" "reserved a' = 0" using m by (simp_all add: mutated_def mach_nat)
    moreover from this have "unat (free a') + c \<le> total_nat a + d" "holdings cfg s' + total_nat a = holdings cfg s"
      using h t by (simp_all add: total_nat_def default_account_def)
    then have "issuance s + holdings cfg s' + c \<le> issuance s - unat (free a') + holdings cfg s + d" by arith
    ultimately show ?thesis by (simp add: entry_def issuance_def)
  qed
qed

text \<open>The same for a mutation whose dust the caller handles, all of it or a part.\<close>

lemma entry_kept:
  assumes g: "good_balances cfg" and k: "account_of cfg s1 who = kept cfg a'" and o: "others_keep cfg who s s1"
    and b: "bal_ok cfg s1" and i: "issuance s1 = issuance s"
    and dust: "dust = (if z = 0 then None else Some z)" "unat z \<le> unat (dust_of cfg a')"
    and a: "old_account cfg s who a" and t: "total_nat a' + c \<le> total_nat a + d"
  shows "entry cfg 0 c d s (handle_raw_dust cfg dust s1)"
proof -
  let ?s = "handle_raw_dust cfg dust s1"
  note h = handle_raw_dust_effect [OF g, of z s1, folded dust(1)]
  have "holdings cfg s1 + total_nat a = holdings cfg s + total_nat (kept cfg a')"
    using holdings_changed [of who cfg s1 s] o k a by (simp add: others_keep_def old_account_def total_nat_def)
  moreover have "holdings cfg ?s = holdings cfg s1" by (simp add: holdings_def h(1))
  moreover have "issuance ?s = issuance s - unat z" using h(3) i by (simp add: issuance_def mach_nat)
  moreover from calculation have "issuance s + holdings cfg s1 + c \<le> issuance s - unat z + holdings cfg s + d"
    using t dust(2) kept_total [of cfg a'] by arith
  ultimately show ?thesis using h(2) b by (simp add: entry_def)
qed

section \<open>Imbalances\<close>

lemma entry_drop_positive:
  assumes "issuance s + unat v < 2 ^ 128"
  shows "entry cfg (unat v) (unat v) 0 s (drop_positive (PositiveImbalance v) s)"
  by (rule entry_same_sys)
    (use assms drop_positive_effect(2) [of "PositiveImbalance v" s] in \<open>simp_all add: drop_positive_keeps issuance_def\<close>)

lemma entry_drop_negative: "entry cfg 0 0 (unat (neg_peek i)) s (drop_negative i s)"
  by (rule entry_same_sys)
    (use drop_negative_effect(2) [of i s] in \<open>simp_all add: drop_positive_keeps issuance_def\<close>)

text \<open>A deposit: it takes its imbalance from the surplus; what it did not credit may still have been issued, when the
  references of the account could not be updated and the imbalance was dropped.\<close>

lemma drop_positive_le: "issuance s \<le> issuance (drop_positive i s)" "issuance (drop_positive i s) \<le> issuance s + unat (pos_peek i)"
  using drop_positive_effect(2) [of i s] unat_le_max [of "TotalIssuance s"] by (simp_all add: issuance_def)

lemma entry_deposit_creating:
  assumes g: "good_balances cfg" and pt: "put_total (sy cfg)" and ok: "bal_ok cfg s"
    and r: "deposit_creating cfg who v s = (PositiveImbalance p, s')"
  shows "p = 0 \<and> entry cfg (unat v) 0 0 s s' \<or> p = v \<and> entry cfg 0 0 (unat p) s s'"
proof (cases "v \<noteq> 0")
  case c: True
  show ?thesis
  proof (cases "p = 0")
    case False
    then obtain a x where e: "old_account cfg s who a" "p = v" "unat x = unat (free a) + unat v" "mutated cfg who s (a\<lparr> free := x \<rparr>) s'"
      using deposit_creating_effect [OF g ok r] by blast
    have "entry cfg 0 0 (unat p) s s'" by (rule entry_mutated [OF e(4,1)]) (use e(2,3) in \<open>simp add: total_nat_def\<close>)
    with e(2) show ?thesis by simp
  next
    case True
    let ?m = "try_mutate_account_handling_dust cfg who drop_positive (deposit_closure cfg who v) s"
    consider e where "?m = (Inl e, s')" | "?m = (Inr (PositiveImbalance p), s')"
      using r c by (auto simp: deposit_creating_def split: prod.splits sum.splits)
    then have "entry cfg (unat v) 0 0 s s'"
    proof cases
      case 1
      show ?thesis
      proof (rule try_mutate_error_cases [OF g pt ok quiet_closures(2) 1])
        fix s2 s0 a x s1
        assume sb: "same_balances cfg s s2" and f: "deposit_closure cfg who v a (sys_account (sy cfg) (sys s0) who = None) s0 = (x, s1)"
          and s': "case x of Inl e' \<Rightarrow> s' = s2 | Inr (res, a') \<Rightarrow> s' = drop_positive res s2"
        have "sys s' = sys s2 \<and> issuance s2 \<le> issuance s' \<and> issuance s' \<le> issuance s2 + unat v"
        proof (cases x)
          case (Inr y)
          then obtain i where "s' = drop_positive i s2" "unat (pos_peek i) \<le> unat v"
            using s' f by (auto simp: deposit_closure_def and_then_Inr ensure_Inr split: option.splits)
          then show ?thesis using drop_positive_le [where s = s2 and i = i] by (simp add: drop_positive_keeps)
        qed (use s' in simp)
        then have "entry cfg (unat v) 0 0 s2 s'" by (intro entry_same_sys) simp_all
        then show ?thesis by (rule entry_then [OF entry_same_balances [OF sb]]) simp_all
      qed
    next
      case 2
      obtain a new a' s0 s1 where e: "deposit_closure cfg who v a new s0 = (Inr (PositiveImbalance p, a'), s1)"
          "free a = free (account_of cfg s who)" "reserved a = reserved (account_of cfg s who)" "mutated cfg who s a' s'"
        using try_mutate_handling_dust_effect [OF g ok quiet_closures(2) 2] by blast
      have "a' = a" using e(1) True c by (auto simp: deposit_closure_def and_then_Inr split: option.splits)
      then have "entry cfg 0 0 0 s s'" by (intro entry_mutated [OF e(4), where a = a]) (simp_all add: old_account_def e(2,3))
      then show ?thesis by (rule entry_weaken) simp_all
    qed
    with True show ?thesis by simp
  qed
next
  case False
  then show ?thesis using r by (simp add: deposit_creating_def)
qed

text \<open>Issuing stops at the largest issuance the type can count.\<close>

lemma entry_currency_issue:
  assumes "currency_issue v s = (i, s1)"
  shows "unat (neg_peek i) \<le> unat v \<and> sys s1 = sys s \<and> issuance s1 = issuance s + unat (neg_peek i)"
proof (cases "v = 0")
  case nz: False
  show ?thesis
  proof (cases "checked_add (TotalIssuance s) v")
    case (Some x)
    then have "i = NegativeImbalance v" "sys s1 = sys s" "TotalIssuance s1 = x"
      using assms nz unfolding currency_issue_def Some by auto
    then show ?thesis using Some by (simp add: issuance_def checked_add_Some)
  next
    case None
    then have o: "2 ^ 128 \<le> unat (TotalIssuance s) + unat v" by (auto simp: checked_add_def split: if_splits)
    have "unat (- 1 - TotalIssuance s) = 2 ^ 128 - 1 - unat (TotalIssuance s)"
      using unat_minus_le [of "TotalIssuance s" "- 1"] by (simp add: unsigned_minus_1_eq_mask mask_eq_exp_minus_1)
    moreover have "i = NegativeImbalance (- 1 - TotalIssuance s)" "sys s1 = sys s" "TotalIssuance s1 = - 1"
      using assms nz unfolding currency_issue_def None by auto
    ultimately show ?thesis using o unat_le_max [of "TotalIssuance s"]
      by (simp add: issuance_def unsigned_minus_1_eq_mask mask_eq_exp_minus_1)
  qed
qed (use assms in \<open>auto simp: currency_issue_def issuance_def\<close>)

lemma entry_issue_mint:
  assumes g: "good_balances cfg" and pt: "put_total (sy cfg)"
  shows "entry cfg (unat v) 0 0 s (issue_mint (resolve_by_deposit cfg) who v s)"
proof (rule entry_if_ok)
  assume ok: "bal_ok cfg s"
  obtain w s1 where i: "currency_issue v s = (NegativeImbalance w, s1)"
    by (metis negative_imbalance.exhaust surj_pair)
  note e = entry_currency_issue [OF i]
  have e1: "entry cfg (unat w) (unat w) 0 s s1" by (rule entry_same_sys) (use e in simp_all)
  obtain p s2 where d: "deposit_creating cfg who w s1 = (PositiveImbalance p, s2)"
    by (metis positive_imbalance.exhaust surj_pair)
  have m: "issue_mint (resolve_by_deposit cfg) who v s = (case neg_offset (NegativeImbalance w) (PositiveImbalance p) of
      SO_None \<Rightarrow> s2 | SO_Same n \<Rightarrow> drop_negative n s2 | SO_Other q \<Rightarrow> drop_positive q s2)"
    by (simp add: issue_mint_def i resolve_by_deposit_def d)
  have "bal_ok cfg s1" using ok bal_ok_sys [of s1 s cfg] e by simp
  from entry_deposit_creating [OF g pt this d] show "entry cfg (unat v) 0 0 s (issue_mint (resolve_by_deposit cfg) who v s)"
  proof
    assume p: "p = w \<and> entry cfg 0 0 (unat p) s1 s2"
    then have "issue_mint (resolve_by_deposit cfg) who v s = s2" by (simp add: m neg_offset_def)
    moreover have "entry cfg (unat v) 0 0 s s2" by (rule entry_then [OF e1 conjunct2 [OF p]]) (use e p in simp_all)
    ultimately show ?thesis by simp
  next
    assume p: "p = 0 \<and> entry cfg (unat w) 0 0 s1 s2"
    show ?thesis
    proof (cases "w = 0")
      case True
      then have "issue_mint (resolve_by_deposit cfg) who v s = s2" using p by (simp add: m neg_offset_def)
      moreover have "entry cfg (unat v) 0 0 s s2" by (rule entry_then [OF e1 conjunct2 [OF p]]) (use e True in simp_all)
      ultimately show ?thesis by simp
    next
      case False
      then have eq: "issue_mint (resolve_by_deposit cfg) who v s = drop_negative (NegativeImbalance w) s2"
        using p by (simp add: m neg_offset_def word_gt_0)
      have "entry cfg (unat w + unat w) (unat w) 0 s s2" by (rule entry_then [OF e1 conjunct2 [OF p]]) simp_all
      moreover have "issuance (drop_negative (NegativeImbalance w) s2) = issuance s2 - unat w"
        "holdings cfg (drop_negative (NegativeImbalance w) s2) = holdings cfg s2"
        "bal_ok cfg (drop_negative (NegativeImbalance w) s2) = bal_ok cfg s2"
        using drop_negative_effect [where i = "NegativeImbalance w" and s = s2] by (simp_all add: issuance_def)
      ultimately show ?thesis unfolding eq using e by (auto simp: entry_def)
    qed
  qed
qed

lemma entry_deposit_mint:
  assumes g: "good_balances cfg" and pt: "put_total (sy cfg)" and lt: "issuance s + unat v < 2 ^ 128"
  shows "entry cfg (unat v) 0 0 s (deposit_mint cfg who v s)"
proof (rule entry_if_ok)
  assume ok: "bal_ok cfg s"
  obtain p s1 where d: "deposit_creating cfg who v s = (PositiveImbalance p, s1)"
    by (metis positive_imbalance.exhaust surj_pair)
  have m: "deposit_mint cfg who v s = drop_positive (PositiveImbalance p) s1" by (simp add: deposit_mint_def d)
  from entry_deposit_creating [OF g pt ok d] show "entry cfg (unat v) 0 0 s (deposit_mint cfg who v s)"
  proof
    assume "p = 0 \<and> entry cfg (unat v) 0 0 s s1"
    then show ?thesis by (simp add: m drop_positive_def)
  next
    assume p: "p = v \<and> entry cfg 0 0 (unat p) s s1"
    then have "issuance s1 + unat p < 2 ^ 128" using lt ok by (simp add: entry_def)
    from entry_drop_positive [OF this] show ?thesis
      unfolding m by (rule entry_then [OF conjunct2 [OF p]]) (use p in simp_all)
  qed
qed


section \<open>Reserves, holds and written balances\<close>

lemma entry_unreserve:
  assumes g: "good_balances cfg" and pt: "put_total (sy cfg)"
  shows "entry cfg 0 0 0 s (snd (unreserve cfg who v s))"
proof (rule entry_if_ok)
  assume ok: "bal_ok cfg s"
  obtain left s' where r: "unreserve cfg who v s = (left, s')" by force
  let ?m = "mutate_account_handling_dust cfg who no_drop (unreserve_closure v) s"
  obtain x s3 where m: "?m = (x, s3)" by force
  have "entry cfg 0 0 0 s s'"
  proof (cases "v = 0 \<or> total_balance cfg s who = 0")
    case False
    show ?thesis
    proof (cases x)
      case (Inl e)
      then have "s' = s3" using r m False by (auto simp: unreserve_def)
      moreover have "try_mutate_account_handling_dust cfg who no_drop (\<lambda>a _. ret (unreserve_closure v a)) s = (Inl e, s3)"
        using m Inl by (simp add: mutate_account_handling_dust_def mutate_account_def try_mutate_account_handling_dust_def)
      then have "same_balances cfg s s3"
        by (rule try_mutate_error_cases [OF g pt ok quiet_ret]) (auto simp: no_drop_def split: sum.splits)
      ultimately show ?thesis by (simp add: entry_same_balances)
    next
      case (Inr actual)
      then have s': "s' = deposit_event (B_Unreserved who actual) s3" using r m False by (auto simp: unreserve_def)
      obtain a a' where e: "unreserve_closure v a = (actual, a')" "free a = free (account_of cfg s who)"
          "reserved a = reserved (account_of cfg s who)" "mutated cfg who s a' s3"
        using mutate_handling_dust_effect [OF g ok m [unfolded Inr]] by blast
      have "total_nat a' \<le> total_nat a"
        using e(1) by (auto simp: unreserve_closure_def Let_def total_nat_def mach_nat unat_minus_le)
      then have "entry cfg 0 0 0 s s3" by (intro entry_mutated [OF e(4), where a = a]) (simp_all add: old_account_def e(2,3))
      then show ?thesis by (simp add: s')
    qed
  qed (use r in \<open>auto simp: unreserve_def split: if_splits\<close>)
  then show "entry cfg 0 0 0 s (snd (unreserve cfg who v s))" by (simp add: r)
qed

lemma entry_reserve:
  assumes g: "good_balances cfg" and r: "reserve cfg who v s = (Inr u, s')"
  shows "entry cfg 0 0 0 s s'"
proof (rule entry_if_ok)
  assume ok: "bal_ok cfg s"
  show "entry cfg 0 0 0 s s'"
  proof (cases "v = 0")
    case False
    obtain a x y where e: "old_account cfg s who a" "unat x + unat v = unat (free a)" "unat y = unat (reserved a) + unat v"
      "mutated cfg who s (a\<lparr> free := x, reserved := y \<rparr>) s'"
      using reserve_effect [OF g ok False r] by blast
    show ?thesis by (rule entry_mutated [OF e(4,1)]) (use e(2,3) in \<open>simp add: total_nat_def\<close>)
  qed (use r in \<open>simp add: reserve_def\<close>)
qed

lemma entry_write_balance:
  assumes g: "good_balances cfg" and w: "write_balance cfg who x s = (Inr dust, s1)"
    and t: "unat x + c \<le> unat (free_balance cfg s who) + d"
  shows "entry cfg 0 c d s (handle_raw_dust cfg dust s1)"
proof (rule entry_if_ok)
  assume ok: "bal_ok cfg s"
  let ?f = "\<lambda>a. if sat_sub (free a) x \<le> reducible_balance cfg s who Expendable Force
                 then (Inr (), a\<lparr> free := x \<rparr>) else (Inl (Balances_Error InsufficientBalance), a)"
  obtain u where m: "mutate_account cfg who no_drop ?f s = (Inr (Inr u, dust), s1)"
    using w by (auto simp: write_balance_def Let_def and_then_Inr)
  obtain a a' where e: "?f a = (Inr u, a')" "old_account cfg s who a" "bal_ok cfg s1" "store_only s s1"
    "others_keep cfg who s s1" "account_of cfg s1 who = kept cfg a'"
    "dust = (if dust_of cfg a' = 0 then None else Some (dust_of cfg a'))"
    by (rule mutate_account_cases [OF g ok m]) auto
  have "a' = a\<lparr> free := x \<rparr>" using e(1) by (auto split: if_splits)
  then have "total_nat a' + c \<le> total_nat a + d"
    using t e(2) by (simp add: total_nat_def old_account_def free_balance_def)
  from entry_kept [OF g e(6,5,3) _ e(7) order_refl e(2) this] show "entry cfg 0 c d s (handle_raw_dust cfg dust s1)"
    using store_only_fields(1) [OF e(4)] by (simp add: issuance_def)
qed

lemma entry_decrease_balance:
  assumes g: "good_balances cfg" and r: "decrease_balance cfg who v p f s = (Inr n, s')"
  shows "n = v \<and> entry cfg 0 (unat v) 0 s s'"
proof -
  obtain x dust s1 where x: "checked_sub (free_balance cfg s who) v = Some x" "n = v"
    "write_balance cfg who x s = (Inr dust, s1)" "s' = handle_raw_dust cfg dust s1"
    using r by (auto simp: decrease_balance_def and_then_Inr split: if_splits option.splits)
  then show ?thesis using entry_write_balance [OF g x(3), of "unat v" 0] by (simp add: checked_sub_Some)
qed

lemma entry_increase_balance:
  assumes g: "good_balances cfg" and r: "increase_balance cfg who v prec s = (Inr n, s')"
  shows "entry cfg 0 0 (unat v) s s'"
proof -
  let ?old = "free_balance cfg s who"
  obtain x where x: "(if prec = BestEffort then Some (sat_add ?old v) else checked_add ?old v) = Some x"
    and c: "s' = s \<or> (\<exists>dust s1. write_balance cfg who x s = (Inr dust, s1) \<and> s' = handle_raw_dust cfg dust s1)"
    using r by (auto simp: increase_balance_def Let_def and_then_Inr split: if_splits option.splits)
  have "unat x \<le> unat ?old + unat v" using x by (auto simp: checked_add_Some mach_nat split: if_splits)
  then show ?thesis using c entry_write_balance [OF g, of who x s _ _ 0 "unat v"] by auto
qed

lemma change_hold_delta:
  assumes "change_hold cfg reason v hs = Inr (holds, up, delta)"
  shows "if up then unat v = unat (amount_under reason hs) + unat delta else unat v + unat delta = unat (amount_under reason hs)"
proof (cases "has_id reason hs")
  case True
  then have "up = (amount_under reason hs < v)" "delta = max (amount_under reason hs) v - min (amount_under reason hs) v"
    using assms by (auto simp: change_hold_def Let_def)
  then show ?thesis
    by (auto simp: max_def min_def word_less_nat_alt word_le_nat_alt unat_minus_le not_less)
next
  case False
  then have "amount_under reason hs = 0"
    by (rule not_has_id)
  then show ?thesis using assms False by (auto simp: change_hold_def split: if_splits)
qed

lemma entry_set_hold:
  assumes g: "good_balances cfg" and r: "set_balance_on_hold cfg reason who v s = (Inr u, s')"
    and t: "unat v + c \<le> unat (balance_on_hold s reason who) + d"
  shows "entry cfg 0 c d s s'"
proof (rule entry_if_ok)
  assume ok: "bal_ok cfg s"
  let ?a = "account_of cfg s who"
  obtain holds up delta where h: "change_hold cfg reason v (Holds s who) = Inr (holds, up, delta)"
    using r by (auto simp: set_balance_on_hold_def Let_def and_then_Inr)
  obtain x where x: "if up then unat x = unat (reserved ?a) + unat delta
      else unat delta \<le> unat (reserved ?a) \<and> unat x = unat (reserved ?a) - unat delta"
    and m: "\<exists>d s1. try_mutate_account cfg who no_drop (\<lambda>a is_new. ret ((), ?a\<lparr> reserved := x \<rparr>)) s = (Inr ((), d), s1) \<and>
      s' = put_holds who holds s1"
    using r h
    by (auto simp: set_balance_on_hold_def Let_def and_then_Inr checked_add_Some checked_sub_Some
        split: if_splits option.splits)
  obtain d' s1 where m': "mutate_account cfg who no_drop (\<lambda>_. ((), ?a\<lparr> reserved := x \<rparr>)) s = (Inr ((), d'), s1)"
    and s': "s' = put_holds who holds s1"
    using m unfolding mutate_account_def by auto
  obtain a' where e: "a' = ?a\<lparr> reserved := x \<rparr>" "bal_ok cfg s1" "store_only s s1" "others_keep cfg who s s1"
    "account_of cfg s1 who = kept cfg a'"
    by (rule mutate_account_cases [OF g ok m']) auto
  have "total_nat a' + c \<le> total_nat ?a + d"
    using x t change_hold_delta [OF h] by (auto simp: e(1) total_nat_def balance_on_hold_def split: if_splits)
  from entry_kept [OF g e(5,4,2) _ _ _ _ this, of None 0] have "entry cfg 0 c d s s1"
    using store_only_fields(1) [OF e(3)] by (simp add: issuance_def old_account_def handle_raw_dust_def)
  then show "entry cfg 0 c d s s'" by (simp add: entry_def s' holdings_def issuance_def)
qed

lemma entry_holds:
  assumes g: "good_balances cfg"
  shows "hold_funds cfg reason who v s = (Inr u, s') \<Longrightarrow> entry cfg 0 0 0 s s'"
    and "release_funds cfg reason who v s = (Inr w, s') \<Longrightarrow> entry cfg 0 0 0 s s'"
    and "move_held_funds cfg reason who dest v s = (Inr w, s') \<Longrightarrow> entry cfg 0 0 0 s s'"
proof -
  have dec: "n = v \<and> entry cfg 0 (unat v) 0 s s1" if dd: "decrease_on_hold cfg reason who v s = (Inr n, s1)" for n s1
  proof -
    obtain x u where x: "checked_sub (balance_on_hold s reason who) v = Some x" "n = v"
      and sb: "set_balance_on_hold cfg reason who x s = (Inr u, s1)"
      using dd by (auto simp: decrease_on_hold_def and_then_Inr split: option.splits)
    from entry_set_hold [OF g sb, of "unat v" 0] show ?thesis using x by (simp add: checked_sub_Some)
  qed
  have returned: "entry cfg 0 0 0 s s2"
    if "decrease_on_hold cfg reason who v s = (Inr n, s1)" "increase_balance cfg to n prec s1 = (Inr w, s2)" for n s1 s2 to prec w
    using entry_then [OF conjunct2 [OF dec [OF that(1)]] entry_increase_balance [OF g that(2)]] dec [OF that(1)] by simp
  show "entry cfg 0 0 0 s s'" if h: "hold_funds cfg reason who v s = (Inr u, s')"
  proof -
    obtain n s1 m where d: "decrease_balance cfg who v Protect Force s = (Inr n, s1)"
      and i: "increase_on_hold cfg reason who v s1 = (Inr m, s')"
      using h by (auto simp: hold_funds_def and_then_Inr split: if_splits)
    have "entry cfg 0 0 (unat v) s1 s'"
      using i entry_set_hold [OF g, of reason who "sat_add (balance_on_hold s1 reason who) v" s1 _ s' 0 "unat v"]
      by (auto simp: increase_on_hold_def Let_def and_then_Inr mach_nat split: if_splits)
    from entry_then [OF conjunct2 [OF entry_decrease_balance [OF g d]] this] show ?thesis by simp
  qed
  show "entry cfg 0 0 0 s s'" if "release_funds cfg reason who v s = (Inr w, s')"
    using that returned by (auto simp: release_funds_def and_then_Inr split: if_splits)
  show "entry cfg 0 0 0 s s'" if "move_held_funds cfg reason who dest v s = (Inr w, s')"
    using that returned by (auto simp: move_held_funds_def and_then_Inr split: if_splits)
qed

end
