(* ===== verification/TokenCalls.thy ===== *)
theory TokenCalls
  imports TokenBooks Faucet Wormhole MiningRewards MerkleAirdropLaw Governance
begin

text \<open>The calls of reversible transfers and of airdrops reach the balances only through the operations they are
  given. The locale carried is the contract between the two: any reflexive and transitive relation that the operations
  keep is kept by every call. It is interpreted on the book entries of TokenBooks, and the calls of the balances
  pallet itself are shown to be such entries.\<close>

section \<open>Relations that calls carry\<close>

locale carried =
  fixes rel :: "'x \<Rightarrow> 'x \<Rightarrow> bool"
  assumes rel_refl: "rel x x" and rel_trans: "rel x y \<Longrightarrow> rel y z \<Longrightarrow> rel x z"

definition rev_ops_keep :: "('x \<Rightarrow> 'x \<Rightarrow> bool) \<Rightarrow> ('x, 'l, 'b) rev_ops \<Rightarrow> bool" where
  "rev_ops_keep rel ops \<longleftrightarrow>
     (\<forall>who a x u x'. op_hold ops who a x = (Inr u, x') \<longrightarrow> rel x x') \<and>
     (\<forall>who a x u x'. op_release ops who a Exact x = (Inr u, x') \<longrightarrow> rel x x') \<and>
     (\<forall>who to a x u x'. op_transfer_on_hold ops who to a Exact Restrict_Free Polite x = (Inr u, x') \<longrightarrow> rel x x') \<and>
     (\<forall>call who x u x'. op_dispatch ops call who x = (Inr u, x') \<longrightarrow> rel x x') \<and>
     (\<forall>k t acc b x u x'. op_schedule_named ops k t acc b x = (Inr u, x') \<longrightarrow> rel x x') \<and>
     (\<forall>k x u x'. op_cancel_named ops k x = (Inr u, x') \<longrightarrow> rel x x') \<and>
     (\<forall>call x u x'. op_bound ops call x = (Inr u, x') \<longrightarrow> rel x x') \<and>
     (\<forall>b x u x'. op_realize ops b x = (Inr u, x') \<longrightarrow> rel x x')"

definition airdrop_ops_keep :: "('x \<Rightarrow> 'x \<Rightarrow> bool) \<Rightarrow> 'x airdrop_ops \<Rightarrow> bool" where
  "airdrop_ops_keep rel ops \<longleftrightarrow>
     (\<forall>a b v r x u x'. airdrop_transfer ops a b v r x = (Inr u, x') \<longrightarrow> rel x x') \<and>
     (\<forall>a b v pb t x u x'. vested_transfer ops a b v pb t x = (Inr u, x') \<longrightarrow> rel x x')"

lemma rev_ops_keepD:
  assumes "rev_ops_keep rel ops"
  shows "op_hold ops who a x = (Inr u, x') \<Longrightarrow> rel x x'"
    "op_release ops who a Exact x = (Inr w, x') \<Longrightarrow> rel x x'"
    "op_transfer_on_hold ops who to a Exact Restrict_Free Polite x = (Inr w, x') \<Longrightarrow> rel x x'"
    "op_dispatch ops call who x = (Inr u, x') \<Longrightarrow> rel x x'"
    "op_schedule_named ops k t acc b x = (Inr u, x') \<Longrightarrow> rel x x'"
    "op_cancel_named ops k x = (Inr u, x') \<Longrightarrow> rel x x'"
    "op_bound ops call x = (Inr b, x') \<Longrightarrow> rel x x'"
    "op_realize ops b x = (Inr call, x') \<Longrightarrow> rel x x'"
  using assms unfolding rev_ops_keep_def by metis+

context carried begin

lemma schedule_carries:
  assumes k: "rev_ops_keep rel ops" and r: "do_schedule_transfer ops origin dest a s = (Inr u, s')"
  shows "rel (rev_env s) (rev_env s')"
proof -
  obtain x1 x2 x3 b b' n t acc c c' w where "op_bound ops c (rev_env s) = (Inr b, x1)" "op_bound ops c' x1 = (Inr b', x2)"
    "op_schedule_named ops n t acc b' x2 = (Inr (), x3)" "op_hold ops w a x3 = (Inr (), rev_env s')"
    using r by (auto simp: do_schedule_transfer_def Let_def and_then_Inr on_env_Inr or_error_Inr increment_index_def rev_event_def ensure_Inr)
  then show ?thesis using rev_ops_keepD [OF k] rel_trans by metis
qed

lemma cancel_carries:
  assumes k: "rev_ops_keep rel ops" and r: "cancel_transfer ops who tx s = (Inr u, s')"
  shows "rel (rev_env s) (rev_env s')"
  using r by (auto simp: cancel_transfer_def and_then_Inr on_env_Inr or_error_Inr rev_event_def ensure_Inr
      drop_one_pending_def decrement_index_def split: option.splits dest!: rev_ops_keepD(2,3,6) [OF k] intro: rel_trans)

lemma execute_carries:
  assumes k: "rev_ops_keep rel ops" and r: "do_execute_transfer ops tx s = (Inr u, s')"
  shows "rel (rev_env s) (rev_env s')"
proof -
  obtain p c w e1 e2 where p: "op_realize ops (pt_call p) (rev_env s) = (Inr c, e1)"
    "op_release ops (pt_who p) (pt_amount p) Exact e1 = (Inr w, e2)"
    and d: "(case on_env (op_dispatch ops c (pt_who p)) (s\<lparr> rev_env := e2 \<rparr>) of (q, s3) \<Rightarrow>
       (q, rev_event (TransactionExecuted tx q) (drop_one_pending tx p (decrement_index (pt_who p) s3)))) = (Inr u, s')"
    using r by (auto simp: do_execute_transfer_def and_then_Inr on_env_Inr or_error_Inr)
  from d have "op_dispatch ops c (pt_who p) e2 = (Inr u, rev_env s')"
    by (auto simp: on_env_def rev_event_def drop_one_pending_def decrement_index_def split: prod.split_asm)
  with p show ?thesis using rev_ops_keepD(2,4,8) [OF k] rel_trans by metis
qed

lemma rev_call_carries:
  assumes k: "rev_ops_keep rel ops" and s': "s' = snd (run_rev_call ops origin c s)"
  shows "rel (rev_env s) (rev_env s')"
proof (cases "fst (run_rev_call ops origin c s)")
  case (Inl e)
  then show ?thesis using s' run_rev_call_error [of ops origin c s e "snd (run_rev_call ops origin c s)"] rel_refl by (simp add: prod_eq_iff)
next
  case (Inr u)
  then have r: "run_rev_call ops origin c s = (Inr u, s')" using s' by (simp add: prod_eq_iff)
  show ?thesis
  proof (cases c)
    case (Call_Set_Reversibility d pol reverser)
    then have "rev_env s' = rev_env s"
      using r by (auto simp: set_reversibility_def transactional_Inr and_then_Inr Let_def rev_event_def ensure_Inr)
    then show ?thesis by (simp add: rel_refl)
  qed (use r schedule_carries [OF k] cancel_carries [OF k] execute_carries [OF k] in
      \<open>auto simp: cancel_def execute_transfer_def schedule_transfer_def transactional_Inr and_then_Inr ensure_Inr\<close>)
qed

lemma airdrop_call_carries:
  assumes k: "airdrop_ops_keep rel ops" and s': "s' = snd (run_airdrop_call ops origin c s)"
  shows "rel (airdrop_env s) (airdrop_env s')"
proof (cases "fst (run_airdrop_call ops origin c s)")
  case (Inl e)
  then show ?thesis
    using s' run_airdrop_call_error [of ops origin c s e "snd (run_airdrop_call ops origin c s)"] rel_refl by (simp add: prod_eq_iff)
next
  case (Inr u)
  then have r: "run_airdrop_call ops origin c s = (Inr u, s')" using s' by (simp add: prod_eq_iff)
  have ops: "airdrop_transfer ops a b v q x = (Inr w, x') \<Longrightarrow> rel x x'" "vested_transfer ops a b v pb t x = (Inr w, x') \<Longrightarrow> rel x x'"
    for a b v q pb t x w x' using k unfolding airdrop_ops_keep_def by metis+
  show ?thesis
  proof (cases c)
    case (Create_Airdrop root period start)
    then have r': "create_airdrop origin root period start s = (Inr u, s')" using r by simp
    show ?thesis by (rule create_airdrop_effect [OF r']) (simp add: rel_refl)
  next
    case (Fund_Airdrop i v)
    then have r': "fund_airdrop ops origin i v s = (Inr u, s')" using r by simp
    show ?thesis by (rule fund_airdrop_effect [OF r']) (simp add: ops(1))
  next
    case (Claim_Airdrop i who v pr)
    then have r': "claim ops origin i who v pr s = (Inr u, s')" using r by simp
    show ?thesis by (rule claim_effect [OF r']) (simp add: ops(2))
  next
    case (Delete_Airdrop i)
    then have r': "delete_airdrop ops origin i s = (Inr u, s')" using r by simp
    show ?thesis by (rule delete_airdrop_effect [OF r']) (simp add: ops(1))
  qed
qed

end

lemma entry_none_trans: "entry cfg 0 0 0 s t \<Longrightarrow> entry cfg 0 0 0 t u \<Longrightarrow> entry cfg 0 0 0 s u"
  by (auto simp: entry_def)

interpretation books: carried "\<lambda>x y :: 'e bal_state \<times> 'y. entry cfg 0 0 0 (fst x) (fst y)" for cfg
  by unfold_locales (auto intro: entry_then)

section \<open>Calls of the balances pallet\<close>

definition fungible_books :: "'e bal_config \<Rightarrow> ('e, 'l) bal_runtime \<Rightarrow> bool" where
  "fungible_books cfg rt \<longleftrightarrow>
     (\<forall>a b v p s r s'. fungible_transfer rt a b v p s = (Inr r, s') \<longrightarrow> entry cfg 0 0 0 s s') \<and>
     (\<forall>a v p q f s r s'. fungible_burn_from rt a v p q f s = (Inr r, s') \<longrightarrow> entry cfg 0 0 0 s s')"

fun may_issue :: "'l bal_call \<Rightarrow> nat" where
  "may_issue (Force_Set_Balance _ v) = unat v"
| "may_issue _ = 0"

fun adjusts_issuance :: "'l bal_call \<Rightarrow> bool" where
  "adjusts_issuance (Force_Adjust_Total_Issuance _ _) = True"
| "adjusts_issuance _ = False"

lemma entry_transfer_and_prove:
  assumes "fungible_books cfg rt" "transfer_and_prove cfg rt a b v p s = (Inr u, s')"
  shows "entry cfg 0 0 0 s s'"
proof -
  obtain r s1 where t: "fungible_transfer rt a b v p s = (Inr r, s1)" "s' = store_transfer_proof cfg a b v s1"
    using assms(2) by (auto simp: transfer_and_prove_def and_then_Inr)
  have sys: "sys s' = sys s1" "TotalIssuance s' = TotalIssuance s1" by (simp_all add: t(2) store_transfer_proof_def)
  have "entry cfg 0 0 0 s s1" using assms(1) t(1) unfolding fungible_books_def by blast
  moreover have "entry cfg 0 0 0 s1 s'" by (rule entry_same_sys) (simp_all add: sys issuance_def)
  ultimately show ?thesis by (rule entry_then) simp_all
qed

lemma entry_force_set_balance:
  assumes g: "good_balances cfg" and lt: "issuance s + unat v < 2 ^ 128" and r: "force_set_balance cfg rt origin l v s = (Inr u, s')"
  shows "entry cfg (unat v) 0 0 s s'"
proof (rule entry_if_ok)
  assume ok: "bal_ok cfg s"
  define nf where "nf = (if v < ExistentialDeposit cfg then 0 else v)"
  obtain who old s1 where m: "mutate_account_handling_dust cfg who no_drop (\<lambda>a. (free a, a\<lparr> free := nf \<rparr>)) s = (Inr old, s1)"
    and s': "s' = deposit_event (B_BalanceSet who nf)
        ((if old < nf then drop_positive (PositiveImbalance (nf - old))
          else if nf < old then drop_negative (NegativeImbalance (old - nf)) else (\<lambda>s. s)) s1)"
    using r by (auto simp: force_set_balance_def transactional_Inr and_then_Inr Let_def nf_def)
  obtain a where a: "old = free a" "old_account cfg s who a" "mutated cfg who s (a\<lparr> free := nf \<rparr>) s1"
    using mutate_handling_dust_effect [OF g ok m] by (auto simp: old_account_def)
  have e: "entry cfg 0 c d s s1" if "unat nf + c \<le> unat old + d" for c d
    by (rule entry_mutated [OF a(3,2)]) (use that a(1) in \<open>simp add: total_nat_def\<close>)
  have nf: "unat nf \<le> unat v" by (simp add: nf_def)
  consider (up) "old < nf" | (down) "nf < old" | (same) "old = nf" by fastforce
  then show "entry cfg (unat v) 0 0 s s'"
  proof cases
    case up
    then have d: "unat (nf - old) = unat nf - unat old" "unat old < unat nf"
      using unat_minus_le [OF less_imp_le [OF up]] by (simp_all add: word_less_nat_alt)
    have e1: "entry cfg 0 0 (unat nf - unat old) s s1" by (rule e) (use d in simp)
    then have "issuance s1 \<le> issuance s" using ok by (simp add: entry_def)
    then have "issuance s1 + unat (nf - old) < 2 ^ 128" using lt nf d by linarith
    from entry_then [OF e1 entry_drop_positive [OF this]] nf d up show ?thesis by (simp add: s')
  next
    case down
    then have "\<not> old < nf" by (rule order_less_not_sym)
    from down have d: "unat (old - nf) = unat old - unat nf" "unat nf < unat old"
      using unat_minus_le [OF less_imp_le [OF down]] by (simp_all add: word_less_nat_alt)
    have e1: "entry cfg 0 (unat old - unat nf) 0 s s1" by (rule e) (use d in simp)
    from entry_then [OF e1 entry_drop_negative [of cfg "NegativeImbalance (old - nf)"], of "unat v" 0 0] d down
      \<open>\<not> old < nf\<close> show ?thesis by (simp add: s')
  next
    case same
    then show ?thesis using entry_weaken [OF e [of 0 0]] by (simp add: s')
  qed
qed

lemma entry_dispatch:
  assumes g: "good_balances cfg" and pt: "put_total (sy cfg)" and law: "fungible_books cfg rt"
    and na: "\<not> adjusts_issuance call" and lt: "issuance s + may_issue call < 2 ^ 128"
  shows "entry cfg (may_issue call) 0 0 s (dispatch_call cfg rt origin call s)"
proof -
  note keeps = transactional_keeps [where P = "entry cfg 0 0 0 s" and s = s, OF entry_refl]
  note tp = entry_transfer_and_prove [OF law]
  have burnt: "fungible_burn_from rt a v p q f s = (Inr r, s') \<Longrightarrow> entry cfg 0 0 0 s s'" for a v p q f r s'
    using law unfolding fungible_books_def by blast
  have upgraded: "entry cfg 0 0 0 s (snd (upgrade_each cfg l 0 s))" for l
    by (rule entry_if_ok) (rule entry_same_balances [OF upgrade_each_same [OF g]])
  show ?thesis
  proof (cases call)
    case (Transfer_Allow_Death dest v)
    show ?thesis unfolding dispatch_call_def Transfer_Allow_Death bal_call.case transfer_allow_death_def may_issue.simps
      by (rule keeps) (use tp in \<open>auto simp: and_then_Inr\<close>)
  next
    case (Force_Transfer source dest v)
    show ?thesis unfolding dispatch_call_def Force_Transfer bal_call.case force_transfer_def may_issue.simps
      by (rule keeps) (use tp in \<open>auto simp: and_then_Inr\<close>)
  next
    case (Transfer_Keep_Alive dest v)
    show ?thesis unfolding dispatch_call_def Transfer_Keep_Alive bal_call.case transfer_keep_alive_def may_issue.simps
      by (rule keeps) (use tp in \<open>auto simp: and_then_Inr\<close>)
  next
    case (Transfer_All dest keep)
    show ?thesis unfolding dispatch_call_def Transfer_All bal_call.case transfer_all_def may_issue.simps
      by (rule keeps) (use tp in \<open>auto simp: and_then_Inr Let_def\<close>)
  next
    case (Force_Unreserve target v)
    show ?thesis unfolding dispatch_call_def Force_Unreserve bal_call.case force_unreserve_def may_issue.simps
      by (rule keeps) (use entry_unreserve [OF g pt] in \<open>auto simp: and_then_Inr\<close>)
  next
    case (Upgrade_Accounts l)
    show ?thesis unfolding dispatch_call_def Upgrade_Accounts bal_call.case upgrade_accounts_def may_issue.simps
      by (rule keeps) (use upgraded [of l] in \<open>auto simp: and_then_Inr Let_def split: prod.splits if_splits\<close>)
  next
    case (Force_Set_Balance target v)
    obtain r s' where f: "force_set_balance cfg rt origin target v s = (r, s')" by force
    have lt': "issuance s + unat v < 2 ^ 128" using lt Force_Set_Balance by simp
    have "entry cfg (unat v) 0 0 s s'"
    proof (cases r)
      case (Inl e)
      then have "s' = s" using f by (auto simp: force_set_balance_def transactional_Inl)
      then show ?thesis by simp
    next
      case (Inr u)
      then show ?thesis using entry_force_set_balance [OF g lt'] f by simp
    qed
    then show ?thesis using f Force_Set_Balance by (simp add: dispatch_call_def)
  next
    case (Burn_Call v keep)
    show ?thesis unfolding dispatch_call_def Burn_Call bal_call.case burn_def may_issue.simps
      by (rule keeps) (use burnt in \<open>auto simp: and_then_Inr\<close>)
  qed (use na in simp)
qed

end
