(* ===== verification/ChainTokens.thy ===== *)
theory ChainTokens
  imports TokenCalls
begin

text \<open>The runtime as one state machine over its tokens (runtime/src/lib.rs): the pallets that own, create, hold,
  move or collect tokens, each in its own record and all over one balances pallet, the calls they can receive,
  and what is relied on of the code that is not in the repository. The property bounds what the accounts hold
  by the issuance, and the issuance by the genesis and by what the calls may create.\<close>

section \<open>The pallets over one balances pallet\<close>

datatype deposit_call =
  Deposit_New account footprint
| Deposit_Update preimage_deposit account footprint
| Deposit_Drop preimage_deposit account

datatype 'l chain_call =
  On_Balances origin "'l bal_call"
| On_Wormhole origin bytes
| On_Faucet origin 'l u64
| On_Reversible origin "'l rev_call"
| On_Airdrop origin airdrop_call
| On_Preimage deposit_call
| Pay_Fee account balance
| End_Block "digest_item list" block_number

record ('e, 'l, 'y, 'z, 'b, 'p, 'f) chain_ops =
  ops_balances :: "('e, 'l) bal_runtime"
  ops_wormhole :: "('p, 'f) wormhole_ops"
  ops_rewards :: "'e reward_ops"
  ops_faucet :: "('e, 'l) faucet_ops"
  ops_reversible :: "('e bal_state \<times> 'y, 'l, 'b) rev_ops"
  ops_airdrop :: "('e bal_state \<times> 'z) airdrop_ops"
  ops_charge :: "account \<Rightarrow> balance \<Rightarrow> ('e, unit) bal"

record ('e, 'y, 'z, 'b) token_chain =
  chain_balances :: "'e bal_state"
  chain_wormhole :: "'e wormhole_state"
  chain_rewards :: "'e reward_state"
  chain_faucet :: "'e faucet_state"
  chain_reversible :: "('e bal_state \<times> 'y, 'b) rev_state"
  chain_airdrop :: "('e bal_state \<times> 'z) airdrop_state"

definition on_wormhole ::
    "('e wormhole_state \<Rightarrow> 'r \<times> 'e wormhole_state) \<Rightarrow> ('e, 'y, 'z, 'b) token_chain \<Rightarrow> ('e, 'y, 'z, 'b) token_chain" where
  "on_wormhole m c =
     (let w = snd (m ((chain_wormhole c)\<lparr> wormhole_balances := chain_balances c \<rparr>))
      in c\<lparr> chain_balances := wormhole_balances w, chain_wormhole := w \<rparr>)"

definition on_rewards :: "('e reward_state \<Rightarrow> 'e reward_state) \<Rightarrow> ('e, 'y, 'z, 'b) token_chain \<Rightarrow> ('e, 'y, 'z, 'b) token_chain" where
  "on_rewards f c =
     (let r = f ((chain_rewards c)\<lparr> reward_balances := chain_balances c \<rparr>)
      in c\<lparr> chain_balances := reward_balances r, chain_rewards := r \<rparr>)"

definition on_faucet ::
    "('e faucet_state \<Rightarrow> 'r \<times> 'e faucet_state) \<Rightarrow> ('e, 'y, 'z, 'b) token_chain \<Rightarrow> ('e, 'y, 'z, 'b) token_chain" where
  "on_faucet m c =
     (let f = snd (m ((chain_faucet c)\<lparr> faucet_balances := chain_balances c \<rparr>))
      in c\<lparr> chain_balances := faucet_balances f, chain_faucet := f \<rparr>)"

definition on_reversible ::
    "(('e bal_state \<times> 'y, 'b) rev_state \<Rightarrow> 'r \<times> ('e bal_state \<times> 'y, 'b) rev_state)
      \<Rightarrow> ('e, 'y, 'z, 'b) token_chain \<Rightarrow> ('e, 'y, 'z, 'b) token_chain" where
  "on_reversible m c =
     (let r = chain_reversible c; r' = snd (m (r\<lparr> rev_env := (chain_balances c, snd (rev_env r)) \<rparr>))
      in c\<lparr> chain_balances := fst (rev_env r'), chain_reversible := r' \<rparr>)"

definition on_airdrop ::
    "(('e bal_state \<times> 'z) airdrop_state \<Rightarrow> 'r \<times> ('e bal_state \<times> 'z) airdrop_state)
      \<Rightarrow> ('e, 'y, 'z, 'b) token_chain \<Rightarrow> ('e, 'y, 'z, 'b) token_chain" where
  "on_airdrop m c =
     (let a = chain_airdrop c; a' = snd (m (a\<lparr> airdrop_env := (chain_balances c, snd (airdrop_env a)) \<rparr>))
      in c\<lparr> chain_balances := fst (airdrop_env a'), chain_airdrop := a' \<rparr>)"

definition run_deposit_call :: "'e bal_config \<Rightarrow> deposit_call \<Rightarrow> 'e bal_state \<Rightarrow> 'e bal_state" where
  "run_deposit_call cfg call s =
     (case call of
        Deposit_New who fp \<Rightarrow> snd (transactional (preimage_new (reserve cfg) who fp) s)
      | Deposit_Update d who fp \<Rightarrow> snd (transactional (preimage_update (reserve cfg) (unreserve cfg) d who fp) s)
      | Deposit_Drop d who \<Rightarrow> snd (transactional (preimage_drop (unreserve cfg) d who) s))"

text \<open>A fee is withdrawn by the framework, and its credit, unless it is zero, goes to the collector.\<close>

definition pay_fee ::
    "('e, 'l, 'y, 'z, 'b, 'p, 'f) chain_ops \<Rightarrow> account \<Rightarrow> balance \<Rightarrow> ('e, 'y, 'z, 'b) token_chain \<Rightarrow> ('e, 'y, 'z, 'b) token_chain" where
  "pay_fee ops who fee c =
     (case ops_charge ops who fee (chain_balances c) of
        (Inl _, b) \<Rightarrow> c
      | (Inr _, b) \<Rightarrow>
          (let c1 = c\<lparr> chain_balances := b \<rparr>
           in if fee = 0 then c1 else on_rewards (on_nonzero_unbalanced (ops_rewards ops) fee) c1))"

fun run_chain_call ::
    "'e bal_config \<Rightarrow> ('e, 'l, 'y, 'z, 'b, 'p, 'f) chain_ops \<Rightarrow> 'l chain_call
      \<Rightarrow> ('e, 'y, 'z, 'b) token_chain \<Rightarrow> ('e, 'y, 'z, 'b) token_chain" where
  "run_chain_call cfg ops (On_Balances origin call) c =
     c\<lparr> chain_balances := dispatch_call cfg (ops_balances ops) origin call (chain_balances c) \<rparr>"
| "run_chain_call cfg ops (On_Wormhole origin pb) c = on_wormhole (verify_wormhole_proof (ops_wormhole ops) cfg origin pb) c"
| "run_chain_call cfg ops (On_Faucet origin dest seed) c = on_faucet (mint_new_tokens (ops_faucet ops) cfg origin dest seed) c"
| "run_chain_call cfg ops (On_Reversible origin call) c = on_reversible (run_rev_call (ops_reversible ops) origin call) c"
| "run_chain_call cfg ops (On_Airdrop origin call) c = on_airdrop (run_airdrop_call (ops_airdrop ops) origin call) c"
| "run_chain_call cfg ops (On_Preimage call) c = c\<lparr> chain_balances := run_deposit_call cfg call (chain_balances c) \<rparr>"
| "run_chain_call cfg ops (Pay_Fee who fee) c = pay_fee ops who fee c"
| "run_chain_call cfg ops (End_Block digest n) c = on_rewards (rewards_on_finalize (ops_rewards ops) digest n) c"

definition run_chain ::
    "'e bal_config \<Rightarrow> ('e, 'l, 'y, 'z, 'b, 'p, 'f) chain_ops \<Rightarrow> 'l chain_call list
      \<Rightarrow> ('e, 'y, 'z, 'b) token_chain \<Rightarrow> ('e, 'y, 'z, 'b) token_chain" where
  "run_chain cfg ops calls c = fold (run_chain_call cfg ops) calls c"

definition new_chain :: "'e bal_state \<Rightarrow> 'y \<Rightarrow> 'z \<Rightarrow> ('e, 'y, 'z, 'b) token_chain" where
  "new_chain b y z =
     \<lparr> chain_balances = b,
       chain_wormhole = \<lparr> UsedNullifiers = (\<lambda>_. None), wormhole_balances = b, wormhole_events = [] \<rparr>,
       chain_rewards = \<lparr> CollectedFees = 0, reward_balances = b, reward_events = [] \<rparr>,
       chain_faucet = \<lparr> faucet_balances = b, faucet_events = [] \<rparr>,
       chain_reversible = empty_rev_state (b, y), chain_airdrop = no_airdrops (b, z) \<rparr>"

section \<open>What a call may create\<close>

fun creates :: "('e, 'l, 'y, 'z, 'b, 'p, 'f) chain_ops \<Rightarrow> 'l chain_call \<Rightarrow> nat" where
  "creates ops (On_Balances origin call) = may_issue call"
| "creates ops (On_Wormhole origin pb) =
     (case inputs_of (ops_wormhole ops) pb of None \<Rightarrow> 0 | Some i \<Rightarrow> unat (exit_amount i))"
| "creates ops (On_Faucet origin dest seed) = unat (DefaultMintAmount (ops_faucet ops))"
| "creates ops (End_Block digest n) = unat (BlockReward (ops_rewards ops))"
| "creates ops _ = 0"

fun ordinary :: "'l chain_call \<Rightarrow> bool" where
  "ordinary (On_Balances origin call) = (\<not> adjusts_issuance call)"
| "ordinary _ = True"

text \<open>What is relied on of the code outside.\<close>

definition charge_law :: "'e bal_config \<Rightarrow> (account \<Rightarrow> balance \<Rightarrow> ('e, unit) bal) \<Rightarrow> bool" where
  "charge_law cfg charge \<longleftrightarrow>
     (\<forall>who fee s u s'. charge who fee s = (Inr u, s') \<longrightarrow> entry cfg 0 (unat fee) 0 s s')"

text \<open>Scheduling, looking up preimages and dispatching other calls leave the balances alone.\<close>

definition spares_balances :: "('s \<times> 'y, 'l, 'b) rev_ops \<Rightarrow> bool" where
  "spares_balances ops \<longleftrightarrow>
     (\<forall>call who x u x'. op_dispatch ops call who x = (Inr u, x') \<longrightarrow> fst x' = fst x) \<and>
     (\<forall>k t acc b x u x'. op_schedule_named ops k t acc b x = (Inr u, x') \<longrightarrow> fst x' = fst x) \<and>
     (\<forall>k x u x'. op_cancel_named ops k x = (Inr u, x') \<longrightarrow> fst x' = fst x) \<and>
     (\<forall>call x u x'. op_bound ops call x = (Inr u, x') \<longrightarrow> fst x' = fst x) \<and>
     (\<forall>b x u x'. op_realize ops b x = (Inr u, x') \<longrightarrow> fst x' = fst x)"

text \<open>The vesting pallet moves the tokens by a transfer.\<close>

definition vesting_law ::
    "'e bal_config \<Rightarrow> ('e bal_state \<times> 'z) airdrop_ops \<Rightarrow> bool" where
  "vesting_law cfg ops \<longleftrightarrow>
     (\<forall>a b v pb t x u x'. vested_transfer ops a b v pb t x = (Inr u, x') \<longrightarrow> entry cfg 0 0 0 (fst x) (fst x'))"

definition chain_laws :: "'e bal_config \<Rightarrow> ('e, 'l, 'y, 'z, 'b, 'p, 'f) chain_ops \<Rightarrow> bool" where
  "chain_laws cfg ops \<longleftrightarrow>
     fungible_books cfg (ops_balances ops) \<and>
     resolve_creating (ops_rewards ops) = resolve_by_deposit cfg \<and> drop_credit_law (ops_rewards ops) \<and>
     faucet_resolve (ops_faucet ops) = resolve_by_deposit cfg \<and>
     (\<exists>reason ms base. ops_reversible ops = reversible_over_balances cfg (ops_balances ops) ms base \<and>
        default_methods cfg reason ms \<and> spares_balances base) \<and>
     airdrop_transfer (ops_airdrop ops) =
       (\<lambda>a b v r. on_balances (currency_transfer (fungible_transfer (ops_balances ops)) a b v r)) \<and>
     vesting_law cfg (ops_airdrop ops) \<and>
     charge_law cfg (ops_charge ops)"

section \<open>Every call keeps the books\<close>

lemma reversible_keeps:
  assumes g: "good_balances cfg" and f: "fungible_books cfg rt" and d: "default_methods cfg reason ms" and b: "spares_balances base"
  shows "rev_ops_keep (\<lambda>x y. entry cfg 0 0 0 (fst x) (fst y)) (reversible_over_balances cfg rt ms base)"
proof -
  obtain h r m where ms: "ms = (h, r, m)" by (cases ms)
  have hold: "entry cfg 0 0 0 s s'" if "h who v s = (Inr u, s')" for who v s s' u
    by (rule entry_holds(1) [OF g, where reason = reason and who = who and v = v and u = u]) (use that d in \<open>simp add: default_methods_def ms\<close>)
  have release: "entry cfg 0 0 0 s s'" if "r who v s = (Inr w, s')" for who v s s' w
    by (rule entry_holds(2) [OF g, where reason = reason and who = who and v = v and w = w]) (use that d in \<open>simp add: default_methods_def ms\<close>)
  have move: "entry cfg 0 0 0 s s'" if "m who to v s = (Inr w, s')" for who to v s s' w
    by (rule entry_holds(3) [OF g, where reason = reason and who = who and dest = to and v = v and w = w])
      (use that d in \<open>simp add: default_methods_def ms\<close>)
  have transfer: "entry cfg 0 0 0 s s'" if "transfer_keep_alive cfg rt origin to v s = (Inr u, s')" for origin to v s u s'
    using that entry_transfer_and_prove [OF f] by (auto simp: transfer_keep_alive_def transactional_Inr and_then_Inr)
  let ?ops = "reversible_over_balances cfg rt ms base"
  have dispatch: "entry cfg 0 0 0 (fst x) (fst x')" if p: "op_dispatch ?ops call who x = (Inr u, x')" for call who x u x'
  proof (cases call)
    case (Execute_Transfer t)
    then have "op_dispatch base call who x = (Inr u, x')" using p by (simp add: reversible_over_balances_def ms)
    then have "fst x' = fst x" using b unfolding spares_balances_def by metis
    then show ?thesis by simp
  qed (use p in \<open>auto simp: reversible_over_balances_def ms on_balances_result intro: transfer\<close>)
  have ops: "op_hold ?ops who v = on_balances (h who v)" "op_release ?ops who v Exact = on_balances (r who v)"
    "op_transfer_on_hold ?ops who to v Exact Restrict_Free Polite = on_balances (m who to v)"
    "op_schedule_named ?ops = op_schedule_named base" "op_cancel_named ?ops = op_cancel_named base"
    "op_bound ?ops = op_bound base" "op_realize ?ops = op_realize base" for who to v
    by (simp_all add: reversible_over_balances_def ms)
  have same: "entry cfg 0 0 0 (fst x) (fst x')" if "fst x' = fst x" for x x'
    using that by simp
  note spared = b [unfolded spares_balances_def]
  show ?thesis
    unfolding rev_ops_keep_def ops on_balances_result
  proof (intro conjI allI impI)
    fix call who x u x'
    assume "op_dispatch ?ops call who x = (Inr u, x')"
    then show "entry cfg 0 0 0 (fst x) (fst x')" by (rule dispatch)
  qed ((use hold release move in blast | rule same, use spared in metis)+)
qed

lemma airdrop_keeps:
  assumes f: "fungible_books cfg rt" and v: "vesting_law cfg ops"
    and t: "airdrop_transfer ops = (\<lambda>a b v r. on_balances (currency_transfer (fungible_transfer rt) a b v r))"
  shows "airdrop_ops_keep (\<lambda>x y. entry cfg 0 0 0 (fst x) (fst y)) ops"
proof -
  have "entry cfg 0 0 0 s s'" if "currency_transfer (fungible_transfer rt) a b v r s = (Inr u, s')" for a b v r s u s'
    using that f unfolding fungible_books_def currency_transfer_def
    by (auto simp: and_then_Inr Let_def split: if_splits)
  then show ?thesis using v unfolding airdrop_ops_keep_def vesting_law_def t on_balances_result by blast
qed

definition books_ok :: "'e bal_config \<Rightarrow> ('e, 'y, 'z, 'b) token_chain \<Rightarrow> bool" where
  "books_ok cfg c \<longleftrightarrow> bal_ok cfg (chain_balances c) \<and> holdings cfg (chain_balances c) \<le> issuance (chain_balances c)"

definition outstanding :: "('e, 'y, 'z, 'b) token_chain \<Rightarrow> nat" where
  "outstanding c = issuance (chain_balances c) + unat (CollectedFees (chain_rewards c))"

lemma entry_keeps_books:
  assumes "books_ok cfg c" "entry cfg n 0 0 (chain_balances c) (chain_balances c')"
    and "CollectedFees (chain_rewards c') = CollectedFees (chain_rewards c)"
  shows "books_ok cfg c' \<and> outstanding c' \<le> outstanding c + n"
  using assms by (auto simp: books_ok_def outstanding_def entry_def)

lemma wormhole_entry:
  assumes g: "good_balances cfg" and pt: "put_total (sy cfg)"
    and w: "w' = snd (verify_wormhole_proof ops cfg origin pb w)"
    and n: "n = (case inputs_of ops pb of None \<Rightarrow> 0 | Some i \<Rightarrow> unat (exit_amount i))"
    and lt: "issuance (wormhole_balances w) + n < 2 ^ 128"
  shows "entry cfg n 0 0 (wormhole_balances w) (wormhole_balances w')"
proof (cases "fst (verify_wormhole_proof ops cfg origin pb w)")
  case (Inl e)
  then have "verify_wormhole_proof ops cfg origin pb w = (Inl e, w')" using w by (simp add: prod_eq_iff)
  then have "w' = w" by (simp add: verify_wormhole_proof_def transactional_Inl)
  then show ?thesis by simp
next
  case (Inr u)
  then have "verify_wormhole_proof ops cfg origin pb w = (Inr u, w')" using w by (simp add: prod_eq_iff)
  then obtain i where i: "inputs_of ops pb = Some i" "wormhole_balances w' =
      deposit_mint cfg (exit_account i) (exit_balance i) (wormhole_balances w)"
    by (auto simp: verify_wormhole_proof_def transactional_Inr and_then_Inr ensure_Inr inputs_of_def pay_out_def mark_used_def
        split: option.splits)
  have "unat (exit_balance i) = unat (exit_amount i)"
    using unat_lt_max [of "exit_amount i"] by (simp add: exit_balance_def unsigned_ucast_eq take_bit_nat_eq_self_iff)
  then show ?thesis using entry_deposit_mint [OF g pt, of "wormhole_balances w" "exit_balance i"] lt i n by simp
qed

lemma faucet_entry:
  assumes "good_balances cfg" "put_total (sy cfg)" "faucet_resolve ops = resolve_by_deposit cfg"
    and "f' = snd (mint_new_tokens ops cfg origin dest seed f)"
  shows "entry cfg (unat (DefaultMintAmount ops)) 0 0 (faucet_balances f) (faucet_balances f')"
  using mint_new_tokens_result [of ops cfg origin dest seed f _ f'] assms(3,4) entry_issue_mint [OF assms(1,2)]
  by (metis entry_refl prod.collapse)

lemma deposit_call_entry:
  assumes g: "good_balances cfg" and pt: "put_total (sy cfg)"
  shows "entry cfg 0 0 0 s (run_deposit_call cfg call s)"
proof -
  note keeps = transactional_keeps [where P = "entry cfg 0 0 0 s" and s = s, OF entry_refl]
  note moves = entry_reserve [OF g] entry_unreserve [OF g pt]
  show ?thesis
  proof (cases call)
    case (Deposit_New who fp)
    show ?thesis unfolding run_deposit_call_def Deposit_New deposit_call.case
      by (rule keeps) (use moves in \<open>auto simp: preimage_new_def Let_def and_then_Inr\<close>)
  next
    case (Deposit_Update d who fp)
    show ?thesis unfolding run_deposit_call_def Deposit_Update deposit_call.case
      by (rule keeps) (auto simp: preimage_update_def Let_def and_then_Inr intro: entry_none_trans [OF moves(2) moves(1)])
  next
    case (Deposit_Drop d who)
    show ?thesis unfolding run_deposit_call_def Deposit_Drop deposit_call.case
      by (rule keeps) (use moves in \<open>auto simp: preimage_drop_def\<close>)
  qed
qed

text \<open>A fee leaves the issuance and becomes a collected fee.\<close>

lemma fee_keeps_books:
  assumes law: "charge_law cfg (ops_charge ops)" "drop_credit_law (ops_rewards ops)"
    and ok: "books_ok cfg c"
  shows "books_ok cfg (pay_fee ops who fee c) \<and> outstanding (pay_fee ops who fee c) \<le> outstanding c"
proof -
  obtain r b where r: "ops_charge ops who fee (chain_balances c) = (r, b)" by force
  show ?thesis
  proof (cases r)
    case (Inl e)
    then show ?thesis using r ok by (simp add: pay_fee_def)
  next
    case (Inr u)
    then have e: "entry cfg 0 (unat fee) 0 (chain_balances c) b" using law(1) r unfolding charge_law_def by blast
    have b: "bal_ok cfg b" "issuance b \<le> issuance (chain_balances c)" "holdings cfg b + unat fee \<le> issuance b"
      using e ok unfolding entry_def books_ok_def by linarith+
    show ?thesis
    proof (cases "fee = 0")
      case True
      then have "pay_fee ops who fee c = c\<lparr> chain_balances := b \<rparr>" using r Inr by (simp add: pay_fee_def Let_def)
      then show ?thesis using b True by (simp add: books_ok_def outstanding_def)
    next
      case False
      define b' where "b' = b\<lparr> TotalIssuance := sat_sub (TotalIssuance b) fee \<rparr>"
      have p: "chain_balances (pay_fee ops who fee c) = b'"
        "CollectedFees (chain_rewards (pay_fee ops who fee c)) = sat_add (CollectedFees (chain_rewards c)) fee"
        using r Inr False law(2) by (simp_all add: pay_fee_def Let_def on_rewards_def on_nonzero_unbalanced_def
            collect_transaction_fees_def reward_event_def drop_credit_law_def b'_def)
      have sy: "sys b' = sys b" "issuance b' = issuance b - unat fee" by (simp_all add: b'_def issuance_def mach_nat)
      have "unat (sat_add (CollectedFees (chain_rewards c)) fee) \<le> unat (CollectedFees (chain_rewards c)) + unat fee"
        by (simp add: mach_nat)
      moreover have "holdings cfg b' = holdings cfg b" "bal_ok cfg b'"
        using b(1) bal_ok_sys [OF sy(1), of cfg] account_of_sys [OF sy(1), of cfg] by (simp_all add: holdings_def)
      ultimately show ?thesis using b(2,3) unfolding books_ok_def outstanding_def p sy(2) by linarith
    qed
  qed
qed

lemma reward_keeps_books:
  assumes g: "good_balances cfg" and pt: "put_total (sy cfg)" and res: "resolve_creating ops = resolve_by_deposit cfg"
    and ok: "books_ok cfg c" and c': "c' = on_rewards (rewards_on_finalize ops digest n) c"
  shows "books_ok cfg c' \<and> outstanding c' \<le> outstanding c + unat (BlockReward ops)"
proof (cases "extract_miner_from_digest ops digest")
  case None
  then show ?thesis using ok by (simp add: c' on_rewards_def rewards_on_finalize_def books_ok_def outstanding_def)
next
  case (Some miner)
  let ?v = "sat_add (BlockReward ops) (CollectedFees (chain_rewards c))"
  have b: "chain_balances c' = issue_mint (resolve_by_deposit cfg) miner ?v (chain_balances c)"
    "CollectedFees (chain_rewards c') = 0"
    unfolding c' on_rewards_def rewards_on_finalize_mints [OF Some res] by (simp_all add: reward_event_def Let_def)
  have "unat ?v \<le> unat (BlockReward ops) + unat (CollectedFees (chain_rewards c))" by (simp add: mach_nat)
  then show ?thesis
    using entry_issue_mint [OF g pt, of ?v "chain_balances c" miner] ok
    by (auto simp: books_ok_def outstanding_def entry_def b)
qed

lemma chain_call_keeps_books:
  assumes g: "good_balances cfg" and pt: "put_total (sy cfg)" and law: "chain_laws cfg ops"
    and ok: "books_ok cfg c" and ord: "ordinary call" and lt: "outstanding c + creates ops call < 2 ^ 128"
  shows "books_ok cfg (run_chain_call cfg ops call c) \<and>
    outstanding (run_chain_call cfg ops call c) \<le> outstanding c + creates ops call"
proof -
  note l = law [unfolded chain_laws_def]
  have rev: "rev_ops_keep (\<lambda>x y. entry cfg 0 0 0 (fst x) (fst y)) (ops_reversible ops)"
    and air: "airdrop_ops_keep (\<lambda>x y. entry cfg 0 0 0 (fst x) (fst y)) (ops_airdrop ops)"
    using l reversible_keeps [OF g] airdrop_keeps by metis+
  have lt': "issuance (chain_balances c) + creates ops call < 2 ^ 128" using lt by (simp add: outstanding_def)
  show ?thesis
  proof (cases call)
    case (On_Balances origin bc)
    have "entry cfg (may_issue bc) 0 0 (chain_balances c) (dispatch_call cfg (ops_balances ops) origin bc (chain_balances c))"
      by (rule entry_dispatch [OF g pt conjunct1 [OF l]]) (use ord lt' On_Balances in simp_all)
    then show ?thesis by (auto simp: On_Balances intro!: entry_keeps_books [OF ok])
  next
    case (On_Wormhole origin pb)
    let ?w = "(chain_wormhole c)\<lparr> wormhole_balances := chain_balances c \<rparr>"
    show ?thesis
      using wormhole_entry [OF g pt refl refl, where ops = "ops_wormhole ops" and pb = pb and w = ?w and origin = origin]
        lt' On_Wormhole
      by (auto simp: on_wormhole_def Let_def intro!: entry_keeps_books [OF ok])
  next
    case (On_Faucet origin dest seed)
    let ?f = "(chain_faucet c)\<lparr> faucet_balances := chain_balances c \<rparr>"
    show ?thesis
      using faucet_entry [OF g pt _ refl, where ops = "ops_faucet ops" and origin = origin and dest = dest and seed = seed and f = ?f] l On_Faucet
      by (auto simp: on_faucet_def Let_def intro!: entry_keeps_books [OF ok])
  next
    case (On_Reversible origin rc)
    let ?r = "(chain_reversible c)\<lparr> rev_env := (chain_balances c, snd (rev_env (chain_reversible c))) \<rparr>"
    show ?thesis
      using books.rev_call_carries [OF rev refl, where origin = origin and c = rc and s = ?r] On_Reversible
      by (auto simp: on_reversible_def Let_def intro!: entry_keeps_books [OF ok, where n = 0, simplified])
  next
    case (On_Airdrop origin ac)
    let ?a = "(chain_airdrop c)\<lparr> airdrop_env := (chain_balances c, snd (airdrop_env (chain_airdrop c))) \<rparr>"
    show ?thesis
      using books.airdrop_call_carries [OF air refl, where origin = origin and c = ac and s = ?a] On_Airdrop
      by (auto simp: on_airdrop_def Let_def intro!: entry_keeps_books [OF ok, where n = 0, simplified])
  next
    case (On_Preimage dc)
    then show ?thesis
      using deposit_call_entry [OF g pt] by (auto intro!: entry_keeps_books [OF ok, where n = 0, simplified])
  next
    case (Pay_Fee who fee)
    have "charge_law cfg (ops_charge ops)" "drop_credit_law (ops_rewards ops)" using l by simp_all
    from fee_keeps_books [OF this ok] show ?thesis by (simp add: Pay_Fee)
  next
    case (End_Block digest n)
    have "resolve_creating (ops_rewards ops) = resolve_by_deposit cfg" using l by simp
    from reward_keeps_books [OF g pt this ok refl] show ?thesis by (simp add: End_Block)
  qed
qed

lemma run_keeps_books:
  assumes "good_balances cfg" "put_total (sy cfg)" "chain_laws cfg ops" "\<forall>call\<in>set calls. ordinary call"
    and "books_ok cfg c" "outstanding c + (\<Sum>call\<leftarrow>calls. creates ops call) < 2 ^ 128"
  shows "books_ok cfg (run_chain cfg ops calls c) \<and>
    outstanding (run_chain cfg ops calls c) \<le> outstanding c + (\<Sum>call\<leftarrow>calls. creates ops call)"
  using assms(4-6)
proof (induction calls arbitrary: c)
  case (Cons call calls)
  have "outstanding c + creates ops call < 2 ^ 128" using Cons.prems(3) by simp
  note st = chain_call_keeps_books [OF assms(1-3) Cons.prems(2) _ this]
  then have "outstanding (run_chain_call cfg ops call c) + (\<Sum>call\<leftarrow>calls. creates ops call) < 2 ^ 128"
    using Cons.prems by fastforce
  from Cons.IH [OF _ _ this] st show ?case using Cons.prems(1) by (fastforce simp: run_chain_def)
qed (simp add: run_chain_def)

section \<open>Property\<close>


text \<open>A chain on the reference store: fees by a withdrawal, airdrops without vesting.\<close>

definition withdrawn_fee :: "'e bal_config \<Rightarrow> account \<Rightarrow> balance \<Rightarrow> ('e, unit) bal" where
  "withdrawn_fee cfg who fee = and_then (withdraw cfg who fee 0 KeepAlive) (\<lambda>_. ret ())"

lemma withdrawn_fee_law: "good_balances cfg \<Longrightarrow> charge_law cfg (withdrawn_fee cfg)"
  unfolding charge_law_def
proof (intro allI impI)
  fix who fee s u s'
  assume g: "good_balances cfg" and "withdrawn_fee cfg who fee s = (Inr u, s')"
  then obtain i where w: "withdraw cfg who fee 0 KeepAlive s = (Inr i, s')" by (auto simp: withdrawn_fee_def and_then_Inr)
  show "entry cfg 0 (unat fee) 0 s s'"
  proof (rule entry_if_ok)
    assume ok: "bal_ok cfg s"
    show "entry cfg 0 (unat fee) 0 s s'"
    proof (cases "fee = 0")
      case False
      obtain a x where e: "old_account cfg s who a" "unat fee \<le> unat (free a)" "unat x = unat (free a) - unat fee"
        "mutated cfg who s (a\<lparr> free := x \<rparr>) s'"
        using withdraw_effect [OF g ok False w] by blast
      show ?thesis by (rule entry_mutated [OF e(4,1)]) (use e(2,3) in \<open>simp add: total_nat_def\<close>)
    qed (use w in \<open>simp add: withdraw_def\<close>)
  qed
qed

lemma moving_books:
  assumes g: "good_balances cfg"
  shows "fungible_books cfg (moving_runtime cfg)"
proof -
  have "entry cfg 0 0 0 s s'" if t: "transfer_funds cfg a b v p s = (Inr w, s')" for a b v p s w s'
  proof (cases "a = b")
    case True
    then show ?thesis using t by (simp add: transfer_funds_def split: if_splits)
  next
    case False
    then obtain n s1 where d: "decrease_balance cfg a v p Polite s = (Inr n, s1)" "increase_balance cfg b n BestEffort s1 = (Inr w, s')"
      using t by (auto simp: transfer_funds_def and_then_Inr split: if_splits)
    note e = entry_decrease_balance [OF g d(1)]
    then show ?thesis using entry_then [OF conjunct2 [OF e] entry_increase_balance [OF g d(2)]] by simp
  qed
  then show ?thesis by (simp add: fungible_books_def moving_runtime_def)
qed

definition sample_chain_ops ::
    "(ref_store, account, hash256 \<Rightarrow> bool, unit, account runtime_call, bytes, u64) chain_ops" where
  "sample_chain_ops =
     \<lparr> ops_balances = moving_runtime (ref_config 10), ops_wormhole = word_proofs, ops_rewards = sample_rewards,
       ops_faucet = sample_faucet, ops_reversible = sample_ops,
       ops_airdrop = \<lparr> MaxProofs = 100, airdrop_account = 77, UnsignedClaimPriority = 100,
         airdrop_transfer = (\<lambda>a b v r. on_balances (currency_transfer (transfer_funds (ref_config 10)) a b v r)),
         vested_transfer = (\<lambda>a b v pb t. on_balances (currency_transfer (transfer_funds (ref_config 10)) a b v AllowDeath)),
         airdrop_block = (\<lambda>_. 5), block_number_to_balance = ucast, blake_hash = (\<lambda>_. 0), encode_claim = scale_claim \<rparr>,
       ops_charge = withdrawn_fee (ref_config 10) \<rparr>"

lemma sample_chain_laws: "chain_laws (ref_config 10) sample_chain_ops"
proof -
  have g: "good_balances (ref_config 10)" by (simp add: ref_good)
  have moves: "entry (ref_config 10) 0 0 0 s s'" if "transfer_funds (ref_config 10) a b v p s = (Inr w, s')" for a b v p s w s'
    using moving_books [OF g] that unfolding fungible_books_def moving_runtime_def by simp
  have "vesting_law (ref_config 10) (ops_airdrop sample_chain_ops)"
    using moves by (auto simp: vesting_law_def sample_chain_ops_def on_balances_result currency_transfer_def and_then_Inr Let_def
        split: if_splits)
  moreover have "spares_balances named_tasks" by (auto simp: spares_balances_def named_tasks_def split: if_splits)
  ultimately show ?thesis
    using moving_books [OF g] withdrawn_fee_law [OF g] sample_methods_default [of "ref_config 10" 4]
    unfolding chain_laws_def
    by (intro conjI exI) (auto simp: sample_chain_ops_def sample_ops_def moving_runtime_def sample_rewards_def sample_faucet_def
        drop_credit_law_def fun_eq_iff)
qed


end
