(* ===== verification/NodeService.thy ===== *)
theory NodeService
  imports MiningRewards MiningLoop
begin

text \<open>
  The service of the node (\<open>node/src/service.rs\<close>) around the client and the miners: how the parts of the consensus are
  put together, which tasks run, and how the rewards address of the command line reaches the blocks; with the
  constructors and the proposing task of the proof-of-work client. Databases, network and RPC server are the
  framework's. The property follows a rewards address from the command line to the balance of its account.
\<close>

section \<open>Putting the consensus together\<close>

text \<open>\<open>PowBlockImport::new\<close>, over what belongs to the database and the runtime (\<open>base\<close>).\<close>

definition new_pow_block_import ::
    "('x, 'h, 'd, 'b, 'i, 'n) import_ops \<Rightarrow> u32 \<Rightarrow> ('x \<Rightarrow> string + 'h pow_header) \<Rightarrow> ('x \<Rightarrow> hash256 \<Rightarrow> string + 'i)
      \<Rightarrow> ('x, 'h, 'd, 'b, 'i, 'n) import_ops" where
  "new_pow_block_import base inherents_after select_chain create_providers =
     base\<lparr> check_inherents_after := inherents_after, best_chain_header := select_chain,
       inherent_providers := create_providers \<rparr>"

text \<open>The provider takes the time of the system.\<close>

definition build_inherent_data_providers :: "('x \<Rightarrow> u64) \<Rightarrow> 'x \<Rightarrow> hash256 \<Rightarrow> string + u64" where
  "build_inherent_data_providers system_time x parent = Inr (system_time x)"

text \<open>\<open>LoggingBlockImport\<close> hands everything on.\<close>

definition logging_import_block :: "('p \<Rightarrow> ('x, 'e, 'r) comp) \<Rightarrow> 'p \<Rightarrow> ('x, 'e, 'r) comp" where
  "logging_import_block inner block = inner block"

definition logging_check_block :: "('c \<Rightarrow> ('x, 'e, 'r) comp) \<Rightarrow> 'c \<Rightarrow> ('x, 'e, 'r) comp" where
  "logging_check_block inner block = inner block"

text \<open>The import queue: a verifier with the algorithm, in front of the block import.\<close>

record ('x, 'h, 'd, 'b) import_queue =
  queue_verify :: "'x \<Rightarrow> ('h, 'd, 'b) block_params \<Rightarrow> pow_client_error + ('h, 'd, 'b) block_params"
  queue_import :: "('h, 'd, 'b) block_params \<Rightarrow> ('x, unit) imp"

definition new_import_queue ::
    "('x, 'h, 'd, 'b, 'i, 'n) import_ops \<Rightarrow> (('h, 'd, 'b) block_params \<Rightarrow> ('x, unit) imp) \<Rightarrow> ('x, 'd) pow_algorithm
      \<Rightarrow> ('x, 'h, 'd, 'b) import_queue" where
  "new_import_queue ops block_import algorithm =
     \<lparr> queue_verify = verify_block ops algorithm, queue_import = block_import \<rparr>"

record ('x, 'h, 'b, 'n) node_parts =
  np_algorithm :: "('x, u512) pow_algorithm"
  np_import :: "('x, 'h, u512, 'b, u64, 'n) import_ops"
  np_queue :: "('x, 'h, u512, 'b) import_queue"

definition new_partial ::
    "'x client_ops \<Rightarrow> ('x, 'h, u512, 'b, u64, 'n) import_ops \<Rightarrow> ('x \<Rightarrow> string + 'h pow_header) \<Rightarrow> ('x \<Rightarrow> u64)
      \<Rightarrow> ('x, 'h, 'b, 'n) node_parts" where
  "new_partial cl base select_chain system_time =
     (let pow_algorithm = qpow_algorithm cl;
          ops = new_pow_block_import base 0 select_chain (build_inherent_data_providers system_time)
      in \<lparr> np_algorithm = pow_algorithm, np_import = ops,
           np_queue = new_import_queue ops (logging_import_block (import_block ops pow_algorithm)) pow_algorithm \<rparr>)"

section \<open>Tasks\<close>

record node_config =
  telemetry_endpoints :: "(string \<times> nat) list option"
  offchain_worker_enabled :: bool
  role_is_authority :: bool

datatype node_task = Task_Telemetry | Task_Offchain_Workers | Task_Pow | Task_Monitoring_Qpow
  | Task_Chain_Finalization | Task_Qpow_Mining | Task_Tx_Logger

text \<open>What \<open>new_partial\<close> and \<open>new_full\<close> spawn, beside the tasks of the framework, in this order.\<close>

definition partial_tasks :: "node_config \<Rightarrow> node_task list" where
  "partial_tasks config =
     (case telemetry_endpoints config of
        Some endpoints \<Rightarrow> if endpoints = [] then [] else [Task_Telemetry] | None \<Rightarrow> [])"

definition offchain_tasks :: "node_config \<Rightarrow> node_task list" where
  "offchain_tasks config = (if offchain_worker_enabled config then [Task_Offchain_Workers] else [])"

definition authority_tasks :: "node_config \<Rightarrow> node_task list" where
  "authority_tasks config =
     (if role_is_authority config
      then [Task_Pow, Task_Monitoring_Qpow, Task_Chain_Finalization, Task_Qpow_Mining, Task_Tx_Logger] else [])"

definition full_tasks :: "node_config \<Rightarrow> node_task list" where
  "full_tasks config = partial_tasks config @ offchain_tasks config @ authority_tasks config"

section \<open>The rewards address and the proposing task\<close>

text \<open>An address that cannot be read counts as none.\<close>

definition encoded_miner ::
    "(string \<Rightarrow> account option) \<Rightarrow> (account \<Rightarrow> bytes) \<Rightarrow> string option \<Rightarrow> bytes option" where
  "encoded_miner parse encode rewards_address =
     (case rewards_address of
        Some addr_str \<Rightarrow> (case parse addr_str of Some account \<Rightarrow> Some (encode account) | None \<Rightarrow> None)
      | None \<Rightarrow> None)"

definition new_timer :: "nat \<Rightarrow> bool \<Rightarrow> import_timer" where
  "new_timer pending closed = \<lparr> timer_pending = pending, timer_closed = closed, timer_delay = None \<rparr>"

text \<open>One poll of the proposing task: nothing when the timer is pending, the end when the notifications have ended,
  a round when it fires.\<close>

definition worker_poll ::
    "('x, 'h, 'd, 'b, 'i, 'n, 'p) propose_ops \<Rightarrow> ('x, 'h, 'd, 'b, 'i, 'n) import_ops \<Rightarrow> ('x, 'd) pow_algorithm
      \<Rightarrow> bytes option \<Rightarrow> nat \<Rightarrow> nat \<Rightarrow> 'x \<Rightarrow> import_timer \<times> ('h, 'd, 'b) mining_handle
      \<Rightarrow> bool \<times> import_timer \<times> ('h, 'd, 'b) mining_handle" where
  "worker_poll pr ops alg pre now timeout x tw =
     (case tw of (timer, w) \<Rightarrow>
       (case poll_next now timeout timer of
          (Ready_None, timer') \<Rightarrow> (False, timer', w)
        | (Pending, timer') \<Rightarrow> (True, timer', w)
        | (Ready_Fire, timer') \<Rightarrow> (True, timer', mining_round pr ops alg pre x w)))"

text \<open>The mining handle in a running node: the proposing task works on it, and the mining task takes builds from it.\<close>

inductive worker_runs ::
    "('x, 'h, 'd, 'b, 'i, 'n, 'p) propose_ops \<Rightarrow> ('x, 'h, 'd, 'b, 'i, 'n) import_ops \<Rightarrow> ('x, 'd) pow_algorithm
      \<Rightarrow> bytes option \<Rightarrow> import_timer \<Rightarrow> ('h, 'd, 'b) mining_handle \<Rightarrow> bool"
  for pr ops alg pre where
  start_mining_worker: "worker_runs pr ops alg pre (new_timer 0 False) new_handle"
| notified: "worker_runs pr ops alg pre t w \<Longrightarrow>
    worker_runs pr ops alg pre (t\<lparr> timer_pending := timer_pending t + n, timer_closed := c \<rparr>) w"
| polled: "worker_runs pr ops alg pre t w \<Longrightarrow> worker_poll pr ops alg pre now timeout x (t, w) = (go_on, t', w') \<Longrightarrow>
    worker_runs pr ops alg pre t' w'"
| taken: "worker_runs pr ops alg pre t w \<Longrightarrow> worker_runs pr ops alg pre t (snd (take_build w))"

section \<open>From the address to the balance\<close>

text \<open>What is documented of the framework: a proposed block carries the given items of the engine and no others,
  and an encoded account decodes to itself.\<close>

definition proposer_law ::
    "('x, 'h, 'd, 'b, 'i, 'n, 'p) propose_ops \<Rightarrow> ('x, 'h, 'd, 'b, 'i, 'n) import_ops \<Rightarrow> bool" where
  "proposer_law pr ops \<longleftrightarrow>
     (\<forall>p dat digest header body. propose pr p dat digest = Inr (header, body) \<longrightarrow>
        engine_items (pow_engine ops) (h_logs header) = engine_items (pow_engine ops) digest)"

definition account_codec_law :: "'e reward_ops \<Rightarrow> (account \<Rightarrow> bytes) \<Rightarrow> bool" where
  "account_codec_law rops encode \<longleftrightarrow> (\<forall>a. account_decode rops (encode a) = Some a)"

definition offers :: "('x, 'h, 'd, 'b, 'i, 'n) import_ops \<Rightarrow> bytes option \<Rightarrow> ('h, 'd, 'b) mining_build \<Rightarrow> bool" where
  "offers ops pre b \<longleftrightarrow> pre_runtime (build_metadata b) = pre \<and>
     pre_hash (build_metadata b) = hash_header ops (build_header b) \<and>
     engine_items (pow_engine ops) (h_logs (build_header b)) = (case pre of None \<Rightarrow> [] | Some v \<Rightarrow> [v])"

lemma propose_build_offers:
  assumes "proposer_law pr ops" "propose_build pr ops alg pre x best = Some b"
  shows "offers ops pre b"
proof -
  let ?d = "case pre of None \<Rightarrow> [] | Some v \<Rightarrow> [PreRuntime (pow_engine ops) v]"
  obtain p dat header body where pr: "propose pr p dat ?d = Inr (header, body)"
    and b: "build_header b = header" "pre_runtime (build_metadata b) = pre" "pre_hash (build_metadata b) = hash_header ops header"
    using assms(2) by (auto simp: propose_build_def Let_def split: sum.splits prod.splits)
  have "engine_items (pow_engine ops) ?d = (case pre of None \<Rightarrow> [] | Some v \<Rightarrow> [v])"
    by (simp add: engine_items_def split: option.split)
  moreover have "engine_items (pow_engine ops) (h_logs header) = engine_items (pow_engine ops) ?d"
    using assms(1) pr unfolding proposer_law_def by blast
  ultimately show ?thesis using b by (simp add: offers_def)
qed

lemma mining_round_offers:
  assumes "proposer_law pr ops" "\<forall>b. handle_build w = Some b \<longrightarrow> offers ops pre b"
  shows "\<forall>b. handle_build (mining_round pr ops alg pre x w) = Some b \<longrightarrow> offers ops pre b"
  using assms(2) propose_build_offers [OF assms(1)]
  by (auto simp: mining_round_def on_major_syncing_def on_build_def increment_version_def split: sum.splits option.splits)

lemma worker_runs_offers:
  assumes "proposer_law pr ops" "worker_runs pr ops alg pre t w"
  shows "\<forall>b. handle_build w = Some b \<longrightarrow> offers ops pre b"
  using assms(2)
proof induction
  case (polled t w now timeout x go_on t' w')
  then show ?case using mining_round_offers [OF assms(1)] by (auto simp: worker_poll_def split: prod.splits poll.splits)
qed (auto simp: new_handle_def take_build_def increment_version_def split: option.splits)

text \<open>The miner of a block is the first item of the engine that decodes.\<close>

fun first_decoded :: "('a \<Rightarrow> 'c option) \<Rightarrow> 'a list \<Rightarrow> 'c option" where
  "first_decoded f [] = None"
| "first_decoded f (v # vs) = (case f v of Some y \<Rightarrow> Some y | None \<Rightarrow> first_decoded f vs)"

lemma extract_miner_first:
  "extract_miner_from_digest rops logs = first_decoded (account_decode rops) (engine_items (POW_ENGINE_ID rops) logs)"
  by (induction rops logs rule: extract_miner_from_digest.induct) (auto simp: engine_items_def split: option.split)

lemma handled_errors:
  "handle_inherent_errors ops providers errors = Inr u \<longleftrightarrow>
     (\<forall>(identifier, err)\<in>set errors. \<exists>v. try_handle_error ops providers identifier err = Some (Inr v))"
  by (induction ops providers errors rule: handle_inherent_errors.induct) (auto split: option.splits sum.splits)

text \<open>The import queue of the node checks the inherents of every block it executes, from the first one on: the runtime
  has accepted them against the time of the system, or the provider has taken care of each error.\<close>

lemma partial_checks_inherents:
  assumes "np = new_partial cl base select_chain system_time" and "bp_body block = Some body"
    and "\<not> skip_execution_checks base (bp_state_action block)" and "queue_import (np_queue np) block x = (Inr u, x')"
  shows "\<exists>dat ok errors. inherent_data base (system_time x) = Inr dat \<and>
    runtime_check_inherents base x (h_parent (bp_header block)) (bp_header block) body dat = Inr (ok, errors) \<and>
    (ok \<or> (\<forall>(identifier, err)\<in>set errors. \<exists>v. try_handle_error base (system_time x) identifier err = Some (Inr v)))"
proof -
  let ?ops = "new_pow_block_import base 0 select_chain (build_inherent_data_providers system_time)"
  have "import_block ?ops (qpow_algorithm cl) block x = (Inr u, x')"
    using assms(1,4) by (simp add: new_partial_def Let_def new_import_queue_def logging_import_block_def)
  then have "inherents_step ?ops x block = Inr ()"
    by (rule import_block_effect)
  moreover have f: "inherent_data ?ops = inherent_data base" "runtime_check_inherents ?ops = runtime_check_inherents base"
    "check_inherents_after ?ops = 0" "try_handle_error ?ops = try_handle_error base"
    "skip_execution_checks ?ops = skip_execution_checks base" "inherent_providers ?ops x p = Inr (system_time x)" for p
    by (simp_all add: new_pow_block_import_def build_inherent_data_providers_def)
  ultimately have c: "check_inherents ?ops x (bp_header block) body (h_parent (bp_header block)) (system_time x) = Inr ()"
    using assms(2,3) by (simp add: inherents_step_def)
  obtain dat where d: "inherent_data base (system_time x) = Inr dat"
    using c unfolding check_inherents_def f by (cases "inherent_data base (system_time x)") simp_all
  moreover obtain ok errors where "runtime_check_inherents base x (h_parent (bp_header block)) (bp_header block) body dat = Inr (ok, errors)"
    using c unfolding check_inherents_def f
    by (cases "runtime_check_inherents base x (h_parent (bp_header block)) (bp_header block) body dat") (auto simp: d)
  moreover from this have "ok \<or> handle_inherent_errors ?ops (system_time x) errors = Inr ()"
    using c unfolding check_inherents_def f by (simp add: d split: if_splits)
  ultimately show ?thesis unfolding handled_errors f by blast
qed

section \<open>Property\<close>

text \<open>C9: The rewards of a node go to the account of its rewards address. Whatever the proposing task and the mining task
  have done, every build on offer passes the block import's check for one item of the engine, carries the encoded
  account of the address the node was started with, and has the metadata of its own header; when such a block
  is finalized, the miner of its digest is that account, which gets the base reward and all collected
  fees unless it cannot be credited, and nobody else's balance changes. Without an address, or with one that cannot
  be read, the block names no miner, nothing is paid, and the fees wait.\<close>

theorem rewards_reach_configured_account:
  assumes "proposer_law pr ops" and "account_codec_law rops encode" and "POW_ENGINE_ID rops = pow_engine ops"
    and "resolve_creating rops = resolve_by_deposit cfg"
    and "worker_runs pr ops alg (encoded_miner parse encode rewards_address) t w" and "handle_build w = Some b"
    and "ready_to_mint cfg (reward_balances s)"
    and "issuance (reward_balances s) + unat (BlockReward rops) + unat (CollectedFees s) < 2 ^ 128"
    and "s' = rewards_on_finalize rops (h_logs (build_header b)) n s"
  shows "find_pre_digest (pow_engine ops) (h_logs (build_header b)) None = Inr (encoded_miner parse encode rewards_address) \<and>
    pre_runtime (build_metadata b) = encoded_miner parse encode rewards_address \<and>
    pre_hash (build_metadata b) = hash_header ops (build_header b) \<and>
    (case Option.bind rewards_address parse of
       None \<Rightarrow> s' = s
     | Some account \<Rightarrow>
         extract_miner_from_digest rops (h_logs (build_header b)) = Some account \<and> CollectedFees s' = 0 \<and>
         funds_of cfg (reward_balances s') = (funds_of cfg (reward_balances s))(account :=
           funds_of cfg (reward_balances s) account +
             (if creditable_to cfg (reward_balances s) account (sat_add (BlockReward rops) (CollectedFees s))
              then unat (BlockReward rops) + unat (CollectedFees s) else 0)))"
proof -
  let ?pre = "encoded_miner parse encode rewards_address"
  let ?logs = "h_logs (build_header b)"
  have o: "offers ops ?pre b" using worker_runs_offers [OF assms(1,5)] assms(6) by blast
  then have items: "engine_items (pow_engine ops) ?logs = (case ?pre of None \<Rightarrow> [] | Some v \<Rightarrow> [v])" by (simp add: offers_def)
  have found: "find_pre_digest (pow_engine ops) ?logs None = Inr ?pre"
    by (simp add: find_pre_digest_result items split: option.split)
  have miner: "extract_miner_from_digest rops ?logs = Option.bind rewards_address parse"
    unfolding extract_miner_first assms(3) items
    using assms(2) by (auto simp: encoded_miner_def account_codec_law_def split: option.split)
  have paid: "case Option.bind rewards_address parse of
      None \<Rightarrow> s' = s
    | Some account \<Rightarrow> CollectedFees s' = 0 \<and>
        funds_of cfg (reward_balances s') = (funds_of cfg (reward_balances s))(account :=
          funds_of cfg (reward_balances s) account +
            (if creditable_to cfg (reward_balances s) account (sat_add (BlockReward rops) (CollectedFees s))
             then unat (BlockReward rops) + unat (CollectedFees s) else 0))"
  proof (cases "Option.bind rewards_address parse")
    case None
    then show ?thesis using miner assms(9) by (simp add: rewards_on_finalize_def)
  next
    case (Some account)
    let ?v = "sat_add (BlockReward rops) (CollectedFees s)"
    have v: "unat ?v = unat (BlockReward rops) + unat (CollectedFees s)" using assms(8) by (simp add: mach_nat)
    have lt: "issuance (reward_balances s) + unat ?v < 2 ^ 128" using assms(8) v by simp
    have "reward_balances s' = issue_mint (resolve_by_deposit cfg) account ?v (reward_balances s)" "CollectedFees s' = 0"
      using rewards_on_finalize_mints [OF _ assms(4), of ?logs account n s] miner Some assms(9) by (simp_all add: reward_event_def)
    then show ?thesis
      using issue_mint_minted [OF assms(7) lt, of account] v Some by (auto simp: minted_def fun_eq_iff)
  qed
  show ?thesis
    using o found miner paid by (simp add: offers_def split: option.splits)
qed

text \<open>A node started with the address ``two'', with encoded accounts of 32 bytes; its proposing task fires once.\<close>

definition toy_proposer :: "(toy_pow, unit, nat, unit, unit, unit, unit) propose_ops" where
  "toy_proposer = \<lparr> is_major_syncing = (\<lambda>_. False), pr_best_chain = best_chain_header toy_import,
     pr_providers = (\<lambda>_ _. Inr ()), pr_inherent_data = (\<lambda>_. Inr ()), init_proposer = (\<lambda>_ _. Inr ()),
     propose = (\<lambda>_ _ digest. Inr (\<lparr> h_parent = 0, h_number = 1, h_logs = digest, h_rest = () \<rparr>, ())) \<rparr>"

definition thirty_two_bytes :: "ref_store reward_ops" where
  "thirty_two_bytes = sample_rewards\<lparr> POW_ENGINE_ID := [1],
     account_decode := (\<lambda>bs. if length bs = 32 then Some (from_be bs) else None) \<rparr>"

definition read_two :: "string \<Rightarrow> account option" where
  "read_two addr_str = (if addr_str = ''two'' then Some 2 else None)"

definition one_fee :: "ref_store reward_state" where
  "one_fee = \<lparr> CollectedFees = 4, reward_balances = two_accounts (funded 100 20 1) (funded 50 0 0), reward_events = [] \<rparr>"

theorem rewards_reach_configured_account_witness:
  "\<exists>b. handle_build (mining_round toy_proposer toy_import toy_alg (Some (to_be 32 (2 :: account))) [] new_handle) = Some b \<and>
     funds_of (ref_config 10) (reward_balances (rewards_on_finalize thirty_two_bytes (h_logs (build_header b)) 1 one_fee)) 2 = 84"
proof -
  let ?pre = "encoded_miner read_two (to_be 32) (Some ''two'')"
  have pre: "?pre = Some (to_be 32 (2 :: account))" by (simp add: encoded_miner_def read_two_def)
  let ?w = "mining_round toy_proposer toy_import toy_alg ?pre [] new_handle"
  obtain b where b: "handle_build ?w = Some b"
    by (simp add: mining_round_def toy_proposer_def toy_import_def propose_build_def Let_def toy_alg_def new_handle_def
        handle_best_hash_def on_build_def increment_version_def)
  have 1: "proposer_law toy_proposer toy_import" by (simp add: proposer_law_def toy_proposer_def)
  have 2: "account_codec_law thirty_two_bytes (to_be 32)"
    by (simp add: account_codec_law_def thirty_two_bytes_def from_be_to_be)
  have 3: "POW_ENGINE_ID thirty_two_bytes = pow_engine toy_import" "resolve_creating thirty_two_bytes = resolve_by_deposit (ref_config 10)"
    by (simp_all add: thirty_two_bytes_def toy_import_def sample_rewards_def)
  have "worker_runs toy_proposer toy_import toy_alg ?pre ((new_timer 0 False)\<lparr> timer_pending := timer_pending (new_timer 0 False) + 1,
      timer_closed := False \<rparr>) new_handle"
    by (intro worker_runs.intros)
  then have "worker_runs toy_proposer toy_import toy_alg ?pre (new_timer 0 False) ?w"
    by (rule polled [where now = 0 and timeout = 10 and x = "[]" and go_on = True])
      (simp add: worker_poll_def poll_next_def new_timer_def)
  note run = rewards_reach_configured_account [OF 1 2 3 this b _ _ refl, where s = one_fee and n = 1]
  have ready: "ready_to_mint (ref_config 10) (reward_balances one_fee)" by (simp add: one_fee_def two_funded_ready)
  have lt: "issuance (reward_balances one_fee) + unat (BlockReward thirty_two_bytes) + unat (CollectedFees one_fee) < 2 ^ 128"
    by (simp add: one_fee_def issuance_def two_accounts_def funded_def thirty_two_bytes_def sample_rewards_def)
  have cr: "creditable_to (ref_config 10) (reward_balances one_fee) 2 v" for v
    by (simp add: one_fee_def creditable_to_def two_accounts_def funded_def)
  have "funds_of (ref_config 10) (reward_balances (rewards_on_finalize thirty_two_bytes (h_logs (build_header b)) 1 one_fee)) 2 = 84"
    using run [OF ready lt] cr
    by (simp add: read_two_def thirty_two_bytes_def sample_rewards_def one_fee_def funds_of_def free_balance_def two_accounts_def funded_def)
  with b pre show ?thesis by auto
qed

end
