(* ===== verification/Metrics.thy ===== *)
theory Metrics
  imports RuntimeNode
begin

text \<open>
  The metrics of the node (\<open>node/src/prometheus.rs\<close>): after each imported block the gauges are set to what the runtime
  says about it. Gauges hold 64-bit floats; the values are never negative, so a gauge is modelled by
  the natural number its float stands for. The registry and the notification stream are the framework's.
\<close>

section \<open>Floats\<close>

text \<open>A conversion to \<open>f64\<close> keeps 53 significant bits and rounds to the nearest, to even between two.\<close>

fun f64_exponent :: "nat \<Rightarrow> nat" where
  "f64_exponent n = (if n < 2 ^ 53 then 0 else Suc (f64_exponent (n div 2)))"

declare f64_exponent.simps [simp del]

definition to_f64 :: "nat \<Rightarrow> nat" where
  "to_f64 n =
     (let unit = 2 ^ f64_exponent n; q = n div unit; r = n mod unit
      in if unit < 2 * r \<or> (unit = 2 * r \<and> odd q) then (q + 1) * unit else q * unit)"

section \<open>The gauges\<close>

type_synonym gauges = "string \<Rightarrow> nat option"

definition pack_u512_to_f64 :: "u512 \<Rightarrow> nat" where
  "pack_u512_to_f64 value =
     (let bytes = to_be 64 value; highest_64_bits = from_be (take 8 bytes) :: u64
      in to_f64 (unat highest_64_bits))"

definition low_u64 :: "u512 \<Rightarrow> u64" where
  "low_u64 v = ucast v"

text \<open>What the runtime interface answers; an error counts as zero.\<close>

record metrics_view =
  mv_block_time_sum :: "string + u64"
  mv_median_block_time :: "string + u64"
  mv_distance_threshold :: "string + u512"
  mv_last_block_time :: "string + u64"
  mv_last_block_duration :: "string + u64"
  mv_chain_height :: "string + u32"
  mv_difficulty :: "string + u512"

definition or_zero :: "string + 'a::zero \<Rightarrow> 'a" where
  "or_zero r = (case r of Inl e \<Rightarrow> 0 | Inr v \<Rightarrow> v)"

definition update_qpow_metrics :: "metrics_view \<Rightarrow> gauges \<Rightarrow> gauges" where
  "update_qpow_metrics view gauge =
     gauge(''chain_height'' \<mapsto> to_f64 (unat (or_zero (mv_chain_height view))),
       ''block_time_sum'' \<mapsto> to_f64 (unat (or_zero (mv_block_time_sum view))),
       ''median_block_time'' \<mapsto> to_f64 (unat (or_zero (mv_median_block_time view))),
       ''distance_threshold'' \<mapsto> pack_u512_to_f64 (or_zero (mv_distance_threshold view)),
       ''difficulty'' \<mapsto> to_f64 (unat (low_u64 (or_zero (mv_difficulty view)))),
       ''last_block_time'' \<mapsto> to_f64 (unat (or_zero (mv_last_block_time view))),
       ''last_block_duration'' \<mapsto> to_f64 (unat (or_zero (mv_last_block_duration view))))"

text \<open>The monitoring task: for each notification, with the hash it carries, the gauges are updated when there is a
  registry.\<close>

definition start_monitoring_task ::
    "bool \<Rightarrow> ('x \<Rightarrow> h256 \<Rightarrow> metrics_view) \<Rightarrow> ('x \<times> h256) list \<Rightarrow> gauges option" where
  "start_monitoring_task registry view notifications =
     (if registry then Some (fold (\<lambda>(x, block_hash). update_qpow_metrics (view x block_hash)) notifications (\<lambda>_. None)) else None)"

section \<open>The runtime behind them\<close>

definition runtime_metrics ::
    "qpow_config \<Rightarrow> ('x \<Rightarrow> h256 \<Rightarrow> qpow_state option) \<Rightarrow> ('x \<Rightarrow> h256 \<Rightarrow> string + u32) \<Rightarrow> 'x \<Rightarrow> h256 \<Rightarrow> metrics_view" where
  "runtime_metrics cfg states block_number x h =
     \<lparr> mv_block_time_sum = at_block states x h (\<lambda>s. Some (api_block_time_sum cfg s)),
       mv_median_block_time = at_block states x h (\<lambda>s. Some (api_median_block_time cfg s)),
       mv_distance_threshold = at_block states x h (\<lambda>s. Some (api_distance_threshold cfg s)),
       mv_last_block_time = at_block states x h (\<lambda>s. Some (api_last_block_time s)),
       mv_last_block_duration = at_block states x h (\<lambda>s. Some (api_last_block_duration s)),
       mv_chain_height = block_number x h,
       mv_difficulty = at_block states x h (api_difficulty cfg) \<rparr>"

section \<open>Rounding\<close>

lemma to_f64_small: "n < 2 ^ 53 \<Longrightarrow> to_f64 n = n"
  by (simp add: to_f64_def f64_exponent.simps [of n] Let_def)

lemma f64_exponent_bound: "n < 2 ^ (53 + f64_exponent n)"
proof (induction n rule: f64_exponent.induct)
  case (1 n)
  show ?case
  proof (cases "n < 2 ^ 53")
    case True
    then show ?thesis by (simp add: f64_exponent.simps [of n])
  next
    case False
    then have "n div 2 < 2 ^ (53 + f64_exponent (n div 2))" by (rule "1.IH")
    then have "n < 2 * 2 ^ (53 + f64_exponent (n div 2))" by linarith
    then show ?thesis using False by (simp add: f64_exponent.simps [of n] power_add)
  qed
qed

lemma f64_exponent_least: "f64_exponent n \<noteq> 0 \<Longrightarrow> 2 ^ (52 + f64_exponent n) \<le> n"
proof (induction n rule: f64_exponent.induct)
  case (1 n)
  then have big: "\<not> n < 2 ^ 53" by (auto simp: f64_exponent.simps [of n])
  then have e: "f64_exponent n = Suc (f64_exponent (n div 2))" by (simp add: f64_exponent.simps [of n])
  show ?case
  proof (cases "f64_exponent (n div 2) = 0")
    case True
    then show ?thesis using big e by simp
  next
    case False
    then have "2 ^ (52 + f64_exponent (n div 2)) \<le> n div 2" using "1.IH" big by simp
    then have "2 * 2 ^ (52 + f64_exponent (n div 2)) \<le> n" by linarith
    then show ?thesis by (simp add: e power_add)
  qed
qed

text \<open>The error is at most one part in \<open>2 ^ 53\<close>.\<close>

lemma to_f64_close: "2 ^ 53 * to_f64 n \<le> (2 ^ 53 + 1) * n \<and> (2 ^ 53 - 1) * n \<le> 2 ^ 53 * to_f64 n"
proof (cases "f64_exponent n = 0")
  case True
  then have "n < 2 ^ 53" using f64_exponent_bound [of n] by simp
  then have "to_f64 n = n" by (rule to_f64_small)
  then show ?thesis by simp
next
  case False
  define u :: nat where "u = 2 ^ f64_exponent n"
  define q where "q = n div u"
  define r where "r = n mod u"
  have u: "2 ^ 52 * u \<le> n" using f64_exponent_least [OF False] by (simp add: u_def power_add)
  have n: "n = q * u + r" by (simp add: q_def r_def)
  have "r < u" by (simp add: r_def u_def)
  have f: "to_f64 n = (if u < 2 * r \<or> (u = 2 * r \<and> odd q) then q * u + u else q * u)"
    by (simp add: to_f64_def Let_def u_def q_def r_def)
  have up: "2 * to_f64 n \<le> 2 * n + u" and lo: "2 * n \<le> 2 * to_f64 n + u"
    using f n \<open>r < u\<close> by (auto split: if_splits)
  have "2 ^ 53 * u \<le> 2 * n" using u by simp
  show ?thesis
  proof
    have "2 ^ 53 * (2 * to_f64 n) \<le> 2 ^ 53 * (2 * n + u)" using up by (rule mult_left_mono) simp
    then show "2 ^ 53 * to_f64 n \<le> (2 ^ 53 + 1) * n" using \<open>2 ^ 53 * u \<le> 2 * n\<close> by (simp add: algebra_simps)
    have "2 ^ 53 * (2 * n) \<le> 2 ^ 53 * (2 * to_f64 n + u)" using lo by (rule mult_left_mono) simp
    then show "(2 ^ 53 - 1) * n \<le> 2 ^ 53 * to_f64 n" using \<open>2 ^ 53 * u \<le> 2 * n\<close> by (simp add: algebra_simps)
  qed
qed

section \<open>What the gauges show\<close>

lemma be_nat_append: "be_nat (xs @ ys) = be_nat xs * 256 ^ length ys + be_nat ys"
  by (induction xs) (simp_all add: be_nat_Cons algebra_simps power_add)

lemma be_nat_take: "be_nat (take k bs) = be_nat bs div 256 ^ (length bs - k)"
proof -
  have "be_nat bs = be_nat (take k bs) * 256 ^ (length bs - k) + be_nat (drop k bs)"
    using be_nat_append [of "take k bs" "drop k bs"] by simp
  moreover have "be_nat (drop k bs) < 256 ^ (length bs - k)" using be_nat_bound [of "drop k bs"] by simp
  ultimately show ?thesis by (simp add: div_mult_self3)
qed

lemma pack_u512: "pack_u512_to_f64 v = to_f64 (unat v div 2 ^ 448)"
proof -
  have u: "unat v < 2 ^ 512" using unat_lt_max [of v] by simp
  have "(256 :: nat) ^ 64 = 2 ^ 512" "(256 :: nat) ^ 56 = 2 ^ 448"
    by simp_all
  then have "be_nat (take 8 (to_be 64 v)) = unat v div 2 ^ 448"
    using u by (simp add: be_nat_take be_nat_to_be del: power_numeral)
  moreover have "unat v div 2 ^ 448 < 2 ^ 64"
    using u by (simp only: div_less_iff_less_mult zero_less_power zero_less_numeral power_add [symmetric]) simp
  ultimately show ?thesis
    by (simp add: pack_u512_to_f64_def from_be_def Let_def unat_of_nat del: power_numeral)
qed

lemma unat_low_u64: "unat (low_u64 v) = unat v mod 2 ^ 64"
  by (simp add: low_u64_def unsigned_ucast_eq take_bit_eq_mod del: power_numeral)

lemma at_block_or_zero:
  "states x h = Some s \<Longrightarrow> or_zero (at_block states x h f) = (case f s of None \<Rightarrow> 0 | Some v \<Rightarrow> v)"
  by (simp add: at_block_def or_zero_def split: option.split)

lemma difficulty_or_zero:
  assumes "states x h = Some s" "good_config cfg"
  shows "unat (or_zero (at_block states x h (api_difficulty cfg))) = block_work cfg s"
  using get_distance_threshold_pos [OF assms(2), of s]
  by (auto simp: at_block_or_zero [where states = states and x = x and h = h and s = s, OF assms(1)] api_difficulty_def get_difficulty_def checked_div_def block_work_def unat_div)

text \<open>The metrics show the state after the last imported block, whatever was imported before: its number exactly, its
  times rounded to 53 bits, and of the work a block on top of it takes and of its threshold only a part: the
  lowest 64 bits of the one and the highest 64 of the other. So every threshold below \<open>2 ^ 448\<close> is shown as zero, and
  a difficulty from \<open>2 ^ 64\<close> on is not what the chart says. Without a registry nothing is kept.\<close>

theorem metrics_show_last_block:
  assumes "good_config cfg" and "states x h = Some s" and "block_number x h = Inr n"
    and "gauge = start_monitoring_task registry (runtime_metrics cfg states block_number) (earlier @ [(x, h)])"
  shows "if registry
    then \<exists>g. gauge = Some g \<and> g ''chain_height'' = Some (unat n) \<and>
      g ''block_time_sum'' = Some (to_f64 (unat (get_block_time_sum cfg s))) \<and>
      g ''median_block_time'' = Some (to_f64 (unat (get_median_block_time cfg s))) \<and>
      g ''last_block_time'' = Some (to_f64 (unat (LastBlockTime s))) \<and>
      g ''last_block_duration'' = Some (to_f64 (unat (LastBlockDuration s))) \<and>
      g ''difficulty'' = Some (to_f64 (block_work cfg s mod 2 ^ 64)) \<and>
      g ''distance_threshold'' = Some (to_f64 (unat (get_distance_threshold cfg s) div 2 ^ 448)) \<and>
      (unat (get_distance_threshold cfg s) < 2 ^ 448 \<longrightarrow> g ''distance_threshold'' = Some 0)
    else gauge = None"
proof -
  have n: "to_f64 (unat n) = unat n"
    by (rule to_f64_small) (use unat_lt_max [of n] in simp)
  have th: "pack_u512_to_f64 (get_distance_threshold cfg s) = to_f64 (unat (get_distance_threshold cfg s) div 2 ^ 448)"
    by (rule pack_u512)
  have z: "unat (get_distance_threshold cfg s) < 2 ^ 448 \<Longrightarrow> to_f64 (unat (get_distance_threshold cfg s) div 2 ^ 448) = 0"
    by (subst div_less) (simp_all add: to_f64_small)
  have height: "or_zero (block_number x h) = n" by (simp add: or_zero_def assms(3))
  note at = at_block_or_zero [where states = states and x = x and h = h and s = s, OF assms(2)]
  note difficulty = difficulty_or_zero [where states = states and x = x and h = h and s = s, OF assms(2,1), unfolded at]
  show ?thesis
    using assms(4) z
    by (simp add: start_monitoring_task_def update_qpow_metrics_def runtime_metrics_def at difficulty unat_low_u64 n th height api_block_time_sum_def api_median_block_time_def
        api_distance_threshold_def api_last_block_time_def api_last_block_duration_def del: power_numeral)
qed

text \<open>After the genesis of a chain whose first threshold is \<open>2 ^ 447\<close>, the gauge shows none.\<close>

theorem metrics_show_last_block_witness:
  "\<exists>g. start_monitoring_task True (runtime_metrics (runtime_qpow\<lparr> InitialDistanceThresholdExponent := 447 \<rparr>)
       (\<lambda>_ h. if h = 1 then Some (genesis_build (runtime_qpow\<lparr> InitialDistanceThresholdExponent := 447 \<rparr>) empty_qpow) else None)
       (\<lambda>_ _. Inr 0)) [((), 7), ((), 1)] = Some g \<and>
     g ''distance_threshold'' = Some 0 \<and> g ''chain_height'' = Some 0"
proof -
  let ?cfg = "runtime_qpow\<lparr> InitialDistanceThresholdExponent := 447 \<rparr>"
  let ?states = "\<lambda>(_ :: unit) h. if h = 1 then Some (genesis_build ?cfg empty_qpow) else None"
  have good: "good_config ?cfg" by (simp add: good_config_def runtime_qpow_def)
  have at: "?states () 1 = Some (genesis_build ?cfg empty_qpow)" by simp
  have "unat (get_distance_threshold ?cfg (genesis_build ?cfg empty_qpow)) < 2 ^ 448"
    by (simp add: get_distance_threshold_def genesis_build_def empty_qpow_def Let_def get_initial_distance_threshold_def
        runtime_qpow_def)
  with metrics_show_last_block [where states = ?states and x = "()" and h = 1 and block_number = "\<lambda>_ _. Inr 0" and n = 0
      and registry = True and earlier = "[((), 7)]", OF good at refl refl] show ?thesis by auto
qed

end
