(* ===== verification/NodeShell.thy ===== *)
theory NodeShell
  imports Presets
begin

text \<open>
  The shell of the node: its chain specifications (\<open>node/src/chain_spec.rs\<close>), its command line (\<open>node/src/cli.rs\<close>)
  and what a command does (\<open>node/src/command.rs\<close>). Reading and writing specifications, the runtime's code and the
  commands of the framework are parameters; of those commands the model says which parts of the node they are given.
  The property follows a chain's name from the command line to its first block.
\<close>

section \<open>Chain specifications\<close>

datatype chain_type = Development | Local | Live

record chain_spec =
  spec_code :: bytes
  spec_name :: string
  spec_id :: string
  spec_protocol_id :: string
  spec_boot_nodes :: "string list"
  spec_telemetry :: "(string \<times> nat) list option"
  spec_chain_type :: chain_type
  spec_preset :: string
  tokenDecimals :: nat
  tokenSymbol :: string

definition development_chain_spec :: "bytes option \<Rightarrow> 'k preset_ops \<Rightarrow> string + chain_spec" where
  "development_chain_spec wasm_binary ops =
     (case wasm_binary of
        None \<Rightarrow> Inl ''Quantus DevNet wasm not available''
      | Some code \<Rightarrow> Inr \<lparr> spec_code = code, spec_name = ''Quantus DevNet'', spec_id = ''dev'',
          spec_protocol_id = ''quantus-devnet'', spec_boot_nodes = [], spec_telemetry = None,
          spec_chain_type = Development, spec_preset = DEV_RUNTIME_PRESET ops, tokenDecimals = 9, tokenSymbol = ''DEV'' \<rparr>)"

definition local_chain_spec :: "bytes option \<Rightarrow> 'k preset_ops \<Rightarrow> string + chain_spec" where
  "local_chain_spec wasm_binary ops =
     (case wasm_binary of
        None \<Rightarrow> Inl ''Local Resonance wasm not available''
      | Some code \<Rightarrow> Inr \<lparr> spec_code = code, spec_name = ''Local Resonance'', spec_id = ''local_resonance'',
          spec_protocol_id = ''local-resonance'', spec_boot_nodes = [], spec_telemetry = None,
          spec_chain_type = Local, spec_preset = LOCAL_TESTNET_RUNTIME_PRESET ops, tokenDecimals = 9, tokenSymbol = ''RESL'' \<rparr>)"

definition telemetry_endpoint :: "string \<times> nat" where
  "telemetry_endpoint = (''/dns/telemetry.res.fm/tcp/443/x-parity-wss/%2Fsubmit%2F'', 0)"

definition boot_nodes :: "string list" where
  "boot_nodes =
     [''/dns/a1.t.res.fm/tcp/30201/p2p/12D3KooWGmDZ95J13cggsv56mSepAj3WiVPR3foqqh728umZrhPr'',
      ''/dns/a2.t.res.fm/tcp/30203/p2p/12D3KooWPPv8nrVEN5mjcMruDnAEdcpfppSfSbij2A7FXWNGt8JL'',
      ''/dns/a3.t.res.fm/tcp/30202/p2p/12D3KooWMpmEQmCB31Dz84YdnxL48aiSFQydEiq5MZv6VtZouXRd'']"

definition live_testnet_chain_spec :: "bytes option \<Rightarrow> string + chain_spec" where
  "live_testnet_chain_spec wasm_binary =
     (case wasm_binary of
        None \<Rightarrow> Inl ''Resonance wasm not available''
      | Some code \<Rightarrow> Inr \<lparr> spec_code = code, spec_name = ''Resonance'', spec_id = ''resonance'',
          spec_protocol_id = ''resonance'', spec_boot_nodes = boot_nodes, spec_telemetry = Some [telemetry_endpoint],
          spec_chain_type = Live, spec_preset = LIVE_TESTNET_RUNTIME_PRESET, tokenDecimals = 9, tokenSymbol = ''RES'' \<rparr>)"

text \<open>A specification is built by the node or read from JSON.\<close>

datatype 'j loaded_spec = Built_Spec chain_spec | Json_Spec 'j

record 'j spec_files =
  live_resonance_json :: "string + 'j"
  from_json_file :: "string \<Rightarrow> string + 'j"

definition load_spec ::
    "bytes option \<Rightarrow> 'k preset_ops \<Rightarrow> 'j spec_files \<Rightarrow> string \<Rightarrow> string + 'j loaded_spec" where
  "load_spec wasm_binary ops files i =
     (let built = map_sum id Built_Spec; json = map_sum id Json_Spec
      in if i = ''dev'' then built (development_chain_spec wasm_binary ops)
         else if i = ''live_resonance_local'' then built (live_testnet_chain_spec wasm_binary)
         else if i = ''live_resonance'' then json (live_resonance_json files)
         else if i = '''' \<or> i = ''local'' then built (local_chain_spec wasm_binary ops)
         else json (from_json_file files i))"

section \<open>The command line\<close>

datatype benchmark_command = Bench_Pallet | Bench_Block | Bench_Storage | Bench_Overhead | Bench_Extrinsic | Bench_Machine

datatype 'c key_subcommand =
  Key_Sc 'c
| Key_Quantus address_type "string option" "string option"

datatype 'c subcommand =
  Command_Key "'c key_subcommand"
| Build_Spec
| Check_Block
| Export_Blocks
| Export_State
| Import_Blocks
| Purge_Chain
| Revert
| Benchmark benchmark_command
| Chain_Info

record 'c cli =
  cli_subcommand :: "'c subcommand option"
  rewards_address :: "string option"
  external_miner_url :: "string option"

section \<open>Commands\<close>

text \<open>The lines the key command prints.\<close>

definition standard_lines :: "string option \<Rightarrow> string option \<Rightarrow> key_details \<Rightarrow> string list" where
  "standard_lines seed words details =
     [''Generating Quantus Standard address...'',
      if seed \<noteq> None then ''Using provided hex seed...''
      else if words \<noteq> None then ''Using provided words phrase...''
      else ''No seed or words provided. Generating a new 24-word phrase...'',
      ''XXXXXXXXXXXXXXX Quantus Account Details XXXXXXXXXXXXXXXXX''] @
     (case secret_phrase details of Some phrase \<Rightarrow> [''Secret phrase: '' @ phrase] | None \<Rightarrow> []) @
     [''Address: '' @ kd_address details, ''Seed: '' @ seed_hex details, ''Pub key: '' @ public_key_hex details,
      ''Secret key: '' @ secret_key_hex details, replicate 59 (CHR ''X'')]"

definition wormhole_lines :: "key_details \<Rightarrow> string list" where
  "wormhole_lines details =
     [''Generating wormhole address...'', ''XXXXXXXXXXXXXXX Quantus Wormhole Details XXXXXXXXXXXXXXXXX'',
      ''Address: '' @ kd_address details, ''Wormhole Address: '' @ public_key_hex details,
      ''Secret: '' @ secret_key_hex details, replicate 59 (CHR ''X'')]"

definition run_quantus_key ::
    "codec_ops \<Rightarrow> crypto_ops \<Rightarrow> key_ops \<Rightarrow> address_type \<Rightarrow> string option \<Rightarrow> string option
      \<Rightarrow> string list \<times> (string, unit) outcome" where
  "run_quantus_key cd c k scheme seed words =
     (case generate_quantus_key cd c k scheme seed words of
        Ok details \<Rightarrow>
          ((case scheme of
              Address_Standard \<Rightarrow> standard_lines seed words details
            | Address_Wormhole \<Rightarrow> wormhole_lines details), Ok ())
      | Err e \<Rightarrow> ([], Err e)
      | Panic \<Rightarrow> ([], Panic))"

text \<open>The parts of the node that a command of the framework is given.\<close>

datatype node_part = Part_Client | Part_Import_Queue | Part_Backend | Part_Task_Manager | Part_Database
  | Part_Chain_Spec | Part_Network | Part_Config

datatype network_backend = Libp2p | Litep2p
datatype blocks_pruning = Keep_All | Keep_Finalized | Keep_Some u32
datatype pruning_mode = Archive_All | Archive_Canonical | Constrained u32

record run_config =
  network_backend :: "network_backend option"
  blocks_pruning :: blocks_pruning
  state_pruning :: "pruning_mode option"

datatype 'c command_outcome =
  Key_Printed "string list" "(string, unit) outcome"
| Sc_Key 'c
| Hand_Over "node_part list"
| Command_Error string
| Node_Started network_backend run_config "string option" "string option"

definition run_benchmark :: "bool \<Rightarrow> benchmark_command \<Rightarrow> 'c command_outcome" where
  "run_benchmark runtime_benchmarks cmd =
     (case cmd of
        Bench_Pallet \<Rightarrow>
          if \<not> runtime_benchmarks
          then Command_Error (''Runtime benchmarking wasn't enabled when building the node. '' @
            ''You can enable it with `--features runtime-benchmarks`.'')
          else Hand_Over [Part_Chain_Spec]
      | Bench_Block \<Rightarrow> Hand_Over [Part_Client]
      | Bench_Storage \<Rightarrow>
          if \<not> runtime_benchmarks
          then Command_Error ''Storage benchmarking can be enabled with `--features runtime-benchmarks`.''
          else Hand_Over [Part_Config, Part_Client, Part_Backend]
      | Bench_Overhead \<Rightarrow> Hand_Over [Part_Chain_Spec, Part_Client]
      | Bench_Extrinsic \<Rightarrow> Hand_Over [Part_Client]
      | Bench_Machine \<Rightarrow> Hand_Over [Part_Config])"

text \<open>Without a command the node runs, and keeps what is final and the canonical states whatever the configuration says.
  \<open>Libp2p\<close> is the default backend of the framework, given here.\<close>

definition run_node :: "network_backend \<Rightarrow> run_config \<Rightarrow> 'c cli \<Rightarrow> 'c command_outcome" where
  "run_node default_backend config args =
     (let config' = config\<lparr> blocks_pruning := Keep_Finalized, state_pruning := Some Archive_Canonical \<rparr>
      in Node_Started (case network_backend config' of Some b \<Rightarrow> b | None \<Rightarrow> default_backend) config'
           (rewards_address args) (external_miner_url args))"

definition run_command ::
    "codec_ops \<Rightarrow> crypto_ops \<Rightarrow> key_ops \<Rightarrow> bool \<Rightarrow> network_backend \<Rightarrow> run_config \<Rightarrow> 'c cli \<Rightarrow> 'c command_outcome" where
  "run_command cd c k runtime_benchmarks default_backend config args =
     (case cli_subcommand args of
        Some (Command_Key (Key_Sc cmd)) \<Rightarrow> Sc_Key cmd
      | Some (Command_Key (Key_Quantus scheme seed words)) \<Rightarrow>
          (case run_quantus_key cd c k scheme seed words of (lines, r) \<Rightarrow> Key_Printed lines r)
      | Some Build_Spec \<Rightarrow> Hand_Over [Part_Chain_Spec, Part_Network]
      | Some Check_Block \<Rightarrow> Hand_Over [Part_Client, Part_Import_Queue, Part_Task_Manager]
      | Some Export_Blocks \<Rightarrow> Hand_Over [Part_Client, Part_Database, Part_Task_Manager]
      | Some Export_State \<Rightarrow> Hand_Over [Part_Client, Part_Chain_Spec, Part_Task_Manager]
      | Some Import_Blocks \<Rightarrow> Hand_Over [Part_Client, Part_Import_Queue, Part_Task_Manager]
      | Some Purge_Chain \<Rightarrow> Hand_Over [Part_Database]
      | Some Revert \<Rightarrow> Hand_Over [Part_Client, Part_Backend, Part_Task_Manager]
      | Some (Benchmark cmd) \<Rightarrow> run_benchmark runtime_benchmarks cmd
      | Some Chain_Info \<Rightarrow> Hand_Over [Part_Config]
      | None \<Rightarrow> run_node default_backend config args)"

section \<open>What a command shows and a name starts\<close>

lemma key_command_silent_on_error:
  "run_quantus_key cd c k scheme seed words = (lines, r) \<Longrightarrow> r \<noteq> Ok () \<Longrightarrow> lines = []"
  by (auto simp: run_quantus_key_def split: outcome.splits)

text \<open>Which chains are built, and of what.\<close>

lemma loaded_specs:
  "load_spec wasm ops files i = Inr (Built_Spec spec) \<longleftrightarrow>
     i = ''dev'' \<and> development_chain_spec wasm ops = Inr spec \<or>
     i = ''live_resonance_local'' \<and> live_testnet_chain_spec wasm = Inr spec \<or>
     (i = '''' \<or> i = ''local'') \<and> local_chain_spec wasm ops = Inr spec"
proof -
  have b: "map_sum id Built_Spec r = Inr (Built_Spec spec) \<longleftrightarrow> r = Inr spec" for r :: "string + chain_spec"
    by (cases r) simp_all
  have j: "map_sum id Json_Spec r \<noteq> Inr (Built_Spec spec)" for r
    by (cases r) simp_all
  consider "i = ''dev''" | "i = ''live_resonance_local''" | "i = ''live_resonance''" | "i = ''''" | "i = ''local''"
    | "i \<notin> {''dev'', ''live_resonance_local'', ''live_resonance'', '''', ''local''}" by blast
  then show ?thesis by cases (simp_all add: load_spec_def b j)
qed

lemma built_specs:
  assumes "load_spec wasm ops files i = Inr (Built_Spec spec)"
  shows "wasm = Some (spec_code spec)" "spec_preset spec \<in> set (preset_names ops)"
    "i \<in> {''dev'', ''live_resonance_local'', '''', ''local''}"
proof -
  have d: "development_chain_spec wasm ops = Inr spec \<Longrightarrow> wasm = Some (spec_code spec) \<and> spec_preset spec = DEV_RUNTIME_PRESET ops"
    by (auto simp: development_chain_spec_def split: option.splits)
  have l: "local_chain_spec wasm ops = Inr spec \<Longrightarrow> wasm = Some (spec_code spec) \<and> spec_preset spec = LOCAL_TESTNET_RUNTIME_PRESET ops"
    by (auto simp: local_chain_spec_def split: option.splits)
  have t: "live_testnet_chain_spec wasm = Inr spec \<Longrightarrow> wasm = Some (spec_code spec) \<and> spec_preset spec = LIVE_TESTNET_RUNTIME_PRESET"
    by (auto simp: live_testnet_chain_spec_def split: option.splits)
  show "wasm = Some (spec_code spec)" "spec_preset spec \<in> set (preset_names ops)"
    using assms d l t unfolding loaded_specs preset_names_def by (metis list.set_intros)+
  show "i \<in> {''dev'', ''live_resonance_local'', '''', ''local''}"
    using assms unfolding loaded_specs by blast
qed

lemma specs_need_code:
  assumes "i \<in> {''dev'', ''live_resonance_local'', '''', ''local''}"
  shows "\<exists>e. load_spec None ops files i = Inl e"
proof -
  have "i \<noteq> ''live_resonance''" using assms by auto
  then show ?thesis using assms
    by (simp add: load_spec_def Let_def development_chain_spec_def local_chain_spec_def live_testnet_chain_spec_def) blast
qed

text \<open>Every chain the node builds itself can be started. With the runtime's code each of the four names gives a
  specification with that code, whose preset the runtime has: the runtime gives a configuration for it or panics
  on an address it cannot read, but never refuses it; and of a configuration with different accounts the genesis is
  built, with \<open>2 ^ 60\<close> for each of them. Without the code they are errors; every other name is read from
  JSON.\<close>

theorem named_chains_start:
  assumes "good_balances (runtime_balances y drop_dust fr hr)" and "put_total y" and "cfg = runtime_balances y drop_dust fr hr"
    and "bal_ok cfg s" and "\<forall>a. account_of cfg s a = default_account"
    and "load_spec (Some code) ops files i = Inr (Built_Spec spec)"
  shows "i \<in> {''dev'', ''live_resonance_local'', '''', ''local''} \<and> spec_code spec = code \<and>
    get_preset c k ops (spec_preset spec) \<noteq> Err () \<and>
    (\<forall>config. get_preset c k ops (spec_preset spec) = Ok config \<longrightarrow> distinct (map fst (gc_balances config)) \<longrightarrow>
       length (gc_balances config) < 2 ^ 60 \<longrightarrow>
       (\<exists>s'. balances_genesis_build cfg (gc_balances config) s = (Inr (), s') \<and> ready_to_mint cfg s' \<and>
          (\<forall>b. funds_of cfg s' b = (if b \<in> fst ` set (gc_balances config) then 2 ^ 60 else 0)))) \<and>
    (\<exists>e. load_spec None ops files i = Inl e)"
proof (intro conjI allI impI)
  have b: "Some code = Some (spec_code spec)" "spec_preset spec \<in> set (preset_names ops)"
    "i \<in> {''dev'', ''live_resonance_local'', '''', ''local''}"
    using built_specs [OF assms(6)] by simp_all
  show "i \<in> {''dev'', ''live_resonance_local'', '''', ''local''}" by (rule b(3))
  show "spec_code spec = code" using b(1) by simp
  show "get_preset c k ops (spec_preset spec) \<noteq> Err ()"
    using b(2) by (auto simp: get_preset_def preset_names_def Let_def split: option.splits)
  show "\<exists>e. load_spec None ops files i = Inl e"
    using specs_need_code [OF b(3)] .
  fix config
  assume p: "get_preset c k ops (spec_preset spec) = Ok config" and d: "distinct (map fst (gc_balances config))"
    and l: "length (gc_balances config) < 2 ^ 60"
  from l have l': "length (map fst (gc_balances config)) < 2 ^ 60" by simp
  from presets_start_chain [OF assms(1-5) p refl d l']
  show "\<exists>s'. balances_genesis_build cfg (gc_balances config) s = (Inr (), s') \<and> ready_to_mint cfg s' \<and>
      (\<forall>b. funds_of cfg s' b = (if b \<in> fst ` set (gc_balances config) then 2 ^ 60 else 0))"
    by (metis list.set_map)
qed

end
