(* ===== verification/BalancesHooks.thy ===== *)
theory BalancesHooks
  imports Escrow RuntimeConfig
begin

text \<open>
  The hooks of the balances pallet: the checks of its configuration and of its storage (\<open>integrity_test\<close> and
  \<open>try_state\<close> of \<open>pallets/balances/src/lib.rs\<close>), the events that the framework's token methods ask for
  (\<open>impl_fungible.rs\<close>), the remaining operations on imbalances (\<open>impl_currency.rs\<close>), the cleaner of dust
  (\<open>types.rs\<close>), the upgrades (\<open>migration.rs\<close>) and the getters.
\<close>

section \<open>Checks\<close>

text \<open>\<open>integrity_test\<close> panics when this is false; the number of freeze reasons comes from the macros.\<close>

definition balances_integrity_test :: "'e bal_config \<Rightarrow> u32 \<Rightarrow> bool" where
  "balances_integrity_test cfg freeze_reasons \<longleftrightarrow> ExistentialDeposit cfg \<noteq> 0 \<and> freeze_reasons \<le> MaxFreezes cfg"

text \<open>\<open>try_state\<close>, with the accounts that have an entry in the two maps.\<close>

definition try_state :: "'e bal_config \<Rightarrow> u32 \<Rightarrow> account list \<Rightarrow> account list \<Rightarrow> 'e bal_state \<Rightarrow> string + unit" where
  "try_state cfg hold_reasons hold_keys freeze_keys s =
     (if list_ex (\<lambda>k. unat hold_reasons < length (Holds s k)) hold_keys
      then Inl ''Found `Hold` with too many elements''
      else if list_ex (\<lambda>k. unat (MaxFreezes cfg) < length (Freezes s k)) freeze_keys
      then Inl ''Found `Freeze` with too many elements''
      else Inr ())"

section \<open>Events of the token traits\<close>

definition done_mint_into :: "account \<Rightarrow> balance \<Rightarrow> 'e bal_state \<Rightarrow> 'e bal_state" where
  "done_mint_into who amount = deposit_event (B_Minted who amount)"

definition done_burn_from :: "account \<Rightarrow> balance \<Rightarrow> 'e bal_state \<Rightarrow> 'e bal_state" where
  "done_burn_from who amount = deposit_event (B_Burned who amount)"

definition done_shelve :: "account \<Rightarrow> balance \<Rightarrow> 'e bal_state \<Rightarrow> 'e bal_state" where
  "done_shelve who amount = deposit_event (B_Suspended who amount)"

definition done_restore :: "account \<Rightarrow> balance \<Rightarrow> 'e bal_state \<Rightarrow> 'e bal_state" where
  "done_restore who amount = deposit_event (B_Restored who amount)"

definition done_transfer :: "account \<Rightarrow> account \<Rightarrow> balance \<Rightarrow> 'e bal_state \<Rightarrow> 'e bal_state" where
  "done_transfer source dest amount = deposit_event (B_Transfer source dest amount)"

definition done_deposit :: "account \<Rightarrow> balance \<Rightarrow> 'e bal_state \<Rightarrow> 'e bal_state" where
  "done_deposit who amount = deposit_event (B_Deposit who amount)"

definition done_withdraw :: "account \<Rightarrow> balance \<Rightarrow> 'e bal_state \<Rightarrow> 'e bal_state" where
  "done_withdraw who amount = deposit_event (B_Withdraw who amount)"

definition done_issue :: "balance \<Rightarrow> 'e bal_state \<Rightarrow> 'e bal_state" where
  "done_issue amount = (if amount \<noteq> 0 then deposit_event (B_Issued amount) else (\<lambda>s. s))"

definition done_rescind :: "balance \<Rightarrow> 'e bal_state \<Rightarrow> 'e bal_state" where
  "done_rescind amount = deposit_event (B_Rescinded amount)"

text \<open>\<open>AccountTouch\<close>: accounts need no deposit and no touch.\<close>

definition deposit_required :: balance where "deposit_required = 0"
definition should_touch :: "account \<Rightarrow> bool" where "should_touch who = False"
definition touch :: "account \<Rightarrow> account \<Rightarrow> ('e, unit) bal" where "touch who depositor = ret ()"

section \<open>Imbalances, dust and upgrades\<close>

definition pos_subsume :: "positive_imbalance \<Rightarrow> positive_imbalance \<Rightarrow> positive_imbalance" where
  "pos_subsume i other = PositiveImbalance (sat_add (pos_peek i) (pos_peek other))"

definition neg_subsume :: "negative_imbalance \<Rightarrow> negative_imbalance \<Rightarrow> negative_imbalance" where
  "neg_subsume i other = NegativeImbalance (sat_add (neg_peek i) (neg_peek other))"

definition pos_try_merge ::
    "positive_imbalance \<Rightarrow> positive_imbalance \<Rightarrow> positive_imbalance \<times> positive_imbalance + positive_imbalance" where
  "pos_try_merge i other = Inr (pos_merge i other)"

definition neg_try_merge ::
    "negative_imbalance \<Rightarrow> negative_imbalance \<Rightarrow> negative_imbalance \<times> negative_imbalance + negative_imbalance" where
  "neg_try_merge i other = Inr (neg_merge i other)"

definition pos_try_drop :: "positive_imbalance \<Rightarrow> positive_imbalance + unit" where
  "pos_try_drop i = pos_drop_zero i"

definition neg_try_drop :: "negative_imbalance \<Rightarrow> negative_imbalance + unit" where
  "neg_try_drop i = neg_drop_zero i"

text \<open>A cleaner that is dropped with dust in it reports the dust and hands it over.\<close>

definition drop_dust_cleaner :: "'e bal_config \<Rightarrow> (account \<times> balance) option \<Rightarrow> 'e bal_state \<Rightarrow> 'e bal_state" where
  "drop_dust_cleaner cfg cleaner s =
     (case cleaner of
        Some (who, dust) \<Rightarrow> DustRemoval cfg dust (deposit_event (B_DustLost who dust) s)
      | None \<Rightarrow> s)"

definition migrate_to_track_inactive :: "'e bal_config \<Rightarrow> account \<Rightarrow> u16 \<times> 'e bal_state \<Rightarrow> u16 \<times> 'e bal_state" where
  "migrate_to_track_inactive cfg who = migrate_v0_to_v1 cfg [who]"

definition migrate_many_to_track_inactive ::
    "'e bal_config \<Rightarrow> account list \<Rightarrow> u16 \<times> 'e bal_state \<Rightarrow> u16 \<times> 'e bal_state" where
  "migrate_many_to_track_inactive cfg who = migrate_v0_to_v1 cfg who"

section \<open>Getters\<close>

definition total_issuance :: "'e bal_state \<Rightarrow> balance" where "total_issuance s = TotalIssuance s"
definition inactive_issuance :: "'e bal_state \<Rightarrow> balance" where "inactive_issuance s = InactiveIssuance s"
definition locks_of :: "'e bal_state \<Rightarrow> account \<Rightarrow> balance_lock list" where "locks_of s who = Locks s who"
definition reserves_of :: "'e bal_state \<Rightarrow> account \<Rightarrow> id_amount list" where "reserves_of s who = Reserves s who"
definition minimum_balance :: "'e bal_config \<Rightarrow> balance" where "minimum_balance cfg = ExistentialDeposit cfg"
definition total_balance_on_hold :: "'e bal_config \<Rightarrow> 'e bal_state \<Rightarrow> account \<Rightarrow> balance" where
  "total_balance_on_hold cfg s who = reserved (account_of cfg s who)"

section \<open>What they guarantee\<close>

text \<open>Splitting and merging, in either way, neither makes nor loses anything.\<close>

lemma split_merge:
  "case_prod pos_merge (pos_split i amount) = i" "case_prod neg_merge (neg_split j amount) = j"
proof -
  have m: "sat_add (min v amount) (v - min v amount) = v" for v :: balance
  proof -
    have "unat (v - min v amount) = unat v - unat (min v amount)" by (rule unat_sub) simp
    then have "unat (sat_add (min v amount) (v - min v amount)) = unat v"
      using unat_lt_max [of v] by (simp add: mach_nat word_le_nat_alt)
    then show ?thesis by (simp add: word_unat_eq_iff)
  qed
  show "case_prod pos_merge (pos_split i amount) = i" by (cases i) (simp add: pos_split_def pos_merge_def Let_def m)
  show "case_prod neg_merge (neg_split j amount) = j" by (cases j) (simp add: neg_split_def neg_merge_def Let_def m)
qed

lemma runtime_passes_integrity: "balances_integrity_test (runtime_balances y drop_dust freeze_reasons hr) freeze_reasons"
  by (simp add: balances_integrity_test_def runtime_balances_def EXISTENTIAL_DEPOSIT_def MILLI_UNIT_def)

text \<open>Dust taken out by the cleaner is the event and what \<open>handle_raw_dust\<close> does.\<close>

lemma drop_dust_cleaner_handles:
  "drop_dust_cleaner cfg (Some (who, dust)) s = handle_raw_dust cfg (Some dust) (deposit_event (B_DustLost who dust) s)"
  by (simp add: drop_dust_cleaner_def handle_raw_dust_def)

section \<open>The storage stays within its bounds\<close>

definition lists_bounded :: "'e bal_config \<Rightarrow> 'e bal_state \<Rightarrow> bool" where
  "lists_bounded cfg s \<longleftrightarrow> (\<forall>a. length (Holds s a) \<le> unat (MaxHolds cfg) \<and> length (Freezes s a) \<le> unat (MaxFreezes cfg))"

definition spares_lists :: "'e bal_state \<Rightarrow> 'e bal_state \<Rightarrow> bool" where
  "spares_lists s s' \<longleftrightarrow> Holds s' = Holds s \<and> Freezes s' = Freezes s"

text \<open>The operations on holds and freezes, whatever they return, and any change of accounts, issuance and events.\<close>

inductive lists_run :: "'e bal_config \<Rightarrow> 'e bal_state \<Rightarrow> bool" for cfg where
  none: "Holds s = (\<lambda>_. []) \<Longrightarrow> Freezes s = (\<lambda>_. []) \<Longrightarrow> lists_run cfg s"
| hold: "lists_run cfg s \<Longrightarrow> lists_run cfg (snd (set_balance_on_hold cfg reason who v s))"
| freeze: "lists_run cfg s \<Longrightarrow> lists_run cfg (snd (set_freeze cfg ident who v s))"
| extend: "lists_run cfg s \<Longrightarrow> lists_run cfg (snd (extend_freeze cfg ident who v s))"
| thaw: "lists_run cfg s \<Longrightarrow> lists_run cfg (snd (thaw cfg ident who s))"
| other: "lists_run cfg s \<Longrightarrow> spares_lists s s' \<Longrightarrow> lists_run cfg s'"

lemma mutated_spares: "mutated cfg who s a s' \<Longrightarrow> spares_lists s s'"
  by (simp add: mutated_def spares_lists_def)

lemma store_only_spares: "store_only s s' \<Longrightarrow> spares_lists s s'"
  by (simp add: spares_lists_def store_only_fields)

lemma change_hold_length:
  assumes "change_hold cfg reason v holds = Inr (holds', up, delta)" "length holds \<le> unat (MaxHolds cfg)"
  shows "length holds' \<le> unat (MaxHolds cfg)"
proof -
  have "length (change_first reason f l) = length l" for f l by (induction l) simp_all
  then have "length (filter P (change_first reason f holds)) \<le> unat (MaxHolds cfg)" for P f
    using assms(2) length_filter_le [of P "change_first reason f holds"] by simp
  then show ?thesis using assms by (auto simp: change_hold_def Let_def split: if_splits)
qed

lemma put_or_push_length:
  assumes "put_or_push bound err ident f v xs = Inr ys" "length xs \<le> unat bound"
  shows "length ys \<le> unat bound"
proof -
  have "length (change_first ident f l) = length l" for l by (induction l) simp_all
  then show ?thesis using assms by (auto simp: put_or_push_def split: if_splits)
qed

text \<open>No mutation of an account touches the lists, whether it succeeds or not, as long as its closure and the dropping of its
  result do not.\<close>

named_theorems list_fields

lemma on_sys_lists [list_fields]:
  "Holds (snd (on_sys f s)) = Holds s" "Freezes (snd (on_sys f s)) = Freezes s"
  "Holds (on_sys_pure g s) = Holds s" "Freezes (on_sys_pure g s) = Freezes s"
  by (simp_all add: on_sys_def on_sys_pure_def split: sum.split)

lemma inc_consumers_if_lists [list_fields]:
  "Holds (snd (inc_consumers_if cfg who b s)) = Holds s" "Freezes (snd (inc_consumers_if cfg who b s)) = Freezes s"
  by (simp_all add: inc_consumers_if_def list_fields ret_def)

lemma drop_provider_lists [list_fields]:
  "Holds (snd (drop_provider cfg who did does s)) = Holds s" "Freezes (snd (drop_provider cfg who did does s)) = Freezes s"
  by (simp_all add: drop_provider_def list_fields split: sum.split)

lemma and_then_spares:
  assumes "spares_lists s (snd (m s))" "\<And>x s1. m s = (Inr x, s1) \<Longrightarrow> spares_lists s1 (snd (f x s1))"
  shows "spares_lists s (snd (and_then m f s))"
proof (cases "m s")
  case (Pair r s1)
  then show ?thesis using assms by (cases r) (auto simp: and_then_def spares_lists_def)
qed

lemma ensure_upgraded_spares: "spares_lists s (snd (ensure_upgraded cfg who s))"
  by (simp add: spares_lists_def ensure_upgraded_def upgrade_references_def Let_def list_fields)

lemma update_references_spares: "spares_lists s (snd (update_references cfg who dp dc a s))"
proof -
  let ?s = "if dc \<and> \<not> does_consume a
      then on_sys_pure (sys_dec_consumers (sy cfg) who)
        (if \<not> dp \<and> does_provide cfg a then on_sys_pure (sys_inc_providers (sy cfg) who) s else s)
      else (if \<not> dp \<and> does_provide cfg a then on_sys_pure (sys_inc_providers (sy cfg) who) s else s)"
  have "spares_lists ?s (snd (update_references cfg who dp dc a s))"
    unfolding update_references_def Let_def
    by (intro and_then_spares) (simp_all add: spares_lists_def list_fields ret_def)
  then show ?thesis by (auto simp: spares_lists_def list_fields split: if_splits)
qed

lemma try_mutate_spares:
  assumes f: "\<And>a new s. spares_lists s (snd (f a new s))" and d: "\<And>r s. spares_lists s (on_drop r s)"
  shows "spares_lists s (snd (try_mutate_account cfg who on_drop f s))"
proof -
  let ?s0 = "snd (ensure_upgraded cfg who s)"
  define m where "m = sys_account (sy cfg) (sys ?s0) who"
  obtain x s1 where fx: "f (data_or_default m) (m = None) ?s0 = (x, s1)" by force
  have s1: "spares_lists s s1"
    using f [of ?s0 "data_or_default m" "m = None"] ensure_upgraded_spares [of s cfg who] by (simp add: spares_lists_def fx)
  have put: "spares_lists t (snd (on_sys g t))" and ev: "spares_lists t (account_events who e u t)" for t g e u
    by (simp_all add: spares_lists_def list_fields account_events_def Let_def split: option.split)
  note ref = update_references_spares [of s1 cfg who]
  have eq: "try_mutate_account cfg who on_drop f s = (case (x, s1) of
      (Inl e, s1) \<Rightarrow> (Inl e, s1)
    | (Inr (result, account'), s1) \<Rightarrow>
        (case update_references cfg who (does_provide cfg (data_or_default m)) (m \<noteq> None \<and> does_consume (data_or_default m)) account' s1 of
           (Inl e, s2) \<Rightarrow> (Inl e, on_drop result s2)
         | (Inr _, s2) \<Rightarrow> (case settle cfg account' of None \<Rightarrow> (Inl Panicked, s2)
            | Some (stored, maybe_dust) \<Rightarrow> (case on_sys (sys_put (sy cfg) who stored) s2 of
                (Inl e, s3) \<Rightarrow> (Inl e, on_drop result s3)
              | (Inr _, s3) \<Rightarrow> (Inr (result, maybe_dust), account_events who (if m = None then Some (free account') else None) maybe_dust s3)))))"
    unfolding try_mutate_account_def Let_def m_def [symmetric] fx by simp
  show ?thesis
  proof (cases x)
    case (Inl e)
    then show ?thesis using s1 eq by simp
  next
    case (Inr y)
    obtain result a where y: "y = (result, a)" by (cases y)
    obtain r2 s2 where u: "update_references cfg who (does_provide cfg (data_or_default m)) (m \<noteq> None \<and> does_consume (data_or_default m)) a s1
        = (r2, s2)" by force
    have s2: "spares_lists s s2"
      using ref [of "does_provide cfg (data_or_default m)" "m \<noteq> None \<and> does_consume (data_or_default m)" a] s1 u
      by (simp add: spares_lists_def)
    obtain stored dust where st: "settle cfg a = Some (stored, dust)" using settle_total [of cfg a] by auto
    obtain r3 s3 where p: "on_sys (sys_put (sy cfg) who stored) s2 = (r3, s3)" by force
    have s3: "spares_lists s s3" using put [of s2 "sys_put (sy cfg) who stored"] s2 p by (simp add: spares_lists_def)
    show ?thesis
      using eq Inr y u s2 st p s3 d [of s2 result] d [of s3 result] ev [of s3 _ dust]
      by (cases r2; cases r3) (simp_all add: spares_lists_def)
  qed
qed

lemma mutate_spares: "spares_lists s (snd (mutate_account cfg who no_drop f s))"
  unfolding mutate_account_def by (rule try_mutate_spares) (simp_all add: spares_lists_def ret_def no_drop_def)

lemma update_freezes_bounded:
  assumes "lists_bounded cfg s" "length fs \<le> unat (MaxFreezes cfg)"
  shows "lists_bounded cfg (snd (update_freezes cfg who fs s))"
proof -
  obtain r s1 where m: "mutate_account cfg who no_drop (frozen_closure (Locks s who) fs) s = (r, s1)" by force
  have s1: "spares_lists s s1" using mutate_spares [of s cfg who "frozen_closure (Locks s who) fs"] m by simp
  show ?thesis
    using assms s1 m
    by (auto simp: update_freezes_def lists_bounded_def spares_lists_def frozen_event_def put_freezes_def split: sum.split prod.split)
qed

lemma thaw_bounded: "lists_bounded cfg s \<Longrightarrow> lists_bounded cfg (snd (thaw cfg ident who s))"
  unfolding thaw_def
  by (rule update_freezes_bounded) (auto simp: lists_bounded_def intro: order_trans [OF length_filter_le])

lemma pushed_freeze_bounded:
  assumes "lists_bounded cfg s"
  shows "lists_bounded cfg (snd (and_then (lift_res (put_or_push (MaxFreezes cfg) err ident f v (Freezes s who))) (update_freezes cfg who) s))"
proof (cases "put_or_push (MaxFreezes cfg) err ident f v (Freezes s who)")
  case (Inr fs)
  then have "length fs \<le> unat (MaxFreezes cfg)" using put_or_push_length assms by (fastforce simp: lists_bounded_def)
  then show ?thesis using update_freezes_bounded [OF assms] Inr by (simp add: and_then_def lift_res_def)
qed (use assms in \<open>simp add: and_then_def lift_res_def\<close>)

lemma set_hold_bounded:
  assumes "lists_bounded cfg s"
  shows "lists_bounded cfg (snd (set_balance_on_hold cfg reason who v s))"
proof -
  obtain r s' where h: "set_balance_on_hold cfg reason who v s = (r, s')" by force
  have "lists_bounded cfg s'"
  proof (cases "change_hold cfg reason v (Holds s who)")
    case (Inl e)
    then show ?thesis using h assms by (simp add: set_balance_on_hold_def Let_def and_then_def lift_res_def)
  next
    case (Inr t)
    obtain holds up delta where t: "t = (holds, up, delta)" by (cases t)
    have l: "length holds \<le> unat (MaxHolds cfg)"
      using change_hold_length [OF Inr [unfolded t]] assms by (simp add: lists_bounded_def)
    have "spares_lists s s' \<or> (\<exists>s1. spares_lists s s1 \<and> s' = put_holds who holds s1)"
    proof -
      have ts: "spares_lists s (snd (try_mutate_account cfg who no_drop (\<lambda>a is_new. ret ((), b)) s))" for b
        by (rule try_mutate_spares) (simp_all add: spares_lists_def ret_def no_drop_def)
      have refl: "spares_lists s s" by (simp add: spares_lists_def)
      show ?thesis
        using h ts refl
        by (auto simp: set_balance_on_hold_def Let_def Inr t and_then_def lift_res_def update_st_def ret_def split: sum.splits prod.splits)
          (metis snd_conv)+
    qed
    then show ?thesis using assms l by (auto simp: lists_bounded_def spares_lists_def put_holds_def)
  qed
  then show ?thesis by (simp add: h)
qed

lemma lists_run_bounded: "lists_run cfg s \<Longrightarrow> lists_bounded cfg s"
proof (induction rule: lists_run.induct)
  case (freeze s ident who v)
  then show ?case by (simp add: set_freeze_def thaw_bounded pushed_freeze_bounded)
next
  case (extend s ident who v)
  then show ?case by (simp add: extend_freeze_def pushed_freeze_bounded)
qed (auto simp: set_hold_bounded thaw_bounded, auto simp: lists_bounded_def spares_lists_def)

text \<open>\<open>try_state\<close> never fails: whatever holds and freezes have been set, extended or thawed, with success or
  not, and whatever else has happened to the accounts, no list is longer than it may be, if the pallet is
  configured with as many holds as there are reasons.\<close>

theorem try_state_holds:
  assumes "lists_run cfg s" and "MaxHolds cfg = hold_reasons"
  shows "try_state cfg hold_reasons hold_keys freeze_keys s = Inr ()"
  using lists_run_bounded [OF assms(1)] assms(2)
  by (auto simp: try_state_def lists_bounded_def list_ex_iff not_less)

theorem try_state_holds_witness:
  "try_state (ref_config 10) (MaxHolds (ref_config 10)) [1, 2] [1, 2]
     (snd (set_freeze (ref_config 10) 3 1 20 (snd (set_balance_on_hold (ref_config 10) 4 1 30 (two_accounts (funded 100 0 0) (funded 50 0 0)))))) = Inr ()"
  by (rule try_state_holds [OF lists_run.freeze [OF lists_run.hold [OF lists_run.none]] refl]) (simp_all add: two_accounts_def)

end
