(* ===== verification/RuntimePallets.thy ===== *)
theory RuntimePallets
  imports Governance MerkleAirdropLaw
begin

text \<open>
  What the runtime tells the framework's own pallets (\<open>runtime/src/configs/mod.rs\<close>): the numbers of the system, timestamp,
  voting, referenda, collective, scheduler, fee and vesting configurations. The pallets themselves are not in
  the repository; the lemmas say what the numbers mean together with the rest of the runtime.
\<close>

section \<open>Configurations\<close>

record system_config =
  BlockHashCount :: block_number
  SS58Prefix :: u8
  MaxConsumers :: u32

definition runtime_system :: system_config where
  "runtime_system = \<lparr> BlockHashCount = 2400, SS58Prefix = 42, MaxConsumers = 16 \<rparr>"

text \<open>\<open>MinimumPeriod\<close> of the timestamp pallet, in milliseconds.\<close>

definition MinimumPeriod :: u64 where "MinimumPeriod = 100"

record voting_config =
  VoteLockingPeriod :: block_number
  MaxVotes :: u32
  MaxTurnout :: balance

definition runtime_voting :: voting_config where
  "runtime_voting = \<lparr> VoteLockingPeriod = 7 * DAYS, MaxVotes = 512, MaxTurnout = 60 * UNIT \<rparr>"

text \<open>The constants of the two referenda pallets. Of those with \<open>Tech\<close> none is used.\<close>

definition ReferendumMaxProposals :: u32 where "ReferendumMaxProposals = 100"
definition ReferendumSubmissionDeposit :: balance where "ReferendumSubmissionDeposit = 100 * UNIT"
definition UndecidingTimeout :: block_number where "UndecidingTimeout = 45 * DAYS"
definition AlarmInterval :: block_number where "AlarmInterval = 1"

record referenda_config =
  SubmissionDeposit :: balance
  MaxQueued :: u32
  ref_undeciding_timeout :: block_number
  ref_alarm_interval :: block_number
  Tracks :: "(u16 \<times> track_info) list"

definition runtime_referenda :: referenda_config where
  "runtime_referenda = \<lparr> SubmissionDeposit = ReferendumSubmissionDeposit, MaxQueued = ReferendumMaxProposals,
     ref_undeciding_timeout = UndecidingTimeout, ref_alarm_interval = AlarmInterval, Tracks = community_tracks \<rparr>"

definition runtime_tech_referenda :: referenda_config where
  "runtime_tech_referenda = \<lparr> SubmissionDeposit = ReferendumSubmissionDeposit, MaxQueued = ReferendumMaxProposals,
     ref_undeciding_timeout = UndecidingTimeout, ref_alarm_interval = AlarmInterval, Tracks = tech_tracks \<rparr>"

text \<open>Members of the collective: added and removed by its origin, with the rank the origin has; nobody can promote,
  demote or exchange them.\<close>

record 'o collective_config =
  AddOrigin :: "'o caller \<Rightarrow> 'o caller + u16"
  RemoveOrigin :: "'o caller \<Rightarrow> 'o caller + u16"
  PromoteOrigin :: "'o caller \<Rightarrow> 'o caller + u16"
  DemoteOrigin :: "'o caller \<Rightarrow> 'o caller + u16"
  ExchangeOrigin :: "'o caller \<Rightarrow> 'o caller + u16"
  MinRankOfClass :: "u16 \<Rightarrow> u16"
  MaxMemberCount :: "u16 \<Rightarrow> u32 option"

definition runtime_collective :: "(account \<Rightarrow> bool) \<Rightarrow> 'o collective_config" where
  "runtime_collective member =
     \<lparr> AddOrigin = collective_try_origin member, RemoveOrigin = collective_try_origin member,
       PromoteOrigin = Inl, DemoteOrigin = Inl, ExchangeOrigin = Inl,
       MinRankOfClass = min_rank_of_class, MaxMemberCount = global_max_members 13 \<rparr>"

definition MaxScheduledPerBlock :: u32 where "MaxScheduledPerBlock = 50"
definition NoPreimagePostponement :: "u32 option" where "NoPreimagePostponement = Some 10"
definition OperationalFeeMultiplier :: u8 where "OperationalFeeMultiplier = 5"
definition MinVestedTransfer :: balance where "MinVestedTransfer = UNIT"
definition MAX_VESTING_SCHEDULES :: u32 where "MAX_VESTING_SCHEDULES = 28"

section \<open>What the numbers mean\<close>

text \<open>The referenda of the collective are configured as those of the community, but for their tracks.\<close>

lemma tech_referenda_as_community: "runtime_tech_referenda = runtime_referenda\<lparr> Tracks := tech_tracks \<rparr>"
  by (simp add: runtime_tech_referenda_def runtime_referenda_def)

text \<open>In blocks of the target time, locked votes stay locked for 70 days, and a referendum that is not decided
  times out after 450.\<close>

lemma voting_periods:
  "unat (VoteLockingPeriod runtime_voting) * unat (TargetBlockTime runtime_qpow) = 70 * (24 * 60 * 60 * 1000)"
  "unat (ref_undeciding_timeout runtime_referenda) * unat (TargetBlockTime runtime_qpow) = 450 * (24 * 60 * 60 * 1000)"
  by (simp_all add: runtime_voting_def runtime_referenda_def UndecidingTimeout_def DAYS_def HOURS_def MINUTES_def runtime_qpow_def)

text \<open>The turnout that counts as everybody is less than what every account of the genesis has alone.\<close>

lemma turnout_below_one_account:
  "(a, v) \<in> set (genesis_balances endowed) \<Longrightarrow> 19000 * unat (MaxTurnout runtime_voting) < unat v"
  by (auto simp: genesis_balances_def runtime_voting_def UNIT_def push_bit_eq_mult)

text \<open>Every deposit of the runtime's own is above the existential deposit.\<close>

lemma deposits_can_exist:
  "EXISTENTIAL_DEPOSIT \<le> SubmissionDeposit runtime_referenda" "EXISTENTIAL_DEPOSIT \<le> MinVestedTransfer"
  "EXISTENTIAL_DEPOSIT \<le> deposit_for fp" "\<forall>(i, t)\<in>set (community_tracks @ tech_tracks). EXISTENTIAL_DEPOSIT \<le> decision_deposit t"
proof -
  show "EXISTENTIAL_DEPOSIT \<le> deposit_for fp"
    unfolding word_le_nat_alt deposit_for_value by (simp add: EXISTENTIAL_DEPOSIT_def MILLI_UNIT_def)
qed (simp_all add: runtime_referenda_def ReferendumSubmissionDeposit_def MinVestedTransfer_def UNIT_def EXISTENTIAL_DEPOSIT_def
    MILLI_UNIT_def community_tracks_def tech_tracks_def)

text \<open>Both lists of tracks pass the check of their identifiers.\<close>

lemma tracks_checked: "check_integrity (Tracks runtime_referenda) = Inr ()" "check_integrity (Tracks runtime_tech_referenda) = Inr ()"
  by (simp_all add: check_integrity_def runtime_referenda_def runtime_tech_referenda_def community_tracks_def tech_tracks_def Let_def)

text \<open>Members keep the rank zero they are added with, which is the rank every class asks for.\<close>

lemma members_of_one_rank:
  "AddOrigin (runtime_collective member) o' = Inr rank \<Longrightarrow> rank = MinRankOfClass (runtime_collective member) class"
  "PromoteOrigin (runtime_collective member) o' = Inl o'"
  by (auto simp: runtime_collective_def collective_try_origin_def min_rank_of_class_def split: if_splits caller.splits origin.splits)

section \<open>Claims of airdrops and the vesting pallet\<close>

text \<open>\<open>ConvertInto\<close> turns block numbers into balances of the same value.\<close>

definition with_runtime_airdrop :: "'x airdrop_ops \<Rightarrow> 'x airdrop_ops" where
  "with_runtime_airdrop ops = ops\<lparr> MaxProofs := 100, UnsignedClaimPriority := 100, block_number_to_balance := ucast \<rparr>"

text \<open>What is documented of the vesting pallet: it refuses schedules below its minimum and schedules that release nothing
  per block.\<close>

definition vesting_minimum :: "'x airdrop_ops \<Rightarrow> balance \<Rightarrow> bool" where
  "vesting_minimum ops least \<longleftrightarrow>
     (\<forall>a b v per_block start x u x'. vested_transfer ops a b v per_block start x = (Inr u, x') \<longrightarrow> least \<le> v \<and> per_block \<noteq> 0)"

text \<open>C31: Every claim is a vested transfer, also of an airdrop without a vesting period. So with the configuration of the
  runtime a share of less than one unit can never be claimed, however it is proved and whatever the airdrop has,
  and neither can a share that is smaller than the number of blocks it vests over.\<close>

theorem small_claims_fail:
  assumes "ops = with_runtime_airdrop base" and "vesting_minimum base MinVestedTransfer"
    and "amount < UNIT \<or> (\<exists>m period. AirdropInfo s i = Some m \<and> vesting_period m = Some period \<and> unat amount < unat period)"
  shows "\<exists>e. claim ops origin i recipient amount pr s = (Inl e, s)"
proof (cases "claim ops origin i recipient amount pr s")
  case (Pair r s')
  show ?thesis
  proof (cases r)
    case (Inl e)
    then show ?thesis using Pair run_airdrop_call_error [of ops origin "Claim_Airdrop i recipient amount pr"] by simp
  next
    case (Inr u)
    then have c: "claim ops origin i recipient amount pr s = (Inr u, s')" using Pair by simp
    obtain m pb x where m: "AirdropInfo s i = Some m" "per_block_of ops m amount = Inr pb"
      and v: "vested_transfer base (airdrop_account ops) recipient amount pb (vesting_start_of ops m s) (airdrop_env s) = (Inr (), x)"
      by (rule claim_effect [OF c]) (simp add: assms(1) with_runtime_airdrop_def)
    have least: "UNIT \<le> amount" "pb \<noteq> 0"
      using assms(2) v unfolding vesting_minimum_def MinVestedTransfer_def by blast+
    have "\<not> unat amount < unat period" if "vesting_period m = Some period" for period
    proof -
      have w: "unat (ucast period :: balance) = unat period"
        using unat_lt_max [of period] by (simp add: unsigned_ucast_eq take_bit_nat_eq_self_iff)
      have "pb = amount div ucast period"
        using m(2) that by (auto simp: per_block_of_def assms(1) with_runtime_airdrop_def split: if_splits)
      then have "unat amount div unat period \<noteq> 0" using least(2) w by (metis unat_div unat_eq_zero)
      then show ?thesis by (metis div_less)
    qed
    then show ?thesis using assms(3) m(1) least(1) by auto
  qed
qed

text \<open>A vesting pallet over a pot, with the minimum of the runtime: a proved claim of ten is refused.\<close>

definition strict_vesting :: "nat airdrop_ops" where
  "strict_vesting = pot_ops\<lparr> vested_transfer :=
     (\<lambda>_ _ v per_block _ x. if v < MinVestedTransfer \<or> per_block = 0 then (Inl (External 0), x) else pot_out v x) \<rparr>"

theorem small_claims_fail_witness:
  "\<exists>e. claim (with_runtime_airdrop strict_vesting) Unsigned 0 1 10 [200] sample_airdrop = (Inl e, sample_airdrop)"
  by (rule small_claims_fail [OF refl])
    (auto simp: vesting_minimum_def strict_vesting_def UNIT_def split: if_splits)

end
