(* ===== verification/AirdropFunds.thy ===== *)
theory AirdropFunds
  imports Escrow MerkleAirdropLaw
begin

text \<open>
  The airdrops over the balances pallet: with the pallet's currency being the balances pallet, what leaves the account
  of the airdrops must leave an existential deposit behind. So the airdrop whose funds are all the account has cannot be
  deleted, and its funds cannot be reclaimed until the account is given a further existential deposit.
\<close>

section \<open>What leaves the account of the airdrops\<close>

definition over_balances :: "'e bal_config \<Rightarrow> ('e bal_state \<times> 'y) airdrop_ops \<Rightarrow> bool" where
  "over_balances cfg ops \<longleftrightarrow> (\<forall>a b v r. airdrop_transfer ops a b v r = on_balances (currency_transfer (transfer_funds cfg) a b v r))"

lemma preserved_withdrawal:
  assumes "decrease_balance cfg a v Preserve f s = (Inr n, s')"
  shows "unat v \<le> unat (free_balance cfg s a) - unat (ExistentialDeposit cfg)"
proof -
  have "unat v \<le> unat (reducible_balance cfg s a Preserve f)"
    using assms by (simp add: decrease_balance_def word_le_nat_alt [symmetric] split: if_splits)
  also have "\<dots> \<le> unat (free_balance cfg s a) - unat (ExistentialDeposit cfg)"
    by (auto simp: reducible_balance_def free_balance_def mach_nat Let_def max_def word_le_nat_alt)
  finally show ?thesis .
qed

lemma kept_alive_transfer:
  assumes "currency_transfer (transfer_funds cfg) a b v KeepAlive s = (Inr u, s')" "v \<noteq> 0" "a \<noteq> b"
  shows "unat v + unat (ExistentialDeposit cfg) \<le> unat (free_balance cfg s a)"
proof -
  obtain n s1 where "decrease_balance cfg a v Preserve Polite s = (Inr n, s1)"
    using assms by (auto simp: currency_transfer_def transfer_funds_def and_then_Inr split: if_splits)
  from preserved_withdrawal [OF this] assms(2) show ?thesis by (auto simp: unat_eq_0 [symmetric] simp del: unat_eq_0)
qed

text \<open>C32: whoever asks, an airdrop of somebody else than the pallet that still owes something cannot be deleted while the account of the airdrops has not an
  existential deposit more than the airdrop owes: the call fails and changes nothing. So the last airdrop, when the account
  has received nothing but what funded the airdrops, keeps its funds.\<close>

theorem last_airdrop_stays:
  assumes "over_balances cfg ops" and m: "AirdropInfo s i = Some m" "creator m \<noteq> airdrop_account ops" "airdrop_balance m \<noteq> 0"
    and low: "unat (free_balance cfg (fst (airdrop_env s)) (airdrop_account ops))
      < unat (airdrop_balance m) + unat (ExistentialDeposit cfg)"
  shows "\<exists>e. run_airdrop_call ops origin (Delete_Airdrop i) s = (Inl e, s)"
proof (cases "delete_airdrop ops origin i s")
  case (Pair r s')
  show ?thesis
  proof (cases r)
    case (Inl e)
    then show ?thesis using Pair run_airdrop_call_error [of ops origin "Delete_Airdrop i" s e s'] by simp
  next
    case (Inr u)
    then have "delete_airdrop ops origin i s = (Inr u, s')" using Pair by simp
    then show ?thesis
    proof (rule delete_airdrop_effect)
      fix k x
      assume "AirdropInfo s i = Some k"
        and "airdrop_transfer ops (airdrop_account ops) (creator k) (airdrop_balance k) KeepAlive (airdrop_env s) = (Inr (), x)"
      then show ?thesis
        using assms kept_alive_transfer [of cfg "airdrop_account ops" "creator m" "airdrop_balance m" "fst (airdrop_env s)" "()" "fst x"]
        by (auto simp: over_balances_def on_balances_result)
    qed
  qed
qed

text \<open>The first airdrop of a chain, created and funded with 20 by account 1, with a deposit of 10 and an account of the
  airdrops (2) that has received nothing else.\<close>

definition balance_airdrops :: "(ref_store bal_state \<times> unit) airdrop_ops" where
  "balance_airdrops = \<lparr> MaxProofs = 100, airdrop_account = 2, UnsignedClaimPriority = 100,
     airdrop_transfer = (\<lambda>a b v r. on_balances (currency_transfer (transfer_funds (ref_config 10)) a b v r)),
     vested_transfer = (\<lambda>a b v pb t. on_balances (currency_transfer (transfer_funds (ref_config 10)) a b v AllowDeath)),
     airdrop_block = (\<lambda>_. 5), block_number_to_balance = ucast, blake_hash = (\<lambda>_. 0), encode_claim = scale_claim \<rparr>"

definition first_airdrop :: "(ref_store bal_state \<times> unit) airdrop_state" where
  "first_airdrop = snd (run_airdrop_call balance_airdrops (Signed 1) (Fund_Airdrop 0 20)
     (snd (run_airdrop_call balance_airdrops (Signed 1) (Create_Airdrop 300 None None)
       (no_airdrops (two_accounts (funded 100 0 0) no_account, ())))))"

lemma first_withdrawal:
  "decrease_balance (ref_config 10) 1 20 Preserve Polite (two_accounts (funded 100 0 0) no_account) =
    (Inr 20, (two_accounts (funded 80 0 0) no_account)\<lparr> TotalIssuance := 100 \<rparr>)"
  by (simp add: decrease_balance_def reducible_balance_def write_balance_def mutate_account_def free_balance_def
      checked_sub_def sat_sub_def no_account_def ref_eval fun_upd_twist)

lemma first_deposit:
  "increase_balance (ref_config 10) 2 20 BestEffort ((two_accounts (funded 80 0 0) no_account)\<lparr> TotalIssuance := 100 \<rparr>) =
    (Inr 20, (two_accounts (funded 80 0 0) (funded 20 0 0))\<lparr> TotalIssuance := 100, bal_events := [B_Endowed 2 20] \<rparr>)"
  by (simp add: increase_balance_def reducible_balance_def write_balance_def mutate_account_def free_balance_def
      checked_sub_def sat_sub_def sat_add_def no_account_def ref_eval fun_upd_twist)

lemma first_transfer:
  obtains b where "currency_transfer (transfer_funds (ref_config 10)) 1 2 20 KeepAlive
      (two_accounts (funded 100 0 0) no_account) = (Inr (), b)"
    "free_balance (ref_config 10) b 2 = 20"
proof -
  have "can_deposit (ref_config 10) (two_accounts (funded 100 0 0) no_account) 2 20 Extant = Deposit_Success"
    by (simp add: can_deposit_def checked_add_def no_account_def ref_eval)
  then have t: "currency_transfer (transfer_funds (ref_config 10)) 1 2 20 KeepAlive (two_accounts (funded 100 0 0) no_account) =
      (Inr (), (two_accounts (funded 80 0 0) (funded 20 0 0))\<lparr> TotalIssuance := 100, bal_events := [B_Endowed 2 20] \<rparr>)"
    by (simp add: currency_transfer_def transfer_funds_def and_then_def first_withdrawal first_deposit)
  show ?thesis by (rule that [OF t]) (simp add: free_balance_def two_accounts_def funded_def)
qed

theorem last_airdrop_stays_witness:
  "airdrop_env first_airdrop \<noteq> airdrop_env (no_airdrops (two_accounts (funded 100 0 0) no_account, ())) \<and>
   (\<exists>e. run_airdrop_call balance_airdrops (Signed 1) (Delete_Airdrop 0) first_airdrop = (Inl e, first_airdrop))"
proof -
  obtain b where b: "currency_transfer (transfer_funds (ref_config 10)) 1 2 20 KeepAlive
      (two_accounts (funded 100 0 0) no_account) = (Inr (), b)" "free_balance (ref_config 10) b 2 = 20"
    by (rule first_transfer)
  have s: "AirdropInfo first_airdrop 0 = Some \<lparr> merkle_root = 300, creator = 1, airdrop_balance = 20, vesting_period = None,
       vesting_delay = None \<rparr>" "airdrop_env first_airdrop = (b, ())"
    by (simp_all add: first_airdrop_def fund_airdrop_def create_airdrop_def no_airdrops_def transactional_def and_then_def
      ensure_signed_def Let_def airdrop_event_def ensure_def in_env_def mutate_balance_def balance_airdrops_def sat_add_def
      on_balances_def b)
  have ed: "ExistentialDeposit (ref_config 10) = 10" by (simp add: ref_config_def)
  have "\<exists>e. run_airdrop_call balance_airdrops (Signed 1) (Delete_Airdrop 0) first_airdrop = (Inl e, first_airdrop)"
    by (rule last_airdrop_stays [of "ref_config 10" balance_airdrops first_airdrop 0, OF _ s(1)])
      (simp_all add: over_balances_def balance_airdrops_def s(2) b(2) ed)
  moreover have "free_balance (ref_config 10) (two_accounts (funded 100 0 0) no_account) 2 = 0"
    by (simp add: free_balance_def no_account_def ref_eval)
  ultimately show ?thesis using b(2) s(2) by (auto simp: no_airdrops_def)
qed

end
